(* ===== verification/Kernel_Prelude.thy ===== *)
theory Kernel_Prelude
  imports Main "HOL-Library.Word" "HOL-Library.Signed_Division"
begin

text \<open>
  The prelude of the development: the widths of the kernel's C integers, the ways a kernel
  routine can fail to return (a call of \<open>panic\<close>, a loop that never ends, an access outside
  the object the code means), the sequencing of routines that can fail, the error numbers of
  \<open>include/errno.h\<close>, and the lemmas on words and lists that several components share.
\<close>

unbundle bit_operations_syntax

named_theorems kernel_defs \<open>definitions a component's proofs unfold\<close>
named_theorems kernel_word \<open>facts that move 32-bit words to natural numbers\<close>

section \<open>Types\<close>

type_synonym u8 = "8 word"
type_synonym u16 = "16 word"
type_synonym u32 = "32 word"

text \<open>
  \<open>Panic s\<close>: the routine called \<open>panic (s)\<close>, which never returns.  \<open>Hang\<close>: a loop of the
  routine does not end.  \<open>Fault\<close>: the routine reads or writes outside the object it indexes
  (an array element out of range, a field of a null pointer).  \<open>Exit c\<close>: the routine called
  \<open>do_exit (c)\<close>, which ends the task and never returns.
\<close>

datatype kerr = Panic string | Hang | Fault | Exit nat

type_synonym 'a kres = "kerr + 'a"

text \<open>Sequencing: what follows runs only when the first routine returned.\<close>

definition bindE :: "'a kres \<Rightarrow> ('a \<Rightarrow> 'b kres) \<Rightarrow> 'b kres" where
  "bindE m f = (case m of Inl e \<Rightarrow> Inl e | Inr a \<Rightarrow> f a)"

lemma bindE_simps [simp]:
  "bindE (Inl e) f = Inl e"
  "bindE (Inr a) f = f a"
  by (simp_all add: bindE_def)

lemma bindE_eq_Inr [simp]:
  "(bindE m f = Inr b) = (\<exists>a. m = Inr a \<and> f a = Inr b)"
  by (cases m) (simp_all add: bindE_def)

lemma bindE_cong [fundef_cong]:
  "m = m' \<Longrightarrow> (\<And>a. m' = Inr a \<Longrightarrow> f a = g a) \<Longrightarrow> bindE m f = bindE m' g"
  by (cases m) auto

text \<open>A \<open>for\<close> loop over the elements of a list whose body can fail.\<close>

primrec foldE :: "('a \<Rightarrow> 's \<Rightarrow> 's kres) \<Rightarrow> 'a list \<Rightarrow> 's \<Rightarrow> 's kres" where
  "foldE f [] s = Inr s"
| "foldE f (x # xs) s = bindE (f x s) (foldE f xs)"

lemma foldE_append: "foldE f (xs @ ys) s = bindE (foldE f xs s) (foldE f ys)"
  by (induction xs arbitrary: s) (auto simp: bindE_def split: sum.split)

text \<open>An invariant that every iteration keeps.\<close>

lemma foldE_inv:
  assumes "foldE f xs s = Inr s'" and "I s"
    and "\<And>x s s'. x \<in> set xs \<Longrightarrow> I s \<Longrightarrow> f x s = Inr s' \<Longrightarrow> I s'"
  shows "I s'"
  using assms by (induction xs arbitrary: s) auto

lemma foldE_pure: "foldE (\<lambda>x s. Inr (g x s)) xs s = Inr (fold g xs s)"
  by (induction xs arbitrary: s) simp_all

section \<open>Error numbers (include/errno.h)\<close>

abbreviation (input) ERROR :: int where "ERROR \<equiv> 99"
abbreviation (input) EPERM :: int where "EPERM \<equiv> 1"
abbreviation (input) ENOENT :: int where "ENOENT \<equiv> 2"
abbreviation (input) ESRCH :: int where "ESRCH \<equiv> 3"
abbreviation (input) EINTR :: int where "EINTR \<equiv> 4"
abbreviation (input) EIO :: int where "EIO \<equiv> 5"
abbreviation (input) EBADF :: int where "EBADF \<equiv> 9"
abbreviation (input) ECHILD :: int where "ECHILD \<equiv> 10"
abbreviation (input) EAGAIN :: int where "EAGAIN \<equiv> 11"
abbreviation (input) ENOMEM :: int where "ENOMEM \<equiv> 12"
abbreviation (input) EACCES :: int where "EACCES \<equiv> 13"
abbreviation (input) ENOTBLK :: int where "ENOTBLK \<equiv> 15"
abbreviation (input) EBUSY :: int where "EBUSY \<equiv> 16"
abbreviation (input) EEXIST :: int where "EEXIST \<equiv> 17"
abbreviation (input) EXDEV :: int where "EXDEV \<equiv> 18"
abbreviation (input) ENODEV :: int where "ENODEV \<equiv> 19"
abbreviation (input) ENOTDIR :: int where "ENOTDIR \<equiv> 20"
abbreviation (input) EISDIR :: int where "EISDIR \<equiv> 21"
abbreviation (input) EINVAL :: int where "EINVAL \<equiv> 22"
abbreviation (input) EMFILE :: int where "EMFILE \<equiv> 24"
abbreviation (input) ENOTTY :: int where "ENOTTY \<equiv> 25"
abbreviation (input) ENOSPC :: int where "ENOSPC \<equiv> 28"
abbreviation (input) ESPIPE :: int where "ESPIPE \<equiv> 29"
abbreviation (input) ENOTEMPTY :: int where "ENOTEMPTY \<equiv> 39"
abbreviation (input) ENOSYS :: int where "ENOSYS \<equiv> 38"

section \<open>Words\<close>

lemma unat_add_no_wrap [kernel_word]:
  fixes a b :: u32
  assumes "unat a + unat b < 4294967296"
  shows "unat (a + b) = unat a + unat b"
  using assms by (simp add: unat_word_ariths)

lemma unat_mult_no_wrap [kernel_word]:
  fixes a b :: u32
  assumes "unat a * unat b < 4294967296"
  shows "unat (a * b) = unat a * unat b"
  using assms by (simp add: unat_word_ariths)

lemma unat_sub_no_wrap [kernel_word]:
  fixes a b :: u32
  assumes "b \<le> a"
  shows "unat (a - b) = unat a - unat b"
  using assms by (rule unat_sub)

text \<open>A 32-bit \<open>int\<close> or \<open>long\<close> that is kept as an integer: the value its arithmetic leaves.\<close>

definition wrap32 :: "int \<Rightarrow> int" where
  "wrap32 x = sint (word_of_int x :: u32)"

lemma wrap32_id [simp]: "- 2147483648 \<le> x \<Longrightarrow> x < 2147483648 \<Longrightarrow> wrap32 x = x"
  by (simp add: wrap32_def signed_of_int signed_take_bit_int_eq_self)

lemma wrap32_range: "- 2147483648 \<le> wrap32 x" "wrap32 x < 2147483648"
  using sint_ge [of "word_of_int x :: u32"] sint_lt [of "word_of_int x :: u32"] by (simp_all add: wrap32_def)

lemma unat_u32_less [simp]: "unat (w :: u32) < 4294967296"
  using unsigned_less [of w] by simp

lemma unat_u32_minus_1: "unat (- 1 :: u32) = 4294967295"
  by (simp add: unsigned_minus_1_eq_mask mask_eq_exp_minus_1)

lemma unat_ucast_u32:
  "unat (ucast a :: u32) = unat (a :: u8)" "unat (ucast b :: u32) = unat (b :: u16)"
proof -
  have "unat a < 4294967296" using unsigned_less [where 'a = nat, of a] by simp
  then show "unat (ucast a :: u32) = unat a" by (simp add: unsigned_ucast_eq take_bit_nat_eq_self_iff)
  have "unat b < 4294967296" using unsigned_less [where 'a = nat, of b] by simp
  then show "unat (ucast b :: u32) = unat b" by (simp add: unsigned_ucast_eq take_bit_nat_eq_self_iff)
qed

lemma unat_Suc_less:
  fixes a b :: u32
  assumes "unat a < unat b"
  shows "unat (a + 1) = unat a + 1"
proof -
  have "unat a + unat (1 :: u32) < 4294967296"
    using assms unat_u32_less [of b] unfolding unat_1 by linarith
  then show ?thesis by (simp add: unat_add_no_wrap)
qed

lemma unat_and_mask [kernel_word]:
  fixes w :: u32
  shows "unat (w AND mask n) = unat w mod 2 ^ n"
  by (simp only: take_bit_eq_mask [symmetric] unsigned_take_bit_eq take_bit_nat_def)

lemma not_mask_and: "NOT (mask n) AND w = push_bit n (drop_bit n (w :: u32))"
  by (rule bit_word_eqI) (auto simp: bit_simps)

lemma drop_bit_and_not:
  "(\<And>k. n \<le> k \<Longrightarrow> \<not> bit m k) \<Longrightarrow> drop_bit n (w AND NOT m) = drop_bit n (w :: u32)"
  by (rule bit_word_eqI) (auto simp: bit_simps dest: bit_imp_le_length)

lemma bit_and_not: "\<not> bit m k \<Longrightarrow> bit (w AND NOT m) k = bit (w :: u32) k"
  by (auto simp: bit_simps dest: bit_imp_le_length)

lemma bit_0_odd: "bit w 0 \<Longrightarrow> odd (unat (w :: u32))"
proof -
  assume "bit w 0"
  then have "bit (unat w) 0" by (simp add: bit_unsigned_iff)
  then show ?thesis by (rule iffD1 [OF bit_0])
qed

lemma one_and_bit: "1 AND w \<noteq> (0 :: u32) \<longleftrightarrow> bit w 0"
  by (simp add: one_and_eq bit_0 odd_iff_mod_2_eq_one)

lemma unat_drop_bit_12: "unat (drop_bit 12 (w :: u32)) = unat w div 4096"
  by (simp add: drop_bit_eq_div unat_div)

lemma int_and_15: "(x::int) AND 15 = x mod 16"
proof -
  have "(15::int) = mask 4" by (simp add: mask_eq_exp_minus_1)
  then show ?thesis by (simp only: take_bit_eq_mask [symmetric] take_bit_eq_mod) simp
qed

section \<open>Searching an array\<close>

text \<open>The loops that look for the first element of an array with some property.\<close>

lemma find_upt_None: "find P [0..<n] = None \<longleftrightarrow> (\<forall>i < n. \<not> P i)"
  by (simp add: find_None_iff)

lemma find_upt_Some: "find P [0..<n] = Some i \<longleftrightarrow> i < n \<and> P i \<and> (\<forall>j < i. \<not> P j)"
  by (fastforce simp: find_Some_iff)

lemma find_upt_ex: "find P [0..<n] \<noteq> None \<longleftrightarrow> (\<exists>i < n. P i)"
  by (simp add: find_None_iff del: not_None_eq)

end
