(* ===== verification/Mktime.thy ===== *)
theory Mktime
  imports Kernel_Prelude
begin

text \<open>
  The calendar of the kernel: \<open>kernel_mktime\<close> of \<open>kernel/mktime.c\<close>, which turns a broken-down
  date into seconds since 1970, and \<open>time_init\<close> of \<open>init/main.c\<close>, which reads the real-time
  clock in BCD and sets \<open>startup_time\<close> from it.
\<close>

section \<open>kernel/mktime.c\<close>

record tm =
  tm_sec :: int
  tm_min :: int
  tm_hour :: int
  tm_mday :: int
  tm_mon :: int
  tm_year :: int
  tm_wday :: int
  tm_yday :: int
  tm_isdst :: int

abbreviation (input) MINUTE :: int where "MINUTE \<equiv> 60"
abbreviation (input) HOUR :: int where "HOUR \<equiv> 60 * MINUTE"
abbreviation (input) DAY :: int where "DAY \<equiv> 24 * HOUR"
abbreviation (input) YEAR :: int where "YEAR \<equiv> 365 * DAY"

definition month :: "int list" where
  "month = [0,
     DAY * 31,
     DAY * (31 + 29),
     DAY * (31 + 29 + 31),
     DAY * (31 + 29 + 31 + 30),
     DAY * (31 + 29 + 31 + 30 + 31),
     DAY * (31 + 29 + 31 + 30 + 31 + 30),
     DAY * (31 + 29 + 31 + 30 + 31 + 30 + 31),
     DAY * (31 + 29 + 31 + 30 + 31 + 30 + 31 + 31),
     DAY * (31 + 29 + 31 + 30 + 31 + 30 + 31 + 31 + 30),
     DAY * (31 + 29 + 31 + 30 + 31 + 30 + 31 + 31 + 30 + 31),
     DAY * (31 + 29 + 31 + 30 + 31 + 30 + 31 + 31 + 30 + 31 + 30)]"

text \<open>
  The result is a C \<open>long\<close>, a 32-bit word whose sums wrap; the divisions truncate towards zero.
  The index into \<open>month\<close> is not checked by the code.
\<close>

definition kernel_mktime :: "tm \<Rightarrow> u32 kres" where
  "kernel_mktime t =
    (let year = tm_year t - 70;
         res = word_of_int (YEAR * year) + word_of_int (DAY * ((year + 1) sdiv 4))
     in if tm_mon t < 0 \<or> 12 \<le> tm_mon t then Inl Fault
        else
          let res = res + word_of_int (month ! nat (tm_mon t));
              res = (if tm_mon t > 1 \<and> (year + 2) smod 4 \<noteq> 0
                     then res - word_of_int DAY else res);
              res = res + word_of_int (DAY * (tm_mday t - 1));
              res = res + word_of_int (HOUR * tm_hour t);
              res = res + word_of_int (MINUTE * tm_min t);
              res = res + word_of_int (tm_sec t)
          in Inr res)"

section \<open>init/main.c: time_init\<close>

text \<open>
  \<open>cmos n a\<close> is the byte that the \<open>n\<close>-th read of the real-time clock returns for register
  \<open>a\<close>: the clock runs while it is read.  One pass of the loop makes seven reads, and the loop
  repeats while the seconds changed during the pass.
\<close>

definition BCD_TO_BIN :: "int \<Rightarrow> int" where
  "BCD_TO_BIN val = (val AND 15) + (drop_bit 4 val) * 10"

definition cmos_pass :: "(nat \<Rightarrow> nat \<Rightarrow> u8) \<Rightarrow> nat \<Rightarrow> tm" where
  "cmos_pass cmos n =
     \<lparr>tm_sec = uint (cmos n 0), tm_min = uint (cmos (n + 1) 2),
      tm_hour = uint (cmos (n + 2) 4), tm_mday = uint (cmos (n + 3) 7),
      tm_mon = uint (cmos (n + 4) 8), tm_year = uint (cmos (n + 5) 9),
      tm_wday = 0, tm_yday = 0, tm_isdst = 0\<rparr>"

partial_function (option) time_read :: "(nat \<Rightarrow> nat \<Rightarrow> u8) \<Rightarrow> nat \<Rightarrow> tm option" where
  "time_read cmos n =
     (let t = cmos_pass cmos n
      in if tm_sec t \<noteq> uint (cmos (n + 6) 0) then time_read cmos (n + 7) else Some t)"

definition time_init :: "(nat \<Rightarrow> nat \<Rightarrow> u8) \<Rightarrow> u32 kres" where
  "time_init cmos =
     (case time_read cmos 0 of
        None \<Rightarrow> Inl Hang
      | Some t \<Rightarrow>
          kernel_mktime
            (t\<lparr>tm_sec := BCD_TO_BIN (tm_sec t), tm_min := BCD_TO_BIN (tm_min t),
               tm_hour := BCD_TO_BIN (tm_hour t), tm_mday := BCD_TO_BIN (tm_mday t),
               tm_mon := BCD_TO_BIN (tm_mon t) - 1, tm_year := BCD_TO_BIN (tm_year t)\<rparr>))"

section \<open>The reference calendar\<close>

text \<open>The Gregorian calendar, counted day by day from 1 January 1970.\<close>

definition leap :: "int \<Rightarrow> bool" where
  "leap y \<longleftrightarrow> (4 dvd y \<and> \<not> 100 dvd y) \<or> 400 dvd y"

definition days_in_month :: "int \<Rightarrow> nat \<Rightarrow> int" where
  "days_in_month y m =
     [31, if leap y then 29 else 28, 31, 30, 31, 30, 31, 31, 30, 31, 30, 31] ! m"

definition days_before_month :: "int \<Rightarrow> nat \<Rightarrow> int" where
  "days_before_month y m = sum_list (map (days_in_month y) [0..<m])"

definition days_before_year :: "int \<Rightarrow> int" where
  "days_before_year y = (\<Sum>k \<in> {1970..<y}. if leap k then 366 else 365)"

definition civil_seconds :: "tm \<Rightarrow> int" where
  "civil_seconds t =
     86400 * (days_before_year (tm_year t + 1900)
              + days_before_month (tm_year t + 1900) (nat (tm_mon t)) + (tm_mday t - 1))
     + 3600 * tm_hour t + 60 * tm_min t + tm_sec t"

definition valid_tm :: "tm \<Rightarrow> bool" where
  "valid_tm t \<longleftrightarrow>
     0 \<le> tm_mon t \<and> tm_mon t < 12 \<and>
     1 \<le> tm_mday t \<and> tm_mday t \<le> days_in_month (tm_year t + 1900) (nat (tm_mon t)) \<and>
     0 \<le> tm_hour t \<and> tm_hour t < 24 \<and> 0 \<le> tm_min t \<and> tm_min t < 60 \<and>
     0 \<le> tm_sec t \<and> tm_sec t < 60"

section \<open>Properties\<close>

lemma leap_1970: "0 \<le> n \<Longrightarrow> n < 130 \<Longrightarrow> leap (1970 + n) = ((n + 2) mod 4 = 0)"
proof -
  assume n: "0 \<le> n" "n < 130"
  have "n = 30" if "100 dvd 1970 + n"
  proof -
    from that obtain k where "1970 + n = 100 * k" by (elim dvdE)
    with n show ?thesis by arith
  qed
  moreover have "100 dvd 1970 + n" if "400 dvd 1970 + n"
    by (rule dvd_trans [OF _ that]) simp
  moreover have "4 dvd 1970 + n \<longleftrightarrow> (n + 2) mod 4 = 0"
    by presburger
  ultimately show ?thesis
    by (cases "n = 30") (auto simp: leap_def)
qed

lemma days_before_year_eq:
  "n \<le> 130 \<Longrightarrow> days_before_year (1970 + int n) = 365 * int n + (int n + 1) div 4"
proof (induction n)
  case 0
  show ?case by (simp add: days_before_year_def)
next
  case (Suc n)
  have split: "{1970..<1970 + int (Suc n)} = insert (1970 + int n) {1970..<1970 + int n}"
    by auto
  have "days_before_year (1970 + int (Suc n))
        = (if leap (1970 + int n) then 366 else 365) + days_before_year (1970 + int n)"
    unfolding days_before_year_def split by (subst sum.insert) auto
  with Suc leap_1970 [of "int n"] show ?case by (auto; presburger)
qed

lemma less_12_cases:
  "(m::nat) < 12 \<Longrightarrow> m = 0 \<or> m = 1 \<or> m = 2 \<or> m = 3 \<or> m = 4 \<or> m = 5 \<or> m = 6 \<or> m = 7
     \<or> m = 8 \<or> m = 9 \<or> m = 10 \<or> m = 11"
  by arith

lemma month_days_before_month:
  "m < 12 \<Longrightarrow>
   month ! m = 86400 * days_before_month y m + (if m > 1 \<and> \<not> leap y then 86400 else 0)"
  by (drule less_12_cases)
    (auto simp: month_def days_before_month_def days_in_month_def numeral_nat)

lemma sdiv_pos: "0 \<le> a \<Longrightarrow> 0 < b \<Longrightarrow> a sdiv b = a div (b::int)"
  by (cases "0 < a") (auto simp: signed_divide_int_def)

lemma smod_pos: "0 \<le> a \<Longrightarrow> 0 < b \<Longrightarrow> a smod b = a mod (b::int)"
  by (cases "0 < a") (auto simp: signed_modulo_int_def)

text \<open>The wrapping sums are the sum of the integers, wrapped once.\<close>

lemma kernel_mktime_int:
  assumes "0 \<le> tm_mon t" and "tm_mon t < 12"
  shows "kernel_mktime t = Inr (word_of_int
    (YEAR * (tm_year t - 70) + DAY * ((tm_year t - 69) sdiv 4) + month ! nat (tm_mon t)
     - (if 1 < tm_mon t \<and> (tm_year t - 68) smod 4 \<noteq> 0 then DAY else 0)
     + DAY * (tm_mday t - 1) + HOUR * tm_hour t + MINUTE * tm_min t + tm_sec t))"
  using assms
  by (auto simp: kernel_mktime_def Let_def algebra_simps)

lemma kernel_mktime_civil:
  assumes "valid_tm t" and "70 \<le> tm_year t" and "tm_year t < 200"
  shows "kernel_mktime t = Inr (word_of_int (civil_seconds t))"
proof -
  define n where "n = nat (tm_year t - 70)"
  have n: "tm_year t = 70 + int n" "n < 130"
    using assms by (auto simp: n_def)
  have mon: "nat (tm_mon t) < 12" "0 \<le> tm_mon t" "tm_mon t < 12"
    using assms(1) by (auto simp: valid_tm_def)
  have leap: "leap (1970 + int n) = ((int n + 2) mod 4 = 0)"
    using n(2) by (intro leap_1970) auto
  have days: "days_before_year (1970 + int n) = 365 * int n + (int n + 1) div 4"
    using n(2) by (intro days_before_year_eq) auto
  have months: "month ! nat (tm_mon t) =
      86400 * days_before_month (1970 + int n) (nat (tm_mon t))
      + (if 1 < tm_mon t \<and> (int n + 2) mod 4 \<noteq> 0 then 86400 else 0)"
    using month_days_before_month [OF mon(1), of "1970 + int n"] leap by auto
  have shift: "tm_year t - 69 = int n + 1" "tm_year t - 68 = int n + 2"
    "tm_year t - 70 = int n" "tm_year t + 1900 = 1970 + int n"
    using n(1) by auto
  have "YEAR * (tm_year t - 70) + DAY * ((tm_year t - 69) sdiv 4) + month ! nat (tm_mon t)
     - (if 1 < tm_mon t \<and> (tm_year t - 68) smod 4 \<noteq> 0 then DAY else 0)
     + DAY * (tm_mday t - 1) + HOUR * tm_hour t + MINUTE * tm_min t + tm_sec t
     = civil_seconds t"
    by (simp add: civil_seconds_def shift days sdiv_pos smod_pos months)
  then show ?thesis
    by (simp only: kernel_mktime_int [OF mon(2,3)])
qed

text \<open>Within 32 signed bits the word read back is the number of seconds.\<close>

lemma sint_word_of_int_32:
  "- 2147483648 \<le> i \<Longrightarrow> i < 2147483648 \<Longrightarrow> sint (word_of_int i :: u32) = i"
  by (simp add: sint_sbintrunc' signed_take_bit_int_eq_self_iff)

lemma days_in_month_bounds: "m < 12 \<Longrightarrow> 28 \<le> days_in_month y m \<and> days_in_month y m \<le> 31"
  by (drule less_12_cases) (auto simp: days_in_month_def)

lemma days_before_month_bounds:
  "m < 12 \<Longrightarrow> 0 \<le> days_before_month y m \<and> days_before_month y m \<le> 31 * int m"
proof (induction m)
  case 0
  then show ?case by (simp add: days_before_month_def)
next
  case (Suc m)
  then show ?case
    using days_in_month_bounds [of m y] by (auto simp: days_before_month_def)
qed

lemma civil_seconds_bounds:
  assumes "valid_tm t" and "70 \<le> tm_year t" and "tm_year t < 138"
  shows "0 \<le> civil_seconds t \<and> civil_seconds t < 2147483648"
proof -
  define n where "n = nat (tm_year t - 70)"
  have n: "tm_year t + 1900 = 1970 + int n" "n < 68"
    using assms by (auto simp: n_def)
  have days: "days_before_year (1970 + int n) = 365 * int n + (int n + 1) div 4"
    using n(2) by (intro days_before_year_eq) auto
  have mon: "nat (tm_mon t) < 12"
    using assms(1) by (auto simp: valid_tm_def)
  show ?thesis
    using assms(1) n(2) days_before_month_bounds [OF mon, of "1970 + int n"]
      days_in_month_bounds [OF mon, of "1970 + int n"]
    unfolding civil_seconds_def valid_tm_def n(1) days by auto
qed

text \<open>
  C13: for every valid date from 1970 to 2037, \<open>kernel_mktime\<close> returns the number of seconds the
  Gregorian calendar counts from 1 January 1970, with no wrap-around of the 32-bit \<open>long\<close>.
\<close>

theorem kernel_mktime_correct:
  assumes "valid_tm t" and "70 \<le> tm_year t" and "tm_year t < 138"
  shows "\<exists>w. kernel_mktime t = Inr w \<and> sint w = civil_seconds t"
  using assms civil_seconds_bounds [OF assms]
  by (simp add: kernel_mktime_civil sint_word_of_int_32)

definition demo_tm :: tm where
  "demo_tm = \<lparr>tm_sec = 7, tm_min = 14, tm_hour = 3, tm_mday = 29, tm_mon = 1, tm_year = 92,
     tm_wday = 0, tm_yday = 0, tm_isdst = 0\<rparr>"

lemma demo_tm_valid: "valid_tm demo_tm"
  by (simp add: demo_tm_def valid_tm_def days_in_month_def leap_def)

theorem kernel_mktime_correct_witness:
  "valid_tm demo_tm \<and> (\<exists>w. kernel_mktime demo_tm = Inr w \<and> sint w = civil_seconds demo_tm)"
  using demo_tm_valid kernel_mktime_correct [OF demo_tm_valid] by (simp add: demo_tm_def)

subsection \<open>The real-time clock\<close>

definition bcd_of :: "int \<Rightarrow> u8" where
  "bcd_of v = word_of_int (16 * (v div 10) + v mod 10)"

lemma BCD_TO_BIN_bcd_of:
  assumes "0 \<le> v" and "v < 100"
  shows "BCD_TO_BIN (uint (bcd_of v)) = v"
proof -
  have "uint (bcd_of v) = 16 * (v div 10) + v mod 10"
    unfolding bcd_of_def using assms
    by (subst uint_word_of_int_eq, intro take_bit_int_eq_self) auto
  moreover have "(16 * (v div 10) + v mod 10) mod 16 = v mod 10"
    and "(16 * (v div 10) + v mod 10) div 16 = v div 10"
    using assms by auto
  ultimately show ?thesis
    by (simp add: BCD_TO_BIN_def int_and_15 drop_bit_int_def)
qed

text \<open>The seven reads from number \<open>n\<close> on show the date \<open>t\<close>, and the seconds did not change.\<close>

definition cmos_shows :: "(nat \<Rightarrow> nat \<Rightarrow> u8) \<Rightarrow> nat \<Rightarrow> tm \<Rightarrow> bool" where
  "cmos_shows cmos n t \<longleftrightarrow>
     cmos n 0 = bcd_of (tm_sec t) \<and> cmos (n + 1) 2 = bcd_of (tm_min t) \<and>
     cmos (n + 2) 4 = bcd_of (tm_hour t) \<and> cmos (n + 3) 7 = bcd_of (tm_mday t) \<and>
     cmos (n + 4) 8 = bcd_of (tm_mon t + 1) \<and> cmos (n + 5) 9 = bcd_of (tm_year t) \<and>
     cmos (n + 6) 0 = bcd_of (tm_sec t)"

lemma time_read_skip:
  "(\<forall>j < k. cmos (n + 7 * j) 0 \<noteq> cmos (n + 7 * j + 6) 0) \<Longrightarrow>
   time_read cmos n = time_read cmos (n + 7 * k)"
proof (induction k arbitrary: n)
  case 0
  then show ?case by simp
next
  case (Suc k)
  from Suc.prems [rule_format, of 0] have "time_read cmos n = time_read cmos (n + 7)"
    by (subst time_read.simps) (simp add: cmos_pass_def Let_def flip: word_uint_eq_iff)
  moreover have "\<forall>j < k. cmos (n + 7 + 7 * j) 0 \<noteq> cmos (n + 7 + 7 * j + 6) 0"
    using Suc.prems [rule_format, of "Suc j" for j] by (simp add: add.assoc)
  ultimately show ?case
    using Suc.IH [of "n + 7"] by (simp add: add.assoc)
qed

lemma kernel_mktime_cong:
  "tm_sec t = tm_sec t' \<Longrightarrow> tm_min t = tm_min t' \<Longrightarrow> tm_hour t = tm_hour t' \<Longrightarrow>
   tm_mday t = tm_mday t' \<Longrightarrow> tm_mon t = tm_mon t' \<Longrightarrow> tm_year t = tm_year t' \<Longrightarrow>
   kernel_mktime t = kernel_mktime t'"
  by (simp add: kernel_mktime_def Let_def)

lemma valid_tm_bounds:
  "valid_tm t \<Longrightarrow> 0 \<le> tm_mon t \<and> tm_mon t < 12 \<and> 1 \<le> tm_mday t \<and> tm_mday t \<le> 31"
  using days_in_month_bounds [of "nat (tm_mon t)" "tm_year t + 1900"]
  unfolding valid_tm_def by (simp add: nat_less_iff)

lemma time_init_pass:
  assumes "\<forall>j < k. cmos (7 * j) 0 \<noteq> cmos (7 * j + 6) 0"
    and shown: "cmos_shows cmos (7 * k) t"
    and "valid_tm t" and "0 \<le> tm_year t" and "tm_year t < 100"
  shows "time_init cmos = kernel_mktime t"
proof -
  have "time_read cmos 0 = time_read cmos (7 * k)"
    using time_read_skip [of k cmos 0] assms(1) by simp
  also have "\<dots> = Some (cmos_pass cmos (7 * k))"
    using shown by (subst time_read.simps) (simp add: cmos_shows_def cmos_pass_def Let_def)
  finally have "time_init cmos =
      kernel_mktime (let t = cmos_pass cmos (7 * k) in
        t\<lparr>tm_sec := BCD_TO_BIN (tm_sec t), tm_min := BCD_TO_BIN (tm_min t),
          tm_hour := BCD_TO_BIN (tm_hour t), tm_mday := BCD_TO_BIN (tm_mday t),
          tm_mon := BCD_TO_BIN (tm_mon t) - 1, tm_year := BCD_TO_BIN (tm_year t)\<rparr>)"
    by (simp add: time_init_def Let_def)
  also have "\<dots> = kernel_mktime t"
    using shown valid_tm_bounds [OF assms(3)] assms(3-5)
    by (intro kernel_mktime_cong)
      (simp_all add: cmos_shows_def cmos_pass_def valid_tm_def BCD_TO_BIN_bcd_of Let_def)
  finally show ?thesis .
qed

text \<open>
  when some pass over the clock sees the seconds unchanged and every earlier pass saw them
  change, \<open>time_init\<close> ends and sets the start-up time to the date that pass showed (dates of
  the years 70 to 99 of the clock's two digits).
\<close>

theorem time_init_correct:
  assumes "\<forall>j < k. cmos (7 * j) 0 \<noteq> cmos (7 * j + 6) 0"
    and "cmos_shows cmos (7 * k) t"
    and "valid_tm t" and "70 \<le> tm_year t" and "tm_year t < 100"
  shows "\<exists>w. time_init cmos = Inr w \<and> sint w = civil_seconds t"
  using assms time_init_pass [OF assms(1-3)] civil_seconds_bounds [OF assms(3,4)]
  by (simp add: kernel_mktime_civil sint_word_of_int_32)

definition demo_cmos :: "nat \<Rightarrow> nat \<Rightarrow> u8" where
  "demo_cmos n a =
     (if a = 0 then if n < 2 then bcd_of 6 else bcd_of 7
      else if a = 2 then bcd_of 14 else if a = 4 then bcd_of 3 else if a = 7 then bcd_of 29
      else if a = 8 then bcd_of 2 else bcd_of 92)"

theorem time_init_correct_witness:
  "\<exists>w. time_init demo_cmos = Inr w \<and> sint w = civil_seconds demo_tm"
  by (rule time_init_correct [where k = 1])
    (simp_all add: demo_tm_valid, simp_all add: demo_cmos_def cmos_shows_def demo_tm_def bcd_of_def)

text \<open>
  the clock shows two digits of the year and the code takes them as years after 1900, so
  from 2002 to 2069 the start-up time is a date before 1970 (a negative time).
\<close>

theorem time_init_after_2000:
  assumes "\<forall>j < k. cmos (7 * j) 0 \<noteq> cmos (7 * j + 6) 0"
    and "cmos_shows cmos (7 * k) t"
    and "valid_tm t" and "2 \<le> tm_year t" and "tm_year t < 70"
  shows "\<exists>w. time_init cmos = Inr w \<and> sint w < 0"
proof -
  have mon: "0 \<le> tm_mon t" "tm_mon t < 12" "nat (tm_mon t) < 12"
    and day: "1 \<le> tm_mday t" "tm_mday t \<le> 31"
    and time: "0 \<le> tm_hour t" "tm_hour t < 24" "0 \<le> tm_min t" "tm_min t < 60"
      "0 \<le> tm_sec t" "tm_sec t < 60"
    using valid_tm_bounds [OF assms(3)] assms(3) by (auto simp: valid_tm_def)
  define y where "y = tm_year t - 70"
  define c where "c = (if 1 < tm_mon t \<and> (y + 2) smod 4 \<noteq> 0 then DAY else 0)"
  define i where "i = YEAR * y + DAY * ((y + 1) sdiv 4) + month ! nat (tm_mon t) - c
     + DAY * (tm_mday t - 1) + HOUR * tm_hour t + MINUTE * tm_min t + tm_sec t"
  have y: "- 68 \<le> y" "y < 0" "tm_year t - 69 = y + 1" "tm_year t - 68 = y + 2"
    using assms(4,5) by (auto simp: y_def)
  have "time_init cmos = kernel_mktime t"
    using assms by (intro time_init_pass) auto
  also have "\<dots> = Inr (word_of_int i)"
    unfolding kernel_mktime_int [OF mon(1,2)] y(3,4) i_def c_def y_def [symmetric] ..
  finally have eq: "time_init cmos = Inr (word_of_int i)" .
  have d: "(y + 1) sdiv 4 = - ((- y - 1) div 4)"
    using y(2) by (cases "y = - 1") (auto simp: signed_divide_int_def sgn_if algebra_simps)
  have m: "0 \<le> month ! nat (tm_mon t) \<and> month ! nat (tm_mon t) \<le> DAY * 335"
    using less_12_cases [OF mon(3)] by (auto simp: month_def)
  have c: "month ! nat (tm_mon t) - c \<le> DAY * 334" if "y = - 1"
    using that less_12_cases [OF mon(3)]
    by (auto simp: c_def month_def smod_pos)
  have "0 \<le> c" "c \<le> DAY" by (auto simp: c_def)
  then have "- 2147483648 \<le> i" "i < 0"
    using y(1,2) d m c day time unfolding i_def by (cases "y = - 1"; auto; linarith)+
  then show ?thesis
    using eq by (simp add: sint_word_of_int_32)
qed

definition demo_tm_2019 :: tm where
  "demo_tm_2019 = demo_tm\<lparr>tm_mday := 23, tm_mon := 3, tm_year := 19\<rparr>"

definition demo_cmos_2019 :: "nat \<Rightarrow> nat \<Rightarrow> u8" where
  "demo_cmos_2019 n a =
     (if a = 7 then bcd_of 23 else if a = 8 then bcd_of 4 else if a = 9 then bcd_of 19
      else demo_cmos (n + 2) a)"

theorem time_init_after_2000_witness:
  "\<exists>w. time_init demo_cmos_2019 = Inr w \<and> sint w < 0"
  by (rule time_init_after_2000 [where k = 0 and t = demo_tm_2019])
    (simp_all add: demo_cmos_2019_def demo_cmos_def cmos_shows_def demo_tm_2019_def demo_tm_def
      valid_tm_def days_in_month_def)

end
