(* ===== verification/Kstring.thy ===== *)
theory Kstring
  imports Kernel_Prelude
begin

text \<open>
  The string routines of \<open>include/string.h\<close>, which are inline assembly.  Memory is a function
  from 32-bit addresses to bytes; every \<open>lodsb\<close>, \<open>stosb\<close>, \<open>scasb\<close> and \<open>cmpsb\<close> of a routine is a
  step of its loop.  A repeat prefix counts in \<open>ecx\<close> and leaves the flags as they were when
  \<open>ecx\<close> is zero, so the flags a routine relies on are arguments.  A loop with no counter is a
  partial function.
\<close>

type_synonym mem = "u32 \<Rightarrow> u8"

section \<open>The repeated string instructions\<close>

text \<open>\<open>repne scasb\<close>: the new \<open>edi\<close>, \<open>ecx\<close> and zero flag.\<close>

primrec repne_scasb :: "mem \<Rightarrow> u8 \<Rightarrow> nat \<Rightarrow> u32 \<Rightarrow> bool \<Rightarrow> u32 \<times> nat \<times> bool" where
  "repne_scasb m al 0 edi zf = (edi, 0, zf)"
| "repne_scasb m al (Suc ecx) edi zf =
     (if m edi = al then (edi + 1, ecx, True) else repne_scasb m al ecx (edi + 1) False)"

text \<open>
  \<open>repe cmpsb\<close>: compares \<open>[esi]\<close> with \<open>[edi]\<close>; the flags are the zero flag and the signed
  comparison of the last pair.
\<close>

primrec repe_cmpsb ::
  "mem \<Rightarrow> nat \<Rightarrow> u32 \<Rightarrow> u32 \<Rightarrow> bool \<Rightarrow> bool \<Rightarrow> u32 \<times> u32 \<times> bool \<times> bool" where
  "repe_cmpsb m 0 esi edi zf lt = (esi, edi, zf, lt)"
| "repe_cmpsb m (Suc ecx) esi edi zf lt =
     (if m esi = m edi then repe_cmpsb m ecx (esi + 1) (edi + 1) True False
      else (esi + 1, edi + 1, False, m esi <s m edi))"

primrec rep_stosb :: "mem \<Rightarrow> u8 \<Rightarrow> nat \<Rightarrow> u32 \<Rightarrow> mem" where
  "rep_stosb m al 0 edi = m"
| "rep_stosb m al (Suc ecx) edi = rep_stosb (m(edi := al)) al ecx (edi + 1)"

primrec rep_movsb :: "mem \<Rightarrow> nat \<Rightarrow> u32 \<Rightarrow> u32 \<Rightarrow> mem" where
  "rep_movsb m 0 esi edi = m"
| "rep_movsb m (Suc ecx) esi edi = rep_movsb (m(edi := m esi)) ecx (esi + 1) (edi + 1)"

primrec rep_movsb_down :: "mem \<Rightarrow> nat \<Rightarrow> u32 \<Rightarrow> u32 \<Rightarrow> mem" where
  "rep_movsb_down m 0 esi edi = m"
| "rep_movsb_down m (Suc ecx) esi edi =
     rep_movsb_down (m(edi := m esi)) ecx (esi - 1) (edi - 1)"

section \<open>The routines\<close>

definition strlen :: "mem \<Rightarrow> u32 \<Rightarrow> u32" where
  "strlen m s =
     (let (edi, ecx, zf) = repne_scasb m 0 4294967295 s False in NOT (of_nat ecx) - 1)"

partial_function (option) copy_loop :: "mem \<Rightarrow> u32 \<Rightarrow> u32 \<Rightarrow> mem option" where
  "copy_loop m esi edi =
     (let al = m esi; m = m(edi := al)
      in if al \<noteq> 0 then copy_loop m (esi + 1) (edi + 1) else Some m)"

definition strcpy :: "mem \<Rightarrow> u32 \<Rightarrow> u32 \<Rightarrow> (mem \<times> u32) option" where
  "strcpy m dest src = map_option (\<lambda>m. (m, dest)) (copy_loop m src dest)"

text \<open>\<open>decl; js\<close>: the loop runs while the counter, decremented, is not negative.\<close>

function strncpy_loop :: "mem \<Rightarrow> int \<Rightarrow> u32 \<Rightarrow> u32 \<Rightarrow> mem" where
  "strncpy_loop m count esi edi =
     (let count = count - 1
      in if count < 0 then m
         else
           let al = m esi; m = m(edi := al)
           in if al \<noteq> 0 then strncpy_loop m count (esi + 1) (edi + 1)
              else rep_stosb m 0 (nat count) (edi + 1))"
  by auto
termination by (relation "measure (\<lambda>(m, c, a, b). nat c)") auto

declare strncpy_loop.simps [simp del]

definition strncpy :: "mem \<Rightarrow> u32 \<Rightarrow> u32 \<Rightarrow> int \<Rightarrow> mem \<times> u32" where
  "strncpy m dest src count = (strncpy_loop m count src dest, dest)"

definition strcat :: "mem \<Rightarrow> u32 \<Rightarrow> u32 \<Rightarrow> (mem \<times> u32) option" where
  "strcat m dest src =
     (let (edi, ecx, zf) = repne_scasb m 0 4294967295 dest False
      in map_option (\<lambda>m. (m, dest)) (copy_loop m src (edi - 1)))"

function strncat_loop :: "mem \<Rightarrow> int \<Rightarrow> u32 \<Rightarrow> u32 \<Rightarrow> mem" where
  "strncat_loop m count esi edi =
     (let count = count - 1
      in if count < 0 then m(edi := 0)
         else
           let al = m esi; m = m(edi := al)
           in if al \<noteq> 0 then strncat_loop m count (esi + 1) (edi + 1)
              else m(edi + 1 := 0))"
  by auto
termination by (relation "measure (\<lambda>(m, c, a, b). nat c)") auto

declare strncat_loop.simps [simp del]

definition strncat :: "mem \<Rightarrow> u32 \<Rightarrow> u32 \<Rightarrow> int \<Rightarrow> mem \<times> u32" where
  "strncat m dest src count =
     (let (edi, ecx, zf) = repne_scasb m 0 4294967295 dest False
      in (strncat_loop m count src (edi - 1), dest))"

partial_function (option) strcmp_loop :: "mem \<Rightarrow> u32 \<Rightarrow> u32 \<Rightarrow> int option" where
  "strcmp_loop m esi edi =
     (let al = m esi
      in if al \<noteq> m edi then Some (if al <s m edi then 1 else - 1)
         else if al \<noteq> 0 then strcmp_loop m (esi + 1) (edi + 1) else Some 0)"

definition strcmp :: "mem \<Rightarrow> u32 \<Rightarrow> u32 \<Rightarrow> int option" where
  "strcmp m cs ct = strcmp_loop m ct cs"

function strncmp_loop :: "mem \<Rightarrow> int \<Rightarrow> u32 \<Rightarrow> u32 \<Rightarrow> int" where
  "strncmp_loop m count esi edi =
     (let count = count - 1
      in if count < 0 then 0
         else
           let al = m esi
           in if al \<noteq> m edi then (if al <s m edi then 1 else - 1)
              else if al \<noteq> 0 then strncmp_loop m count (esi + 1) (edi + 1) else 0)"
  by auto
termination by (relation "measure (\<lambda>(m, c, a, b). nat c)") auto

declare strncmp_loop.simps [simp del]

definition strncmp :: "mem \<Rightarrow> u32 \<Rightarrow> u32 \<Rightarrow> int \<Rightarrow> int" where
  "strncmp m cs ct count = strncmp_loop m count ct cs"

partial_function (option) strchr_loop :: "mem \<Rightarrow> u8 \<Rightarrow> u32 \<Rightarrow> u32 option" where
  "strchr_loop m ah esi =
     (let al = m esi; esi = esi + 1
      in if al = ah then Some (esi - 1)
         else if al \<noteq> 0 then strchr_loop m ah esi else Some (1 - 1))"

definition strchr :: "mem \<Rightarrow> u32 \<Rightarrow> u8 \<Rightarrow> u32 option" where
  "strchr m s c = strchr_loop m c s"

partial_function (option) strrchr_loop :: "mem \<Rightarrow> u8 \<Rightarrow> u32 \<Rightarrow> u32 \<Rightarrow> u32 option" where
  "strrchr_loop m ah res esi =
     (let al = m esi; esi = esi + 1; res = (if al = ah then esi - 1 else res)
      in if al \<noteq> 0 then strrchr_loop m ah res esi else Some res)"

definition strrchr :: "mem \<Rightarrow> u32 \<Rightarrow> u8 \<Rightarrow> u32 option" where
  "strrchr m s c = strrchr_loop m c 0 s"

text \<open>
  The routines on sets of characters: \<open>edx\<close> is the length of \<open>ct\<close>, and a character is looked up
  in \<open>ct\<close> with \<open>repne scasb\<close>; the zero flag before it is that of \<open>testb %al,%al\<close> (clear).
\<close>

definition in_set :: "mem \<Rightarrow> u32 \<Rightarrow> u32 \<Rightarrow> u8 \<Rightarrow> bool" where
  "in_set m ct edx al = (let (edi, ecx, zf) = repne_scasb m al (unat edx) ct False in zf)"

partial_function (option) strspn_loop :: "mem \<Rightarrow> u32 \<Rightarrow> u32 \<Rightarrow> u32 \<Rightarrow> u32 option" where
  "strspn_loop m ct edx esi =
     (let al = m esi; esi = esi + 1
      in if al = 0 then Some (esi - 1)
         else if in_set m ct edx al then strspn_loop m ct edx esi else Some (esi - 1))"

definition strspn :: "mem \<Rightarrow> u32 \<Rightarrow> u32 \<Rightarrow> u32 option" where
  "strspn m cs ct = map_option (\<lambda>r. r - cs) (strspn_loop m ct (strlen m ct) cs)"

partial_function (option) strcspn_loop :: "mem \<Rightarrow> u32 \<Rightarrow> u32 \<Rightarrow> u32 \<Rightarrow> u32 option" where
  "strcspn_loop m ct edx esi =
     (let al = m esi; esi = esi + 1
      in if al = 0 then Some (esi - 1)
         else if \<not> in_set m ct edx al then strcspn_loop m ct edx esi else Some (esi - 1))"

definition strcspn :: "mem \<Rightarrow> u32 \<Rightarrow> u32 \<Rightarrow> u32 option" where
  "strcspn m cs ct = map_option (\<lambda>r. r - cs) (strcspn_loop m ct (strlen m ct) cs)"

partial_function (option) strpbrk_loop :: "mem \<Rightarrow> u32 \<Rightarrow> u32 \<Rightarrow> u32 \<Rightarrow> u32 option" where
  "strpbrk_loop m ct edx esi =
     (let al = m esi; esi = esi + 1
      in if al = 0 then Some 0
         else if \<not> in_set m ct edx al then strpbrk_loop m ct edx esi else Some (esi - 1))"

definition strpbrk :: "mem \<Rightarrow> u32 \<Rightarrow> u32 \<Rightarrow> u32 option" where
  "strpbrk m cs ct = strpbrk_loop m ct (strlen m ct) cs"

text \<open>
  \<open>strstr\<close>: with an empty pattern \<open>decl %ecx\<close> has set the zero flag, which \<open>repe cmpsb\<close> keeps.
  After a mismatch \<open>eax\<close> is the address past the pair that differed.
\<close>

partial_function (option) strstr_loop :: "mem \<Rightarrow> u32 \<Rightarrow> u32 \<Rightarrow> bool \<Rightarrow> u32 \<Rightarrow> u32 option" where
  "strstr_loop m ct edx zf esi =
     (let r = repe_cmpsb m (unat edx) esi ct zf False
      in if fst (snd (snd r)) then Some esi
         else if m (fst r - 1) \<noteq> 0 then strstr_loop m ct edx False (esi + 1) else Some 0)"

definition strstr :: "mem \<Rightarrow> u32 \<Rightarrow> u32 \<Rightarrow> u32 option" where
  "strstr m cs ct = (let edx = strlen m ct in strstr_loop m ct edx (edx = 0) cs)"

text \<open>
  \<open>strtok\<close>: \<open>tok\<close> is the static variable \<open>___strtok\<close>; the result is the token (0 for none), the
  new \<open>___strtok\<close> and the memory, in which the delimiter that ends the token is overwritten.
\<close>

partial_function (option) strtok_end :: "mem \<Rightarrow> u32 \<Rightarrow> u32 \<Rightarrow> u32 \<Rightarrow> (u32 \<times> mem) option" where
  "strtok_end m ct edx esi =
     (let al = m esi; esi = esi + 1
      in if al = 0 then Some (0, m)
         else if \<not> in_set m ct edx al then strtok_end m ct edx esi
         else if m (esi - 1) = 0 then Some (0, m)
         else Some (esi - 1 + 1, m(esi - 1 := 0)))"

definition strtok_fin :: "u32 \<Rightarrow> u32 \<Rightarrow> mem \<Rightarrow> u32 \<times> u32 \<times> mem" where
  "strtok_fin ebx esi m = (ebx, if ebx = 0 then ebx else esi, m)"

definition strtok :: "mem \<Rightarrow> u32 \<Rightarrow> u32 \<Rightarrow> u32 \<Rightarrow> (u32 \<times> u32 \<times> mem) option" where
  "strtok m tok s ct =
     (if s = 0 \<and> tok = 0 then Some (tok, s, m)
      else
        let esi = (if s = 0 then tok else s); edx = strlen m ct
        in if edx = 0 then Some (strtok_fin 0 esi m)
           else
             Option.bind (strspn_loop m ct edx esi) (\<lambda>esi.
               if m esi = 0 then Some (strtok_fin 0 esi m)
               else
                 Option.bind (strtok_end m ct edx esi) (\<lambda>(next_tok, m).
                   Some (strtok_fin (if m esi = 0 then 0 else esi) next_tok m))))"

definition memcpy :: "mem \<Rightarrow> u32 \<Rightarrow> u32 \<Rightarrow> u32 \<Rightarrow> mem \<times> u32" where
  "memcpy m dest src n = (rep_movsb m (unat n) src dest, dest)"

text \<open>\<open>memmove\<close> also returns the direction flag it leaves: \<open>std\<close> is not undone.\<close>

definition memmove :: "mem \<Rightarrow> u32 \<Rightarrow> u32 \<Rightarrow> u32 \<Rightarrow> mem \<times> u32 \<times> bool" where
  "memmove m dest src n =
     (if dest < src then (rep_movsb m (unat n) src dest, dest, False)
      else (rep_movsb_down m (unat n) (src + n - 1) (dest + n - 1), dest, True))"

text \<open>\<open>memcmp\<close> with a count of zero branches on the flags of the code before it.\<close>

definition memcmp :: "bool \<Rightarrow> bool \<Rightarrow> mem \<Rightarrow> u32 \<Rightarrow> u32 \<Rightarrow> u32 \<Rightarrow> int" where
  "memcmp zf lt m cs ct count =
     (let (esi, edi, zf, lt) = repe_cmpsb m (unat count) ct cs zf lt
      in if zf then 0 else if lt then 1 else - 1)"

definition memchr :: "mem \<Rightarrow> u32 \<Rightarrow> u8 \<Rightarrow> u32 \<Rightarrow> u32" where
  "memchr m cs c count =
     (if count = 0 then 0
      else let (edi, ecx, zf) = repne_scasb m c (unat count) cs False
           in if zf then edi - 1 else 0)"

definition memset :: "mem \<Rightarrow> u32 \<Rightarrow> u8 \<Rightarrow> u32 \<Rightarrow> mem \<times> u32" where
  "memset m s c count = (rep_stosb m c (unat count) s, s)"

section \<open>Block moves\<close>

lemma unat_minus_1_less:
  fixes k :: u32
  assumes "n < 4294967295"
  shows "unat (k - 1) < n \<longleftrightarrow> k \<noteq> 0 \<and> unat k < Suc n"
proof (cases "k = 0")
  case True
  then show ?thesis using assms by (simp add: unat_u32_minus_1)
next
  case False
  then have "0 < unat k" by (simp add: unat_gt_0)
  with False show ?thesis by (simp add: unat_minus_one) arith
qed

text \<open>
  A forward copy is right when no source byte that is still to be read is the first target, and
  a backward copy symmetrically.
\<close>

lemma rep_movsb_apply:
  "n < 4294967296 \<Longrightarrow> (\<And>k. k \<noteq> 0 \<Longrightarrow> unat k < n \<Longrightarrow> src + k \<noteq> dest) \<Longrightarrow>
   rep_movsb m n src dest a = (if unat (a - dest) < n then m (src + (a - dest)) else m a)"
proof (induction n arbitrary: m src dest)
  case 0
  then show ?case by simp
next
  case (Suc n)
  have step: "src + 1 + k \<noteq> dest + 1" if "k \<noteq> 0" "unat k < n" for k
    using Suc.prems(2) [of k] that by (simp add: algebra_simps)
  have rec: "rep_movsb (m(dest := m src)) n (src + 1) (dest + 1) a =
      (if unat (a - (dest + 1)) < n then (m(dest := m src)) (src + 1 + (a - (dest + 1)))
       else (m(dest := m src)) a)"
    by (rule Suc.IH) (use Suc.prems(1) step in auto)
  obtain k where a: "a = dest + k" by (metis add_diff_cancel_left' diff_add_cancel add.commute)
  have k: "a - (dest + 1) = k - 1" "src + 1 + (k - 1) = src + k" "a - dest = k" "a = dest \<longleftrightarrow> k = 0"
    by (simp_all add: a)
  have "unat (k - 1) < n \<longleftrightarrow> k \<noteq> 0 \<and> unat k < Suc n"
    using Suc.prems(1) by (intro unat_minus_1_less) simp
  with rec Suc.prems(2) [of k] show ?case
    by (simp only: rep_movsb.simps k fun_upd_apply) auto
qed

lemma rep_movsb_down_apply:
  "n < 4294967296 \<Longrightarrow> (\<And>k. k \<noteq> 0 \<Longrightarrow> unat k < n \<Longrightarrow> esi - k \<noteq> edi) \<Longrightarrow>
   rep_movsb_down m n esi edi a = (if unat (edi - a) < n then m (esi - (edi - a)) else m a)"
proof (induction n arbitrary: m esi edi)
  case 0
  then show ?case by simp
next
  case (Suc n)
  have step: "esi - 1 - k \<noteq> edi - 1" if "k \<noteq> 0" "unat k < n" for k
    using Suc.prems(2) [of k] that by (simp add: algebra_simps)
  have rec: "rep_movsb_down (m(edi := m esi)) n (esi - 1) (edi - 1) a =
      (if unat (edi - 1 - a) < n then (m(edi := m esi)) (esi - 1 - (edi - 1 - a))
       else (m(edi := m esi)) a)"
    by (rule Suc.IH) (use Suc.prems(1) step in auto)
  obtain k where a: "a = edi - k" by (metis diff_diff_eq2 add_diff_cancel_left')
  have k: "edi - 1 - a = k - 1" "esi - 1 - (k - 1) = esi - k" "edi - a = k" "a = edi \<longleftrightarrow> k = 0"
    by (simp_all add: a)
  have "unat (k - 1) < n \<longleftrightarrow> k \<noteq> 0 \<and> unat k < Suc n"
    using Suc.prems(1) by (intro unat_minus_1_less) simp
  with rec Suc.prems(2) [of k] show ?case
    by (simp only: rep_movsb_down.simps k fun_upd_apply) auto
qed

lemma unat_reflect_less:
  fixes n j :: u32
  assumes "n \<noteq> 0"
  shows "unat (n - 1 - j) < unat n \<longleftrightarrow> unat j < unat n"
proof -
  have n: "unat (n - 1) = unat n - 1" "0 < unat n"
    using assms by (simp_all add: unat_minus_one unat_gt_0)
  show ?thesis
    using n by (simp add: unat_sub_if', use unat_u32_less [of j] in arith)
qed

text \<open>
  \<open>memmove\<close> copies its \<open>n\<close> bytes as they were before the call, also when the two areas
  overlap, and changes nothing else; when it copies downwards it leaves the direction flag set.
\<close>

theorem memmove_correct:
  assumes "unat src + unat n \<le> 4294967296" and "unat dest + unat n \<le> 4294967296"
  shows "\<exists>m'. memmove m dest src n = (m', dest, src \<le> dest) \<and>
    (\<forall>a. m' a = (if unat (a - dest) < unat n then m (src + (a - dest)) else m a))"
proof (cases "dest < src")
  case True
  have "src + k \<noteq> dest" if "k \<noteq> 0" "unat k < unat n" for k
  proof
    assume eq: "src + k = dest"
    have "unat (src + k) = unat src + unat k"
      using that assms(1) by (intro unat_add_no_wrap) simp
    with eq True show False by (simp add: word_less_nat_alt)
  qed
  then have "rep_movsb m (unat n) src dest a =
      (if unat (a - dest) < unat n then m (src + (a - dest)) else m a)" for a
    by (intro rep_movsb_apply) auto
  with True show ?thesis by (auto simp: memmove_def)
next
  case False
  have ne: "src + n - 1 - k \<noteq> dest + n - 1" if "k \<noteq> 0" "unat k < unat n" for k
  proof
    assume "src + n - 1 - k = dest + n - 1"
    then have eq: "src = dest + k" by (simp add: algebra_simps)
    have "unat (dest + k) = unat dest + unat k"
      using that assms(2) by (intro unat_add_no_wrap) simp
    with eq False that show False by (simp add: word_less_nat_alt unat_gt_0)
  qed
  have down: "rep_movsb_down m (unat n) (src + n - 1) (dest + n - 1) a =
      (if unat (dest + n - 1 - a) < unat n then m (src + n - 1 - (dest + n - 1 - a)) else m a)" for a
    using ne by (intro rep_movsb_down_apply) auto
  have "rep_movsb_down m (unat n) (src + n - 1) (dest + n - 1) a =
      (if unat (a - dest) < unat n then m (src + (a - dest)) else m a)" for a
  proof (cases "n = 0")
    case False
    have "dest + n - 1 - a = n - 1 - (a - dest)" "src + n - 1 - (dest + n - 1 - a) = src + (a - dest)"
      by (simp_all add: algebra_simps)
    with down [of a] unat_reflect_less [OF False, of "a - dest"] show ?thesis by metis
  qed simp
  with False show ?thesis by (auto simp: memmove_def)
qed

theorem memmove_correct_witness:
  "\<exists>m'. memmove (\<lambda>a. ucast a) 102 100 4 = (m', 102, True) \<and> m' 102 = 100 \<and> m' 103 = 101 \<and>
     m' 104 = 102 \<and> m' 105 = 103 \<and> m' 106 = 106"
  using memmove_correct [of 100 4 102 "\<lambda>a. ucast a"] by auto

section \<open>Strings\<close>

text \<open>The zero-terminated string at an address.\<close>

primrec str_at :: "mem \<Rightarrow> u32 \<Rightarrow> u8 list \<Rightarrow> bool" where
  "str_at m p [] = (m p = 0)"
| "str_at m p (x # xs) = (m p = x \<and> x \<noteq> 0 \<and> str_at m (p + 1) xs)"

lemma str_at_scan:
  "str_at m p xs \<Longrightarrow> length xs < n \<Longrightarrow>
   repne_scasb m 0 n p zf = (p + of_nat (length xs) + 1, n - Suc (length xs), True)"
proof (induction xs arbitrary: n p zf)
  case Nil
  then show ?case by (cases n) auto
next
  case (Cons x xs)
  then show ?case by (cases n) (auto simp: algebra_simps)
qed

lemma strlen_str_at:
  assumes "str_at m p xs" and "length xs < 4294967295"
  shows "strlen m p = of_nat (length xs)"
proof -
  have "strlen m p = NOT (of_nat (4294967295 - Suc (length xs))) - 1"
    using str_at_scan [OF assms, of False] by (simp add: strlen_def)
  also have "(of_nat (4294967295 - Suc (length xs)) :: u32) = 4294967295 - of_nat (length xs) - 1"
    using assms(2) by (subst of_nat_diff) auto
  also have "NOT (4294967295 - of_nat (length xs) - 1) - 1 = (of_nat (length xs) :: u32)"
    by (simp add: not_eq_complement)
  finally show ?thesis .
qed

text \<open>The bytes of \<open>n\<close> addresses from \<open>p\<close> on.\<close>

definition area :: "u32 \<Rightarrow> nat \<Rightarrow> u32 set" where
  "area p n = {a. unat (a - p) < n}"

lemma area_0 [simp]: "area p 0 = {}" by (simp add: area_def)

lemma area_Suc:
  assumes "n < 4294967295"
  shows "area p (Suc n) = insert p (area (p + 1) n)"
proof (rule set_eqI)
  fix a
  have "unat (a - p - 1) < n \<longleftrightarrow> a - p \<noteq> 0 \<and> unat (a - p) < Suc n"
    using assms by (rule unat_minus_1_less)
  moreover have "a - (p + 1) = a - p - 1" by simp
  ultimately show "a \<in> area p (Suc n) \<longleftrightarrow> a \<in> insert p (area (p + 1) n)"
    by (cases "a = p") (simp_all add: area_def diff_diff_eq [symmetric])
qed

lemma str_at_cong:
  "(\<And>a. a \<in> area p (Suc (length xs)) \<Longrightarrow> m a = m' a) \<Longrightarrow> length xs < 4294967295 \<Longrightarrow>
   str_at m p xs = str_at m' p xs"
proof (induction xs arbitrary: p)
  case Nil
  then show ?case by (simp add: area_def)
next
  case (Cons x xs)
  then have "length xs < 4294967295" "length (x # xs) < 4294967295" by simp_all
  note ar = area_Suc [OF this(2), of p]
  have "m p = m' p" using Cons.prems(1) [of p] by (simp add: ar [simplified])
  moreover have "str_at m (p + 1) xs = str_at m' (p + 1) xs"
    using Cons.prems ar by (intro Cons.IH) (auto simp del: One_nat_def)
  ultimately show ?case by simp
qed

lemma copy_loop_str:
  "str_at m src xs \<Longrightarrow> length xs < 4294967295 \<Longrightarrow>
   area src (Suc (length xs)) \<inter> area dest (Suc (length xs)) = {} \<Longrightarrow>
   \<exists>m'. copy_loop m src dest = Some m' \<and> str_at m' dest xs \<and>
     (\<forall>a. a \<notin> area dest (Suc (length xs)) \<longrightarrow> m' a = m a)"
proof (induction xs arbitrary: m src dest)
  case Nil
  then show ?case by (subst copy_loop.simps) (auto simp: area_def)
next
  case (Cons x xs)
  let ?n = "length xs"
  have n: "?n < 4294967295" "Suc ?n < 4294967295" using Cons.prems(2) by simp_all
  have sd: "area src (Suc (Suc ?n)) = insert src (area (src + 1) (Suc ?n))"
    "area dest (Suc (Suc ?n)) = insert dest (area (dest + 1) (Suc ?n))"
    using area_Suc [OF n(2)] by blast+
  let ?m = "m(dest := x)"
  have disj: "dest \<notin> area (src + 1) (Suc ?n)"
    "area (src + 1) (Suc ?n) \<inter> area (dest + 1) (Suc ?n) = {}"
    using Cons.prems(3) unfolding list.size add_0_right add_Suc_right sd by auto
  have out: "dest \<notin> area (dest + 1) (Suc ?n)"
    using n by (simp add: area_def unat_u32_minus_1)
  have "str_at ?m (src + 1) xs = str_at m (src + 1) xs"
    by (rule str_at_cong) (use disj(1) n in auto)
  then have "str_at ?m (src + 1) xs" using Cons.prems(1) by simp
  from Cons.IH [OF this n(1) disj(2)] obtain m' where
    m': "copy_loop ?m (src + 1) (dest + 1) = Some m'" "str_at m' (dest + 1) xs"
      "\<And>a. a \<notin> area (dest + 1) (Suc ?n) \<Longrightarrow> m' a = ?m a" by blast
  have "copy_loop m src dest = Some m'"
    using m'(1) Cons.prems(1) by (subst copy_loop.simps) simp
  moreover have "m' dest = x" using m'(3) [OF out] by simp
  ultimately show ?case
    using m' Cons.prems(1) sd(2) by auto
qed

lemma str_at_append:
  "str_at m p ys \<Longrightarrow> length ys < 4294967296 \<Longrightarrow> (\<And>a. a \<in> area p (length ys) \<Longrightarrow> m' a = m a) \<Longrightarrow>
   str_at m' (p + of_nat (length ys)) xs \<Longrightarrow> str_at m' p (ys @ xs)"
proof (induction ys arbitrary: p)
  case (Cons y ys)
  have ar: "area p (length (y # ys)) = insert p (area (p + 1) (length ys))"
    using Cons.prems(2) by (simp add: area_Suc)
  have "str_at m' (p + 1) (ys @ xs)"
    using Cons.prems ar by (intro Cons.IH) (simp_all add: add.assoc)
  then show ?case using Cons.prems ar by simp
qed simp

text \<open>
  \<open>strcat\<close> ends, appends the second string to the first when the areas do not overlap,
  returns its first argument and changes only the bytes it appends to.
\<close>

theorem strcat_correct:
  assumes dest: "str_at m dest ys" and src: "str_at m src xs"
    and len: "length ys < 4294967295" "length xs < 4294967295"
    and disj: "area src (Suc (length xs)) \<inter> area (dest + of_nat (length ys)) (Suc (length xs)) = {}"
    and fits: "area dest (length ys) \<inter> area (dest + of_nat (length ys)) (Suc (length xs)) = {}"
  shows "\<exists>m'. strcat m dest src = Some (m', dest) \<and> str_at m' dest (ys @ xs) \<and>
    (\<forall>a. a \<notin> area (dest + of_nat (length ys)) (Suc (length xs)) \<longrightarrow> m' a = m a)"
proof -
  let ?d = "dest + of_nat (length ys)"
  obtain m' where m': "copy_loop m src ?d = Some m'" "str_at m' ?d xs"
      "\<And>a. a \<notin> area ?d (Suc (length xs)) \<Longrightarrow> m' a = m a"
    using copy_loop_str [OF src len(2) disj] by blast
  have "strcat m dest src = Some (m', dest)"
    using m'(1) str_at_scan [OF dest len(1), of False] by (simp add: strcat_def)
  moreover have "str_at m' dest (ys @ xs)"
    using dest len(1) m'(2,3) fits by (intro str_at_append [of m dest ys m' xs]) auto
  ultimately show ?thesis using m'(3) by blast
qed

text \<open>Two bytes of one string at 16 and one byte of another at 32.\<close>

definition demo_mem :: mem where
  "demo_mem = (\<lambda>_. 0)(16 := 97, 17 := 98, 32 := 99)"

theorem strcat_correct_witness:
  "\<exists>m'. strcat demo_mem 16 32 = Some (m', 16) \<and> str_at m' 16 [97, 98, 99]"
proof -
  have dis: "area 32 (Suc (Suc 0)) \<inter> area 18 (Suc (Suc 0)) = {}"
    "area 16 (Suc (Suc 0)) \<inter> area 18 (Suc (Suc 0)) = {}"
    by (simp_all add: area_Suc)
  have "\<exists>m'. strcat demo_mem 16 32 = Some (m', 16) \<and> str_at m' 16 ([97, 98] @ [99]) \<and>
      (\<forall>a. a \<notin> area (16 + of_nat (length [97, 98 :: u8])) (Suc (length [99 :: u8])) \<longrightarrow>
         m' a = demo_mem a)"
    by (rule strcat_correct) (use dis in \<open>simp_all add: demo_mem_def\<close>)
  then show ?thesis by auto
qed

section \<open>Comparison and search\<close>

text \<open>The order of strings by the first difference, bytes taken as signed characters.\<close>

fun str_order :: "u8 list \<Rightarrow> u8 list \<Rightarrow> int" where
  "str_order [] [] = 0"
| "str_order [] (y # ys) = (if y <s 0 then 1 else - 1)"
| "str_order (x # xs) [] = (if 0 <s x then 1 else - 1)"
| "str_order (x # xs) (y # ys) = (if x = y then str_order xs ys else if y <s x then 1 else - 1)"

text \<open>
  \<open>strcmp\<close> ends on zero-terminated strings; it returns 0 exactly for equal strings and
  otherwise 1 or -1 by the order of the first bytes that differ, as signed characters.
\<close>

theorem strcmp_correct:
  assumes "str_at m cs xs" and "str_at m ct ys"
  shows "strcmp m cs ct = Some (str_order xs ys) \<and> (str_order xs ys = 0 \<longleftrightarrow> xs = ys)"
  using assms unfolding strcmp_def
proof (induction xs ys arbitrary: cs ct rule: str_order.induct)
  case (4 x xs y ys)
  then show ?case by (subst strcmp_loop.simps) (auto simp: Let_def)
qed (subst strcmp_loop.simps, auto simp: Let_def)+

theorem strcmp_correct_witness:
  "strcmp demo_mem 16 32 = Some (- 1)"
  using strcmp_correct [of demo_mem 16 "[97, 98]" 32 "[99]"] by (simp add: demo_mem_def)

subsection \<open>strstr\<close>

text \<open>\<open>occurs\<close> counts from the front: the pattern is a prefix of what is left.\<close>

definition is_prefix :: "'a list \<Rightarrow> 'a list \<Rightarrow> bool" where
  "is_prefix ys xs \<longleftrightarrow> take (length ys) xs = ys"

fun first_at :: "'a list \<Rightarrow> 'a list \<Rightarrow> nat option" where
  "first_at ys [] = (if ys = [] then Some 0 else None)"
| "first_at ys (x # xs) =
     (if is_prefix ys (x # xs) then Some 0 else map_option Suc (first_at ys xs))"

lemma first_at_Some: "first_at ys xs = Some n \<Longrightarrow> is_prefix ys (drop n xs)"
  by (induction ys xs arbitrary: n rule: first_at.induct) (auto simp: is_prefix_def split: if_splits)

lemma first_at_None: "first_at ys xs = None \<Longrightarrow> n \<le> length xs \<Longrightarrow> \<not> is_prefix ys (drop n xs)"
proof (induction ys xs arbitrary: n rule: first_at.induct)
  case (2 ys x xs)
  then show ?case by (cases n) (auto split: if_splits)
qed (auto simp: is_prefix_def split: if_splits)

text \<open>
  The comparison at one position: equal exactly when the pattern is a prefix; on a difference,
  the byte of the searched string that differs is its terminator only if the pattern is longer
  than what is left.
\<close>

lemma repe_cmpsb_str:
  "str_at m p xs \<Longrightarrow> str_at m q ys \<Longrightarrow> (ys = [] \<longrightarrow> zf) \<Longrightarrow>
   (\<exists>esi edi lt. repe_cmpsb m (length ys) p q zf lt0 = (esi, edi, is_prefix ys xs, lt) \<and>
      (\<not> is_prefix ys xs \<longrightarrow> (m (esi - 1) = 0 \<longrightarrow> length xs < length ys)))"
proof (induction ys arbitrary: p q xs zf lt0)
  case Nil
  then show ?case by (simp add: is_prefix_def)
next
  case (Cons y ys)
  show ?case
  proof (cases xs)
    case Nil
    with Cons.prems show ?thesis by (auto simp: is_prefix_def)
  next
    case (Cons x xs')
    with Cons.prems Cons.IH [of "p + 1" xs' "q + 1" True False] show ?thesis
      by (auto simp: is_prefix_def)
  qed
qed

lemma strstr_loop_str:
  assumes ys: "str_at m ct ys" "length ys < 4294967295"
  shows "str_at m p xs \<Longrightarrow> (ys = [] \<longrightarrow> zf) \<Longrightarrow>
    strstr_loop m ct (of_nat (length ys)) zf p =
      Some (case first_at ys xs of None \<Rightarrow> 0 | Some n \<Rightarrow> p + of_nat n)"
proof (induction xs arbitrary: p zf)
  case Nil
  have len: "unat (of_nat (length ys) :: u32) = length ys"
    using ys(2) by (simp add: unat_of_nat)
  show ?case
  proof (cases ys)
    case Nil
    then show ?thesis using \<open>ys = [] \<longrightarrow> zf\<close> by (subst strstr_loop.simps) simp
  next
    case (Cons y ys')
    then have "repe_cmpsb m (length ys) p ct zf False = (p + 1, ct + 1, False, m p <s m ct)"
      using ys(1) Nil.prems(1) by auto
    then show ?thesis
      using len Cons Nil.prems(1) by (subst strstr_loop.simps) (simp add: len)
  qed
next
  case (Cons x xs)
  obtain esi edi lt where r: "repe_cmpsb m (length ys) p ct zf False = (esi, edi, is_prefix ys (x # xs), lt)"
    and s: "\<not> is_prefix ys (x # xs) \<Longrightarrow> m (esi - 1) = 0 \<Longrightarrow> Suc (length xs) < length ys"
    using repe_cmpsb_str [OF Cons.prems(1) ys(1) Cons.prems(2)] by fastforce
  have len: "unat (of_nat (length ys) :: u32) = length ys"
    using ys(2) by (simp add: unat_of_nat)
  show ?case
  proof (cases "is_prefix ys (x # xs)")
    case True
    with r len show ?thesis by (subst strstr_loop.simps) simp
  next
    case False
    then have "ys \<noteq> []" by (auto simp: is_prefix_def)
    show ?thesis
    proof (cases "m (esi - 1) = 0")
      case True
      have "first_at ys xs = None"
      proof (rule ccontr)
        assume "first_at ys xs \<noteq> None"
        then obtain n where "is_prefix ys (drop n xs)" using first_at_Some by fastforce
        then have "length ys \<le> length xs" unfolding is_prefix_def by (metis length_take length_drop min.cobounded1 diff_le_self le_trans min.cobounded2)
        with s [OF False True] show False by simp
      qed
      with True False r len show ?thesis by (subst strstr_loop.simps) simp
    next
      case esi: False
      have "strstr_loop m ct (of_nat (length ys)) False (p + 1) =
          Some (case first_at ys xs of None \<Rightarrow> 0 | Some n \<Rightarrow> p + 1 + of_nat n)"
        using Cons.prems(1) \<open>ys \<noteq> []\<close> by (intro Cons.IH) auto
      with esi False r len show ?thesis
        by (subst strstr_loop.simps) (auto split: option.splits simp: algebra_simps)
    qed
  qed
qed

text \<open>
  C31: \<open>strstr\<close> ends and returns the address of the first occurrence of the pattern, the start of
  the string for an empty pattern, and 0 when the pattern does not occur.
\<close>

theorem strstr_correct:
  assumes "str_at m cs xs" and "str_at m ct ys" and "length ys < 4294967295"
  shows "strstr m cs ct =
    Some (case first_at ys xs of None \<Rightarrow> 0 | Some n \<Rightarrow> cs + of_nat n)"
proof -
  have "(of_nat (length ys) :: u32) = 0 \<longleftrightarrow> ys = []"
  proof -
    have "unat (of_nat (length ys) :: u32) = length ys"
      using assms(3) by (simp add: unat_of_nat)
    then have "length ys = 0" if "(of_nat (length ys) :: u32) = 0" using that by simp
    then show ?thesis by auto
  qed
  then show ?thesis
    using strstr_loop_str [OF assms(2,3,1), of "ys = []"] strlen_str_at [OF assms(2,3)]
    by (simp add: strstr_def)
qed

theorem strstr_correct_witness:
  "strstr demo_mem 16 17 = Some 17 \<and> strstr demo_mem 16 32 = Some 0"
  using strstr_correct [of demo_mem 16 "[97, 98]" 17 "[98]"]
    strstr_correct [of demo_mem 16 "[97, 98]" 32 "[99]"]
  by (simp add: demo_mem_def is_prefix_def)

end
