(* ===== verification/Sched.thy ===== *)
theory Sched
  imports Kernel_Prelude
begin

text \<open>
  The task table and the scheduler: \<open>include/linux/sched.h\<close> and \<open>kernel/sched.c\<close>.  A pointer to
  a task is the number of its slot in \<open>task[]\<close>; a null pointer is \<open>None\<close>.  \<open>long\<close> counters that
  the code keeps small (\<open>counter\<close>, \<open>priority\<close>) and the clock values are integers; the signal
  bitmaps are 32-bit words.  What runs between a call of \<open>schedule\<close> and its return is other
  tasks' code, so a routine that sleeps is given as the part up to that call and the part after
  it.
\<close>

section \<open>include/linux/sched.h\<close>

abbreviation (input) NR_TASKS :: nat where "NR_TASKS \<equiv> 64"
abbreviation (input) HZ :: int where "HZ \<equiv> 100"
abbreviation (input) TASK_RUNNING :: int where "TASK_RUNNING \<equiv> 0"
abbreviation (input) TASK_INTERRUPTIBLE :: int where "TASK_INTERRUPTIBLE \<equiv> 1"
abbreviation (input) TASK_UNINTERRUPTIBLE :: int where "TASK_UNINTERRUPTIBLE \<equiv> 2"
abbreviation (input) TASK_ZOMBIE :: int where "TASK_ZOMBIE \<equiv> 3"
abbreviation (input) TASK_STOPPED :: int where "TASK_STOPPED \<equiv> 4"

abbreviation (input) SIGHUP :: nat where "SIGHUP \<equiv> 1"
abbreviation (input) SIGINT :: nat where "SIGINT \<equiv> 2"
abbreviation (input) SIGQUIT :: nat where "SIGQUIT \<equiv> 3"
abbreviation (input) SIGKILL :: nat where "SIGKILL \<equiv> 9"
abbreviation (input) SIGALRM :: nat where "SIGALRM \<equiv> 14"
abbreviation (input) SIGCHLD :: nat where "SIGCHLD \<equiv> 17"
abbreviation (input) SIGSTOP :: nat where "SIGSTOP \<equiv> 19"

record sigaction =
  sa_handler :: u32
  sa_mask :: u32
  sa_flags :: u32
  sa_restorer :: u32

record i387_struct =
  i387_cwd :: u32
  i387_swd :: u32
  i387_twd :: u32
  i387_fip :: u32
  i387_fcs :: u32
  i387_foo :: u32
  i387_fos :: u32
  i387_st_space :: "nat \<Rightarrow> u32"

record tss_struct =
  tss_back_link :: u32
  tss_esp0 :: u32
  tss_ss0 :: u32
  tss_esp1 :: u32
  tss_ss1 :: u32
  tss_esp2 :: u32
  tss_ss2 :: u32
  tss_cr3 :: u32
  tss_eip :: u32
  tss_eflags :: u32
  tss_eax :: u32
  tss_ecx :: u32
  tss_edx :: u32
  tss_ebx :: u32
  tss_esp :: u32
  tss_ebp :: u32
  tss_esi :: u32
  tss_edi :: u32
  tss_es :: u32
  tss_cs :: u32
  tss_ss :: u32
  tss_ds :: u32
  tss_fs :: u32
  tss_gs :: u32
  tss_ldt :: u32
  tss_trace_bitmap :: u32
  tss_i387 :: i387_struct

record desc_struct =
  desc_a :: u32
  desc_b :: u32

record task_struct =
  t_state :: int
  t_counter :: int
  t_priority :: int
  t_signal :: u32
  t_sigaction :: "nat \<Rightarrow> sigaction"
  t_blocked :: u32
  t_exit_code :: u32
  t_start_code :: u32
  t_end_code :: u32
  t_end_data :: u32
  t_brk :: u32
  t_start_stack :: u32
  t_pid :: int
  t_father :: int
  t_pgrp :: int
  t_session :: int
  t_leader :: int
  t_uid :: u16
  t_euid :: u16
  t_suid :: u16
  t_gid :: u16
  t_egid :: u16
  t_sgid :: u16
  t_alarm :: int
  t_utime :: int
  t_stime :: int
  t_cutime :: int
  t_cstime :: int
  t_start_time :: int
  t_used_math :: u16
  t_tty :: int
  t_umask :: u16
  t_pwd :: "nat option"
  t_root :: "nat option"
  t_executable :: "nat option"
  t_close_on_exec :: u32
  t_filp :: "nat \<Rightarrow> nat option"
  t_ldt :: "nat \<Rightarrow> desc_struct"
  t_tss :: tss_struct

text \<open>The tasks of the table, all but the first (\<open>p > &FIRST_TASK\<close>), from the last down.\<close>

type_synonym task_table = "nat \<Rightarrow> task_struct option"

definition tasks_down :: "(task_struct \<Rightarrow> task_struct) \<Rightarrow> task_table \<Rightarrow> task_table" where
  "tasks_down f tk = fold (\<lambda>i tk. tk(i := map_option f (tk i))) (rev [1..<NR_TASKS]) tk"

record timer =
  tm_jiffies :: int
  tm_fn :: "nat option"
  tm_next :: "nat option"

record sched =
  task :: task_table
  current :: nat
  jiffies :: int
  startup_time :: int
  last_task_used_math :: "nat option"
  fpu :: i387_struct
  ts_flag :: bool
  beepcount :: int
  timer_list :: "nat \<Rightarrow> timer"
  next_timer :: "nat option"
  wait_motor :: "nat \<Rightarrow> nat option"
  mon_timer :: "nat \<Rightarrow> int"
  moff_timer :: "nat \<Rightarrow> int"
  current_DOR :: u8
  selected :: u8
  port_in :: "nat \<Rightarrow> u8"
  port_out :: "(nat \<times> u8) list"

definition cur :: "sched \<Rightarrow> task_struct option" where
  "cur s = task s (current s)"

definition upd_task :: "nat \<Rightarrow> (task_struct \<Rightarrow> task_struct) \<Rightarrow> sched \<Rightarrow> sched" where
  "upd_task i f s = s\<lparr>task := (task s)(i := map_option f (task s i))\<rparr>"

section \<open>math_state_restore\<close>

text \<open>
  \<open>fpu\<close> is the state inside the coprocessor: \<open>fnsave\<close> stores it in a task's \<open>tss\<close> and
  initialises it, \<open>frstor\<close> loads it from there, and \<open>fninit\<close> (the processor's, a parameter)
  initialises it.
\<close>

definition math_state_restore :: "(i387_struct \<Rightarrow> i387_struct) \<Rightarrow> sched \<Rightarrow> sched kres" where
  "math_state_restore fninit s =
     (if last_task_used_math s = Some (current s) then Inr s
      else
        let s = (case last_task_used_math s of
                   None \<Rightarrow> s
                 | Some l \<Rightarrow>
                     (upd_task l (\<lambda>t. t\<lparr>t_tss := (t_tss t)\<lparr>tss_i387 := fpu s\<rparr>\<rparr>) s)
                       \<lparr>fpu := fninit (fpu s)\<rparr>);
            s = s\<lparr>last_task_used_math := Some (current s)\<rparr>
        in case cur s of
             None \<Rightarrow> Inl Fault
           | Some t \<Rightarrow>
               if t_used_math t \<noteq> 0 then Inr (s\<lparr>fpu := tss_i387 (t_tss t)\<rparr>)
               else Inr (upd_task (current s) (t_used_math_update (\<lambda>_. 1)) (s\<lparr>fpu := fninit (fpu s)\<rparr>)))"

section \<open>schedule\<close>

definition S_mask :: "nat \<Rightarrow> u32" where
  "S_mask nr = push_bit (nr - 1) 1"

definition BLOCKABLE :: u32 where
  "BLOCKABLE = NOT (S_mask SIGKILL OR S_mask SIGSTOP)"

definition check_signals :: "int \<Rightarrow> task_struct \<Rightarrow> task_struct" where
  "check_signals now t =
     (let t = (if t_alarm t \<noteq> 0 \<and> t_alarm t < now
               then t\<lparr>t_signal := t_signal t OR S_mask SIGALRM, t_alarm := 0\<rparr> else t)
      in if t_signal t AND NOT (BLOCKABLE AND t_blocked t) \<noteq> 0
            \<and> t_state t = TASK_INTERRUPTIBLE
         then t\<lparr>t_state := TASK_RUNNING\<rparr> else t)"

fun pick :: "task_table \<Rightarrow> nat \<Rightarrow> int \<Rightarrow> nat \<Rightarrow> int \<times> nat" where
  "pick tk 0 c nxt = (c, nxt)"
| "pick tk (Suc i) c nxt =
     (if i = 0 then (c, nxt)
      else case tk i of
          None \<Rightarrow> pick tk i c nxt
        | Some t \<Rightarrow>
            if t_state t = TASK_RUNNING \<and> t_counter t > c
            then pick tk i (t_counter t) i else pick tk i c nxt)"

definition recharge :: "task_struct \<Rightarrow> task_struct" where
  "recharge t = t\<lparr>t_counter := wrap32 (drop_bit 1 (t_counter t) + t_priority t)\<rparr>"

partial_function (option) schedule_loop :: "task_table \<Rightarrow> (task_table \<times> nat) option" where
  "schedule_loop tk =
     (let r = pick tk NR_TASKS (- 1) 0
      in if fst r \<noteq> 0 then Some (tk, snd r) else schedule_loop (tasks_down recharge tk))"

text \<open>
  The processor sets the task-switched flag at the jump; the code clears it again when the task
  that runs now is the last one that used the coprocessor.
\<close>

definition switch_to :: "nat \<Rightarrow> sched \<Rightarrow> sched" where
  "switch_to n s =
     (if n = current s then s
      else s\<lparr>current := n, ts_flag := (last_task_used_math s \<noteq> Some n)\<rparr>)"

definition schedule :: "sched \<Rightarrow> sched kres" where
  "schedule s =
     (case schedule_loop (tasks_down (check_signals (jiffies s)) (task s)) of
        None \<Rightarrow> Inl Hang
      | Some (tk, nxt) \<Rightarrow> Inr (switch_to nxt (s\<lparr>task := tk\<rparr>)))"

definition sys_pause :: "sched \<Rightarrow> sched kres" where
  "sys_pause s = schedule (upd_task (current s) (t_state_update (\<lambda>_. TASK_INTERRUPTIBLE)) s)"

section \<open>sleep_on, interruptible_sleep_on, wake_up\<close>

text \<open>
  A wait queue is one pointer to a task; the tasks behind it are held by the local variable
  \<open>tmp\<close> on the kernel stack of each sleeper.  \<open>sleep_on_enter\<close> is the routine up to its call of
  \<open>schedule\<close>: it returns \<open>tmp\<close>, the new head and the state; \<open>sleep_on_leave\<close> is what it does
  when \<open>schedule\<close> returns.
\<close>

definition sleep_on_enter ::
  "nat option \<Rightarrow> sched \<Rightarrow> (nat option \<times> nat option \<times> sched) kres" where
  "sleep_on_enter p s =
     (if current s = 0 then Inl (Panic ''task[0] trying to sleep'')
      else Inr (p, Some (current s),
                upd_task (current s) (t_state_update (\<lambda>_. TASK_UNINTERRUPTIBLE)) s))"

definition wake_task :: "nat option \<Rightarrow> sched \<Rightarrow> sched" where
  "wake_task t s =
     (case t of None \<Rightarrow> s | Some i \<Rightarrow> upd_task i (t_state_update (\<lambda>_. TASK_RUNNING)) s)"

definition sleep_on_leave :: "nat option \<Rightarrow> sched \<Rightarrow> sched" where
  "sleep_on_leave tmp s = wake_task tmp s"

definition interruptible_sleep_on_enter ::
  "nat option \<Rightarrow> sched \<Rightarrow> (nat option \<times> nat option \<times> sched) kres" where
  "interruptible_sleep_on_enter p s =
     (if current s = 0 then Inl (Panic ''task[0] trying to sleep'')
      else Inr (p, Some (current s),
                upd_task (current s) (t_state_update (\<lambda>_. TASK_INTERRUPTIBLE)) s))"

text \<open>
  When \<open>schedule\<close> returns to an interruptible sleeper it may have to wake the head and sleep
  again (the result is then \<open>None\<close>); otherwise it empties the queue and wakes \<open>tmp\<close>.
\<close>

definition interruptible_sleep_on_resume ::
  "nat option \<Rightarrow> nat option \<Rightarrow> sched \<Rightarrow> (nat option) option \<times> sched" where
  "interruptible_sleep_on_resume tmp p s =
     (if p \<noteq> None \<and> p \<noteq> Some (current s)
      then (None, upd_task (current s) (t_state_update (\<lambda>_. TASK_INTERRUPTIBLE))
                    (wake_task p s))
      else (Some None, wake_task tmp s))"

definition wake_up :: "nat option \<Rightarrow> sched \<Rightarrow> nat option \<times> sched" where
  "wake_up p s = (None, wake_task p s)"

section \<open>The floppy motor timers\<close>

abbreviation (input) FD_DOR :: nat where "FD_DOR \<equiv> 1010"

definition outb :: "u8 \<Rightarrow> nat \<Rightarrow> sched \<Rightarrow> sched" where
  "outb v port s = s\<lparr>port_out := port_out s @ [(port, v)]\<rparr>"

definition ticks_to_floppy_on :: "nat \<Rightarrow> sched \<Rightarrow> (int \<times> sched) kres" where
  "ticks_to_floppy_on nr s =
     (if nr > 3 then Inl (Panic ''floppy_on: nr>3'')
      else
        let s = s\<lparr>moff_timer := (moff_timer s)(nr := 10000)\<rparr>;
            mask = push_bit nr 0x10 OR current_DOR s;
            mask = (if selected s = 0 then (mask AND 0xFC) OR of_nat nr else mask);
            s = (if mask \<noteq> current_DOR s
                 then
                   let s = outb mask FD_DOR s;
                       m = (if (mask XOR current_DOR s) AND 0xf0 \<noteq> 0 then HZ div 2
                            else if mon_timer s nr < 2 then 2 else mon_timer s nr)
                   in s\<lparr>mon_timer := (mon_timer s)(nr := m), current_DOR := mask\<rparr>
                 else s)
        in Inr (mon_timer s nr, s))"

text \<open>
  \<open>env\<close> is what the other tasks and the interrupts do from the moment the sleeping task gave up
  the processor until it runs again.
\<close>

partial_function (option) floppy_on_loop ::
  "(sched \<Rightarrow> sched) \<Rightarrow> nat \<Rightarrow> sched \<Rightarrow> (sched kres) option" where
  "floppy_on_loop env nr s =
     (case ticks_to_floppy_on nr s of
        Inl e \<Rightarrow> Some (Inl e)
      | Inr r \<Rightarrow>
          if fst r = 0 then Some (Inr (snd r))
          else
            case sleep_on_enter (wait_motor (snd r) nr) (snd r) of
              Inl e \<Rightarrow> Some (Inl e)
            | Inr q \<Rightarrow>
                (case schedule ((snd (snd q))\<lparr>wait_motor :=
                          (wait_motor (snd (snd q)))(nr := fst (snd q))\<rparr>) of
                   Inl e \<Rightarrow> Some (Inl e)
                 | Inr s \<Rightarrow> floppy_on_loop env nr (sleep_on_leave (fst q) (env s))))"

definition floppy_on :: "(sched \<Rightarrow> sched) \<Rightarrow> nat \<Rightarrow> sched \<Rightarrow> sched kres" where
  "floppy_on env nr s = (case floppy_on_loop env nr s of None \<Rightarrow> Inl Hang | Some r \<Rightarrow> r)"

definition floppy_off :: "nat \<Rightarrow> sched \<Rightarrow> sched kres" where
  "floppy_off nr s =
     (if nr > 3 then Inl Fault else Inr (s\<lparr>moff_timer := (moff_timer s)(nr := 3 * HZ)\<rparr>))"

definition floppy_timer_step :: "nat \<Rightarrow> sched \<Rightarrow> sched" where
  "floppy_timer_step i s =
     (let mask = push_bit i (0x10 :: u8)
      in if mask AND current_DOR s = 0 then s
         else if mon_timer s i \<noteq> 0 then
           let s = s\<lparr>mon_timer := (mon_timer s)(i := mon_timer s i - 1)\<rparr>
           in if mon_timer s i = 0
              then let (p, s) = wake_up (wait_motor s i) s
                   in s\<lparr>wait_motor := (wait_motor s)(i := p)\<rparr>
              else s
         else if moff_timer s i = 0 then
           let s = s\<lparr>current_DOR := current_DOR s AND NOT mask\<rparr>
           in outb (current_DOR s) FD_DOR s
         else s\<lparr>moff_timer := (moff_timer s)(i := moff_timer s i - 1)\<rparr>)"

definition do_floppy_timer :: "sched \<Rightarrow> sched" where
  "do_floppy_timer s = fold floppy_timer_step [0..<4] s"

section \<open>Timers\<close>

abbreviation (input) TIME_REQUESTS :: nat where "TIME_REQUESTS \<equiv> 64"

text \<open>
  A timer's function is a number; \<open>run f\<close> is what calling it does to the state.  The insertion
  puts the new entry first and carries it down the list by exchanging contents.
\<close>

partial_function (option) add_timer_loop ::
  "nat \<Rightarrow> (nat \<Rightarrow> timer) \<Rightarrow> (nat \<Rightarrow> timer) option" where
  "add_timer_loop p tb =
     (case tm_next (tb p) of
        None \<Rightarrow> Some tb
      | Some q \<Rightarrow>
          if tm_jiffies (tb q) < tm_jiffies (tb p) then
            let tb = tb(p := (tb p)\<lparr>tm_jiffies := tm_jiffies (tb p) - tm_jiffies (tb q)\<rparr>);
                fn = tm_fn (tb p);
                tb = tb(p := (tb p)\<lparr>tm_fn := tm_fn (tb q)\<rparr>);
                tb = tb(q := (tb q)\<lparr>tm_fn := fn\<rparr>);
                j = tm_jiffies (tb p);
                tb = tb(p := (tb p)\<lparr>tm_jiffies := tm_jiffies (tb q)\<rparr>);
                tb = tb(q := (tb q)\<lparr>tm_jiffies := j\<rparr>)
            in add_timer_loop q tb
          else Some tb)"

definition add_timer ::
  "(nat \<Rightarrow> sched \<Rightarrow> sched kres) \<Rightarrow> int \<Rightarrow> nat option \<Rightarrow> sched \<Rightarrow> sched kres" where
  "add_timer run j fn s =
     (case fn of
        None \<Rightarrow> Inr s
      | Some f \<Rightarrow>
          if j \<le> 0 then run f s
          else
            case find (\<lambda>p. tm_fn (timer_list s p) = None) [0..<TIME_REQUESTS] of
              None \<Rightarrow> Inl (Panic ''No more time requests free'')
            | Some p \<Rightarrow>
                (case add_timer_loop p ((timer_list s)(p :=
                        \<lparr>tm_jiffies = j, tm_fn = Some f, tm_next = next_timer s\<rparr>)) of
                   None \<Rightarrow> Inl Hang
                 | Some tb \<Rightarrow> Inr (s\<lparr>timer_list := tb, next_timer := Some p\<rparr>)))"

partial_function (option) do_timer_loop ::
  "(nat \<Rightarrow> sched \<Rightarrow> sched kres) \<Rightarrow> sched \<Rightarrow> (sched kres) option" where
  "do_timer_loop run s =
     (case next_timer s of
        None \<Rightarrow> Some (Inr s)
      | Some p \<Rightarrow>
          if tm_jiffies (timer_list s p) \<le> 0 then
            case tm_fn (timer_list s p) of
              None \<Rightarrow> Some (Inl Fault)
            | Some f \<Rightarrow>
                (case run f (s\<lparr>timer_list := (timer_list s)(p := (timer_list s p)\<lparr>tm_fn := None\<rparr>),
                              next_timer := tm_next (timer_list s p)\<rparr>) of
                   Inl e \<Rightarrow> Some (Inl e)
                 | Inr s \<Rightarrow> do_timer_loop run s)
          else Some (Inr s))"

definition run_timers :: "(nat \<Rightarrow> sched \<Rightarrow> sched kres) \<Rightarrow> sched \<Rightarrow> sched kres" where
  "run_timers run s =
     (case next_timer s of
        None \<Rightarrow> Inr s
      | Some p \<Rightarrow>
          (case do_timer_loop run
                  (s\<lparr>timer_list := (timer_list s)(p :=
                       (timer_list s p)\<lparr>tm_jiffies := tm_jiffies (timer_list s p) - 1\<rparr>)\<rparr>) of
             None \<Rightarrow> Inl Hang | Some r \<Rightarrow> r))"

text \<open>\<open>sysbeepstop\<close> of \<open>kernel/chr_drv/console.c\<close>: the low two bits of port 61h turn the
  speaker off.\<close>

definition sysbeepstop :: "sched \<Rightarrow> sched" where
  "sysbeepstop s = outb (port_in s 0x61 AND 0xFC) 0x61 s"

definition do_timer :: "(nat \<Rightarrow> sched \<Rightarrow> sched kres) \<Rightarrow> int \<Rightarrow> sched \<Rightarrow> sched kres" where
  "do_timer run cpl s =
     (let s = (if beepcount s \<noteq> 0
               then let s = s\<lparr>beepcount := wrap32 (beepcount s - 1)\<rparr>
                    in if beepcount s = 0 then sysbeepstop s else s
               else s);
          s = upd_task (current s)
                (if cpl \<noteq> 0 then t_utime_update (\<lambda>n. wrap32 (n + 1)) else t_stime_update (\<lambda>n. wrap32 (n + 1))) s
      in bindE (run_timers run s) (\<lambda>s.
           let s = (if current_DOR s AND 0xf0 \<noteq> 0 then do_floppy_timer s else s);
               s = upd_task (current s) (t_counter_update (\<lambda>c. wrap32 (c - 1))) s
           in case cur s of
                None \<Rightarrow> Inl Fault
              | Some t \<Rightarrow>
                  if t_counter t > 0 then Inr s
                  else
                    let s = upd_task (current s) (t_counter_update (\<lambda>_. 0)) s
                    in if cpl = 0 then Inr s else schedule s))"

section \<open>System calls of sched.c\<close>

definition on_cur :: "(task_struct \<Rightarrow> 'a) \<Rightarrow> sched \<Rightarrow> 'a kres" where
  "on_cur f s = (case cur s of None \<Rightarrow> Inl Fault | Some t \<Rightarrow> Inr (f t))"

definition sys_alarm :: "int \<Rightarrow> sched \<Rightarrow> (int \<times> sched) kres" where
  "sys_alarm seconds s =
     bindE (on_cur t_alarm s) (\<lambda>old.
       Inr (if old \<noteq> 0 then wrap32 (old - jiffies s) sdiv HZ else old,
            upd_task (current s)
              (t_alarm_update (\<lambda>_. if seconds > 0 then wrap32 (jiffies s + HZ * seconds) else 0)) s))"

definition sys_getpid :: "sched \<Rightarrow> int kres" where "sys_getpid = on_cur t_pid"
definition sys_getppid :: "sched \<Rightarrow> int kres" where "sys_getppid = on_cur t_father"
definition sys_getuid :: "sched \<Rightarrow> int kres" where "sys_getuid = on_cur (uint \<circ> t_uid)"
definition sys_geteuid :: "sched \<Rightarrow> int kres" where "sys_geteuid = on_cur (uint \<circ> t_euid)"
definition sys_getgid :: "sched \<Rightarrow> int kres" where "sys_getgid = on_cur (uint \<circ> t_gid)"
definition sys_getegid :: "sched \<Rightarrow> int kres" where "sys_getegid = on_cur (uint \<circ> t_egid)"

definition sys_nice :: "int \<Rightarrow> sched \<Rightarrow> (int \<times> sched) kres" where
  "sys_nice increment s =
     bindE (on_cur t_priority s) (\<lambda>p.
       Inr (0, if wrap32 (p - increment) > 0
               then upd_task (current s) (t_priority_update (\<lambda>p. wrap32 (p - increment))) s else s))"

section \<open>Properties\<close>

subsection \<open>The choice of the next task\<close>

lemma fold_upd_at:
  "distinct xs \<Longrightarrow>
   fold (\<lambda>i tk. tk(i := g (tk i))) xs tk j = (if j \<in> set xs then g (tk j) else tk j)"
  by (induction xs arbitrary: tk) auto

lemma tasks_down_apply:
  "tasks_down f tk j = (if 1 \<le> j \<and> j < NR_TASKS then map_option f (tk j) else tk j)"
  unfolding tasks_down_def by (subst fold_upd_at) auto

text \<open>The tasks the scheduler looks at, and those among them that can run.\<close>

definition runnable :: "task_table \<Rightarrow> nat \<Rightarrow> bool" where
  "runnable tk i \<longleftrightarrow> 1 \<le> i \<and> i < NR_TASKS \<and> (\<exists>t. tk i = Some t \<and> t_state t = TASK_RUNNING)"

definition counter_of :: "task_table \<Rightarrow> nat \<Rightarrow> int" where
  "counter_of tk i = (case tk i of None \<Rightarrow> 0 | Some t \<Rightarrow> t_counter t)"

text \<open>\<open>pick\<close> scans downwards and keeps the first maximum: the highest slot among the maximal.\<close>

lemma pick_spec:
  "n \<le> NR_TASKS \<Longrightarrow> pick tk n c nxt = (c', n') \<Longrightarrow>
   c \<le> c' \<and>
   (\<forall>j < n. runnable tk j \<longrightarrow> counter_of tk j \<le> c') \<and>
   ((c', n') = (c, nxt) \<or>
    (n' < n \<and> runnable tk n' \<and> counter_of tk n' = c' \<and> c < c' \<and>
     (\<forall>j < n. n' < j \<longrightarrow> runnable tk j \<longrightarrow> counter_of tk j < c')))"
proof (induction tk n c nxt rule: pick.induct)
  case (1 tk c nxt)
  then show ?case by simp
next
  case (2 tk i c nxt)
  show ?case
  proof (cases "i = 0")
    case True
    with 2 show ?thesis by (auto simp: runnable_def)
  next
    case False
    note i = False
    show ?thesis
    proof (cases "runnable tk i \<and> counter_of tk i > c")
      case True
      then obtain t where t: "tk i = Some t" "t_state t = TASK_RUNNING" "t_counter t > c"
        by (auto simp: runnable_def counter_of_def)
      with 2 i have "pick tk i (t_counter t) i = (c', n')" by simp
      with 2 i t have ih: "t_counter t \<le> c' \<and>
          (\<forall>j < i. runnable tk j \<longrightarrow> counter_of tk j \<le> c') \<and>
          ((c', n') = (t_counter t, i) \<or>
           (n' < i \<and> runnable tk n' \<and> counter_of tk n' = c' \<and> t_counter t < c' \<and>
            (\<forall>j < i. n' < j \<longrightarrow> runnable tk j \<longrightarrow> counter_of tk j < c')))"
        by simp
      have "counter_of tk i = t_counter t" by (simp add: counter_of_def t)
      with ih True t show ?thesis by (auto simp: less_Suc_eq)
    next
      case False
      with 2 i have pick: "pick tk i c nxt = (c', n')"
        by (auto simp: runnable_def counter_of_def split: option.splits if_splits)
      from 2 i False have ih: "c \<le> c' \<and>
          (\<forall>j < i. runnable tk j \<longrightarrow> counter_of tk j \<le> c') \<and>
          ((c', n') = (c, nxt) \<or>
           (n' < i \<and> runnable tk n' \<and> counter_of tk n' = c' \<and> c < c' \<and>
            (\<forall>j < i. n' < j \<longrightarrow> runnable tk j \<longrightarrow> counter_of tk j < c')))"
        by (cases "tk i") (auto simp: runnable_def counter_of_def split: if_splits)
      with False show ?thesis by (auto simp: less_Suc_eq)
    qed
  qed
qed

text \<open>
  What the scheduler relies on of the table, and what it promises of its choice.  A priority of
  at most \<open>2^30\<close> keeps \<open>counter / 2 + priority\<close> from wrapping.
\<close>

definition sane_tasks :: "task_table \<Rightarrow> bool" where
  "sane_tasks tk \<longleftrightarrow>
     (\<forall>i t. 1 \<le> i \<and> i < NR_TASKS \<and> tk i = Some t \<longrightarrow>
       0 < t_priority t \<and> t_priority t \<le> 1073741824 \<and> 0 \<le> t_counter t \<and> t_counter t < 2147483648)"

definition chosen :: "task_table \<Rightarrow> nat \<Rightarrow> bool" where
  "chosen tk n \<longleftrightarrow>
     (if \<exists>i. runnable tk i
      then runnable tk n \<and> 0 < counter_of tk n \<and>
           (\<forall>j. runnable tk j \<longrightarrow> counter_of tk j \<le> counter_of tk n) \<and>
           (\<forall>j > n. runnable tk j \<longrightarrow> counter_of tk j < counter_of tk n)
      else n = 0)"

lemma sane_counter: "sane_tasks tk \<Longrightarrow> runnable tk i \<Longrightarrow> 0 \<le> counter_of tk i"
  by (auto simp: sane_tasks_def runnable_def counter_of_def)

lemma runnable_bound: "runnable tk i \<Longrightarrow> i < NR_TASKS"
  by (simp add: runnable_def)

lemma pick_chosen:
  assumes sane: "sane_tasks tk" and pick: "pick tk NR_TASKS (- 1) 0 = (c, n)" and "c \<noteq> 0"
  shows "chosen tk n"
proof -
  have spec: "- 1 \<le> c \<and> (\<forall>j < NR_TASKS. runnable tk j \<longrightarrow> counter_of tk j \<le> c) \<and>
     ((c, n) = (- 1, 0) \<or> (n < NR_TASKS \<and> runnable tk n \<and> counter_of tk n = c \<and> - 1 < c \<and>
       (\<forall>j < NR_TASKS. n < j \<longrightarrow> runnable tk j \<longrightarrow> counter_of tk j < c)))"
    by (rule pick_spec [OF _ pick]) simp
  show ?thesis
  proof (cases "(c, n) = (- 1, 0)")
    case True
    have "\<not> runnable tk i" for i
    proof
      assume "runnable tk i"
      with spec sane_counter [OF sane this] runnable_bound [OF this] True show False
        by fastforce
    qed
    with True show ?thesis by (simp add: chosen_def)
  next
    case False
    with spec \<open>c \<noteq> 0\<close> show ?thesis
      by (auto simp: chosen_def dest: runnable_bound)
  qed
qed

lemma recharge_counter:
  assumes "0 < t_priority t" "t_priority t \<le> 1073741824" "0 \<le> t_counter t" "t_counter t < 2147483648"
  shows "t_counter (recharge t) = t_counter t div 2 + t_priority t"
  using assms by (simp add: recharge_def drop_bit_Suc)

lemma recharge_sane_task:
  assumes "0 < t_priority t" "t_priority t \<le> 1073741824" "0 \<le> t_counter t" "t_counter t < 2147483648"
  shows "0 < t_counter (recharge t)" "t_counter (recharge t) < 2147483648" "t_priority (recharge t) = t_priority t"
  using assms by (simp_all add: recharge_counter) (simp_all add: recharge_def)

lemma recharge_sane: "sane_tasks tk \<Longrightarrow> sane_tasks (tasks_down recharge tk)"
  by (auto simp: sane_tasks_def tasks_down_apply recharge_sane_task less_imp_le)

lemma recharge_counter_pos:
  "sane_tasks tk \<Longrightarrow> runnable (tasks_down recharge tk) i \<Longrightarrow>
   0 < counter_of (tasks_down recharge tk) i"
  by (auto simp: sane_tasks_def runnable_def counter_of_def tasks_down_apply recharge_sane_task)

text \<open>One recharge is enough, so the loop of \<open>schedule\<close> runs at most twice.\<close>

lemma schedule_loop_spec:
  assumes sane: "sane_tasks tk"
  shows "\<exists>tk' n. schedule_loop tk = Some (tk', n) \<and> chosen tk' n \<and> sane_tasks tk' \<and>
    (tk' = tk \<or> tk' = tasks_down recharge tk \<and> (\<forall>j. runnable tk j \<longrightarrow> counter_of tk j = 0))"
proof -
  obtain c n where pick: "pick tk NR_TASKS (- 1) 0 = (c, n)" by fastforce
  show ?thesis
  proof (cases "c = 0")
    case False
    then have "schedule_loop tk = Some (tk, n)"
      using pick by (subst schedule_loop.simps) simp
    with pick_chosen [OF sane pick False] sane show ?thesis by blast
  next
    case True
    let ?tk = "tasks_down recharge tk"
    obtain c' n' where pick': "pick ?tk NR_TASKS (- 1) 0 = (c', n')" by fastforce
    have "(c', n') = (- 1, 0) \<or> runnable ?tk n' \<and> counter_of ?tk n' = c'"
      using pick_spec [OF _ pick'] by auto
    then have "c' \<noteq> 0"
      using recharge_counter_pos [OF sane, of n'] by auto
    moreover have "schedule_loop tk = schedule_loop ?tk"
      using pick True by (subst schedule_loop.simps) simp
    ultimately have "schedule_loop tk = Some (?tk, n')"
      using pick' by (simp add: schedule_loop.simps [of ?tk])
    moreover have "chosen ?tk n'"
      using pick_chosen [OF recharge_sane [OF sane] pick' \<open>c' \<noteq> 0\<close>] .
    moreover have "counter_of tk j = 0" if "runnable tk j" for j
    proof -
      have "counter_of tk j \<le> 0"
        using pick_spec [OF _ pick] runnable_bound [OF that] that True by simp
      with sane_counter [OF sane that] show ?thesis by simp
    qed
    ultimately show ?thesis using recharge_sane [OF sane] by blast
  qed
qed

lemma check_signals_fields [simp]:
  "t_priority (check_signals j t) = t_priority t"
  "t_counter (check_signals j t) = t_counter t"
  by (simp_all add: check_signals_def Let_def)

lemma check_signals_sane: "sane_tasks tk \<Longrightarrow> sane_tasks (tasks_down (check_signals j) tk)"
  by (auto simp: sane_tasks_def tasks_down_apply)

lemma switch_to_simps [simp]:
  "current (switch_to n s) = n" "task (switch_to n s) = task s"
  by (auto simp: switch_to_def)

text \<open>
  C2: \<open>schedule\<close> returns (its loop ends after at most one recharge of the counters) and switches
  to a runnable task whose time slice is the largest, the highest slot among equals, and to
  task 0 only when no task can run; the signal and alarm check is done first.  The priorities
  lie between 1 and \<open>2^30\<close> and no counter is negative, before and after.
\<close>

theorem schedule_chooses:
  assumes "sane_tasks (task s)"
  shows "\<exists>s'. schedule s = Inr s' \<and> chosen (task s') (current s') \<and> sane_tasks (task s') \<and>
    (let tk = tasks_down (check_signals (jiffies s)) (task s)
     in task s' = tk \<or>
        task s' = tasks_down recharge tk \<and> (\<forall>j. runnable tk j \<longrightarrow> counter_of tk j = 0))"
  using schedule_loop_spec [OF check_signals_sane [OF assms, of "jiffies s"]]
  by (auto simp: schedule_def Let_def)

definition demo_sigaction :: sigaction where
  "demo_sigaction = \<lparr>sa_handler = 0, sa_mask = 0, sa_flags = 0, sa_restorer = 0\<rparr>"

definition demo_i387 :: i387_struct where
  "demo_i387 = \<lparr>i387_cwd = 0, i387_swd = 0, i387_twd = 0, i387_fip = 0, i387_fcs = 0,
     i387_foo = 0, i387_fos = 0, i387_st_space = (\<lambda>_. 0)\<rparr>"

definition INIT_TSS :: tss_struct where
  "INIT_TSS = \<lparr>tss_back_link = 0, tss_esp0 = 0, tss_ss0 = 0x10, tss_esp1 = 0, tss_ss1 = 0,
     tss_esp2 = 0, tss_ss2 = 0, tss_cr3 = 0, tss_eip = 0, tss_eflags = 0, tss_eax = 0,
     tss_ecx = 0, tss_edx = 0, tss_ebx = 0, tss_esp = 0, tss_ebp = 0, tss_esi = 0, tss_edi = 0,
     tss_es = 0x17, tss_cs = 0x17, tss_ss = 0x17, tss_ds = 0x17, tss_fs = 0x17, tss_gs = 0x17,
     tss_ldt = 0x28, tss_trace_bitmap = 0x80000000, tss_i387 = demo_i387\<rparr>"

text \<open>\<open>INIT_TASK\<close> of \<open>include/linux/sched.h\<close>; the addresses in its \<open>tss\<close> are the linker's.\<close>

definition INIT_TASK :: task_struct where
  "INIT_TASK =
     \<lparr>t_state = 0, t_counter = 15, t_priority = 15, t_signal = 0,
      t_sigaction = (\<lambda>_. demo_sigaction), t_blocked = 0, t_exit_code = 0, t_start_code = 0,
      t_end_code = 0, t_end_data = 0, t_brk = 0, t_start_stack = 0, t_pid = 0, t_father = - 1,
      t_pgrp = 0, t_session = 0, t_leader = 0, t_uid = 0, t_euid = 0, t_suid = 0, t_gid = 0,
      t_egid = 0, t_sgid = 0, t_alarm = 0, t_utime = 0, t_stime = 0, t_cutime = 0,
      t_cstime = 0, t_start_time = 0, t_used_math = 0, t_tty = - 1, t_umask = 18,
      t_pwd = None, t_root = None, t_executable = None, t_close_on_exec = 0,
      t_filp = (\<lambda>_. None),
      t_ldt = (\<lambda>i. if i = 1 then \<lparr>desc_a = 0x9f, desc_b = 0xc0fa00\<rparr>
                    else if i = 2 then \<lparr>desc_a = 0x9f, desc_b = 0xc0f200\<rparr>
                    else \<lparr>desc_a = 0, desc_b = 0\<rparr>),
      t_tss = INIT_TSS\<rparr>"

text \<open>A table with the first task, an init process whose slice is used up, and a sleeper.\<close>

definition demo_sched :: sched where
  "demo_sched =
     \<lparr>task = [0 \<mapsto> INIT_TASK, 1 \<mapsto> INIT_TASK\<lparr>t_pid := 1, t_counter := 0\<rparr>,
              2 \<mapsto> INIT_TASK\<lparr>t_pid := 2, t_state := TASK_INTERRUPTIBLE\<rparr>],
      current = 1, jiffies = 1000, startup_time = 0, last_task_used_math = None,
      fpu = demo_i387, ts_flag = True, beepcount = 0,
      timer_list = (\<lambda>_. \<lparr>tm_jiffies = 0, tm_fn = None, tm_next = None\<rparr>), next_timer = None,
      wait_motor = (\<lambda>_. None), mon_timer = (\<lambda>_. 0), moff_timer = (\<lambda>_. 0),
      current_DOR = 0x0C, selected = 0, port_in = (\<lambda>_. 0), port_out = []\<rparr>"

lemma demo_sched_sane: "sane_tasks (task demo_sched)"
  by (auto simp: sane_tasks_def demo_sched_def INIT_TASK_def split: if_splits)

theorem schedule_chooses_witness:
  "sane_tasks (task demo_sched) \<and>
   (\<exists>s'. schedule demo_sched = Inr s' \<and> chosen (task s') (current s'))"
  using demo_sched_sane schedule_chooses [OF demo_sched_sane] by blast

subsection \<open>Time slices\<close>

text \<open>
  A task that does not run gains at most half of what it has: the slice never exceeds twice the
  priority, as long as the priority itself is not lowered.
\<close>

definition slices_bounded :: "task_table \<Rightarrow> bool" where
  "slices_bounded tk \<longleftrightarrow>
     (\<forall>i t. 1 \<le> i \<and> i < NR_TASKS \<and> tk i = Some t \<longrightarrow> t_counter t \<le> 2 * t_priority t)"

lemma recharge_bounded: "sane_tasks tk \<Longrightarrow> slices_bounded tk \<Longrightarrow> slices_bounded (tasks_down recharge tk)"
  by (fastforce simp: sane_tasks_def slices_bounded_def tasks_down_apply recharge_sane_task recharge_counter)

lemma check_signals_bounded:
  "slices_bounded tk \<Longrightarrow> slices_bounded (tasks_down (check_signals j) tk)"
  by (auto simp: slices_bounded_def tasks_down_apply)

text \<open>
  scheduling keeps every time slice between zero and twice the task's priority.
\<close>

theorem schedule_slices_bounded:
  assumes "sane_tasks (task s)" and "slices_bounded (task s)"
  shows "\<exists>s'. schedule s = Inr s' \<and> sane_tasks (task s') \<and> slices_bounded (task s')"
proof -
  obtain tk n where tk: "schedule_loop (tasks_down (check_signals (jiffies s)) (task s)) = Some (tk, n)"
    "sane_tasks tk" "tk = tasks_down (check_signals (jiffies s)) (task s) \<or>
      tk = tasks_down recharge (tasks_down (check_signals (jiffies s)) (task s))"
    using schedule_loop_spec [OF check_signals_sane [OF assms(1), of "jiffies s"]] by blast
  moreover have "slices_bounded tk"
    using tk(3) check_signals_sane [OF assms(1)] check_signals_bounded [OF assms(2)] recharge_bounded by metis
  ultimately show ?thesis by (simp add: schedule_def)
qed

theorem schedule_slices_bounded_witness:
  "\<exists>s'. schedule demo_sched = Inr s' \<and> sane_tasks (task s') \<and> slices_bounded (task s')"
  by (rule schedule_slices_bounded [OF demo_sched_sane])
    (auto simp: slices_bounded_def demo_sched_def INIT_TASK_def split: if_splits)

subsection \<open>Raising the priority\<close>

text \<open>\<open>sys_nice\<close> keeps the table sane as long as the new priority does not pass \<open>2^30\<close>.\<close>

lemma sys_nice_sane:
  assumes "sane_tasks (task s)" "task s (current s) = Some t" "t_priority t - increment \<le> 1073741824"
    and "- 2147483648 \<le> t_priority t - increment"
  shows "\<exists>s'. sys_nice increment s = Inr (0, s') \<and> sane_tasks (task s')"
  using assms by (auto simp: sys_nice_def on_cur_def cur_def upd_task_def sane_tasks_def)

text \<open>
  Nothing bounds it: any task may give a negative increment.  A task that raised its priority to
  the largest \<open>long\<close> and sleeps through two recharges has a negative counter then, and
  \<open>schedule\<close> goes to task 0 although the task can run.
\<close>

lemma sys_nice_unbounded:
  "task s (current s) = Some t \<Longrightarrow> t_priority t = 15 \<Longrightarrow>
   sys_nice (- 2147483632) s = Inr (0, upd_task (current s) (\<lambda>t. t\<lparr>t_priority := 2147483647\<rparr>) s)"
  by (cases t) (simp add: sys_nice_def on_cur_def cur_def upd_task_def)

definition greedy :: task_struct where
  "greedy = INIT_TASK\<lparr>t_pid := 1, t_counter := 0, t_priority := 2147483647\<rparr>"

lemma greedy_recharge: "t_counter (recharge (recharge greedy)) = - 1073741826" "t_state (recharge (recharge greedy)) = 0"
  by (simp_all add: recharge_def greedy_def INIT_TASK_def wrap32_def drop_bit_Suc)

theorem nice_starves:
  assumes "task s = [0 \<mapsto> INIT_TASK, 1 \<mapsto> recharge (recharge greedy)]"
  shows "runnable (task s) 1 \<and> (\<exists>s'. schedule s = Inr s' \<and> current s' = 0)"
proof -
  let ?t = "recharge (recharge greedy)" and ?tk = "tasks_down (check_signals (jiffies s)) (task s)"
  have r: "runnable (task s) 1" using assms greedy_recharge by (simp add: runnable_def)
  have tk: "?tk i = (if i = 0 then Some INIT_TASK else if i = 1 then Some (check_signals (jiffies s) ?t) else None)" for i
    using assms by (simp add: tasks_down_apply)
  obtain c n where p: "pick ?tk NR_TASKS (- 1) 0 = (c, n)" by fastforce
  have "\<not> (runnable ?tk m \<and> - 1 < counter_of ?tk m)" for m
    using greedy_recharge(1) by (auto simp: runnable_def counter_of_def tk split: if_splits)
  then have "(c, n) = (- 1, 0)" using pick_spec [OF _ p] by fastforce
  then have "schedule_loop ?tk = Some (?tk, 0)" using p by (subst schedule_loop.simps) simp
  then show ?thesis using r by (simp add: schedule_def)
qed

subsection \<open>The coprocessor\<close>

text \<open>
  The coprocessor state of a task: in the coprocessor for the task that used it last, in its
  \<open>tss\<close> for every other task that has used it.
\<close>

definition fpu_of :: "sched \<Rightarrow> nat \<Rightarrow> i387_struct option" where
  "fpu_of s i =
     (if last_task_used_math s = Some i then Some (fpu s)
      else case task s i of
             Some t \<Rightarrow> if t_used_math t \<noteq> 0 then Some (tss_i387 (t_tss t)) else None
           | None \<Rightarrow> None)"

definition math_wf :: "sched \<Rightarrow> bool" where
  "math_wf s \<longleftrightarrow>
     (\<forall>i. last_task_used_math s = Some i \<longrightarrow> (\<exists>t. task s i = Some t \<and> t_used_math t \<noteq> 0)) \<and>
     (\<not> ts_flag s \<longrightarrow> last_task_used_math s = Some (current s))"

text \<open>
  restoring the coprocessor leaves it holding the current task's own state, and changes the
  state of no task that has used it before.
\<close>

theorem math_state_restore_isolates:
  assumes "math_wf s" and "task s (current s) \<noteq> None"
  shows "\<exists>s'. math_state_restore fninit s = Inr s' \<and> math_wf s' \<and>
    last_task_used_math s' = Some (current s) \<and>
    (\<forall>i. fpu_of s i \<noteq> None \<longrightarrow> fpu_of s' i = fpu_of s i)"
proof (cases "last_task_used_math s")
  case None
  with assms show ?thesis
    by (auto simp: math_state_restore_def math_wf_def fpu_of_def cur_def upd_task_def Let_def
        split: option.splits)
next
  case (Some l)
  then obtain t where t: "task s l = Some t" "t_used_math t \<noteq> 0"
    using assms(1) by (auto simp: math_wf_def)
  show ?thesis
  proof (cases "l = current s")
    case True
    with Some assms(1) show ?thesis by (simp add: math_state_restore_def)
  next
    case False
    with Some assms t show ?thesis
      by (auto simp: math_state_restore_def math_wf_def fpu_of_def cur_def upd_task_def Let_def
          split: option.splits)
  qed
qed

theorem math_state_restore_isolates_witness:
  "\<exists>s'. math_state_restore id demo_sched = Inr s' \<and> last_task_used_math s' = Some 1"
  using math_state_restore_isolates [of demo_sched id]
  by (auto simp: math_wf_def demo_sched_def)

end
