(* ===== verification/Memory.thy ===== *)
theory Memory
  imports Sched
begin

text \<open>
  Physical memory and paging: \<open>mm/memory.c\<close>.  \<open>mem_map\<close> counts the references to each page of
  main memory in a byte.  Physical memory is read and written in 32-bit words at addresses that
  are multiples of four; the page directory is at address 0 and the page tables are in the pages
  its entries name, so the routines that walk them read and write this memory.  The one byte
  store of the file (\<open>do_no_page\<close>) clears a byte of a word.
\<close>

section \<open>State and memory access\<close>

abbreviation (input) LOW_MEM :: u32 where "LOW_MEM \<equiv> 0x100000"
abbreviation (input) PAGING_PAGES :: nat where "PAGING_PAGES \<equiv> 3840"
abbreviation (input) USED :: u8 where "USED \<equiv> 100"
abbreviation (input) SIGSEGV :: nat where "SIGSEGV \<equiv> 11"

record mm =
  mem_map :: "nat \<Rightarrow> u8"
  HIGH_MEMORY :: u32
  phys :: "u32 \<Rightarrow> u32"
  klog :: "(string \<times> u32 list) list"

definition rd :: "u32 \<Rightarrow> mm \<Rightarrow> u32" where
  "rd a s = phys s a"

definition wr :: "u32 \<Rightarrow> u32 \<Rightarrow> mm \<Rightarrow> mm" where
  "wr a v s = s\<lparr>phys := (phys s)(a := v)\<rparr>"

definition clear_byte :: "u32 \<Rightarrow> mm \<Rightarrow> mm" where
  "clear_byte a s =
     wr (a AND NOT 3) (rd (a AND NOT 3) s AND NOT (push_bit (8 * unat (a AND 3)) 0xff)) s"

definition printk_mm :: "string \<Rightarrow> u32 list \<Rightarrow> mm \<Rightarrow> mm" where
  "printk_mm fmt args s = s\<lparr>klog := klog s @ [(fmt, args)]\<rparr>"

definition MAP_NR :: "u32 \<Rightarrow> nat" where
  "MAP_NR addr = unat (drop_bit 12 (addr - LOW_MEM))"

definition set_map :: "nat \<Rightarrow> u8 \<Rightarrow> mm \<Rightarrow> mm" where
  "set_map i v s = s\<lparr>mem_map := (mem_map s)(i := v)\<rparr>"

text \<open>\<open>oom\<close> ends the task with SIGSEGV.\<close>

definition oom :: "mm \<Rightarrow> 'a kres" where
  "oom s = Inl (Exit SIGSEGV)"

section \<open>Pages\<close>

text \<open>
  \<open>std; repne scasb\<close> from the last element of \<open>mem_map\<close> down: the first free page it meets is
  the free page of the highest number.
\<close>

primrec scan_free :: "(nat \<Rightarrow> u8) \<Rightarrow> nat \<Rightarrow> nat option" where
  "scan_free mp 0 = None"
| "scan_free mp (Suc ecx) = (if mp ecx = 0 then Some ecx else scan_free mp ecx)"

primrec rep_stosl_down :: "nat \<Rightarrow> u32 \<Rightarrow> (u32 \<Rightarrow> u32) \<Rightarrow> u32 \<Rightarrow> u32" where
  "rep_stosl_down 0 edi ph = ph"
| "rep_stosl_down (Suc ecx) edi ph = rep_stosl_down ecx (edi - 4) (ph(edi := 0))"

primrec rep_movsl :: "nat \<Rightarrow> u32 \<Rightarrow> u32 \<Rightarrow> (u32 \<Rightarrow> u32) \<Rightarrow> u32 \<Rightarrow> u32" where
  "rep_movsl 0 esi edi ph = ph"
| "rep_movsl (Suc ecx) esi edi ph = rep_movsl ecx (esi + 4) (edi + 4) (ph(edi := ph esi))"

definition copy_page :: "u32 \<Rightarrow> u32 \<Rightarrow> mm \<Rightarrow> mm" where
  "copy_page from to s = s\<lparr>phys := rep_movsl 1024 from to (phys s)\<rparr>"

definition get_free_page :: "mm \<Rightarrow> u32 \<times> mm" where
  "get_free_page s =
     (case scan_free (mem_map s) PAGING_PAGES of
        None \<Rightarrow> (0, s)
      | Some i \<Rightarrow>
          let page = push_bit 12 (of_nat i) + LOW_MEM
          in (page, s\<lparr>mem_map := (mem_map s)(i := 1),
                      phys := rep_stosl_down 1024 (page + 4092) (phys s)\<rparr>))"

definition free_page :: "u32 \<Rightarrow> mm \<Rightarrow> mm kres" where
  "free_page addr s =
     (if addr < LOW_MEM then Inr s
      else if addr \<ge> HIGH_MEMORY s then Inl (Panic ''trying to free nonexistent page'')
      else
        let i = MAP_NR addr
        in if i \<ge> PAGING_PAGES then Inl Fault
           else if mem_map s i \<noteq> 0 then Inr (set_map i (mem_map s i - 1) s)
           else Inl (Panic ''trying to free free page''))"

section \<open>Page tables\<close>

primrec free_table :: "nat \<Rightarrow> u32 \<Rightarrow> mm \<Rightarrow> mm kres" where
  "free_table 0 pg_table s = Inr s"
| "free_table (Suc n) pg_table s =
     bindE (if 1 AND rd pg_table s \<noteq> 0 then free_page (0xfffff000 AND rd pg_table s) s else Inr s)
       (\<lambda>s. free_table n (pg_table + 4) (wr pg_table 0 s))"

primrec free_dirs :: "nat \<Rightarrow> u32 \<Rightarrow> mm \<Rightarrow> mm kres" where
  "free_dirs 0 dir s = Inr s"
| "free_dirs (Suc n) dir s =
     (if 1 AND rd dir s = 0 then free_dirs n (dir + 4) s
      else
        bindE (free_table 1024 (0xfffff000 AND rd dir s) s) (\<lambda>s.
        bindE (free_page (0xfffff000 AND rd dir s) s) (\<lambda>s.
          free_dirs n (dir + 4) (wr dir 0 s))))"

definition free_page_tables :: "u32 \<Rightarrow> u32 \<Rightarrow> mm \<Rightarrow> mm kres" where
  "free_page_tables from sz s =
     (if from AND 0x3fffff \<noteq> 0 then Inl (Panic ''free_page_tables called with wrong alignment'')
      else if from = 0 then Inl (Panic ''Trying to free up swapper memory space'')
      else free_dirs (unat (drop_bit 22 (sz + 0x3fffff))) (drop_bit 20 from AND 0xffc) s)"

primrec copy_table :: "nat \<Rightarrow> u32 \<Rightarrow> u32 \<Rightarrow> mm \<Rightarrow> mm kres" where
  "copy_table 0 from_pt to_pt s = Inr s"
| "copy_table (Suc n) from_pt to_pt s =
     (let this_page = rd from_pt s
      in if 1 AND this_page = 0 then copy_table n (from_pt + 4) (to_pt + 4) s
         else
           let this_page = this_page AND NOT 2;
               s = wr to_pt this_page s
           in if this_page > LOW_MEM then
                let s = wr from_pt this_page s; i = MAP_NR this_page
                in if i \<ge> PAGING_PAGES then Inl Fault
                   else copy_table n (from_pt + 4) (to_pt + 4) (set_map i (mem_map s i + 1) s)
              else copy_table n (from_pt + 4) (to_pt + 4) s)"

primrec copy_dirs :: "u32 \<Rightarrow> nat \<Rightarrow> u32 \<Rightarrow> u32 \<Rightarrow> mm \<Rightarrow> (int \<times> mm) kres" where
  "copy_dirs from 0 from_dir to_dir s = Inr (0, s)"
| "copy_dirs from (Suc n) from_dir to_dir s =
     (if 1 AND rd to_dir s \<noteq> 0 then Inl (Panic ''copy_page_tables: already exist'')
      else if 1 AND rd from_dir s = 0 then copy_dirs from n (from_dir + 4) (to_dir + 4) s
      else
        let from_page_table = 0xfffff000 AND rd from_dir s;
            (to_page_table, s) = get_free_page s
        in if to_page_table = 0 then Inr (- 1, s)
           else
             bindE (copy_table (if from = 0 then 0xA0 else 1024) from_page_table to_page_table
                      (wr to_dir (to_page_table OR 7) s))
               (\<lambda>s. copy_dirs from n (from_dir + 4) (to_dir + 4) s))"

definition copy_page_tables :: "u32 \<Rightarrow> u32 \<Rightarrow> u32 \<Rightarrow> mm \<Rightarrow> (int \<times> mm) kres" where
  "copy_page_tables from to sz s =
     (if from AND 0x3fffff \<noteq> 0 \<or> to AND 0x3fffff \<noteq> 0
      then Inl (Panic ''copy_page_tables called with wrong alignment'')
      else copy_dirs from (unat (drop_bit 22 (sz + 0x3fffff)))
             (drop_bit 20 from AND 0xffc) (drop_bit 20 to AND 0xffc) s)"

definition put_page :: "u32 \<Rightarrow> u32 \<Rightarrow> mm \<Rightarrow> (u32 \<times> mm) kres" where
  "put_page page address s =
     (let s = (if page < LOW_MEM \<or> page \<ge> HIGH_MEMORY s
               then printk_mm ''Trying to put page %p at %p'' [page, address] s else s)
      in if MAP_NR page \<ge> PAGING_PAGES then Inl Fault
         else
           let s = (if mem_map s (MAP_NR page) \<noteq> 1
                    then printk_mm ''mem_map disagrees with %p at %p'' [page, address] s else s);
               page_table = drop_bit 20 address AND 0xffc;
               fill = (\<lambda>pt s. Inr (page, wr (pt + 4 * (drop_bit 12 address AND 0x3ff)) (page OR 7) s))
           in if rd page_table s AND 1 \<noteq> 0 then fill (0xfffff000 AND rd page_table s) s
              else
                let (tmp, s) = get_free_page s
                in if tmp = 0 then Inr (0, s)
                   else fill tmp (wr page_table (tmp OR 7) s))"

section \<open>Page faults\<close>

definition un_wp_page :: "u32 \<Rightarrow> mm \<Rightarrow> mm kres" where
  "un_wp_page table_entry s =
     (let old_page = 0xfffff000 AND rd table_entry s
      in if old_page \<ge> LOW_MEM \<and> MAP_NR old_page \<ge> PAGING_PAGES then Inl Fault
         else if old_page \<ge> LOW_MEM \<and> mem_map s (MAP_NR old_page) = 1
         then Inr (wr table_entry (rd table_entry s OR 2) s)
         else
           let (new_page, s) = get_free_page s
           in if new_page = 0 then oom s
              else
                let s = (if old_page \<ge> LOW_MEM
                         then set_map (MAP_NR old_page) (mem_map s (MAP_NR old_page) - 1) s else s);
                    s = wr table_entry (new_page OR 7) s
                in Inr (copy_page old_page new_page s))"

definition do_wp_page :: "u32 \<Rightarrow> u32 \<Rightarrow> mm \<Rightarrow> mm kres" where
  "do_wp_page error_code address s =
     un_wp_page ((drop_bit 10 address AND 0xffc)
                 + (0xfffff000 AND rd (drop_bit 20 address AND 0xffc) s)) s"

definition write_verify :: "u32 \<Rightarrow> mm \<Rightarrow> mm kres" where
  "write_verify address s =
     (let page = rd (drop_bit 20 address AND 0xffc) s
      in if page AND 1 = 0 then Inr s
         else
           let page = (page AND 0xfffff000) + (drop_bit 10 address AND 0xffc)
           in if 3 AND rd page s = 1 then un_wp_page page s else Inr s)"

definition get_empty_page :: "u32 \<Rightarrow> mm \<Rightarrow> mm kres" where
  "get_empty_page address s =
     (let (tmp, s) = get_free_page s
      in if tmp = 0 then bindE (free_page tmp s) oom
         else
           bindE (put_page tmp address s) (\<lambda>(r, s).
             if r = 0 then bindE (free_page tmp s) oom else Inr s))"

text \<open>The arguments are the two tasks' \<open>start_code\<close>.\<close>

definition try_to_share :: "u32 \<Rightarrow> u32 \<Rightarrow> u32 \<Rightarrow> mm \<Rightarrow> (bool \<times> mm) kres" where
  "try_to_share address p_start cur_start s =
     (let base = drop_bit 20 address AND 0xffc;
          from_page = base + (drop_bit 20 p_start AND 0xffc);
          to_page = base + (drop_bit 20 cur_start AND 0xffc);
          from = rd from_page s
      in if from AND 1 = 0 then Inr (False, s)
         else
           let from_page = (from AND 0xfffff000) + (drop_bit 10 address AND 0xffc);
               phys_addr = rd from_page s
           in if phys_addr AND 0x41 \<noteq> 0x01 then Inr (False, s)
              else
                let phys_addr = phys_addr AND 0xfffff000
                in if phys_addr \<ge> HIGH_MEMORY s \<or> phys_addr < LOW_MEM then Inr (False, s)
                   else
                     bindE (let to = rd to_page s
                            in if to AND 1 = 0
                               then let (to, s) = get_free_page s
                                    in if to \<noteq> 0 then Inr (to, wr to_page (to OR 7) s) else oom s
                               else Inr (to, s))
                       (\<lambda>(to, s).
                          let to_page = (to AND 0xfffff000) + (drop_bit 10 address AND 0xffc)
                          in if 1 AND rd to_page s \<noteq> 0
                             then Inl (Panic ''try_to_share: to_page already exists'')
                             else
                               let s = wr from_page (rd from_page s AND NOT 2) s;
                                   s = wr to_page (rd from_page s) s;
                                   i = MAP_NR phys_addr
                               in if i \<ge> PAGING_PAGES then Inl Fault
                                  else Inr (True, set_map i (mem_map s i + 1) s)))"

text \<open>
  \<open>share_page\<close> reads the task table and the use count of an inode (\<open>executable->i_count\<close>).
\<close>

primrec share_loop :: "nat \<Rightarrow> sched \<Rightarrow> u32 \<Rightarrow> task_struct \<Rightarrow> mm \<Rightarrow> (bool \<times> mm) kres" where
  "share_loop 0 sc address c s = Inr (False, s)"
| "share_loop (Suc n) sc address c s =
     (if n = 0 then Inr (False, s)
      else case task sc n of
          None \<Rightarrow> share_loop n sc address c s
        | Some p \<Rightarrow>
            if current sc = n \<or> t_executable p \<noteq> t_executable c then share_loop n sc address c s
            else
              bindE (try_to_share address (t_start_code p) (t_start_code c) s) (\<lambda>(r, s).
                if r then Inr (True, s) else share_loop n sc address c s))"

definition share_page :: "(nat \<Rightarrow> u16) \<Rightarrow> sched \<Rightarrow> u32 \<Rightarrow> mm \<Rightarrow> (bool \<times> mm) kres" where
  "share_page i_count sc address s =
     bindE (on_cur id sc) (\<lambda>c.
       case t_executable c of
         None \<Rightarrow> Inr (False, s)
       | Some e \<Rightarrow>
           if i_count e < 2 then Inr (False, s) else share_loop NR_TASKS sc address c s)"

primrec clear_down :: "nat \<Rightarrow> u32 \<Rightarrow> mm \<Rightarrow> mm" where
  "clear_down 0 tmp s = s"
| "clear_down (Suc i) tmp s = clear_down i (tmp - 1) (clear_byte (tmp - 1) s)"

text \<open>
  \<open>bmap e b\<close> is the block number of block \<open>b\<close> of the executable and \<open>bread_page\<close> reads four
  blocks into a page: the file system's part of demand loading.
\<close>

definition do_no_page ::
  "(nat \<Rightarrow> u16) \<Rightarrow> (nat \<Rightarrow> u32 \<Rightarrow> u32) \<Rightarrow> (u32 \<Rightarrow> nat \<Rightarrow> u32 list \<Rightarrow> mm \<Rightarrow> mm kres) \<Rightarrow>
   sched \<Rightarrow> u32 \<Rightarrow> u32 \<Rightarrow> mm \<Rightarrow> mm kres" where
  "do_no_page i_count bmap bread_page sc error_code address s =
     bindE (on_cur id sc) (\<lambda>c.
       let address = address AND 0xfffff000;
           tmp = address - t_start_code c
       in case t_executable c of
            None \<Rightarrow> get_empty_page address s
          | Some e \<Rightarrow>
              if tmp \<ge> t_end_data c then get_empty_page address s
              else
                bindE (share_page i_count sc tmp s) (\<lambda>(shared, s).
                  if shared then Inr s
                  else
                    let (page, s) = get_free_page s
                    in if page = 0 then oom s
                       else
                         let block = 1 + tmp div 1024;
                             nr = map (\<lambda>i. bmap e (block + of_nat i)) [0..<4]
                         in bindE (bread_page page e nr s) (\<lambda>s.
                              let i = sint (tmp + 4096 - t_end_data c);
                                  s = clear_down (nat i) (page + 4096) s
                              in bindE (put_page page address s) (\<lambda>(r, s).
                                   if r \<noteq> 0 then Inr s else bindE (free_page page s) oom))))"

section \<open>Initialisation and statistics\<close>

primrec clear_map :: "nat \<Rightarrow> int \<Rightarrow> mm \<Rightarrow> mm kres" where
  "clear_map 0 i s = Inr s"
| "clear_map (Suc n) i s =
     (if i < 0 \<or> i \<ge> int PAGING_PAGES then Inl Fault
      else clear_map n (i + 1) (set_map (nat i) 0 s))"

definition mem_init :: "int \<Rightarrow> int \<Rightarrow> mm \<Rightarrow> mm kres" where
  "mem_init start_mem end_mem s =
     (let s = s\<lparr>HIGH_MEMORY := word_of_int end_mem,
                mem_map := (\<lambda>i. if i < PAGING_PAGES then USED else mem_map s i)\<rparr>
      in clear_map (nat (drop_bit 12 (end_mem - start_mem)))
           (drop_bit 12 (start_mem - uint LOW_MEM)) s)"

definition table_use :: "u32 \<Rightarrow> mm \<Rightarrow> nat" where
  "table_use pg_tbl s =
     length (filter (\<lambda>j. rd (pg_tbl + 4 * of_nat j) s AND 1 \<noteq> 0) [0..<1024])"

definition calc_mem :: "mm \<Rightarrow> mm" where
  "calc_mem s =
     fold (\<lambda>i s.
        let d = rd (4 * of_nat i) s
        in if 1 AND d = 0 then s
           else printk_mm ''Pg-dir[%d] uses %d pages''
                  [of_nat i, of_nat (table_use (0xfffff000 AND d) s)] s)
       [2..<1024]
       (printk_mm ''%d pages free (of %d)''
          [of_nat (length (filter (\<lambda>i. mem_map s i = 0) [0..<PAGING_PAGES])),
           of_nat PAGING_PAGES] s)"

section \<open>The page allocator\<close>

text \<open>The physical address of page number \<open>i\<close> of main memory, and the words of a page.\<close>

definition page_addr :: "nat \<Rightarrow> u32" where
  "page_addr i = push_bit 12 (of_nat i) + LOW_MEM"

definition page_words :: "u32 \<Rightarrow> u32 set" where
  "page_words p = (\<lambda>k. p + 4 * of_nat k) ` {..<1024}"

lemma unat_page_addr: "i < PAGING_PAGES \<Longrightarrow> unat (page_addr i) = i * 4096 + 1048576"
proof -
  assume i: "i < PAGING_PAGES"
  have "push_bit 12 (of_nat i :: u32) = of_nat (i * 4096)" by (simp add: push_bit_eq_mult)
  then have "page_addr i = of_nat (i * 4096 + 1048576)" by (simp add: page_addr_def)
  moreover have "unat (of_nat (i * 4096 + 1048576) :: u32) = i * 4096 + 1048576"
    using i by (simp add: unat_of_nat del: of_nat_add of_nat_mult)
  ultimately show ?thesis by (simp only:)
qed

lemma MAP_NR_page_addr: "i < PAGING_PAGES \<Longrightarrow> MAP_NR (page_addr i) = i"
proof -
  assume i: "i < PAGING_PAGES"
  have "MAP_NR (page_addr i) = unat (push_bit 12 (of_nat i :: u32)) div 4096"
    by (simp add: MAP_NR_def page_addr_def drop_bit_eq_div unat_div)
  also have "unat (push_bit 12 (of_nat i :: u32)) = i * 4096"
    using i by (simp add: push_bit_eq_mult unat_word_ariths unat_of_nat)
  finally show ?thesis by simp
qed

lemma page_addr_nonzero: "i < PAGING_PAGES \<Longrightarrow> page_addr i \<noteq> 0"
  using unat_page_addr [of i] by (metis add_is_0 unat_0 zero_neq_numeral)

lemma page_addr_inj: "i < PAGING_PAGES \<Longrightarrow> j < PAGING_PAGES \<Longrightarrow> page_addr i = page_addr j \<longleftrightarrow> i = j"
  by (metis MAP_NR_page_addr)

lemma page_addr_low: "i < PAGING_PAGES \<Longrightarrow> LOW_MEM \<le> page_addr i"
  by (simp add: word_le_nat_alt unat_page_addr)

lemma scan_free_None: "scan_free mp n = None \<longleftrightarrow> (\<forall>i < n. mp i \<noteq> 0)"
  by (induction n) (auto simp: less_Suc_eq)

lemma scan_free_Some:
  "scan_free mp n = Some i \<longleftrightarrow> i < n \<and> mp i = 0 \<and> (\<forall>j. i < j \<and> j < n \<longrightarrow> mp j \<noteq> 0)"
  by (induction n) (auto simp: less_Suc_eq)

lemma rep_stosl_down_apply:
  "rep_stosl_down n edi ph a = (if a \<in> (\<lambda>k. edi - 4 * of_nat k) ` {..<n} then 0 else ph a)"
proof (induction n arbitrary: edi ph)
  case (Suc n)
  have "(\<lambda>k. edi - 4 * of_nat k) ` {..<Suc n} = insert edi ((\<lambda>k. edi - 4 - 4 * of_nat k) ` {..<n})"
    by (simp add: lessThan_Suc_eq_insert_0 image_image algebra_simps)
  then show ?case by (simp add: Suc)
qed simp

lemma page_words_down: "(\<lambda>k. p + 4092 - 4 * of_nat k) ` {..<1024} = page_words p"
proof -
  have "(\<lambda>k. p + 4092 - 4 * of_nat k) ` {..<1024} = (\<lambda>k. p + 4 * of_nat k) ` (\<lambda>k. 1023 - k) ` {..<1024}"
    unfolding image_image
  proof (rule image_cong [OF refl])
    fix k :: nat assume "k \<in> {..<1024}"
    then show "p + 4092 - 4 * of_nat k = p + 4 * of_nat (1023 - k)"
      by (simp add: of_nat_diff algebra_simps)
  qed
  also have "(\<lambda>k. 1023 - k) ` {..<1024} = {..<1024 :: nat}"
  proof (intro set_eqI iffI)
    fix x :: nat assume "x \<in> {..<1024}"
    then have "x = 1023 - (1023 - x)" "1023 - x \<in> {..<1024}" by auto
    then show "x \<in> (\<lambda>k. 1023 - k) ` {..<1024}" by (rule image_eqI)
  qed auto
  finally show ?thesis by (simp add: page_words_def)
qed

lemma get_free_page_result:
  "if \<forall>i < PAGING_PAGES. mem_map s i \<noteq> 0 then get_free_page s = (0, s)
   else \<exists>i s'. i < PAGING_PAGES \<and> mem_map s i = 0 \<and>
     (\<forall>j. i < j \<and> j < PAGING_PAGES \<longrightarrow> mem_map s j \<noteq> 0) \<and>
     get_free_page s = (page_addr i, s') \<and> page_addr i \<noteq> 0 \<and>
     mem_map s' = (mem_map s)(i := 1) \<and> HIGH_MEMORY s' = HIGH_MEMORY s \<and>
     (\<forall>a. rd a s' = (if a \<in> page_words (page_addr i) then 0 else rd a s))"
proof (cases "scan_free (mem_map s) PAGING_PAGES")
  case None
  moreover from this have "\<forall>i < PAGING_PAGES. mem_map s i \<noteq> 0" by (simp only: scan_free_None)
  ultimately show ?thesis by (simp add: get_free_page_def)
next
  case (Some i)
  then have i: "i < PAGING_PAGES" "mem_map s i = 0"
    "\<forall>j. i < j \<and> j < PAGING_PAGES \<longrightarrow> mem_map s j \<noteq> 0"
    unfolding scan_free_Some by blast+
  let ?s = "s\<lparr>mem_map := (mem_map s)(i := 1),
              phys := rep_stosl_down 1024 (page_addr i + 4092) (phys s)\<rparr>"
  have "get_free_page s = (page_addr i, ?s)"
    using Some by (simp only: get_free_page_def option.case page_addr_def Let_def)
  moreover have "rd a ?s = (if a \<in> page_words (page_addr i) then 0 else rd a s)" for a
    by (simp add: rd_def rep_stosl_down_apply page_words_down)
  ultimately show ?thesis
    using i page_addr_nonzero [OF i(1)] by auto
qed

text \<open>
  \<open>get_free_page\<close> returns 0 and changes nothing exactly when no page is free; otherwise it
  takes the highest free page, counts one reference to it, clears its 1024 words and leaves the
  rest of memory alone.
\<close>

theorem get_free_page_spec:
  "if \<forall>i < PAGING_PAGES. mem_map s i \<noteq> 0 then get_free_page s = (0, s)
   else \<exists>i s'. i < PAGING_PAGES \<and> mem_map s i = 0 \<and>
     (\<forall>j. i < j \<and> j < PAGING_PAGES \<longrightarrow> mem_map s j \<noteq> 0) \<and>
     get_free_page s = (page_addr i, s') \<and> page_addr i \<noteq> 0 \<and>
     mem_map s' = (mem_map s)(i := 1) \<and> HIGH_MEMORY s' = HIGH_MEMORY s \<and>
     (\<forall>a. rd a s' = (if a \<in> page_words (page_addr i) then 0 else rd a s))"
  by (rule get_free_page_result)

subsection \<open>The contract of the allocator\<close>

text \<open>
  What a client of the allocator relies on: a page it gets is not in use by anybody, and a page
  with one reference that is given back is free again.  \<open>in_use\<close> are the pages with a
  reference, \<open>exclusive\<close> those with exactly one.
\<close>

locale page_allocator =
  fixes get :: "'s \<Rightarrow> u32 \<times> 's"
    and give :: "u32 \<Rightarrow> 's \<Rightarrow> 's kres"
    and in_use :: "'s \<Rightarrow> u32 set"
    and exclusive :: "'s \<Rightarrow> u32 set"
    and ok :: "'s \<Rightarrow> bool"
  assumes exclusive_in_use: "exclusive s \<subseteq> in_use s"
    and get_none: "get s = (0, s') \<Longrightarrow> s' = s"
    and get_page: "ok s \<Longrightarrow> get s = (p, s') \<Longrightarrow> p \<noteq> 0 \<Longrightarrow>
      p \<notin> in_use s \<and> in_use s' = insert p (in_use s) \<and> exclusive s' = insert p (exclusive s) \<and> ok s'"
    and give_page: "ok s \<Longrightarrow> p \<in> exclusive s \<Longrightarrow>
      \<exists>s'. give p s = Inr s' \<and> in_use s' = in_use s - {p} \<and> exclusive s' = exclusive s - {p} \<and> ok s'"
begin

text \<open>Getting pages one after the other.\<close>

primrec get_many :: "nat \<Rightarrow> 's \<Rightarrow> u32 list \<times> 's" where
  "get_many 0 s = ([], s)"
| "get_many (Suc n) s =
     (let (p, s) = get s in if p = 0 then ([], s) else let (ps, s) = get_many n s in (p # ps, s))"

lemma get_many_distinct:
  "ok s \<Longrightarrow> get_many n s = (ps, s') \<Longrightarrow>
   distinct ps \<and> 0 \<notin> set ps \<and> set ps \<inter> in_use s = {} \<and> in_use s' = set ps \<union> in_use s \<and>
   set ps \<subseteq> exclusive s' \<and> exclusive s \<subseteq> exclusive s' \<and> ok s'"
proof (induction n arbitrary: s ps s')
  case (Suc n)
  obtain p s1 where g: "get s = (p, s1)" by fastforce
  show ?case
  proof (cases "p = 0")
    case True
    with g get_none [of s s1] Suc.prems show ?thesis by auto
  next
    case False
    obtain qs s2 where m: "get_many n s1 = (qs, s2)" by fastforce
    have s1: "p \<notin> in_use s" "in_use s1 = insert p (in_use s)"
      "exclusive s1 = insert p (exclusive s)" "ok s1"
      using get_page [OF Suc.prems(1) g False] by auto
    show ?thesis
      using Suc.IH [OF s1(4) m] Suc.prems(2) g m False s1(1-3) by (auto simp: Let_def)
  qed
qed auto

lemma get_give:
  assumes "ok s" and "get s = (p, s')" and "p \<noteq> 0"
  shows "\<exists>s''. give p s' = Inr s'' \<and> in_use s'' = in_use s \<and> ok s''"
proof -
  have "p \<notin> in_use s" "in_use s' = insert p (in_use s)" "exclusive s' = insert p (exclusive s)" "ok s'"
    using get_page [OF assms] by auto
  then show ?thesis using give_page [of s' p] by fastforce
qed

end

text \<open>
  The kernel's allocator: no free page lies at or above the end of memory (pages there are
  marked used for ever by \<open>mem_init\<close>).
\<close>

definition pages_in_use :: "mm \<Rightarrow> u32 set" where
  "pages_in_use s = page_addr ` {i. i < PAGING_PAGES \<and> mem_map s i \<noteq> 0}"

definition pages_exclusive :: "mm \<Rightarrow> u32 set" where
  "pages_exclusive s =
     page_addr ` {i. i < PAGING_PAGES \<and> mem_map s i = 1 \<and> page_addr i < HIGH_MEMORY s}"

definition mm_ok :: "mm \<Rightarrow> bool" where
  "mm_ok s \<longleftrightarrow> (\<forall>i < PAGING_PAGES. mem_map s i = 0 \<longrightarrow> page_addr i < HIGH_MEMORY s)"

lemma page_addr_image_insert:
  "i < PAGING_PAGES \<Longrightarrow> page_addr ` {j. j < PAGING_PAGES \<and> (j = i \<or> P j)} =
     insert (page_addr i) (page_addr ` {j. j < PAGING_PAGES \<and> P j})"
  by auto

lemma page_addr_image_remove:
  "i < PAGING_PAGES \<Longrightarrow> page_addr ` {j. j < PAGING_PAGES \<and> j \<noteq> i \<and> P j} =
     page_addr ` {j. j < PAGING_PAGES \<and> P j} - {page_addr i}"
  using page_addr_inj by auto

lemma get_free_page_cases:
  obtains (none) "get_free_page s = (0, s)" "\<forall>i < PAGING_PAGES. mem_map s i \<noteq> 0"
  | (page) i s' where "i < PAGING_PAGES" "mem_map s i = 0" "get_free_page s = (page_addr i, s')"
      "page_addr i \<noteq> 0" "mem_map s' = (mem_map s)(i := 1)" "HIGH_MEMORY s' = HIGH_MEMORY s"
      "\<And>a. rd a s' = (if a \<in> page_words (page_addr i) then 0 else rd a s)"
proof (cases "\<forall>i < PAGING_PAGES. mem_map s i \<noteq> 0")
  case True
  then show ?thesis using get_free_page_result [of s] none by (simp only: if_True)
next
  case False
  then show ?thesis using get_free_page_result [of s] page by (simp only: if_False) blast
qed

lemma get_free_page_get:
  assumes ok: "mm_ok s" and get: "get_free_page s = (p, s')" and "p \<noteq> 0"
  shows "p \<notin> pages_in_use s \<and> pages_in_use s' = insert p (pages_in_use s) \<and>
    pages_exclusive s' = insert p (pages_exclusive s) \<and> mm_ok s'"
proof (rule get_free_page_cases [of s])
  fix i t assume i: "i < PAGING_PAGES" "mem_map s i = 0" "get_free_page s = (page_addr i, t)"
    "mem_map t = (mem_map s)(i := 1)" "HIGH_MEMORY t = HIGH_MEMORY s"
  then have t: "t = s'" "p = page_addr i" using get by auto
  have "page_addr i < HIGH_MEMORY s" using ok i by (simp add: mm_ok_def)
  have "{j. j < PAGING_PAGES \<and> mem_map s' j \<noteq> 0} = {j. j < PAGING_PAGES \<and> (j = i \<or> mem_map s j \<noteq> 0)}"
    "{j. j < PAGING_PAGES \<and> mem_map s' j = 1 \<and> page_addr j < HIGH_MEMORY s'} =
     {j. j < PAGING_PAGES \<and> (j = i \<or> mem_map s j = 1 \<and> page_addr j < HIGH_MEMORY s)}"
    using i(1,4,5) t \<open>page_addr i < HIGH_MEMORY s\<close> by auto
  then have "pages_in_use s' = insert p (pages_in_use s)"
    "pages_exclusive s' = insert p (pages_exclusive s)"
    unfolding pages_in_use_def pages_exclusive_def t(2)
    by (simp_all only: page_addr_image_insert [OF i(1)])
  moreover have "p \<notin> pages_in_use s"
    using i(1,2) page_addr_inj by (auto simp: pages_in_use_def t(2))
  moreover have "mm_ok s'" using ok i(4,5) t by (auto simp: mm_ok_def)
  ultimately show ?thesis by blast
qed (use get \<open>p \<noteq> 0\<close> in auto)

lemma free_page_exclusive:
  assumes ok: "mm_ok s" and p: "p \<in> pages_exclusive s"
  shows "\<exists>s'. free_page p s = Inr s' \<and> pages_in_use s' = pages_in_use s - {p} \<and>
    pages_exclusive s' = pages_exclusive s - {p} \<and> mm_ok s'"
proof -
  obtain i where i: "i < PAGING_PAGES" "p = page_addr i" "mem_map s i = 1" "page_addr i < HIGH_MEMORY s"
    using p by (auto simp: pages_exclusive_def)
  let ?s = "set_map i 0 s"
  have "free_page p s = Inr ?s"
    using i page_addr_low [OF i(1)] by (simp add: free_page_def MAP_NR_page_addr not_less not_le)
  moreover have "{j. j < PAGING_PAGES \<and> mem_map ?s j \<noteq> 0} = {j. j < PAGING_PAGES \<and> j \<noteq> i \<and> mem_map s j \<noteq> 0}"
    "{j. j < PAGING_PAGES \<and> mem_map ?s j = 1 \<and> page_addr j < HIGH_MEMORY ?s} =
     {j. j < PAGING_PAGES \<and> j \<noteq> i \<and> mem_map s j = 1 \<and> page_addr j < HIGH_MEMORY s}"
    by (auto simp: set_map_def)
  then have "pages_in_use ?s = pages_in_use s - {p}"
    "pages_exclusive ?s = pages_exclusive s - {p}"
    unfolding pages_in_use_def pages_exclusive_def i(2)
    by (simp_all only: page_addr_image_remove [OF i(1)])
  moreover have "mm_ok ?s" using ok i by (auto simp: mm_ok_def set_map_def)
  ultimately show ?thesis by blast
qed

interpretation pages: page_allocator get_free_page free_page pages_in_use pages_exclusive mm_ok
proof unfold_locales
  fix s s' :: mm
  show "pages_exclusive s \<subseteq> pages_in_use s"
    by (auto simp: pages_exclusive_def pages_in_use_def)
  show "s' = s" if "get_free_page s = (0, s')"
    by (rule get_free_page_cases [of s]) (use that in auto)
qed (use get_free_page_get free_page_exclusive in blast)+

text \<open>
  a page taken by \<open>get_free_page\<close> and given back by \<open>free_page\<close> leaves the pages in use as
  they were, with no panic.
\<close>

theorem get_free_page_roundtrip:
  assumes "mm_ok s" and "get_free_page s = (p, s')" and "p \<noteq> 0"
  shows "\<exists>s''. free_page p s' = Inr s'' \<and> pages_in_use s'' = pages_in_use s \<and> mm_ok s''"
  using assms by (rule pages.get_give)

definition demo_mm :: mm where
  "demo_mm = \<lparr>mem_map = (\<lambda>i. if i = 5 then 0 else 1), HIGH_MEMORY = 0x1000000,
     phys = (\<lambda>_. 0), klog = []\<rparr>"

lemma demo_mm_get: "get_free_page demo_mm = (page_addr 5, snd (get_free_page demo_mm))"
proof (rule get_free_page_cases [of demo_mm])
  assume "\<forall>i < PAGING_PAGES. mem_map demo_mm i \<noteq> 0"
  then have "mem_map demo_mm 5 \<noteq> 0" by simp
  then show ?thesis by (simp add: demo_mm_def)
next
  fix i s' assume "mem_map demo_mm i = 0" "get_free_page demo_mm = (page_addr i, s')"
  then show ?thesis by (simp add: demo_mm_def split: if_splits)
qed

lemma demo_mm_ok: "mm_ok demo_mm"
proof -
  have "page_addr i < 0x1000000" if "i < PAGING_PAGES" for i
    using that by (simp add: word_less_nat_alt unat_page_addr)
  then show ?thesis by (simp add: mm_ok_def demo_mm_def)
qed

theorem get_free_page_spec_witness:
  "mem_map (snd (get_free_page demo_mm)) = (mem_map demo_mm)(5 := 1)"
proof -
  have "\<not> (\<forall>i < PAGING_PAGES. mem_map demo_mm i \<noteq> 0)"
    by (auto simp: demo_mm_def intro!: exI [of _ 5])
  with get_free_page_spec [of demo_mm] obtain i s' where
    "mem_map demo_mm i = 0" "get_free_page demo_mm = (page_addr i, s')" "mem_map s' = (mem_map demo_mm)(i := 1)"
    by (auto split: if_splits)
  then show ?thesis by (simp add: demo_mm_def split: if_splits)
qed

theorem get_free_page_roundtrip_witness:
  "\<exists>s''. free_page (page_addr 5) (snd (get_free_page demo_mm)) = Inr s'' \<and>
     pages_in_use s'' = pages_in_use demo_mm"
  using get_free_page_roundtrip [OF demo_mm_ok demo_mm_get page_addr_nonzero] by auto

section \<open>Copy on write\<close>

lemma page_words_frame:
  assumes "unat p mod 4096 = 0" and "a \<in> page_words p"
  shows "unat a div 4096 = unat p div 4096"
proof -
  obtain k where k: "k < 1024" "a = p + 4 * of_nat k"
    using assms(2) by (auto simp: page_words_def)
  obtain q where q: "unat p = 4096 * q" using assms(1) by (auto simp: mod_eq_0_iff_dvd elim: dvdE)
  have "unat (4 * of_nat k :: u32) = 4 * k"
    using k(1) by (simp add: unat_word_ariths unat_of_nat)
  moreover have "unat p + 4096 \<le> 4294967296"
  proof -
    have "q < 1048576" using unat_u32_less [of p] unfolding q by linarith
    then show ?thesis unfolding q by linarith
  qed
  ultimately have "unat a = 4096 * q + 4 * k"
    using k q by (simp add: unat_add_no_wrap)
  with k(1) q show ?thesis by simp
qed

lemma page_words_disjoint:
  assumes "unat p mod 4096 = 0" and "unat q mod 4096 = 0" and "p \<noteq> q"
  shows "page_words p \<inter> page_words q = {}"
proof -
  have "unat p div 4096 \<noteq> unat q div 4096"
    using assms by (metis div_mult_mod_eq word_unat_eq_iff)
  then show ?thesis using page_words_frame assms(1,2) by (metis disjoint_iff)
qed

lemma frame_aligned: "unat (0xfffff000 AND e :: u32) mod 4096 = 0"
proof -
  have "(0xfffff000 AND e) AND mask 12 = (0 :: u32)"
  proof -
    have "(0xfffff000 AND e) AND 0xfff = (0xfffff000 AND 0xfff) AND e"
      by (simp only: and.assoc and.commute and.left_commute)
    then show ?thesis by (simp add: mask_eq_exp_minus_1)
  qed
  then have "unat ((0xfffff000 AND e) AND mask 12) = 0" by simp
  then show ?thesis by (simp only: unat_and_mask) simp
qed

lemma page_addr_aligned: "i < PAGING_PAGES \<Longrightarrow> unat (page_addr i) mod 4096 = 0"
  by (simp add: unat_page_addr)

lemma rep_movsl_apply:
  "(\<And>j k. j < n \<Longrightarrow> k < n \<Longrightarrow> esi + 4 * of_nat j \<noteq> edi + 4 * of_nat k) \<Longrightarrow>
   rep_movsl n esi edi ph a =
     (if a \<in> (\<lambda>k. edi + 4 * of_nat k) ` {..<n} then ph (esi + (a - edi)) else ph a)"
proof (induction n arbitrary: esi edi ph)
  case (Suc n)
  have shift: "esi + 4 + 4 * of_nat j \<noteq> edi + 4 + 4 * of_nat k" if "j < n" "k < n" for j k
    using Suc.prems [of j k] that by (simp add: algebra_simps)
  have "esi + 4 * of_nat (Suc k) \<noteq> edi" if "k < n" for k
    using Suc.prems [of "Suc k" 0] that by simp
  moreover have "(\<lambda>k. edi + 4 * of_nat k) ` {..<Suc n} = insert edi ((\<lambda>k. edi + 4 + 4 * of_nat k) ` {..<n})"
    by (simp add: lessThan_Suc_eq_insert_0 image_image algebra_simps)
  moreover have "rep_movsl n (esi + 4) (edi + 4) (ph(edi := ph esi)) a =
     (if a \<in> (\<lambda>k. edi + 4 + 4 * of_nat k) ` {..<n} then (ph(edi := ph esi)) (esi + 4 + (a - (edi + 4)))
      else (ph(edi := ph esi)) a)"
    by (rule Suc.IH) (use shift in blast)
  ultimately show ?case by (auto simp: algebra_simps)
qed simp

lemma copy_page_apply:
  assumes "page_words from \<inter> page_words to = {}"
  shows "rd a (copy_page from to s) = (if a \<in> page_words to then rd (from + (a - to)) s else rd a s)"
proof -
  have "from + 4 * of_nat j \<noteq> to + 4 * of_nat k" if "j < 1024" "k < 1024" for j k
    using assms that unfolding page_words_def by blast
  then show ?thesis
    by (simp add: copy_page_def rd_def page_words_def rep_movsl_apply)
qed

lemma rd_wr [simp]: "rd a (wr b v s) = (if a = b then v else rd a s)"
  by (simp add: rd_def wr_def)

lemma rd_set_map [simp]: "rd a (set_map i v s) = rd a s"
  by (simp add: rd_def set_map_def)

lemma mem_map_wr [simp]: "mem_map (wr a v s) = mem_map s"
  by (simp add: wr_def)

lemma mem_map_set_map [simp]: "mem_map (set_map i v s) = (mem_map s)(i := v)"
  by (simp add: set_map_def)

lemma mem_map_copy_page [simp]: "mem_map (copy_page f t s) = mem_map s"
  by (simp add: copy_page_def)

text \<open>
  The page a table entry names is a page of low memory or a page of main memory that is in use,
  and the entry itself is not inside that page or inside a free page.
\<close>

definition entry_ok :: "u32 \<Rightarrow> mm \<Rightarrow> bool" where
  "entry_ok te s \<longleftrightarrow>
     (let old = 0xfffff000 AND rd te s
      in (old < LOW_MEM \<or> (\<exists>j < PAGING_PAGES. old = page_addr j \<and> mem_map s j \<noteq> 0)) \<and>
         te \<notin> page_words old \<and>
         (\<forall>i < PAGING_PAGES. mem_map s i = 0 \<longrightarrow> te \<notin> page_words (page_addr i)))"

lemma entry_ok_fault:
  assumes "entry_ok te s"
  shows "\<not> (LOW_MEM \<le> (0xfffff000 AND rd te s) \<and> PAGING_PAGES \<le> MAP_NR (0xfffff000 AND rd te s))"
  using assms MAP_NR_page_addr unfolding entry_ok_def Let_def by (metis not_le)

text \<open>
  copy on write.  A page with one reference becomes writable in place; a page with more, or
  of low memory, is copied to a fresh page: the entry then names the copy, present and
  writable, whose words are those of the old page, the old page loses one reference, and no
  other word of memory changes.  Without a free page the task is ended.
\<close>

theorem un_wp_page_copies:
  assumes ok: "entry_ok te s" and "old = 0xfffff000 AND rd te s"
  shows "if LOW_MEM \<le> old \<and> mem_map s (MAP_NR old) = 1
      then un_wp_page te s = Inr (wr te (rd te s OR 2) s)
    else if \<forall>i < PAGING_PAGES. mem_map s i \<noteq> 0 then un_wp_page te s = Inl (Exit SIGSEGV)
    else \<exists>i s'. i < PAGING_PAGES \<and> mem_map s i = 0 \<and> un_wp_page te s = Inr s' \<and>
      rd te s' = page_addr i OR 7 \<and>
      (\<forall>k < 1024. rd (page_addr i + 4 * of_nat k) s' = rd (old + 4 * of_nat k) s) \<and>
      (\<forall>a. a \<noteq> te \<longrightarrow> a \<notin> page_words (page_addr i) \<longrightarrow> rd a s' = rd a s) \<and>
      mem_map s' = (if LOW_MEM \<le> old
                    then (mem_map s)(i := 1, MAP_NR old := mem_map s (MAP_NR old) - 1)
                    else (mem_map s)(i := 1))"
proof (cases "LOW_MEM \<le> old \<and> mem_map s (MAP_NR old) = 1")
  case True
  then show ?thesis
    using entry_ok_fault [OF ok] by (simp add: un_wp_page_def assms(2) Let_def)
next
  case shared: False
  note fault = entry_ok_fault [OF ok]
  show ?thesis
  proof (rule get_free_page_cases [of s])
    assume "get_free_page s = (0, s)" "\<forall>i < PAGING_PAGES. mem_map s i \<noteq> 0"
    with shared fault show ?thesis
      by (simp add: un_wp_page_def assms(2) Let_def oom_def)
  next
    fix i s1 assume i: "i < PAGING_PAGES" "mem_map s i = 0" "get_free_page s = (page_addr i, s1)"
      "page_addr i \<noteq> 0" "mem_map s1 = (mem_map s)(i := 1)"
      "\<And>a. rd a s1 = (if a \<in> page_words (page_addr i) then 0 else rd a s)"
    define s2 where "s2 = (if LOW_MEM \<le> old
        then set_map (MAP_NR old) (mem_map s1 (MAP_NR old) - 1) s1 else s1)"
    define s3 where "s3 = copy_page old (page_addr i) (wr te (page_addr i OR 7) s2)"
    have te: "te \<notin> page_words old" "te \<notin> page_words (page_addr i)"
      using ok i unfolding entry_ok_def Let_def assms(2) by blast+
    have old: "old < LOW_MEM \<or> (\<exists>j < PAGING_PAGES. old = page_addr j \<and> mem_map s j \<noteq> 0)"
      using ok unfolding entry_ok_def Let_def assms(2) by blast
    then have ne: "old \<noteq> page_addr i" "LOW_MEM \<le> old \<Longrightarrow> MAP_NR old \<noteq> i"
      using i(1,2) page_addr_low [OF i(1)] MAP_NR_page_addr by (metis not_less)+
    have disj: "page_words old \<inter> page_words (page_addr i) = {}"
      using ne(1) page_addr_aligned [OF i(1)] frame_aligned
      by (intro page_words_disjoint) (auto simp: assms(2))
    have "un_wp_page te s = Inr s3"
      using shared fault i by (auto simp: un_wp_page_def assms(2) Let_def s2_def s3_def)
    moreover have rd3: "rd a s3 = (if a \<in> page_words (page_addr i)
        then rd (old + (a - page_addr i)) (wr te (page_addr i OR 7) s2)
        else rd a (wr te (page_addr i OR 7) s2))" for a
      unfolding s3_def by (rule copy_page_apply [OF disj])
    have rd2: "rd a s2 = rd a s1" for a by (simp add: s2_def)
    have "rd te s3 = page_addr i OR 7" using te by (simp add: rd3)
    moreover have "rd (page_addr i + 4 * of_nat k) s3 = rd (old + 4 * of_nat k) s" if "k < 1024" for k
    proof -
      have "old + 4 * of_nat k \<in> page_words old" "page_addr i + 4 * of_nat k \<in> page_words (page_addr i)"
        using that by (auto simp: page_words_def)
      then show ?thesis using te disj by (auto simp: rd3 rd2 i(6))
    qed
    moreover have "rd a s3 = rd a s" if "a \<noteq> te" "a \<notin> page_words (page_addr i)" for a
      using that by (simp add: rd3 rd2 i(6))
    moreover have "mem_map s3 = (if LOW_MEM \<le> old
        then (mem_map s)(i := 1, MAP_NR old := mem_map s (MAP_NR old) - 1) else (mem_map s)(i := 1))"
      using ne(2) by (simp add: s3_def s2_def i(5))
    moreover have "\<not> (\<forall>i < PAGING_PAGES. mem_map s i \<noteq> 0)" using i(1,2) by blast
    ultimately show ?thesis using i(1,2) shared by (simp only: if_False) blast
  qed
qed

definition demo_cow :: mm where
  "demo_cow = demo_mm\<lparr>mem_map := (mem_map demo_mm)(7 := 2), phys := (\<lambda>_. 0)(0x2000 := 0x107005)\<rparr>"

lemma demo_cow_entry: "entry_ok 0x2000 demo_cow" "page_addr 7 = 0xfffff000 AND rd 0x2000 demo_cow"
proof -
  show frame: "page_addr 7 = 0xfffff000 AND rd 0x2000 demo_cow"
    by (simp add: demo_cow_def rd_def page_addr_def)
  have "0x2000 \<notin> page_words (page_addr i)" if "i < PAGING_PAGES" for i
  proof
    assume "0x2000 \<in> page_words (page_addr i)"
    then have "unat (0x2000 :: u32) div 4096 = unat (page_addr i) div 4096"
      by (rule page_words_frame [OF page_addr_aligned [OF that]])
    then show False using that by (simp add: unat_page_addr)
  qed
  moreover have "mem_map demo_cow 7 \<noteq> 0" "7 < PAGING_PAGES" by (simp_all add: demo_cow_def)
  ultimately show "entry_ok 0x2000 demo_cow"
    unfolding entry_ok_def Let_def frame [symmetric] by blast
qed

theorem un_wp_page_copies_witness:
  "\<exists>i s'. un_wp_page 0x2000 demo_cow = Inr s' \<and> rd 0x2000 s' = page_addr i OR 7 \<and>
     mem_map s' 7 = 1"
proof -
  have free: "\<not> (\<forall>i < PAGING_PAGES. mem_map demo_cow i \<noteq> 0)"
    by (auto simp: demo_cow_def demo_mm_def intro!: exI [of _ 5])
  have nr: "MAP_NR (page_addr 7) = 7" "LOW_MEM \<le> page_addr 7" "mem_map demo_cow 7 = 2"
    by (simp_all add: MAP_NR_page_addr page_addr_low demo_cow_def)
  show ?thesis
    using un_wp_page_copies [OF demo_cow_entry] free nr
    by (simp only: nr if_False) auto
qed

section \<open>Sharing pages at fork and dropping them at exit\<close>

definition words :: "u32 \<Rightarrow> nat \<Rightarrow> u32 set" where
  "words p n = (\<lambda>k. p + 4 * of_nat k) ` {..<n}"

lemma words_Suc: "words p (Suc n) = insert p (words (p + 4) n)"
  by (simp add: words_def lessThan_Suc_eq_insert_0 image_image algebra_simps)

lemma word4_inj:
  assumes "(4 * of_nat j :: u32) = 4 * of_nat k" and "j < 1073741824" and "k < 1073741824"
  shows "j = k"
proof -
  have "unat (of_nat (4 * j) :: u32) = unat (of_nat (4 * k) :: u32)" using assms(1) by simp
  then show ?thesis using assms(2,3) by (simp add: unat_of_nat del: of_nat_mult)
qed

lemma words_fresh: "n < 1073741823 \<Longrightarrow> p \<notin> words (p + 4) n"
proof
  assume n: "n < 1073741823" and "p \<in> words (p + 4) n"
  then obtain k where "k < n" "p = p + 4 + 4 * of_nat k" by (auto simp: words_def)
  then have "(4 * of_nat (Suc k) :: u32) = 4 * of_nat 0" by (simp add: algebra_simps)
  then have "Suc k = 0" using \<open>k < n\<close> n by (intro word4_inj) auto
  then show False by simp
qed

subsection \<open>Table entries\<close>

text \<open>An entry that names a page of main memory, and the page.\<close>

definition refers :: "u32 \<Rightarrow> nat \<Rightarrow> bool" where
  "refers e i \<longleftrightarrow> 1 AND e \<noteq> 0 \<and> LOW_MEM \<le> (0xfffff000 AND e) \<and> MAP_NR (0xfffff000 AND e) = i"

lemma unat_frame: "unat (0xfffff000 AND e :: u32) = 4096 * (unat e div 4096)"
proof -
  have "(0xfffff000 :: u32) = NOT (mask 12)" by (simp add: mask_eq_exp_minus_1)
  then have "0xfffff000 AND e = push_bit 12 (drop_bit 12 e)" by (metis not_mask_and)
  then have "unat (0xfffff000 AND e) = unat (drop_bit 12 e) * 4096 mod 4294967296"
    by (simp add: push_bit_eq_mult unat_word_ariths)
  moreover have "unat e div 4096 * 4096 < 4294967296"
    using unat_u32_less [of e] div_times_less_eq_dividend [of "unat e" 4096] by linarith
  ultimately show ?thesis by (simp add: unat_drop_bit_12)
qed

lemma MAP_NR_div: "LOW_MEM \<le> x \<Longrightarrow> MAP_NR x = unat x div 4096 - 256"
proof -
  assume "LOW_MEM \<le> x"
  then have "unat (x - LOW_MEM) = unat x - 1048576" "1048576 \<le> unat x"
    by (simp_all add: unat_sub word_le_nat_alt)
  then show ?thesis
    by (simp add: MAP_NR_def drop_bit_eq_div unat_div)
qed

lemma unprotected_div: "unat (e AND NOT 2 :: u32) div 4096 = unat e div 4096"
proof -
  have "drop_bit 12 (e AND NOT 2) = drop_bit 12 e"
    by (rule drop_bit_and_not) (simp add: bit_2_iff)
  then show ?thesis by (metis unat_drop_bit_12)
qed

lemma present_odd: "1 AND e \<noteq> (0 :: u32) \<Longrightarrow> odd (unat (e AND NOT 2))"
proof -
  assume "1 AND e \<noteq> (0 :: u32)"
  then have "bit e 0" by (simp only: one_and_bit)
  then have "bit (e AND NOT 2) 0"
    using bit_and_not [of 2 0 e] by (simp only: bit_2_iff) simp
  then show ?thesis by (rule bit_0_odd)
qed

lemma present_above_low:
  assumes "1 AND e \<noteq> (0 :: u32)"
  shows "LOW_MEM < (e AND NOT 2) \<longleftrightarrow> LOW_MEM \<le> (0xfffff000 AND e)"
proof -
  define x where "x = e AND NOT 2"
  have x: "unat x div 4096 = unat e div 4096" "odd (unat x)"
    unfolding x_def by (rule unprotected_div, rule present_odd [OF assms])
  have "unat x = 4096 * (unat x div 4096) + unat x mod 4096" "unat x mod 4096 < 4096" by simp_all
  then have "1048576 \<le> unat x \<longleftrightarrow> 256 \<le> unat x div 4096" by linarith
  moreover have "unat x \<noteq> 1048576" using x(2) by auto
  ultimately have "1048576 < unat x \<longleftrightarrow> 1048576 \<le> 4096 * (unat e div 4096)"
    unfolding x(1) by linarith
  then show ?thesis
    unfolding x_def [symmetric] word_less_nat_alt word_le_nat_alt unat_frame by simp
qed

lemma present_refers:
  assumes "1 AND e \<noteq> (0 :: u32)" and "LOW_MEM < (e AND NOT 2)"
  shows "refers e i \<longleftrightarrow> MAP_NR (e AND NOT 2) = i"
proof -
  have "LOW_MEM \<le> (0xfffff000 AND e)" using assms present_above_low by blast
  moreover have "LOW_MEM \<le> (e AND NOT 2)" using assms(2) by (rule less_imp_le)
  ultimately show ?thesis
    using assms(1) by (simp only: refers_def MAP_NR_div unprotected_div unat_frame) simp
qed

subsection \<open>Copying and freeing one table\<close>

definition parent_entry :: "u32 \<Rightarrow> u32" where
  "parent_entry e = (if 1 AND e \<noteq> 0 \<and> LOW_MEM < (e AND NOT 2) then e AND NOT 2 else e)"

definition child_entry :: "u32 \<Rightarrow> u32 \<Rightarrow> u32" where
  "child_entry e old = (if 1 AND e \<noteq> 0 then e AND NOT 2 else old)"

definition refs :: "(nat \<Rightarrow> u32) \<Rightarrow> nat \<Rightarrow> nat \<Rightarrow> nat" where
  "refs E n i = (\<Sum>k<n. if refers (E k) i then 1 else 0)"

lemma refs_0 [simp]: "refs E 0 i = 0"
  by (simp add: refs_def)

lemma refs_Suc: "refs E (Suc n) i = (if refers (E 0) i then 1 else 0) + refs (\<lambda>k. E (Suc k)) n i"
  unfolding refs_def sum.lessThan_Suc_shift ..

lemma refs_cong: "(\<And>k. k < n \<Longrightarrow> E k = E' k) \<Longrightarrow> refs E n i = refs E' n i"
  by (simp add: refs_def)

definition tab :: "mm \<Rightarrow> u32 \<Rightarrow> nat \<Rightarrow> u32" where
  "tab s p k = rd (p + 4 * of_nat k) s"

text \<open>Every entry of a table that names a page above low memory names one of main memory.\<close>

definition table_ok :: "mm \<Rightarrow> u32 \<Rightarrow> nat \<Rightarrow> bool" where
  "table_ok s p n \<longleftrightarrow>
     (\<forall>k < n. \<forall>i. refers (tab s p k) i \<longrightarrow>
        i < PAGING_PAGES \<and> (0xfffff000 AND tab s p k) < HIGH_MEMORY s)"

lemma tab_0: "tab s p 0 = rd p s"
  by (simp add: tab_def)

lemma tab_Suc: "tab s p (Suc k) = tab s (p + 4) k"
  by (simp add: tab_def algebra_simps)

lemma table_ok_Suc:
  "table_ok s p (Suc n) \<longleftrightarrow>
     (\<forall>i. refers (rd p s) i \<longrightarrow> i < PAGING_PAGES \<and> (0xfffff000 AND rd p s) < HIGH_MEMORY s) \<and>
     table_ok s (p + 4) n"
  unfolding table_ok_def All_less_Suc2 tab_0 tab_Suc by simp

lemma HIGH_MEMORY_simps [simp]:
  "HIGH_MEMORY (wr a v s) = HIGH_MEMORY s" "HIGH_MEMORY (set_map i w s) = HIGH_MEMORY s"
  by (simp_all add: wr_def set_map_def)

lemma table_cong:
  assumes "\<And>a. a \<in> words p n \<Longrightarrow> rd a s = rd a s'" and "HIGH_MEMORY s = HIGH_MEMORY s'"
  shows "table_ok s p n = table_ok s' p n" "refs (tab s p) n = refs (tab s' p) n"
proof -
  have "tab s p k = tab s' p k" if "k < n" for k
    using assms(1) that by (auto simp: tab_def words_def)
  then show "table_ok s p n = table_ok s' p n" "refs (tab s p) n = refs (tab s' p) n"
    using assms(2) by (auto simp: table_ok_def intro!: refs_cong ext)
qed

text \<open>The first entry of a copy.\<close>

definition copy_first :: "u32 \<Rightarrow> u32 \<Rightarrow> mm \<Rightarrow> mm" where
  "copy_first f t s =
     (let e = rd f s
      in if 1 AND e = 0 then s
         else if LOW_MEM < (e AND NOT 2)
         then set_map (MAP_NR (e AND NOT 2)) (mem_map s (MAP_NR (e AND NOT 2)) + 1)
                (wr f (e AND NOT 2) (wr t (e AND NOT 2) s))
         else wr t (e AND NOT 2) s)"

lemma copy_table_step:
  assumes "table_ok s f (Suc n)"
  shows "copy_table (Suc n) f t s = copy_table n (f + 4) (t + 4) (copy_first f t s)"
proof -
  have "MAP_NR (rd f s AND NOT 2) < PAGING_PAGES"
    if "1 AND rd f s \<noteq> 0" "LOW_MEM < (rd f s AND NOT 2)"
    using assms present_refers [OF that] unfolding table_ok_Suc by blast
  then show ?thesis
    by (auto simp: copy_first_def Let_def not_le)
qed

lemma copy_first_rd:
  "f \<noteq> t \<Longrightarrow> rd a (copy_first f t s) =
     (if a = t then child_entry (rd f s) (rd t s) else if a = f then parent_entry (rd f s) else rd a s)"
  by (auto simp: copy_first_def Let_def child_entry_def parent_entry_def)

lemma copy_first_map:
  "mem_map (copy_first f t s) i = mem_map s i + (if refers (rd f s) i then 1 else 0)"
proof (cases "1 AND rd f s \<noteq> 0 \<and> LOW_MEM < (rd f s AND NOT 2)")
  case True
  then show ?thesis by (auto simp: copy_first_def Let_def present_refers)
next
  case False
  then have "\<not> refers (rd f s) i" using present_above_low unfolding refers_def by blast
  with False show ?thesis by (auto simp: copy_first_def Let_def)
qed

lemma copy_first_HIGH [simp]: "HIGH_MEMORY (copy_first f t s) = HIGH_MEMORY s"
  by (simp add: copy_first_def Let_def)

lemma copy_table_spec:
  "table_ok s f n \<Longrightarrow> n < 1073741823 \<Longrightarrow> words f n \<inter> words t n = {} \<Longrightarrow>
   \<exists>s'. copy_table n f t s = Inr s' \<and> HIGH_MEMORY s' = HIGH_MEMORY s \<and>
     (\<forall>a. rd a s' = (if a \<in> words t n then child_entry (rd (f + (a - t)) s) (rd a s)
                     else if a \<in> words f n then parent_entry (rd a s) else rd a s)) \<and>
     (\<forall>i. mem_map s' i = mem_map s i + of_nat (refs (tab s f) n i))"
proof (induction n arbitrary: f t s)
  case 0
  then show ?case by (simp add: words_def)
next
  case (Suc n)
  have n: "n < 1073741823" using Suc.prems(2) by simp
  let ?s = "copy_first f t s"
  note disj = Suc.prems(3) [unfolded words_Suc]
  have ne: "f \<noteq> t" "f \<notin> words (f + 4) n" "t \<notin> words (t + 4) n" "f \<notin> words (t + 4) n"
    "t \<notin> words (f + 4) n" "words (f + 4) n \<inter> words (t + 4) n = {}"
    using disj words_fresh [OF n] by auto
  have same: "rd a ?s = rd a s" if "a \<in> words (f + 4) n" for a
    using that ne by (auto simp: copy_first_rd)
  have "table_ok ?s (f + 4) n = table_ok s (f + 4) n"
    and refs: "refs (tab ?s (f + 4)) n = refs (tab s (f + 4)) n"
    by (rule table_cong; simp add: same)+
  then have "table_ok ?s (f + 4) n" using Suc.prems(1) by (simp add: table_ok_Suc)
  from Suc.IH [OF this n ne(6)] obtain s' where
    s': "copy_table n (f + 4) (t + 4) ?s = Inr s'" "HIGH_MEMORY s' = HIGH_MEMORY ?s"
      "\<And>a. rd a s' = (if a \<in> words (t + 4) n then child_entry (rd (f + 4 + (a - (t + 4))) ?s) (rd a ?s)
           else if a \<in> words (f + 4) n then parent_entry (rd a ?s) else rd a ?s)"
      "\<And>i. mem_map s' i = mem_map ?s i + of_nat (refs (tab ?s (f + 4)) n i)"
    by blast
  have src: "f + 4 + (a - (t + 4)) = f + (a - t)" "f + (a - t) \<in> words (f + 4) n"
    if "a \<in> words (t + 4) n" for a
    using that by (auto simp: words_def algebra_simps)
  have "rd a s' = (if a \<in> words t (Suc n) then child_entry (rd (f + (a - t)) s) (rd a s)
      else if a \<in> words f (Suc n) then parent_entry (rd a s) else rd a s)" for a
  proof (cases "a \<in> words (t + 4) n")
    case True
    then have "a \<noteq> f" "a \<noteq> t" using ne by auto
    then show ?thesis using True src [OF True] same [of "f + (a - t)"]
      by (simp add: s'(3) words_Suc copy_first_rd [OF ne(1)])
  next
    case False
    then show ?thesis
      using ne same by (auto simp: s'(3) words_Suc copy_first_rd [OF ne(1)])
  qed
  moreover have "mem_map s' i = mem_map s i + of_nat (refs (tab s f) (Suc n) i)" for i
    by (simp add: s'(4) refs copy_first_map refs_Suc tab_0 tab_Suc)
  ultimately show ?case
    using s'(1,2) copy_table_step [OF Suc.prems(1)] by auto
qed

text \<open>
  C33: the page-table copy made at fork.  Every present entry is copied without the write
  permission; every entry that names a page of main memory loses it in the parent too, so that
  neither task can write a page they share; and each page's reference count grows by the number
  of entries that name it.
\<close>

theorem copy_table_protects:
  assumes "table_ok s from n" and "n \<le> 1024" and "words from n \<inter> words to n = {}"
  shows "\<exists>s'. copy_table n from to s = Inr s' \<and>
    (\<forall>k < n. tab s' to k = child_entry (tab s from k) (tab s to k) \<and>
             tab s' from k = parent_entry (tab s from k)) \<and>
    (\<forall>a. a \<notin> words to n \<longrightarrow> a \<notin> words from n \<longrightarrow> rd a s' = rd a s) \<and>
    (\<forall>i. mem_map s' i = mem_map s i + of_nat (refs (tab s from) n i))"
proof -
  obtain s' where s': "copy_table n from to s = Inr s'"
    "\<And>a. rd a s' = (if a \<in> words to n then child_entry (rd (from + (a - to)) s) (rd a s)
          else if a \<in> words from n then parent_entry (rd a s) else rd a s)"
    "\<And>i. mem_map s' i = mem_map s i + of_nat (refs (tab s from) n i)"
    using copy_table_spec [OF assms(1) _ assms(3)] assms(2) by fastforce
  have "tab s' to k = child_entry (tab s from k) (tab s to k) \<and>
      tab s' from k = parent_entry (tab s from k)" if "k < n" for k
  proof -
    have "to + 4 * of_nat k \<in> words to n" "from + 4 * of_nat k \<in> words from n"
      using that by (auto simp: words_def)
    then show ?thesis using assms(3) by (auto simp: tab_def s'(2))
  qed
  then show ?thesis using s' by auto
qed

lemma free_first:
  assumes ok: "table_ok s p (Suc n)" and "\<And>i. refers (rd p s) i \<Longrightarrow> mem_map s i \<noteq> 0"
  shows "\<exists>s1. free_table (Suc n) p s = free_table n (p + 4) s1 \<and> HIGH_MEMORY s1 = HIGH_MEMORY s \<and>
    (\<forall>a. rd a s1 = (if a = p then 0 else rd a s)) \<and>
    (\<forall>i. mem_map s1 i = mem_map s i - (if refers (rd p s) i then 1 else 0))"
proof (cases "\<exists>i. refers (rd p s) i")
  case False
  then have "\<not> (1 AND rd p s \<noteq> 0 \<and> LOW_MEM \<le> (0xfffff000 AND rd p s))" by (auto simp: refers_def)
  then have "free_table (Suc n) p s = free_table n (p + 4) (wr p 0 s)"
    by (auto simp: free_page_def not_le)
  then show ?thesis using False by (intro exI [of _ "wr p 0 s"]) simp
next
  case True
  then obtain i where i: "refers (rd p s) i" by blast
  then have e: "1 AND rd p s \<noteq> 0" "LOW_MEM \<le> (0xfffff000 AND rd p s)"
    "MAP_NR (0xfffff000 AND rd p s) = i" by (auto simp: refers_def)
  have b: "i < PAGING_PAGES" "(0xfffff000 AND rd p s) < HIGH_MEMORY s" "mem_map s i \<noteq> 0"
    using ok i assms(2) unfolding table_ok_Suc by blast+
  have "free_page (0xfffff000 AND rd p s) s = Inr (set_map i (mem_map s i - 1) s)"
    using e b by (simp add: free_page_def not_less not_le)
  then have "free_table (Suc n) p s = free_table n (p + 4) (wr p 0 (set_map i (mem_map s i - 1) s))"
    using e(1) by simp
  moreover have "refers (rd p s) j \<longleftrightarrow> j = i" for j using i e(3) by (auto simp: refers_def)
  ultimately show ?thesis
    by (intro exI [of _ "wr p 0 (set_map i (mem_map s i - 1) s)"]) simp
qed

lemma free_table_spec:
  "table_ok s p n \<Longrightarrow> n < 1073741823 \<Longrightarrow> (\<And>i. refs (tab s p) n i \<le> unat (mem_map s i)) \<Longrightarrow>
   \<exists>s'. free_table n p s = Inr s' \<and>
     (\<forall>a. rd a s' = (if a \<in> words p n then 0 else rd a s)) \<and>
     (\<forall>i. mem_map s' i = mem_map s i - of_nat (refs (tab s p) n i))"
proof (induction n arbitrary: p s)
  case 0
  then show ?case by (simp add: words_def)
next
  case (Suc n)
  have n: "n < 1073741823" using Suc.prems(2) by simp
  have split: "refs (tab s p) (Suc n) i = (if refers (rd p s) i then 1 else 0) + refs (tab s (p + 4)) n i" for i
    by (simp add: refs_Suc tab_0 tab_Suc)
  have pos: "mem_map s i \<noteq> 0" if "refers (rd p s) i" for i
    using Suc.prems(3) [of i] that by (auto simp: split)
  obtain s1 where s1: "free_table (Suc n) p s = free_table n (p + 4) s1" "HIGH_MEMORY s1 = HIGH_MEMORY s"
    "\<And>a. rd a s1 = (if a = p then 0 else rd a s)"
    "\<And>i. mem_map s1 i = mem_map s i - (if refers (rd p s) i then 1 else 0)"
    using free_first [OF Suc.prems(1) pos] by blast
  have same: "rd a s1 = rd a s" if "a \<in> words (p + 4) n" for a
    using that words_fresh [OF n, of p] by (auto simp: s1(3))
  have cong: "table_ok s1 (p + 4) n = table_ok s (p + 4) n" "refs (tab s1 (p + 4)) n = refs (tab s (p + 4)) n"
    by (rule table_cong; simp add: same s1(2))+
  have "refs (tab s1 (p + 4)) n i \<le> unat (mem_map s1 i)" for i
  proof (cases "refers (rd p s) i")
    case True
    then show ?thesis
      using Suc.prems(3) [of i] pos [OF True] by (simp add: cong split s1(4) unat_minus_one)
  next
    case False
    then show ?thesis using Suc.prems(3) [of i] by (simp add: cong split s1(4))
  qed
  moreover have "table_ok s1 (p + 4) n" using Suc.prems(1) cong(1) by (simp add: table_ok_Suc)
  ultimately obtain s' where s': "free_table n (p + 4) s1 = Inr s'"
    "\<And>a. rd a s' = (if a \<in> words (p + 4) n then 0 else rd a s1)"
    "\<And>i. mem_map s' i = mem_map s1 i - of_nat (refs (tab s1 (p + 4)) n i)"
    using Suc.IH [OF _ n, of s1 "p + 4"] by blast
  then have "rd a s' = (if a \<in> words p (Suc n) then 0 else rd a s)" for a
    by (simp add: s1(3) words_Suc)
  moreover have "mem_map s' i = mem_map s i - of_nat (refs (tab s p) (Suc n) i)" for i
    by (simp add: s'(3) s1(4) split cong)
  ultimately show ?case using s'(1) s1(1) by auto
qed

lemma child_frame:
  assumes "1 AND e \<noteq> 0"
  shows "1 AND child_entry e old \<noteq> 0" "0xfffff000 AND child_entry e old = 0xfffff000 AND e"
proof -
  define x where "x = e AND NOT 2"
  have x: "unat x div 4096 = unat e div 4096" unfolding x_def by (rule unprotected_div)
  have "bit x 0"
    using assms bit_and_not [of 2 0 e] unfolding x_def one_and_bit by (simp only: bit_2_iff) simp
  then have "1 AND x \<noteq> 0" by (simp only: one_and_bit)
  moreover have "0xfffff000 AND x = 0xfffff000 AND e"
    by (rule word_unat_eq_iff [THEN iffD2]) (simp only: unat_frame x)
  moreover have "child_entry e old = x" using assms by (auto simp: child_entry_def x_def)
  ultimately show "1 AND child_entry e old \<noteq> 0" "0xfffff000 AND child_entry e old = 0xfffff000 AND e"
    by metis+
qed

lemma child_refers: "refers (child_entry e 0) i = refers e i"
proof (cases "1 AND e \<noteq> 0")
  case True
  then show ?thesis using child_frame [OF True, of 0] unfolding refers_def by metis
next
  case False
  then show ?thesis by (simp add: child_entry_def refers_def)
qed

text \<open>
  C34: a page table copied at fork into an empty table and freed again at exit leaves every
  page's reference count as it was, with no panic, as long as no count passes 255.
\<close>

theorem copy_free_table_roundtrip:
  assumes ok: "table_ok s from n" and n: "n \<le> 1024" and disj: "words from n \<inter> words to n = {}"
    and zero: "\<forall>k < n. tab s to k = 0"
    and fits: "\<forall>i. unat (mem_map s i) + refs (tab s from) n i < 256"
  shows "\<exists>s1 s2. copy_table n from to s = Inr s1 \<and> free_table n to s1 = Inr s2 \<and>
    mem_map s2 = mem_map s"
proof -
  have n': "n < 1073741823" using n by simp
  obtain s1 where s1: "copy_table n from to s = Inr s1" "HIGH_MEMORY s1 = HIGH_MEMORY s"
    "\<And>a. rd a s1 = (if a \<in> words to n then child_entry (rd (from + (a - to)) s) (rd a s)
          else if a \<in> words from n then parent_entry (rd a s) else rd a s)"
    "\<And>i. mem_map s1 i = mem_map s i + of_nat (refs (tab s from) n i)"
    using copy_table_spec [OF ok n' disj] by blast
  have tab1: "tab s1 to k = child_entry (tab s from k) 0" if "k < n" for k
  proof -
    have "to + 4 * of_nat k \<in> words to n" using that by (auto simp: words_def)
    then show ?thesis using zero that by (simp add: tab_def s1(3))
  qed
  have refs1: "refs (tab s1 to) n i = refs (tab s from) n i" for i
    unfolding refs_def by (rule sum.cong) (simp_all add: tab1 child_refers)
  have "table_ok s1 to n"
    unfolding table_ok_def
  proof (intro allI impI)
    fix k i assume k: "k < n" and "refers (tab s1 to k) i"
    then have r: "refers (tab s from k) i" by (simp add: tab1 child_refers)
    then have "0xfffff000 AND tab s1 to k = 0xfffff000 AND tab s from k"
      using child_frame(2) tab1 [OF k] unfolding refers_def by metis
    then show "i < PAGING_PAGES \<and> (0xfffff000 AND tab s1 to k) < HIGH_MEMORY s1"
      using ok k r unfolding table_ok_def s1(2) by metis
  qed
  moreover have "refs (tab s1 to) n i \<le> unat (mem_map s1 i)" for i
  proof -
    have "unat (mem_map s i) + refs (tab s from) n i < 256" using fits by blast
    then have "unat (mem_map s1 i) = unat (mem_map s i) + refs (tab s from) n i"
      by (simp add: s1(4) unat_word_ariths unat_of_nat)
    then show ?thesis by (simp add: refs1)
  qed
  ultimately obtain s2 where s2: "free_table n to s1 = Inr s2"
    "\<And>i. mem_map s2 i = mem_map s1 i - of_nat (refs (tab s1 to) n i)"
    using free_table_spec [OF _ n'] by blast
  have "mem_map s2 = mem_map s" by (rule ext) (simp add: s2(2) s1(4) refs1)
  with s1(1) s2(1) show ?thesis by blast
qed

text \<open>The witnesses: a table of one entry at 2000h that names page 7, copied to 3000h.\<close>

lemma demo_cow_refers: "refers (rd 0x2000 demo_cow) i \<longleftrightarrow> i = 7"
  by (auto simp: refers_def demo_cow_def rd_def MAP_NR_def)

lemma demo_cow_table:
  "table_ok demo_cow 0x2000 1" "words 0x2000 1 \<inter> words 0x3000 1 = {}"
  "refs (tab demo_cow 0x2000) 1 i = (if i = 7 then 1 else 0)" "tab demo_cow 0x3000 0 = 0"
proof -
  have "HIGH_MEMORY demo_cow = 0x1000000" by (simp add: demo_cow_def demo_mm_def)
  moreover have "(0xfffff000 AND rd 0x2000 demo_cow) < 0x1000000"
    by (simp add: demo_cow_def rd_def)
  ultimately show "table_ok demo_cow 0x2000 1"
    by (simp add: table_ok_def tab_def demo_cow_refers)
  show "words 0x2000 1 \<inter> words 0x3000 1 = {}" by (auto simp: words_def)
  show "refs (tab demo_cow 0x2000) 1 i = (if i = 7 then 1 else 0)"
    by (simp add: refs_def tab_def demo_cow_refers)
  show "tab demo_cow 0x3000 0 = 0" by (simp add: tab_def rd_def demo_cow_def)
qed

theorem copy_table_protects_witness:
  "\<exists>s'. copy_table 1 0x2000 0x3000 demo_cow = Inr s' \<and>
     tab s' 0x3000 0 = child_entry (tab demo_cow 0x2000 0) 0 \<and> mem_map s' 7 = 3"
  using copy_table_protects [OF demo_cow_table(1) _ demo_cow_table(2)] demo_cow_table(3) [of 7]
    demo_cow_table(4) by (fastforce simp: demo_cow_def)

theorem copy_free_table_roundtrip_witness:
  "\<exists>s1 s2. copy_table 1 0x2000 0x3000 demo_cow = Inr s1 \<and> free_table 1 0x3000 s1 = Inr s2 \<and>
     mem_map s2 = mem_map demo_cow"
proof (rule copy_free_table_roundtrip [OF demo_cow_table(1) _ demo_cow_table(2)])
  show "\<forall>i. unat (mem_map demo_cow i) + refs (tab demo_cow 0x2000) 1 i < 256"
    unfolding demo_cow_table(3) by (simp add: demo_cow_def demo_mm_def)
qed (use demo_cow_table(4) in auto)

end
