(* ===== verification/Malloc.thy ===== *)
theory Malloc
  imports Memory
begin

text \<open>
  The kernel's memory allocator, \<open>lib/malloc.c\<close>.  The bucket descriptors and the chains of free
  objects live in the pages \<open>get_free_page\<close> gives out, so a descriptor is an address and its
  fields are words of physical memory: \<open>page\<close> at offset 0, \<open>next\<close> at 4, \<open>freeptr\<close> at 8, and at
  12 the two 16-bit fields \<open>refcnt\<close> (low half) and \<open>bucket_size\<close> (high half).  Only the array
  \<open>bucket_dir\<close> and the pointer \<open>free_bucket_desc\<close> are the allocator's own variables.
\<close>

section \<open>State\<close>

definition bucket_sizes :: "u32 list" where
  "bucket_sizes = [16, 32, 64, 128, 256, 512, 1024, 2048, 4096]"

record heap =
  h_mm :: mm
  dir_chain :: "nat \<Rightarrow> u32"
  free_bucket_desc :: u32

definition hrd :: "u32 \<Rightarrow> heap \<Rightarrow> u32" where
  "hrd a h = rd a (h_mm h)"

definition hwr :: "u32 \<Rightarrow> u32 \<Rightarrow> heap \<Rightarrow> heap" where
  "hwr a v h = h\<lparr>h_mm := wr a v (h_mm h)\<rparr>"

abbreviation bd_page :: "u32 \<Rightarrow> heap \<Rightarrow> u32" where "bd_page b h \<equiv> hrd b h"
abbreviation bd_next :: "u32 \<Rightarrow> heap \<Rightarrow> u32" where "bd_next b h \<equiv> hrd (b + 4) h"
abbreviation bd_freeptr :: "u32 \<Rightarrow> heap \<Rightarrow> u32" where "bd_freeptr b h \<equiv> hrd (b + 8) h"

definition bd_refcnt :: "u32 \<Rightarrow> heap \<Rightarrow> u16" where
  "bd_refcnt b h = ucast (hrd (b + 12) h)"

definition bd_size :: "u32 \<Rightarrow> heap \<Rightarrow> u16" where
  "bd_size b h = ucast (drop_bit 16 (hrd (b + 12) h))"

definition set_refcnt :: "u32 \<Rightarrow> u16 \<Rightarrow> heap \<Rightarrow> heap" where
  "set_refcnt b v h = hwr (b + 12) ((hrd (b + 12) h AND 0xffff0000) OR ucast v) h"

definition set_size :: "u32 \<Rightarrow> u16 \<Rightarrow> heap \<Rightarrow> heap" where
  "set_size b v h = hwr (b + 12) ((hrd (b + 12) h AND 0xffff) OR push_bit 16 (ucast v)) h"

definition heap_get_page :: "heap \<Rightarrow> u32 \<times> heap" where
  "heap_get_page h = (let (p, m) = get_free_page (h_mm h) in (p, h\<lparr>h_mm := m\<rparr>))"

section \<open>init_bucket_desc\<close>

primrec link_descs :: "nat \<Rightarrow> u32 \<Rightarrow> heap \<Rightarrow> u32 \<times> heap" where
  "link_descs 0 bdesc h = (bdesc, h)"
| "link_descs (Suc i) bdesc h = link_descs i (bdesc + 16) (hwr (bdesc + 4) (bdesc + 16) h)"

definition init_bucket_desc :: "heap \<Rightarrow> heap kres" where
  "init_bucket_desc h =
     (let (first, h) = heap_get_page h
      in if first = 0 then Inl (Panic ''Out of memory in init_bucket_desc()'')
         else
           let (bdesc, h) = link_descs (4096 div 16 - 1) first h;
               h = hwr (bdesc + 4) (free_bucket_desc h) h
           in Inr (h\<lparr>free_bucket_desc := first\<rparr>))"

section \<open>malloc\<close>

definition find_bucket :: "u32 \<Rightarrow> nat option" where
  "find_bucket len = find (\<lambda>i. bucket_sizes ! i \<ge> len) [0..<length bucket_sizes]"

partial_function (option) find_free_desc :: "u32 \<Rightarrow> heap \<Rightarrow> u32 option" where
  "find_free_desc bdesc h =
     (if bdesc = 0 then Some 0
      else if bd_freeptr bdesc h \<noteq> 0 then Some bdesc
      else find_free_desc (bd_next bdesc h) h)"

primrec link_objects :: "nat \<Rightarrow> u32 \<Rightarrow> u32 \<Rightarrow> heap \<Rightarrow> u32 \<times> heap" where
  "link_objects 0 sz cp h = (cp, h)"
| "link_objects (Suc i) sz cp h = link_objects i sz (cp + sz) (hwr cp (cp + sz) h)"

definition new_bucket :: "nat \<Rightarrow> heap \<Rightarrow> (u32 \<times> heap) kres" where
  "new_bucket d h =
     bindE (if free_bucket_desc h = 0 then init_bucket_desc h else Inr h) (\<lambda>h.
       let sz = bucket_sizes ! d;
           bdesc = free_bucket_desc h;
           h = h\<lparr>free_bucket_desc := bd_next bdesc h\<rparr>;
           h = set_refcnt bdesc 0 h;
           h = set_size bdesc (ucast sz) h;
           (cp, h) = heap_get_page h;
           h = hwr (bdesc + 8) cp h;
           h = hwr bdesc cp h
       in if cp = 0 then Inl (Panic ''Out of memory in kernel malloc()'')
          else
            let (last, h) = link_objects (4096 div unat sz - 1) sz cp h;
                h = hwr last 0 h;
                h = hwr (bdesc + 4) (dir_chain h d) h
            in Inr (bdesc, h\<lparr>dir_chain := (dir_chain h)(d := bdesc)\<rparr>))"

definition malloc :: "u32 \<Rightarrow> heap \<Rightarrow> (u32 \<times> heap) kres" where
  "malloc len h =
     (case find_bucket len of
        None \<Rightarrow> Inl (Panic ''malloc: bad arg'')
      | Some d \<Rightarrow>
          case find_free_desc (dir_chain h d) h of
            None \<Rightarrow> Inl Hang
          | Some bdesc \<Rightarrow>
              bindE (if bdesc = 0 then new_bucket d h else Inr (bdesc, h)) (\<lambda>(bdesc, h).
                let retval = bd_freeptr bdesc h;
                    h = hwr (bdesc + 8) (hrd retval h) h;
                    h = set_refcnt bdesc (bd_refcnt bdesc h + 1) h
                in Inr (retval, h)))"

section \<open>free_s\<close>

text \<open>The search of one chain: the descriptor found (or 0) and the one before it.\<close>

partial_function (option) find_page_desc :: "u32 \<Rightarrow> u32 \<Rightarrow> u32 \<Rightarrow> heap \<Rightarrow> (u32 \<times> u32) option" where
  "find_page_desc page bdesc prev h =
     (if bdesc = 0 then Some (0, prev)
      else if bd_page bdesc h = page then Some (bdesc, prev)
      else find_page_desc page (bd_next bdesc h) bdesc h)"

primrec find_dir :: "nat list \<Rightarrow> u32 \<Rightarrow> int \<Rightarrow> heap \<Rightarrow> (nat \<times> u32 \<times> u32) kres" where
  "find_dir [] page sz h = Inl (Panic ''Bad address passed to kernel free_s()'')"
| "find_dir (d # ds) page sz h =
     (if uint (bucket_sizes ! d) < sz then find_dir ds page sz h
      else
        case find_page_desc page (dir_chain h d) 0 h of
          None \<Rightarrow> Inl Hang
        | Some (bdesc, prev) \<Rightarrow>
            if bdesc \<noteq> 0 then Inr (d, bdesc, prev) else find_dir ds page sz h)"

partial_function (option) find_prev :: "u32 \<Rightarrow> u32 \<Rightarrow> heap \<Rightarrow> u32 option" where
  "find_prev bdesc prev h =
     (if prev = 0 then Some 0
      else if bd_next prev h = bdesc then Some prev
      else find_prev bdesc (bd_next prev h) h)"

definition unlink_desc :: "nat \<Rightarrow> u32 \<Rightarrow> u32 \<Rightarrow> heap \<Rightarrow> heap kres" where
  "unlink_desc d bdesc prev h =
     bindE (if (prev \<noteq> 0 \<and> bd_next prev h \<noteq> bdesc) \<or> (prev = 0 \<and> dir_chain h d \<noteq> bdesc)
            then (case find_prev bdesc (dir_chain h d) h of None \<Rightarrow> Inl Hang | Some p \<Rightarrow> Inr p)
            else Inr prev)
       (\<lambda>prev.
          if prev \<noteq> 0 then Inr (hwr (prev + 4) (bd_next bdesc h) h)
          else if dir_chain h d \<noteq> bdesc then Inl (Panic ''malloc bucket chains corrupted'')
          else Inr (h\<lparr>dir_chain := (dir_chain h)(d := bd_next bdesc h)\<rparr>))"

definition free_s :: "u32 \<Rightarrow> int \<Rightarrow> heap \<Rightarrow> heap kres" where
  "free_s obj sz h =
     bindE (find_dir [0..<length bucket_sizes] (obj AND 0xfffff000) sz h) (\<lambda>(d, bdesc, prev).
       let h = hwr obj (bd_freeptr bdesc h) h;
           h = hwr (bdesc + 8) obj h;
           h = set_refcnt bdesc (bd_refcnt bdesc h - 1) h
       in if bd_refcnt bdesc h \<noteq> 0 then Inr h
          else
            bindE (unlink_desc d bdesc prev h) (\<lambda>h.
            bindE (free_page (bd_page bdesc h) (h_mm h)) (\<lambda>m.
              let h = h\<lparr>h_mm := m\<rparr>;
                  h = hwr (bdesc + 4) (free_bucket_desc h) h
              in Inr (h\<lparr>free_bucket_desc := bdesc\<rparr>))))"

section \<open>The size classes\<close>

lemma find_bucket_spec:
  "(find_bucket len = None \<longleftrightarrow> 4096 < len) \<and>
   (\<forall>d. find_bucket len = Some d \<longrightarrow> d < 9 \<and> len \<le> bucket_sizes ! d \<and>
      (\<forall>j < d. bucket_sizes ! j < len))"
proof -
  have len: "length bucket_sizes = 9" "bucket_sizes ! 8 = 4096" by (simp_all add: bucket_sizes_def)
  have "\<forall>x \<in> set bucket_sizes. x \<le> 4096" by (simp add: bucket_sizes_def)
  then have le: "bucket_sizes ! i \<le> 4096" if "i < 9" for i
    using that by (metis len(1) nth_mem)
  have "(\<forall>i < 9. \<not> len \<le> bucket_sizes ! i) \<longleftrightarrow> 4096 < len"
  proof
    assume "\<forall>i < 9. \<not> len \<le> bucket_sizes ! i"
    then have "\<not> len \<le> bucket_sizes ! 8" by simp
    then show "4096 < len" by (simp add: len(2))
  next
    assume "4096 < len"
    then show "\<forall>i < 9. \<not> len \<le> bucket_sizes ! i" using le by (meson leD le_less_trans not_le)
  qed
  then show ?thesis
    unfolding find_bucket_def find_upt_None find_upt_Some len(1) by (auto simp: not_le)
qed

section \<open>A fresh bucket\<close>

lemma hrd_hwr [simp]: "hrd a (hwr b v h) = (if a = b then v else hrd a h)"
  by (simp add: hrd_def hwr_def)

lemma hwr_fields [simp]:
  "dir_chain (hwr a v h) = dir_chain h" "free_bucket_desc (hwr a v h) = free_bucket_desc h"
  "mem_map (h_mm (hwr a v h)) = mem_map (h_mm h)"
  by (simp_all add: hwr_def)

fun obj_chain :: "heap \<Rightarrow> u32 \<Rightarrow> u32 list \<Rightarrow> bool" where
  "obj_chain h p [] = (p = 0)"
| "obj_chain h p (x # xs) = (p = x \<and> p \<noteq> 0 \<and> obj_chain h (hrd p h) xs)"

lemma obj_chain_cong:
  "(\<And>x. x \<in> set xs \<Longrightarrow> hrd x h = hrd x h') \<Longrightarrow> obj_chain h p xs = obj_chain h' p xs"
  by (induction xs arbitrary: p) auto

lemma link_objects_frame:
  "a \<notin> (\<lambda>k. cp + of_nat k * sz) ` {..<n} \<Longrightarrow> hrd a (snd (link_objects n sz cp h)) = hrd a h"
proof (induction n arbitrary: cp h)
  case (Suc n)
  have "a \<notin> (\<lambda>k. cp + sz + of_nat k * sz) ` {..<n}"
  proof
    assume "a \<in> (\<lambda>k. cp + sz + of_nat k * sz) ` {..<n}"
    then obtain k where "k < n" "a = cp + of_nat (Suc k) * sz" by (auto simp: algebra_simps)
    with Suc.prems show False by (meson Suc_mono imageI lessThan_iff)
  qed
  moreover have "a \<noteq> cp" using Suc.prems by (auto simp: lessThan_Suc_eq_insert_0)
  ultimately show ?case using Suc.IH by simp
qed simp

lemma link_objects_fields [simp]:
  "dir_chain (snd (link_objects n sz cp h)) = dir_chain h"
  "free_bucket_desc (snd (link_objects n sz cp h)) = free_bucket_desc h"
  "fst (link_objects n sz cp h) = cp + of_nat n * sz"
  by (induction n arbitrary: cp h) (simp_all add: algebra_simps)

text \<open>The chain through the objects of a page, closed with a zero.\<close>

lemma link_objects_chain:
  assumes "\<And>j k. j \<le> n \<Longrightarrow> k \<le> n \<Longrightarrow> cp + of_nat j * sz = cp + of_nat k * sz \<Longrightarrow> j = k"
    and "\<And>k. k \<le> n \<Longrightarrow> cp + of_nat k * sz \<noteq> 0"
  shows "obj_chain (hwr (cp + of_nat n * sz) 0 (snd (link_objects n sz cp h))) cp
           (map (\<lambda>k. cp + of_nat k * sz) [0..<Suc n])"
  using assms
proof (induction n arbitrary: cp h)
  case 0
  then show ?case using "0"(2) [of 0] by simp
next
  case (Suc n)
  let ?h = "hwr cp (cp + sz) h"
  let ?g = "hwr (cp + of_nat (Suc n) * sz) 0 (snd (link_objects (Suc n) sz cp h))"
  have g: "?g = hwr (cp + sz + of_nat n * sz) 0 (snd (link_objects n sz (cp + sz) ?h))"
    by (simp add: algebra_simps)
  have inj: "j = k" if "j \<le> n" "k \<le> n" "cp + sz + of_nat j * sz = cp + sz + of_nat k * sz" for j k
  proof -
    have "cp + of_nat (Suc j) * sz = cp + of_nat (Suc k) * sz"
      using that(3) by (simp add: algebra_simps)
    then have "Suc j = Suc k" using that by (intro Suc.prems(1)) auto
    then show ?thesis by simp
  qed
  have nz: "cp + sz + of_nat k * sz \<noteq> 0" if "k \<le> n" for k
    using Suc.prems(2) [of "Suc k"] that by (simp add: algebra_simps)
  have cp: "cp \<noteq> cp + sz + of_nat k * sz" if "k \<le> n" for k
  proof
    assume "cp = cp + sz + of_nat k * sz"
    then have "cp + of_nat 0 * sz = cp + of_nat (Suc k) * sz" by (simp add: algebra_simps)
    then have "0 = Suc k" using that by (intro Suc.prems(1)) auto
    then show False by simp
  qed
  have "hrd cp ?g = cp + sz"
    unfolding g using cp link_objects_frame [of cp "cp + sz" sz n ?h] by fastforce
  moreover have "obj_chain ?g (cp + sz) (map (\<lambda>k. cp + sz + of_nat k * sz) [0..<Suc n])"
    unfolding g by (rule Suc.IH [OF inj nz])
  moreover have "map (\<lambda>k. cp + of_nat k * sz) [0..<Suc (Suc n)] =
      cp # map (\<lambda>k. cp + sz + of_nat k * sz) [0..<Suc n]"
    by (simp add: upt_rec [of 0] map_Suc_upt [symmetric] algebra_simps del: upt_Suc)
  ultimately show ?case using Suc.prems(2) [of 0] by (simp del: upt_Suc)
qed

subsection \<open>The two halves of the last word of a descriptor\<close>

lemma low_half_set: "ucast ((x AND 0xffff0000) OR ucast (v :: u16) :: u32) = v"
proof -
  have "(0xffff0000 :: u32) = NOT (mask 16)" by (simp add: mask_eq_exp_minus_1)
  then have "x AND 0xffff0000 = push_bit 16 (drop_bit 16 x)" by (metis and.commute not_mask_and)
  then show ?thesis
    by (simp only:) (rule bit_word_eqI, auto simp: bit_simps)
qed

lemma low_half_keep: "ucast ((x AND 0xffff) OR push_bit 16 (ucast (v :: u16)) :: u32) = (ucast x :: u16)"
proof -
  have "(0xffff :: u32) = mask 16" by (simp add: mask_eq_exp_minus_1)
  then have "x AND 0xffff = take_bit 16 x" by (simp only: take_bit_eq_mask)
  then show ?thesis
    by (simp only:) (rule bit_word_eqI, auto simp: bit_simps)
qed

lemma bd_refcnt_set_refcnt [simp]: "bd_refcnt b (set_refcnt b v h) = v"
  by (simp add: bd_refcnt_def set_refcnt_def low_half_set)

lemma bd_refcnt_set_size [simp]: "bd_refcnt b (set_size b v h) = bd_refcnt b h"
  by (simp add: bd_refcnt_def set_size_def low_half_keep)

lemma set_half_frame [simp]:
  "a \<noteq> b + 12 \<Longrightarrow> hrd a (set_refcnt b v h) = hrd a h"
  "a \<noteq> b + 12 \<Longrightarrow> hrd a (set_size b v h) = hrd a h"
  "dir_chain (set_refcnt b v h) = dir_chain h" "dir_chain (set_size b v h) = dir_chain h"
  "free_bucket_desc (set_refcnt b v h) = free_bucket_desc h"
  "free_bucket_desc (set_size b v h) = free_bucket_desc h"
  "mem_map (h_mm (set_refcnt b v h)) = mem_map (h_mm h)"
  "mem_map (h_mm (set_size b v h)) = mem_map (h_mm h)"
  by (simp_all add: set_refcnt_def set_size_def)

subsection \<open>The objects of a page\<close>

lemma bucket_size_facts:
  assumes "d < 9"
  shows "4 dvd unat (bucket_sizes ! d)" "unat (bucket_sizes ! d) dvd 4096"
    "16 \<le> unat (bucket_sizes ! d)"
proof -
  have "\<forall>x \<in> set bucket_sizes. 4 dvd unat x \<and> unat x dvd 4096 \<and> 16 \<le> unat x"
    by (simp add: bucket_sizes_def)
  moreover have "bucket_sizes ! d \<in> set bucket_sizes"
    using assms by (intro nth_mem) (simp add: bucket_sizes_def)
  ultimately show "4 dvd unat (bucket_sizes ! d)" "unat (bucket_sizes ! d) dvd 4096"
    "16 \<le> unat (bucket_sizes ! d)" by blast+
qed

lemma object_addr:
  assumes i: "i < PAGING_PAGES" and d: "d < 9" and k: "k < 4096 div unat (bucket_sizes ! d)"
  shows "unat (page_addr i + of_nat k * bucket_sizes ! d) =
      i * 4096 + 1048576 + k * unat (bucket_sizes ! d)"
    and "k * unat (bucket_sizes ! d) < 4096"
    and "page_addr i + of_nat k * bucket_sizes ! d \<in> page_words (page_addr i)"
proof -
  let ?z = "unat (bucket_sizes ! d)"
  obtain q where q: "4096 = ?z * q" using bucket_size_facts(2) [OF d] by (elim dvdE)
  have z: "0 < ?z" using bucket_size_facts(3) [OF d] by simp
  then have "4096 div ?z = q" using q by (metis nonzero_mult_div_cancel_left not_less0)
  with k have "k < q" by simp
  then have "k * ?z < q * ?z" using z by (rule mult_strict_right_mono)
  then show lt: "k * ?z < 4096" by (simp only: q mult.commute)
  have kz: "unat (of_nat k * bucket_sizes ! d) = k * ?z"
  proof -
    have "of_nat k * bucket_sizes ! d = of_nat (k * ?z)" by simp
    moreover have "unat (of_nat (k * ?z) :: u32) = k * ?z"
      using lt by (simp add: unat_of_nat del: of_nat_mult)
    ultimately show ?thesis by (simp only:)
  qed
  show "unat (page_addr i + of_nat k * bucket_sizes ! d) = i * 4096 + 1048576 + k * ?z"
  proof -
    have "unat (page_addr i) + unat (of_nat k * bucket_sizes ! d) = i * 4096 + 1048576 + k * ?z"
      unfolding kz unat_page_addr [OF i] ..
    moreover from this have "unat (page_addr i) + unat (of_nat k * bucket_sizes ! d) < 4294967296"
      using i lt by linarith
    ultimately show ?thesis using unat_add_no_wrap by metis
  qed
  obtain r where r: "k * ?z = 4 * r" using bucket_size_facts(1) [OF d] by (metis dvd_def mult.left_commute)
  have "of_nat k * bucket_sizes ! d = (of_nat (k * ?z) :: u32)" by simp
  also have "\<dots> = 4 * of_nat r" unfolding r by simp
  finally show "page_addr i + of_nat k * bucket_sizes ! d \<in> page_words (page_addr i)"
    using lt r unfolding page_words_def by (intro image_eqI [of _ _ r]) simp_all
qed

lemma object_inj:
  assumes "i < PAGING_PAGES" "d < 9" "j < 4096 div unat (bucket_sizes ! d)"
    "k < 4096 div unat (bucket_sizes ! d)"
    "page_addr i + of_nat j * bucket_sizes ! d = page_addr i + of_nat k * bucket_sizes ! d"
  shows "j = k"
proof -
  have "j * unat (bucket_sizes ! d) = k * unat (bucket_sizes ! d)"
    using object_addr(1) [OF assms(1,2,3)] object_addr(1) [OF assms(1,2,4)] assms(5)
    by (metis add_left_cancel)
  then show ?thesis using bucket_size_facts(3) [OF assms(2)] by simp
qed

lemma objects_chain:
  assumes i: "i < PAGING_PAGES" and d: "d < 9"
  shows "obj_chain (hwr (page_addr i + of_nat (4096 div unat (bucket_sizes ! d) - 1) * bucket_sizes ! d) 0
           (snd (link_objects (4096 div unat (bucket_sizes ! d) - 1) (bucket_sizes ! d) (page_addr i) h)))
         (page_addr i)
         (map (\<lambda>k. page_addr i + of_nat k * bucket_sizes ! d) [0..<4096 div unat (bucket_sizes ! d)])"
proof -
  let ?n = "4096 div unat (bucket_sizes ! d)"
  have "unat (bucket_sizes ! d) \<le> 4096" using bucket_size_facts(2) [OF d] by (rule dvd_imp_le) simp
  then have n: "0 < ?n" "Suc (?n - 1) = ?n"
    using bucket_size_facts(3) [OF d] by (simp_all add: div_greater_zero_iff)
  have nz: "page_addr i + of_nat k * bucket_sizes ! d \<noteq> 0" if "k < ?n" for k
    using object_addr(1) [OF i d that] by (metis add_is_0 unat_0 zero_neq_numeral)
  have "obj_chain (hwr (page_addr i + of_nat (?n - 1) * bucket_sizes ! d) 0
        (snd (link_objects (?n - 1) (bucket_sizes ! d) (page_addr i) h))) (page_addr i)
      (map (\<lambda>k. page_addr i + of_nat k * bucket_sizes ! d) [0..<Suc (?n - 1)])"
    by (rule link_objects_chain) (use n object_inj [OF i d] nz in auto)
  then show ?thesis by (simp only: n(2))
qed

section \<open>The first object of a new bucket\<close>

lemma heap_get_page_cases:
  obtains (none) "heap_get_page h = (0, h)" "\<forall>i < PAGING_PAGES. mem_map (h_mm h) i \<noteq> 0"
  | (page) i h' where "i < PAGING_PAGES" "mem_map (h_mm h) i = 0" "heap_get_page h = (page_addr i, h')"
      "page_addr i \<noteq> 0" "dir_chain h' = dir_chain h" "free_bucket_desc h' = free_bucket_desc h"
      "\<And>a. hrd a h' = (if a \<in> page_words (page_addr i) then 0 else hrd a h)"
proof (rule get_free_page_cases [of "h_mm h"])
  assume "get_free_page (h_mm h) = (0, h_mm h)" "\<forall>i < PAGING_PAGES. mem_map (h_mm h) i \<noteq> 0"
  then show ?thesis by (intro none) (simp_all add: heap_get_page_def)
next
  fix i m assume i: "i < PAGING_PAGES" "mem_map (h_mm h) i = 0" "get_free_page (h_mm h) = (page_addr i, m)"
    "page_addr i \<noteq> 0" "\<And>a. rd a m = (if a \<in> page_words (page_addr i) then 0 else rd a (h_mm h))"
  show ?thesis
    by (rule page [of i "h\<lparr>h_mm := m\<rparr>"]) (use i in \<open>simp_all add: heap_get_page_def hrd_def\<close>)
qed

lemma page_words_self: "p \<in> page_words p"
  unfolding page_words_def by (rule image_eqI [of _ _ 0]) simp_all

text \<open>The four words of a descriptor.\<close>

definition desc_words :: "u32 \<Rightarrow> u32 set" where
  "desc_words b = {b, b + 4, b + 8, b + 12}"

lemma desc_words_mem [simp]:
  "b \<in> desc_words b" "b + 4 \<in> desc_words b" "b + 8 \<in> desc_words b" "b + 12 \<in> desc_words b"
  by (simp_all add: desc_words_def)

text \<open>
  C32: when no bucket of the right size has a free object and a descriptor is at hand, \<open>malloc\<close>
  takes a fresh page, returns its first object and leaves in the new bucket exactly the other
  objects of the page, each of the size of the class, as its chain of free objects; the bucket
  is entered in the directory with one object in use.  Without a free page it panics.
\<close>

theorem malloc_new_bucket:
  assumes d: "find_bucket len = Some d" and full: "find_free_desc (dir_chain h d) h = Some 0"
    and b: "b = free_bucket_desc h" "b \<noteq> 0"
    and sep: "\<forall>i < PAGING_PAGES. mem_map (h_mm h) i = 0 \<longrightarrow> desc_words b \<inter> page_words (page_addr i) = {}"
  shows "if \<forall>i < PAGING_PAGES. mem_map (h_mm h) i \<noteq> 0
    then malloc len h = Inl (Panic ''Out of memory in kernel malloc()'')
    else (\<exists>i h'. i < PAGING_PAGES \<and> mem_map (h_mm h) i = 0 \<and> malloc len h = Inr (page_addr i, h') \<and>
       obj_chain h' (bd_freeptr b h')
         (map (\<lambda>k. page_addr i + of_nat k * bucket_sizes ! d) [1..<4096 div unat (bucket_sizes ! d)]) \<and>
       bd_page b h' = page_addr i \<and> bd_refcnt b h' = 1 \<and> dir_chain h' d = b \<and>
       bd_next b h' = dir_chain h d \<and> len \<le> bucket_sizes ! d)"
proof -
  have d9: "d < 9" "len \<le> bucket_sizes ! d" using find_bucket_spec [of len] d by auto
  let ?z = "bucket_sizes ! d" let ?n = "4096 div unat ?z"
  define h1 where "h1 = set_size b (ucast ?z) (set_refcnt b 0 (h\<lparr>free_bucket_desc := bd_next b h\<rparr>))"
  have h1: "dir_chain h1 = dir_chain h" "mem_map (h_mm h1) = mem_map (h_mm h)" "bd_refcnt b h1 = 0"
    by (simp_all add: h1_def)
  show ?thesis
  proof (rule heap_get_page_cases [of h1])
    assume none: "heap_get_page h1 = (0, h1)" "\<forall>i < PAGING_PAGES. mem_map (h_mm h1) i \<noteq> 0"
    then have "new_bucket d h = Inl (Panic ''Out of memory in kernel malloc()'')"
      using b by (simp add: new_bucket_def Let_def h1_def)
    then show ?thesis using d full none(2) h1(2) by (simp add: malloc_def)
  next
    fix i h2 assume i: "i < PAGING_PAGES" "mem_map (h_mm h1) i = 0" "heap_get_page h1 = (page_addr i, h2)"
      "page_addr i \<noteq> 0" "dir_chain h2 = dir_chain h1" "free_bucket_desc h2 = free_bucket_desc h1"
      "\<And>a. hrd a h2 = (if a \<in> page_words (page_addr i) then 0 else hrd a h1)"
    let ?p = "page_addr i"
    have sep: "desc_words b \<inter> page_words ?p = {}" using sep i(1,2) h1(2) by simp
    define h3 where "h3 = hwr b ?p (hwr (b + 8) ?p h2)"
    define h4 where "h4 = hwr (?p + of_nat (?n - 1) * ?z) 0 (snd (link_objects (?n - 1) ?z ?p h3))"
    define h5 where "h5 = (hwr (b + 4) (dir_chain h d) h4)\<lparr>dir_chain := (dir_chain h4)(d := b)\<rparr>"
    define h6 where "h6 = hwr (b + 8) (hrd ?p h5) h5"
    define h7 where "h7 = set_refcnt b (bd_refcnt b h6 + 1) h6"
    have n: "0 < ?n"
      using bucket_size_facts(2,3) [OF d9(1)] by (auto simp: div_greater_zero_iff dest: dvd_imp_le)
    have obj: "?p + of_nat k * ?z \<in> page_words ?p" if "k < ?n" for k
      using object_addr(3) [OF i(1) d9(1) that] .
    have h4: "hrd a h4 = hrd a h3" if "a \<notin> page_words ?p" for a
    proof -
      have "a \<notin> (\<lambda>k. ?p + of_nat k * ?z) ` {..<?n - 1}"
        using that obj by auto
      moreover have "a \<noteq> ?p + of_nat (?n - 1) * ?z"
        using that obj n by (metis diff_less zero_less_one)
      ultimately show ?thesis by (simp add: h4_def link_objects_frame)
    qed
    have out: "x \<notin> page_words ?p" if "x \<in> desc_words b" for x using sep that by blast
    have desc: "hrd x h4 = hrd x h3" if "x \<in> desc_words b" for x using h4 out that by blast
    have dirs: "dir_chain h4 = dir_chain h" by (simp add: h4_def h3_def i(5) h1(1))
    have nb: "new_bucket d h = Inr (b, h5)"
      using b i(3,4) dirs unfolding new_bucket_def h5_def h4_def h3_def h1_def
      by (simp add: Let_def case_prod_beta)
    have free5: "hrd (b + 8) h5 = ?p" by (simp add: h5_def hwr_def hrd_def wr_def)
        (use desc [of "b + 8"] in \<open>simp add: h3_def hrd_def hwr_def wr_def rd_def\<close>)
    have mal: "malloc len h = Inr (?p, h7)"
      using d full nb free5 by (simp add: malloc_def Let_def h7_def h6_def)
    have h5: "hrd a h5 = (if a = b + 4 then dir_chain h d else hrd a h4)" for a
      by (simp add: h5_def hrd_def hwr_def wr_def rd_def)
    have h7: "hrd a h7 = (if a = b + 8 then hrd ?p h4 else hrd a h5)" if "a \<noteq> b + 12" for a
      using that out [of "b + 4"] page_words_self [of ?p] by (auto simp: h7_def h6_def h5)
    have "obj_chain h4 ?p (map (\<lambda>k. ?p + of_nat k * ?z) [0..<?n])"
      unfolding h4_def by (rule objects_chain [OF i(1) d9(1)])
    then have "obj_chain h4 (hrd ?p h4) (map (\<lambda>k. ?p + of_nat k * ?z) [1..<?n])"
      using n by (simp add: upt_rec [of 0])
    moreover have "hrd x h7 = hrd x h4" if "x \<in> set (map (\<lambda>k. ?p + of_nat k * ?z) [1..<?n])" for x
    proof -
      have "x \<in> page_words ?p" using that obj by auto
      then have "x \<notin> desc_words b" using sep by blast
      then show ?thesis by (auto simp: h7 h5 desc_words_def)
    qed
    ultimately have "obj_chain h7 (hrd ?p h4) (map (\<lambda>k. ?p + of_nat k * ?z) [1..<?n])"
      using obj_chain_cong [of "map (\<lambda>k. ?p + of_nat k * ?z) [1..<?n]" h7 h4] by blast
    then have "obj_chain h7 (bd_freeptr b h7) (map (\<lambda>k. ?p + of_nat k * ?z) [1..<?n])"
      by (simp add: h7)
    moreover have "bd_page b h7 = ?p" "bd_next b h7 = dir_chain h d"
      using desc [of b] by (simp_all add: h7 h5 h3_def)
    moreover have "hrd (b + 12) h6 = hrd (b + 12) h1"
      using desc [of "b + 12"] out [of "b + 12"] by (simp add: h6_def h5 h3_def i(7))
    then have "bd_refcnt b h6 = 0" using h1(3) by (simp add: bd_refcnt_def)
    then have "bd_refcnt b h7 = 1" by (simp add: h7_def)
    moreover have "dir_chain h7 d = b" by (simp add: h7_def h6_def h5_def)
    moreover have "\<not> (\<forall>i < PAGING_PAGES. mem_map (h_mm h) i \<noteq> 0)" using i(1,2) h1(2) by metis
    ultimately show ?thesis using i(1,2) h1(2) mal d9(2) by (simp only: if_False) metis
  qed
qed

text \<open>A heap with one spare descriptor at 40h and page 5 free.\<close>

definition demo_heap :: heap where
  "demo_heap = \<lparr>h_mm = demo_mm, dir_chain = (\<lambda>_. 0), free_bucket_desc = 0x40\<rparr>"

lemma demo_heap_sep: "i < PAGING_PAGES \<Longrightarrow> desc_words 0x40 \<inter> page_words (page_addr i) = {}"
proof -
  assume i: "i < PAGING_PAGES"
  have "x \<notin> page_words (page_addr i)" if "x \<in> desc_words 0x40" for x
  proof
    assume "x \<in> page_words (page_addr i)"
    then have "unat x div 4096 = unat (page_addr i) div 4096"
      by (rule page_words_frame [OF page_addr_aligned [OF i]])
    moreover have "unat x div 4096 = 0" using that by (auto simp: desc_words_def)
    ultimately show False using i by (simp add: unat_page_addr)
  qed
  then show ?thesis by blast
qed

theorem malloc_new_bucket_witness:
  "\<exists>i h'. malloc 20 demo_heap = Inr (page_addr i, h') \<and> bd_refcnt 0x40 h' = 1"
proof -
  have d: "find_bucket 20 = Some 1" by (simp add: find_bucket_def bucket_sizes_def)
  have f: "find_free_desc (dir_chain demo_heap 1) demo_heap = Some 0"
    by (subst find_free_desc.simps) (simp add: demo_heap_def)
  have "\<not> (\<forall>i < PAGING_PAGES. mem_map (h_mm demo_heap) i \<noteq> 0)"
    by (auto simp: demo_heap_def demo_mm_def intro!: exI [of _ 5])
  then show ?thesis
    using malloc_new_bucket [OF d f, of "0x40"] demo_heap_sep
    by (simp only: if_False) (auto simp: demo_heap_def)
qed

end
