(* ===== verification/Tty_Queue.thy ===== *)
theory Tty_Queue
  imports Kernel_Prelude
begin

text \<open>
  The ring buffers of the terminals, \<open>struct tty_queue\<close> and the macros on it in
  \<open>include/linux/tty.h\<close>: 1024 bytes with the write index \<open>head\<close> and the read index \<open>tail\<close>.
  A ring with equal indices is empty, so at most 1023 bytes are held.  The macros that take or
  add a byte do not test for emptiness or room; that is the callers' part.
\<close>

section \<open>include/linux/tty.h\<close>

abbreviation (input) TTY_BUF_SIZE :: nat where "TTY_BUF_SIZE \<equiv> 1024"

record tty_queue =
  q_data :: u32
  q_head :: u32
  q_tail :: u32
  q_proc_list :: "nat option"
  q_buf :: "nat \<Rightarrow> u8"

definition INC :: "u32 \<Rightarrow> u32" where
  "INC a = (a + 1) AND 1023"

definition DEC :: "u32 \<Rightarrow> u32" where
  "DEC a = (a - 1) AND 1023"

definition EMPTY :: "tty_queue \<Rightarrow> bool" where
  "EMPTY q \<longleftrightarrow> q_head q = q_tail q"

definition LEFT :: "tty_queue \<Rightarrow> u32" where
  "LEFT q = (q_tail q - q_head q - 1) AND 1023"

definition LAST :: "tty_queue \<Rightarrow> u8" where
  "LAST q = q_buf q (unat (1023 AND (q_head q - 1)))"

definition FULL :: "tty_queue \<Rightarrow> bool" where
  "FULL q \<longleftrightarrow> LEFT q = 0"

definition CHARS :: "tty_queue \<Rightarrow> u32" where
  "CHARS q = (q_head q - q_tail q) AND 1023"

definition GETCH :: "tty_queue \<Rightarrow> u8 \<times> tty_queue" where
  "GETCH q = (q_buf q (unat (q_tail q)), q\<lparr>q_tail := INC (q_tail q)\<rparr>)"

definition PUTCH :: "u8 \<Rightarrow> tty_queue \<Rightarrow> tty_queue" where
  "PUTCH c q = q\<lparr>q_buf := (q_buf q)(unat (q_head q) := c), q_head := INC (q_head q)\<rparr>"

text \<open>\<open>DEC (q.head)\<close>: the last byte is taken back.\<close>

definition UNPUT :: "tty_queue \<Rightarrow> tty_queue" where
  "UNPUT q = q\<lparr>q_head := DEC (q_head q)\<rparr>"

section \<open>The contract of a bounded queue\<close>

locale fifo =
  fixes put :: "'a \<Rightarrow> 'q \<Rightarrow> 'q"
    and get :: "'q \<Rightarrow> 'a \<times> 'q"
    and unput :: "'q \<Rightarrow> 'q"
    and last_of :: "'q \<Rightarrow> 'a"
    and is_empty :: "'q \<Rightarrow> bool"
    and is_full :: "'q \<Rightarrow> bool"
    and contents :: "'q \<Rightarrow> 'a list"
    and ok :: "'q \<Rightarrow> bool"
  assumes empty_contents: "ok q \<Longrightarrow> is_empty q \<longleftrightarrow> contents q = []"
    and put_contents: "ok q \<Longrightarrow> \<not> is_full q \<Longrightarrow> contents (put a q) = contents q @ [a] \<and> ok (put a q)"
    and get_contents: "ok q \<Longrightarrow> contents q = x # xs \<Longrightarrow> \<exists>q'. get q = (x, q') \<and> contents q' = xs \<and> ok q'"
    and unput_contents: "ok q \<Longrightarrow> contents q = xs @ [x] \<Longrightarrow>
      last_of q = x \<and> contents (unput q) = xs \<and> ok (unput q)"
begin

primrec put_all :: "'a list \<Rightarrow> 'q \<Rightarrow> 'q option" where
  "put_all [] q = Some q"
| "put_all (a # as) q = (if is_full q then None else put_all as (put a q))"

primrec get_n :: "nat \<Rightarrow> 'q \<Rightarrow> 'a list \<times> 'q" where
  "get_n 0 q = ([], q)"
| "get_n (Suc n) q = (let (a, q) = get q; (as, q) = get_n n q in (a # as, q))"

lemma put_all_contents: "ok q \<Longrightarrow> put_all as q = Some q' \<Longrightarrow> contents q' = contents q @ as \<and> ok q'"
proof (induction as arbitrary: q)
  case (Cons a as)
  then have "\<not> is_full q" "put_all as (put a q) = Some q'" by (auto split: if_splits)
  with Cons.IH [of "put a q"] put_contents [OF Cons.prems(1), of a] show ?case by auto
qed simp

lemma get_n_contents:
  "ok q \<Longrightarrow> n \<le> length (contents q) \<Longrightarrow>
   \<exists>q'. get_n n q = (take n (contents q), q') \<and> contents q' = drop n (contents q) \<and> ok q'"
proof (induction n arbitrary: q)
  case (Suc n)
  then obtain x xs where c: "contents q = x # xs" by (cases "contents q") auto
  obtain q1 where q1: "get q = (x, q1)" "contents q1 = xs" "ok q1"
    using get_contents [OF Suc.prems(1) c] by blast
  obtain q2 where "get_n n q1 = (take n xs, q2)" "contents q2 = drop n xs" "ok q2"
    using Suc.IH [OF q1(3)] Suc.prems(2) c q1(2) by auto
  then show ?case using c q1(1) by simp
qed simp

lemma first_in_first_out:
  assumes "ok q" and "is_empty q" and "put_all as q = Some q'"
  shows "\<exists>q''. get_n (length as) q' = (as, q'') \<and> is_empty q''"
proof -
  have "contents q' = as" "ok q'"
    using put_all_contents [OF assms(1,3)] empty_contents [OF assms(1)] assms(2) by auto
  then show ?thesis using get_n_contents [of q' "length as"] empty_contents by fastforce
qed

end

section \<open>The ring implements it\<close>

definition q_wf :: "tty_queue \<Rightarrow> bool" where
  "q_wf q \<longleftrightarrow> unat (q_head q) < TTY_BUF_SIZE \<and> unat (q_tail q) < TTY_BUF_SIZE"

definition q_len :: "tty_queue \<Rightarrow> nat" where
  "q_len q = (unat (q_head q) + TTY_BUF_SIZE - unat (q_tail q)) mod TTY_BUF_SIZE"

definition q_list :: "tty_queue \<Rightarrow> u8 list" where
  "q_list q = map (\<lambda>k. q_buf q ((unat (q_tail q) + k) mod TTY_BUF_SIZE)) [0..<q_len q]"

lemma unat_and_1023: "unat (w AND 1023 :: u32) = unat w mod 1024"
proof -
  have "(1023 :: u32) = mask 10" by (simp add: mask_eq_exp_minus_1)
  then have "unat (w AND 1023) = unat (w AND mask 10)" by simp
  then show ?thesis unfolding unat_and_mask by simp
qed

lemma ring_diff:
  fixes a b :: nat
  assumes "a < 1024" and "b \<le> 1024"
  shows "(a + 1024 - b) mod 1024 = (if b \<le> a then a - b else a + 1024 - b)"
proof (cases "b \<le> a")
  case True
  then have "a + 1024 - b = (a - b) + 1024" by simp
  then have "(a + 1024 - b) mod 1024 = (a - b) mod 1024" by (metis mod_add_self2)
  with True assms show ?thesis by simp
qed (use assms in auto)

lemma unat_diff_and_1023:
  fixes a b :: u32
  assumes "unat a < 1024" and "unat b \<le> 1024"
  shows "unat ((a - b) AND 1023) = (if unat b \<le> unat a then unat a - unat b else unat a + 1024 - unat b)"
proof (cases "b \<le> a")
  case True
  then have "unat b \<le> unat a" "unat (a - b) = unat a - unat b"
    by (simp_all add: word_le_nat_alt unat_sub)
  with assms(1) show ?thesis by (simp add: unat_and_1023)
next
  case False
  then have lt: "unat a < unat b" by (simp add: word_le_nat_alt)
  then have "unat (a - b) = unat a + 4294967296 - unat b"
    by (simp add: unat_sub_if' word_le_nat_alt)
  moreover have "(unat a + 4294967296 - unat b) mod 1024 = (unat a + 1024 - unat b) mod 1024"
  proof -
    have "unat a + 4294967296 - unat b = (unat a + 1024 - unat b) + 1024 * 4194303"
      using assms(2) by simp
    then show ?thesis by (metis mod_mult_self2)
  qed
  ultimately show ?thesis using lt assms by (simp add: unat_and_1023 ring_diff)
qed

lemma unat_INC: "unat a < 1024 \<Longrightarrow> unat (INC a) = (if unat a = 1023 then 0 else Suc (unat a))"
  by (simp add: INC_def unat_and_1023 unat_word_ariths)

lemma unat_DEC: "unat a < 1024 \<Longrightarrow> unat (DEC a) = (if unat a = 0 then 1023 else unat a - 1)"
  using unat_diff_and_1023 [of a 1] by (auto simp: DEC_def)

lemma q_len_if:
  "q_wf q \<Longrightarrow> q_len q = (if unat (q_tail q) \<le> unat (q_head q) then unat (q_head q) - unat (q_tail q)
                       else unat (q_head q) + 1024 - unat (q_tail q))"
  by (simp add: q_wf_def q_len_def ring_diff)

lemma q_len_less: "q_len q < 1024"
  by (simp add: q_len_def)

lemma unat_CHARS: "q_wf q \<Longrightarrow> unat (CHARS q) = q_len q"
  by (simp add: q_len_if) (simp add: q_wf_def CHARS_def unat_diff_and_1023)

lemma unat_LEFT:
  assumes "q_wf q"
  shows "unat (LEFT q) = 1023 - q_len q"
proof -
  have h: "unat (q_head q + 1) = unat (q_head q) + 1"
    using assms by (simp add: q_wf_def unat_word_ariths)
  have "LEFT q = (q_tail q - (q_head q + 1)) AND 1023" by (simp add: LEFT_def diff_diff_eq)
  then show ?thesis
    using assms h by (simp add: unat_diff_and_1023 q_wf_def) (auto simp: q_len_if q_wf_def)
qed

lemma FULL_iff: "q_wf q \<Longrightarrow> FULL q \<longleftrightarrow> q_len q = 1023"
  using unat_LEFT [of q] q_len_less [of q] by (auto simp: FULL_def unat_eq_zero [symmetric])

lemma EMPTY_iff: "q_wf q \<Longrightarrow> EMPTY q \<longleftrightarrow> q_len q = 0"
  by (auto simp: EMPTY_def q_len_if q_wf_def word_unat_eq_iff)

lemma length_q_list [simp]: "length (q_list q) = q_len q"
  by (simp add: q_list_def)

lemma q_list_nth: "k < q_len q \<Longrightarrow> q_list q ! k = q_buf q ((unat (q_tail q) + k) mod 1024)"
  by (simp add: q_list_def)

lemma PUTCH_wf: "q_wf q \<Longrightarrow> q_wf (PUTCH c q)"
  by (simp add: q_wf_def PUTCH_def unat_INC)

lemma GETCH_wf: "q_wf q \<Longrightarrow> q_wf (snd (GETCH q))"
  by (simp add: q_wf_def GETCH_def unat_INC)

lemma UNPUT_wf: "q_wf q \<Longrightarrow> q_wf (UNPUT q)"
  by (auto simp: q_wf_def UNPUT_def unat_DEC)

lemma q_len_PUTCH: "q_wf q \<Longrightarrow> q_len q < 1023 \<Longrightarrow> q_len (PUTCH c q) = Suc (q_len q)"
  by (simp add: q_len_if PUTCH_wf) (auto simp: q_wf_def PUTCH_def unat_INC split: if_splits)

lemma q_len_GETCH: "q_wf q \<Longrightarrow> 0 < q_len q \<Longrightarrow> q_len (snd (GETCH q)) = q_len q - 1"
  by (simp add: q_len_if GETCH_wf) (auto simp: q_wf_def GETCH_def unat_INC split: if_splits)

lemma q_len_UNPUT: "q_wf q \<Longrightarrow> 0 < q_len q \<Longrightarrow> q_len (UNPUT q) = q_len q - 1"
  by (simp add: q_len_if UNPUT_wf) (auto simp: q_wf_def UNPUT_def unat_DEC split: if_splits)

lemma mod_ring: "(n :: nat) < 2048 \<Longrightarrow> n mod 1024 = (if n < 1024 then n else n - 1024)"
  by (simp add: mod_if)

lemma ring_end:
  assumes "q_wf q"
  shows "(unat (q_tail q) + q_len q) mod 1024 = unat (q_head q)"
    and "k < q_len q \<Longrightarrow> (unat (q_tail q) + k) mod 1024 \<noteq> unat (q_head q)"
proof -
  have "unat (q_tail q) + q_len q < 2048"
    using assms q_len_less [of q] by (simp add: q_wf_def)
  then show "(unat (q_tail q) + q_len q) mod 1024 = unat (q_head q)"
    using assms by (simp add: mod_ring) (auto simp: q_len_if q_wf_def)
  assume k: "k < q_len q"
  then have "unat (q_tail q) + k < 2048"
    using assms q_len_less [of q] by (simp add: q_wf_def)
  then show "(unat (q_tail q) + k) mod 1024 \<noteq> unat (q_head q)"
    using assms k by (simp add: mod_ring) (auto simp: q_len_if q_wf_def split: if_splits)
qed

lemma q_list_PUTCH:
  assumes wf: "q_wf q" and len: "q_len q < 1023"
  shows "q_list (PUTCH c q) = q_list q @ [c]"
proof (rule nth_equalityI)
  show "length (q_list (PUTCH c q)) = length (q_list q @ [c])"
    by (simp add: q_len_PUTCH [OF assms])
  fix k assume "k < length (q_list (PUTCH c q))"
  then have k: "k < Suc (q_len q)" by (simp add: q_len_PUTCH [OF assms])
  then have "q_list (PUTCH c q) ! k =
      (if (unat (q_tail q) + k) mod 1024 = unat (q_head q) then c
       else q_buf q ((unat (q_tail q) + k) mod 1024))"
    by (simp add: q_list_nth q_len_PUTCH [OF assms]) (simp add: PUTCH_def)
  then show "q_list (PUTCH c q) ! k = (q_list q @ [c]) ! k"
    using k ring_end [OF wf] by (auto simp: less_Suc_eq nth_append q_list_nth)
qed

lemma q_list_GETCH:
  assumes wf: "q_wf q" and len: "0 < q_len q"
  shows "q_list q = fst (GETCH q) # q_list (snd (GETCH q))"
proof (rule nth_equalityI)
  show "length (q_list q) = length (fst (GETCH q) # q_list (snd (GETCH q)))"
    using len by (simp add: q_len_GETCH [OF assms])
  fix k assume "k < length (q_list q)"
  then have k: "k < q_len q" by simp
  have t: "unat (q_tail (snd (GETCH q))) = Suc (unat (q_tail q)) mod 1024"
    using wf by (auto simp: GETCH_def unat_INC q_wf_def)
  show "q_list q ! k = (fst (GETCH q) # q_list (snd (GETCH q))) ! k"
  proof (cases k)
    case 0
    then show ?thesis using k wf by (simp add: q_list_nth GETCH_def q_wf_def)
  next
    case (Suc j)
    then have "j < q_len (snd (GETCH q))" using k len by (simp add: q_len_GETCH [OF assms])
    then have "q_list (snd (GETCH q)) ! j = q_buf q ((Suc (unat (q_tail q)) mod 1024 + j) mod 1024)"
      by (simp add: q_list_nth t) (simp add: GETCH_def)
    then show ?thesis using k Suc by (simp add: q_list_nth mod_simps)
  qed
qed

lemma q_list_UNPUT:
  assumes wf: "q_wf q" and len: "0 < q_len q"
  shows "q_list q = q_list (UNPUT q) @ [LAST q]"
proof (rule nth_equalityI)
  show "length (q_list q) = length (q_list (UNPUT q) @ [LAST q])"
    using len by (simp add: q_len_UNPUT [OF assms])
  fix k assume "k < length (q_list q)"
  then have k: "k < q_len q" by simp
  have "1023 AND (q_head q - 1) = DEC (q_head q)" by (simp add: DEC_def and.commute)
  then have "unat (1023 AND (q_head q - 1)) = unat (q_head (UNPUT q))"
    by (simp add: UNPUT_def)
  also have "\<dots> = (unat (q_tail (UNPUT q)) + q_len (UNPUT q)) mod 1024"
    using ring_end(1) [OF UNPUT_wf [OF wf]] ..
  finally have "LAST q = q_buf q ((unat (q_tail q) + (q_len q - 1)) mod 1024)"
    by (simp add: LAST_def q_len_UNPUT [OF assms]) (simp add: UNPUT_def)
  then have last: "LAST q = q_list q ! (q_len q - 1)"
    using len by (simp add: q_list_nth)
  show "q_list q ! k = (q_list (UNPUT q) @ [LAST q]) ! k"
  proof (cases "k = q_len q - 1")
    case True
    then show ?thesis by (simp add: nth_append last q_len_UNPUT [OF assms])
  next
    case False
    then have "k < q_len (UNPUT q)" using k by (simp add: q_len_UNPUT [OF assms])
    then show ?thesis using k by (simp add: nth_append q_list_nth) (simp add: UNPUT_def)
  qed
qed

text \<open>A byte put into a full ring makes it look empty: the bytes it held are lost.\<close>

lemma q_len_PUTCH_full: "q_wf q \<Longrightarrow> FULL q \<Longrightarrow> q_list (PUTCH c q) = []"
proof -
  assume wf: "q_wf q" and "FULL q"
  then have "q_len q = 1023" by (simp add: FULL_iff)
  then have "q_len (PUTCH c q) = 0"
    using wf PUTCH_wf [OF wf, of c]
    by (simp add: q_len_if) (auto simp: q_wf_def PUTCH_def unat_INC split: if_splits)
  then show ?thesis by (metis length_0_conv length_q_list)
qed

lemma q_list_fields [simp]:
  "q_list (q_data_update d q) = q_list q" "q_list (q_proc_list_update p q) = q_list q"
  "q_wf (q_data_update d q) = q_wf q" "q_wf (q_proc_list_update p q) = q_wf q"
  "FULL (q_data_update d q) = FULL q"
  by (simp_all add: q_list_def q_len_def q_wf_def FULL_def LEFT_def)

interpretation ring: fifo PUTCH GETCH UNPUT LAST EMPTY FULL q_list q_wf
proof unfold_locales
  fix q :: tty_queue and a x :: u8 and xs :: "u8 list"
  assume wf: "q_wf q"
  show "EMPTY q \<longleftrightarrow> q_list q = []"
    using EMPTY_iff [OF wf] by (metis length_0_conv length_q_list)
  show "q_list (PUTCH a q) = q_list q @ [a] \<and> q_wf (PUTCH a q)" if "\<not> FULL q"
    using that FULL_iff [OF wf] q_len_less [of q] q_list_PUTCH [OF wf] PUTCH_wf [OF wf] by auto
  show "\<exists>q'. GETCH q = (x, q') \<and> q_list q' = xs \<and> q_wf q'" if "q_list q = x # xs"
  proof -
    have "0 < q_len q" using that by (metis length_q_list list.size(4) zero_less_Suc add_Suc_right)
    from q_list_GETCH [OF wf this] GETCH_wf [OF wf] that show ?thesis
      by (cases "GETCH q") auto
  qed
  show "LAST q = x \<and> q_list (UNPUT q) = xs \<and> q_wf (UNPUT q)" if "q_list q = xs @ [x]"
  proof -
    have "0 < q_len q" using that by (metis length_q_list length_append_singleton zero_less_Suc)
    from q_list_UNPUT [OF wf this] UNPUT_wf [OF wf] that show ?thesis by auto
  qed
qed

text \<open>
  C40: the ring buffer is a queue of at most 1023 bytes: \<open>EMPTY\<close>, \<open>FULL\<close>, \<open>CHARS\<close> and \<open>LEFT\<close>
  tell its length and room; on a ring with room \<open>PUTCH\<close> appends a byte; on a ring that is not
  empty \<open>GETCH\<close> takes the oldest byte and decrementing \<open>head\<close> removes the one \<open>LAST\<close> shows.
\<close>

theorem tty_queue_refines_list:
  assumes wf: "q_wf q"
  shows "(EMPTY q \<longleftrightarrow> q_list q = []) \<and> (FULL q \<longleftrightarrow> length (q_list q) = 1023) \<and>
    unat (CHARS q) = length (q_list q) \<and> unat (LEFT q) = 1023 - length (q_list q) \<and>
    (\<not> FULL q \<longrightarrow> q_list (PUTCH c q) = q_list q @ [c]) \<and>
    (\<not> EMPTY q \<longrightarrow> q_list q = fst (GETCH q) # q_list (snd (GETCH q)) \<and>
                  q_list q = q_list (UNPUT q) @ [LAST q])"
  using ring.empty_contents [OF wf] ring.put_contents [OF wf] FULL_iff [OF wf] unat_CHARS [OF wf]
    unat_LEFT [OF wf] q_list_GETCH [OF wf] q_list_UNPUT [OF wf] EMPTY_iff [OF wf]
  by (auto simp del: length_0_conv)

definition empty_queue :: "u32 \<Rightarrow> tty_queue" where
  "empty_queue d = \<lparr>q_data = d, q_head = 0, q_tail = 0, q_proc_list = None, q_buf = (\<lambda>_. 0)\<rparr>"

lemma empty_queue_wf: "q_wf (empty_queue d)" "q_list (empty_queue d) = []"
  by (simp_all add: q_wf_def empty_queue_def q_list_def q_len_def)

theorem tty_queue_refines_list_witness:
  "q_list (PUTCH 65 (empty_queue 0)) = [65]"
  using tty_queue_refines_list [OF empty_queue_wf(1), of 0 65] empty_queue_wf by auto

end
