(* ===== verification/Console.thy ===== *)
theory Console
  imports Kernel_Prelude
begin

text \<open>
  The console driver, \<open>kernel/chr_drv/console.c\<close>: a VT102 on a text-mode display.  Video memory
  is a function from even addresses to 16-bit cells (attribute and character); the string
  instructions the driver uses on it are loops.  \<open>con_char\<close> is one round of the loop of
  \<open>con_write\<close>: what one character does in the state the escape sequence has reached.  It also
  tells whether the terminal has to answer (\<open>respond\<close>), which the terminal layer does.
\<close>

section \<open>State\<close>

abbreviation (input) VIDEO_TYPE_MDA :: u8 where "VIDEO_TYPE_MDA \<equiv> 0x10"
abbreviation (input) VIDEO_TYPE_CGA :: u8 where "VIDEO_TYPE_CGA \<equiv> 0x11"
abbreviation (input) VIDEO_TYPE_EGAM :: u8 where "VIDEO_TYPE_EGAM \<equiv> 0x20"
abbreviation (input) VIDEO_TYPE_EGAC :: u8 where "VIDEO_TYPE_EGAC \<equiv> 0x21"
abbreviation (input) NPAR :: nat where "NPAR \<equiv> 16"

record con =
  video_type :: u8
  video_num_columns :: u32
  video_size_row :: u32
  video_num_lines :: u32
  video_page :: u8
  video_mem_start :: u32
  video_mem_end :: u32
  video_port_reg :: u16
  video_port_val :: u16
  video_erase_char :: u16
  origin :: u32
  scr_end :: u32
  c_pos :: u32
  c_x :: u32
  c_y :: u32
  c_top :: u32
  c_bottom :: u32
  c_state :: u32
  npar :: u32
  par :: "nat \<Rightarrow> u32"
  ques :: bool
  attr :: u8
  saved_x :: u32
  saved_y :: u32
  con_beepcount :: int
  vmem :: "u32 \<Rightarrow> u16"
  con_in :: "u16 \<Rightarrow> u8"
  con_out :: "(u16 \<times> u8) list"

definition con_outb :: "u8 \<Rightarrow> u16 \<Rightarrow> con \<Rightarrow> con" where
  "con_outb v port w = w\<lparr>con_out := con_out w @ [(port, v)]\<rparr>"

section \<open>The string instructions on video memory\<close>

primrec rep_stosw :: "nat \<Rightarrow> u16 \<Rightarrow> u32 \<Rightarrow> (u32 \<Rightarrow> u16) \<Rightarrow> u32 \<Rightarrow> u16" where
  "rep_stosw 0 ax edi v = v"
| "rep_stosw (Suc n) ax edi v = rep_stosw n ax (edi + 2) (v(edi := ax))"

primrec rep_stosw_down :: "nat \<Rightarrow> u16 \<Rightarrow> u32 \<Rightarrow> (u32 \<Rightarrow> u16) \<Rightarrow> u32 \<Rightarrow> u16" where
  "rep_stosw_down 0 ax edi v = v"
| "rep_stosw_down (Suc n) ax edi v = rep_stosw_down n ax (edi - 2) (v(edi := ax))"

primrec cells_movsl :: "nat \<Rightarrow> u32 \<Rightarrow> u32 \<Rightarrow> (u32 \<Rightarrow> u16) \<Rightarrow> u32 \<Rightarrow> u16" where
  "cells_movsl 0 esi edi v = v"
| "cells_movsl (Suc n) esi edi v =
     cells_movsl n (esi + 4) (edi + 4) (v(edi := v esi, edi + 2 := v (esi + 2)))"

primrec cells_movsl_down :: "nat \<Rightarrow> u32 \<Rightarrow> u32 \<Rightarrow> (u32 \<Rightarrow> u16) \<Rightarrow> u32 \<Rightarrow> u16" where
  "cells_movsl_down 0 esi edi v = v"
| "cells_movsl_down (Suc n) esi edi v =
     cells_movsl_down n (esi - 4) (edi - 4) (v(edi := v esi, edi + 2 := v (esi + 2)))"

section \<open>Cursor and scrolling\<close>

definition gotoxy :: "u32 \<Rightarrow> u32 \<Rightarrow> con \<Rightarrow> con" where
  "gotoxy new_x new_y w =
     (if new_x > video_num_columns w \<or> new_y \<ge> video_num_lines w then w
      else w\<lparr>c_x := new_x, c_y := new_y,
             c_pos := origin w + new_y * video_size_row w + push_bit 1 new_x\<rparr>)"

definition set_origin :: "con \<Rightarrow> con" where
  "set_origin w =
     con_outb (ucast (0xff AND drop_bit 1 (origin w - video_mem_start w))) (video_port_val w)
       (con_outb 13 (video_port_reg w)
         (con_outb (ucast (0xff AND drop_bit 9 (origin w - video_mem_start w))) (video_port_val w)
           (con_outb 12 (video_port_reg w) w)))"

definition set_cursor :: "con \<Rightarrow> con" where
  "set_cursor w =
     con_outb (ucast (0xff AND drop_bit 1 (c_pos w - video_mem_start w))) (video_port_val w)
       (con_outb 15 (video_port_reg w)
         (con_outb (ucast (0xff AND drop_bit 9 (c_pos w - video_mem_start w))) (video_port_val w)
           (con_outb 14 (video_port_reg w) w)))"

text \<open>\<open>rep movsl\<close> of \<open>cnt\<close> double words and then \<open>rep stosw\<close> of a row where it stopped.\<close>

definition move_up :: "u32 \<Rightarrow> u32 \<Rightarrow> u32 \<Rightarrow> con \<Rightarrow> con" where
  "move_up cnt esi edi w =
     w\<lparr>vmem := rep_stosw (unat (video_num_columns w)) (video_erase_char w)
                 (edi + 4 * of_nat (unat cnt)) (cells_movsl (unat cnt) esi edi (vmem w))\<rparr>"

definition move_down :: "u32 \<Rightarrow> u32 \<Rightarrow> u32 \<Rightarrow> con \<Rightarrow> con" where
  "move_down cnt esi edi w =
     w\<lparr>vmem := rep_stosw_down (unat (video_num_columns w)) (video_erase_char w)
                 (edi - 4 * of_nat (unat cnt) + 2) (cells_movsl_down (unat cnt) esi edi (vmem w))\<rparr>"

definition scroll_region :: "con \<Rightarrow> con" where
  "scroll_region w =
     move_up (drop_bit 1 ((c_bottom w - c_top w - 1) * video_num_columns w))
       (origin w + video_size_row w * (c_top w + 1)) (origin w + video_size_row w * c_top w) w"

definition scrup :: "con \<Rightarrow> con" where
  "scrup w =
     (if video_type w = VIDEO_TYPE_EGAC \<or> video_type w = VIDEO_TYPE_EGAM then
        if c_top w = 0 \<and> c_bottom w = video_num_lines w then
          let w = w\<lparr>origin := origin w + video_size_row w\<rparr>;
              w = w\<lparr>c_pos := c_pos w + video_size_row w\<rparr>;
              w = w\<lparr>scr_end := scr_end w + video_size_row w\<rparr>;
              w = (if scr_end w > video_mem_end w then
                     let w = move_up (drop_bit 1 ((video_num_lines w - 1) * video_num_columns w))
                               (origin w) (video_mem_start w) w;
                         w = w\<lparr>scr_end := scr_end w - (origin w - video_mem_start w)\<rparr>;
                         w = w\<lparr>c_pos := c_pos w - (origin w - video_mem_start w)\<rparr>
                     in w\<lparr>origin := video_mem_start w\<rparr>
                   else
                     w\<lparr>vmem := rep_stosw (unat (video_num_columns w)) (video_erase_char w)
                                 (scr_end w - video_size_row w) (vmem w)\<rparr>)
          in set_origin w
        else scroll_region w
      else scroll_region w)"

text \<open>The two branches of \<open>scrdown\<close> are the same code.\<close>

definition scrdown :: "con \<Rightarrow> con" where
  "scrdown w =
     move_down (drop_bit 1 ((c_bottom w - c_top w - 1) * video_num_columns w))
       (origin w + video_size_row w * (c_bottom w - 1) - 4)
       (origin w + video_size_row w * c_bottom w - 4) w"

definition lf :: "con \<Rightarrow> con" where
  "lf w =
     (if c_y w + 1 < c_bottom w then w\<lparr>c_y := c_y w + 1, c_pos := c_pos w + video_size_row w\<rparr>
      else scrup w)"

definition ri :: "con \<Rightarrow> con" where
  "ri w =
     (if c_y w > c_top w then w\<lparr>c_y := c_y w - 1, c_pos := c_pos w - video_size_row w\<rparr>
      else scrdown w)"

definition cr :: "con \<Rightarrow> con" where
  "cr w = w\<lparr>c_pos := c_pos w - push_bit 1 (c_x w), c_x := 0\<rparr>"

definition del_char :: "con \<Rightarrow> con" where
  "del_char w =
     (if c_x w \<noteq> 0
      then w\<lparr>c_pos := c_pos w - 2, c_x := c_x w - 1,
             vmem := (vmem w)(c_pos w - 2 := video_erase_char w)\<rparr>
      else w)"

section \<open>Erasing, inserting and deleting\<close>

definition erase_cells :: "u32 \<Rightarrow> u32 \<Rightarrow> con \<Rightarrow> con" where
  "erase_cells count start w =
     w\<lparr>vmem := rep_stosw (unat count) (video_erase_char w) start (vmem w)\<rparr>"

definition csi_J :: "u32 \<Rightarrow> con \<Rightarrow> con" where
  "csi_J p w =
     (if p = 0 then erase_cells (drop_bit 1 (scr_end w - c_pos w)) (c_pos w) w
      else if p = 1 then erase_cells (drop_bit 1 (c_pos w - origin w)) (origin w) w
      else if p = 2 then erase_cells (video_num_columns w * video_num_lines w) (origin w) w
      else w)"

definition csi_K :: "u32 \<Rightarrow> con \<Rightarrow> con" where
  "csi_K p w =
     (if p = 0 then
        if c_x w \<ge> video_num_columns w then w
        else erase_cells (video_num_columns w - c_x w) (c_pos w) w
      else if p = 1 then
        erase_cells (if c_x w < video_num_columns w then c_x w else video_num_columns w)
          (c_pos w - push_bit 1 (c_x w)) w
      else if p = 2 then erase_cells (video_num_columns w) (c_pos w - push_bit 1 (c_x w)) w
      else w)"

definition csi_m :: "con \<Rightarrow> con" where
  "csi_m w =
     fold (\<lambda>i w.
        if par w i = 0 then w\<lparr>attr := 0x07\<rparr>
        else if par w i = 1 then w\<lparr>attr := 0x0f\<rparr>
        else if par w i = 4 then w\<lparr>attr := 0x0f\<rparr>
        else if par w i = 7 then w\<lparr>attr := 0x70\<rparr>
        else if par w i = 27 then w\<lparr>attr := 0x07\<rparr>
        else w) [0..<unat (npar w) + 1] w"

primrec insert_loop :: "nat \<Rightarrow> u32 \<Rightarrow> u16 \<Rightarrow> (u32 \<Rightarrow> u16) \<Rightarrow> u32 \<Rightarrow> u16" where
  "insert_loop 0 p old v = v"
| "insert_loop (Suc n) p old v = insert_loop n (p + 2) (v p) (v(p := old))"

definition insert_char :: "con \<Rightarrow> con" where
  "insert_char w =
     w\<lparr>vmem := insert_loop (unat (video_num_columns w) - unat (c_x w)) (c_pos w)
                 (video_erase_char w) (vmem w)\<rparr>"

primrec delete_loop :: "nat \<Rightarrow> u32 \<Rightarrow> u16 \<Rightarrow> (u32 \<Rightarrow> u16) \<Rightarrow> u32 \<Rightarrow> u16" where
  "delete_loop 0 p er v = v(p := er)"
| "delete_loop (Suc n) p er v = delete_loop n (p + 2) er (v(p := v (p + 2)))"

definition delete_char :: "con \<Rightarrow> con" where
  "delete_char w =
     (if c_x w \<ge> video_num_columns w then w
      else w\<lparr>vmem := delete_loop (unat (video_num_columns w) - unat (c_x w) - 1) (c_pos w)
                       (video_erase_char w) (vmem w)\<rparr>)"

definition insert_line :: "con \<Rightarrow> con" where
  "insert_line w =
     (scrdown (w\<lparr>c_top := c_y w, c_bottom := video_num_lines w\<rparr>))
       \<lparr>c_top := c_top w, c_bottom := c_bottom w\<rparr>"

definition delete_line :: "con \<Rightarrow> con" where
  "delete_line w =
     (scrup (w\<lparr>c_top := c_y w, c_bottom := video_num_lines w\<rparr>))
       \<lparr>c_top := c_top w, c_bottom := c_bottom w\<rparr>"

definition clip :: "u32 \<Rightarrow> u32 \<Rightarrow> u32" where
  "clip nr lim = (if nr > lim then lim else if nr = 0 then 1 else nr)"

definition csi_at :: "u32 \<Rightarrow> con \<Rightarrow> con" where
  "csi_at nr w = (insert_char ^^ unat (clip nr (video_num_columns w))) w"

definition csi_L :: "u32 \<Rightarrow> con \<Rightarrow> con" where
  "csi_L nr w = (insert_line ^^ unat (clip nr (video_num_lines w))) w"

definition csi_P :: "u32 \<Rightarrow> con \<Rightarrow> con" where
  "csi_P nr w = (delete_char ^^ unat (clip nr (video_num_columns w))) w"

definition csi_M :: "u32 \<Rightarrow> con \<Rightarrow> con" where
  "csi_M nr w = (delete_line ^^ unat (clip nr (video_num_lines w))) w"

definition save_cur :: "con \<Rightarrow> con" where
  "save_cur w = w\<lparr>saved_x := c_x w, saved_y := c_y w\<rparr>"

definition restore_cur :: "con \<Rightarrow> con" where
  "restore_cur w = gotoxy (saved_x w) (saved_y w) w"

definition sysbeep :: "con \<Rightarrow> con" where
  "sysbeep w =
     (con_outb 0x06 0x42 (con_outb 0x37 0x42 (con_outb 0xB6 0x43
        (con_outb (con_in w 0x61 OR 3) 0x61 w))))\<lparr>con_beepcount := 100 div 8\<rparr>"

section \<open>con_write, character by character\<close>

definition wrap_line :: "con \<Rightarrow> con" where
  "wrap_line w =
     lf (w\<lparr>c_x := c_x w - video_num_columns w, c_pos := c_pos w - video_size_row w\<rparr>)"

definition con_plain :: "u8 \<Rightarrow> u8 \<Rightarrow> con \<Rightarrow> con" where
  "con_plain erase c w =
     (if 31 <s c \<and> c <s 127 then
        let w = (if c_x w \<ge> video_num_columns w then wrap_line w else w);
            w = w\<lparr>vmem := (vmem w)(c_pos w := push_bit 8 (ucast (attr w)) OR ucast c)\<rparr>
        in w\<lparr>c_pos := c_pos w + 2, c_x := c_x w + 1\<rparr>
      else if c = 27 then w\<lparr>c_state := 1\<rparr>
      else if c = 10 \<or> c = 11 \<or> c = 12 then lf w
      else if c = 13 then cr w
      else if sint c = uint erase then del_char w
      else if c = 8 then
        if c_x w \<noteq> 0 then w\<lparr>c_x := c_x w - 1, c_pos := c_pos w - 2\<rparr> else w
      else if c = 9 then
        let t = 8 - (c_x w AND 7);
            w = w\<lparr>c_x := c_x w + t, c_pos := c_pos w + push_bit 1 t\<rparr>
        in if c_x w > video_num_columns w then wrap_line w else w
      else if c = 7 then sysbeep w
      else w)"

definition set_par :: "nat \<Rightarrow> u32 \<Rightarrow> con \<Rightarrow> con" where
  "set_par i v w = w\<lparr>par := (par w)(i := v)\<rparr>"

text \<open>\<open>if (par[i]) par[i]--\<close> and \<open>if (!par[i]) par[i]++\<close>.\<close>

definition par_dec :: "nat \<Rightarrow> con \<Rightarrow> con" where
  "par_dec i w = (if par w i \<noteq> 0 then set_par i (par w i - 1) w else w)"

definition par_one :: "nat \<Rightarrow> con \<Rightarrow> con" where
  "par_one i w = (if par w i = 0 then set_par i (par w i + 1) w else w)"

definition con_csi :: "u8 \<Rightarrow> con \<Rightarrow> con" where
  "con_csi c w =
     (if c = 71 \<or> c = 96 then let w = par_dec 0 w in gotoxy (par w 0) (c_y w) w
      else if c = 65 then let w = par_one 0 w in gotoxy (c_x w) (c_y w - par w 0) w
      else if c = 66 \<or> c = 101 then let w = par_one 0 w in gotoxy (c_x w) (c_y w + par w 0) w
      else if c = 67 \<or> c = 97 then let w = par_one 0 w in gotoxy (c_x w + par w 0) (c_y w) w
      else if c = 68 then let w = par_one 0 w in gotoxy (c_x w - par w 0) (c_y w) w
      else if c = 69 then let w = par_one 0 w in gotoxy 0 (c_y w + par w 0) w
      else if c = 70 then let w = par_one 0 w in gotoxy 0 (c_y w - par w 0) w
      else if c = 100 then let w = par_dec 0 w in gotoxy (c_x w) (par w 0) w
      else if c = 72 \<or> c = 102 then
        let w = par_dec 1 (par_dec 0 w) in gotoxy (par w 1) (par w 0) w
      else if c = 74 then csi_J (par w 0) w
      else if c = 75 then csi_K (par w 0) w
      else if c = 76 then csi_L (par w 0) w
      else if c = 77 then csi_M (par w 0) w
      else if c = 80 then csi_P (par w 0) w
      else if c = 64 then csi_at (par w 0) w
      else if c = 109 then csi_m w
      else if c = 114 then
        let w = par_dec 0 w;
            w = (if par w 1 = 0 then set_par 1 (video_num_lines w) w else w)
        in if par w 0 < par w 1 \<and> par w 1 \<le> video_num_lines w
           then w\<lparr>c_top := par w 0, c_bottom := par w 1\<rparr> else w
      else if c = 115 then save_cur w
      else if c = 117 then restore_cur w
      else w)"

definition con_params :: "u8 \<Rightarrow> con \<Rightarrow> con" where
  "con_params c w =
     (if c = 59 \<and> npar w < 15 then w\<lparr>npar := npar w + 1\<rparr>
      else if 48 \<le>s c \<and> c \<le>s 57
      then set_par (unat (npar w)) (10 * par w (unat (npar w)) + ucast c - 48) w
      else con_csi c (w\<lparr>c_state := 0\<rparr>))"

definition con_char :: "u8 \<Rightarrow> u8 \<Rightarrow> con \<Rightarrow> bool \<times> con" where
  "con_char erase c w =
     (if c_state w = 0 then (False, con_plain erase c w)
      else if c_state w = 1 then
        let w = w\<lparr>c_state := 0\<rparr>
        in if c = 91 then (False, w\<lparr>c_state := 2\<rparr>)
           else if c = 69 then (False, gotoxy 0 (c_y w + 1) w)
           else if c = 77 then (False, ri w)
           else if c = 68 then (False, lf w)
           else if c = 90 then (True, w)
           else if c_x w = 55 then (False, save_cur w)
           else if c_x w = 56 then (False, restore_cur w)
           else (False, w)
      else if c_state w = 2 then
        let w = w\<lparr>par := (\<lambda>i. if i < NPAR then 0 else par w i), npar := 0, c_state := 3,
                   ques := (c = 63)\<rparr>
        in (False, if ques w then w else con_params c w)
      else if c_state w = 3 then (False, con_params c w)
      else if c_state w = 4 then (False, con_csi c (w\<lparr>c_state := 0\<rparr>))
      else (False, w))"

definition RESPONSE :: "u8 list" where
  "RESPONSE = [27, 91, 63, 49, 59, 50, 99]"

section \<open>con_init\<close>

text \<open>
  The arguments are what the set-up code left at 90000h: the cursor, the video page, the word
  with mode and columns, and EGA's \<open>BX\<close>.  The four letters of the display's name go into the low
  bytes of the last cells of the first row.  The interrupt gate is not part of this state.
\<close>

primrec put_desc :: "u8 list \<Rightarrow> u32 \<Rightarrow> (u32 \<Rightarrow> u16) \<Rightarrow> u32 \<Rightarrow> u16" where
  "put_desc [] p v = v"
| "put_desc (c # cs) p v = put_desc cs (p + 2) (v(p := (v p AND 0xff00) OR ucast c))"

definition con_init :: "u8 \<Rightarrow> u8 \<Rightarrow> u16 \<Rightarrow> u16 \<Rightarrow> u16 \<Rightarrow> con \<Rightarrow> con" where
  "con_init orig_x orig_y page mode_cols ega_bx w =
     (let cols = ucast (drop_bit 8 (mode_cols AND 0xff00)) :: u32;
          mono = (mode_cols AND 0xff = 7);
          ega = (ega_bx AND 0xff \<noteq> 0x10);
          start = (if mono then 0xb0000 else 0xb8000);
          w = w\<lparr>video_num_columns := cols, video_size_row := cols * 2, video_num_lines := 25,
                 video_page := ucast page, video_erase_char := 0x0720,
                 video_mem_start := start,
                 video_port_reg := (if mono then 0x3b4 else 0x3d4),
                 video_port_val := (if mono then 0x3b5 else 0x3d5),
                 video_type := (if mono then if ega then VIDEO_TYPE_EGAM else VIDEO_TYPE_MDA
                                else if ega then VIDEO_TYPE_EGAC else VIDEO_TYPE_CGA),
                 video_mem_end := (if mono then if ega then 0xb8000 else 0xb2000
                                   else if ega then 0xbc000 else 0xba000)\<rparr>;
          desc = (if mono then if ega then [69, 71, 65, 109] else [42, 77, 68, 65]
                  else if ega then [69, 71, 65, 99] else [42, 67, 71, 65]);
          w = w\<lparr>vmem := put_desc desc (start + video_size_row w - 8) (vmem w)\<rparr>;
          w = w\<lparr>origin := start, scr_end := start + video_num_lines w * video_size_row w,
                 c_top := 0, c_bottom := video_num_lines w\<rparr>;
          w = gotoxy (ucast orig_x) (ucast orig_y) w;
          a = con_in w 0x61
      in con_outb a 0x61 (con_outb (a OR 0x80) 0x61 (con_outb (con_in w 0x21 AND 0xfd) 0x21 w)))"

section \<open>The invariant\<close>

definition cells :: "con \<Rightarrow> nat" where
  "cells w = unat (video_num_lines w) * unat (video_num_columns w)"

text \<open>
  The geometry of the display (\<open>con_geo\<close>) and the cursor: the cursor inside it (one column past the last is allowed), the
  position that belongs to the cursor, a scroll region of at least one line, and the screen
  inside video memory, on even addresses.
\<close>

definition con_geo :: "con \<Rightarrow> bool" where
  "con_geo w \<longleftrightarrow>
     8 \<le> unat (video_num_columns w) \<and> even (unat (video_num_columns w)) \<and>
     video_size_row w = 2 * video_num_columns w \<and>
     0 < unat (video_num_lines w) \<and>
     unat (video_mem_start w) \<le> unat (origin w) \<and>
     unat (origin w) + 2 * cells w \<le> unat (video_mem_end w) \<and>
     unat (video_mem_end w) \<le> 1048576 \<and>
     scr_end w = origin w + video_num_lines w * video_size_row w \<and>
     unat (c_top w) < unat (c_bottom w) \<and> unat (c_bottom w) \<le> unat (video_num_lines w) \<and>
     unat (npar w) < NPAR \<and> even (unat (origin w)) \<and> even (unat (video_mem_start w))"

definition con_wf :: "con \<Rightarrow> bool" where
  "con_wf w \<longleftrightarrow>
     con_geo w \<and> unat (c_x w) \<le> unat (video_num_columns w) \<and>
     unat (c_y w) < unat (video_num_lines w) \<and>
     c_pos w = origin w + c_y w * video_size_row w + 2 * c_x w"

lemma con_geoD:
  assumes "con_geo w"
  shows "video_size_row w = 2 * video_num_columns w"
    and "scr_end w = origin w + video_num_lines w * video_size_row w"
    and "unat (c_top w) < unat (c_bottom w)" and "unat (c_bottom w) \<le> unat (video_num_lines w)"
    and "8 \<le> unat (video_num_columns w)" and "even (unat (video_num_columns w))"
    and "unat (video_mem_start w) \<le> unat (origin w)"
    and "unat (origin w) + 2 * cells w \<le> unat (video_mem_end w)"
    and "unat (video_mem_end w) \<le> 1048576" and "unat (npar w) < NPAR"
    and "even (unat (origin w))" and "even (unat (video_mem_start w))"
  using assms unfolding con_geo_def by blast+

lemma con_wf_geo: "con_wf w \<Longrightarrow> con_geo w"
  by (simp add: con_wf_def)

lemma con_wf_cursor:
  assumes "con_wf w"
  shows "c_pos w = origin w + c_y w * video_size_row w + 2 * c_x w"
    and "unat (c_x w) \<le> unat (video_num_columns w)" and "unat (c_y w) < unat (video_num_lines w)"
  using assms unfolding con_wf_def by blast+

lemmas con_wfD = con_wf_cursor con_geoD [OF con_wf_geo]

definition cell :: "con \<Rightarrow> nat \<Rightarrow> u32" where
  "cell w i = origin w + 2 * of_nat i"

text \<open>Two states whose screens differ only inside video memory.\<close>

definition in_video :: "con \<Rightarrow> u32 \<Rightarrow> bool" where
  "in_video w a \<longleftrightarrow> video_mem_start w \<le> a \<and> a < video_mem_end w"

lemma cells_bound: "con_geo w \<Longrightarrow> 2 * cells w \<le> 1048576"
  using con_geoD(8,9) [of w] by linarith

lemma cell_in_video:
  assumes "con_geo w" and "i < cells w"
  shows "in_video w (cell w i)" "unat (cell w i) = unat (origin w) + 2 * i"
proof -
  have b: "unat (video_mem_start w) \<le> unat (origin w)"
    "unat (origin w) + 2 * cells w \<le> unat (video_mem_end w)" "unat (video_mem_end w) \<le> 1048576"
    using con_geoD [OF assms(1)] by blast+
  have i: "unat (of_nat (2 * i) :: u32) = 2 * i"
    using assms(2) b by (simp add: unat_of_nat del: of_nat_mult)
  have "cell w i = origin w + of_nat (2 * i)" by (simp add: cell_def)
  then show u: "unat (cell w i) = unat (origin w) + 2 * i"
    using assms(2) b i unat_add_no_wrap [of "origin w" "of_nat (2 * i)"] by simp
  show "in_video w (cell w i)"
    using u b assms(2) by (simp add: in_video_def word_le_nat_alt word_less_nat_alt)
qed

lemma u32_nat: "(a :: u32) = of_nat (unat a)"
  by simp

lemma pos_cell:
  assumes "con_wf w"
  shows "c_pos w = cell w (unat (c_y w) * unat (video_num_columns w) + unat (c_x w))"
    and "scr_end w = cell w (cells w)"
    and "unat (c_y w) * unat (video_num_columns w) + unat (c_x w) \<le> cells w"
proof -
  show "c_pos w = cell w (unat (c_y w) * unat (video_num_columns w) + unat (c_x w))"
    by (simp add: con_wfD(1,4) [OF assms] cell_def algebra_simps)
  show "scr_end w = cell w (cells w)"
    by (simp add: con_wfD(4,5) [OF assms] cell_def cells_def algebra_simps)
  have "Suc (unat (c_y w)) * unat (video_num_columns w) \<le> cells w"
    unfolding cells_def using con_wf_cursor(3) [OF assms] by (intro mult_right_mono) auto
  then show "unat (c_y w) * unat (video_num_columns w) + unat (c_x w) \<le> cells w"
    using con_wf_cursor(2) [OF assms] by simp
qed

subsection \<open>What the loops write\<close>

lemma rep_stosw_out:
  "(\<And>i. i < n \<Longrightarrow> a \<noteq> edi + 2 * of_nat i) \<Longrightarrow> rep_stosw n ax edi v a = v a"
proof (induction n arbitrary: edi v)
  case (Suc n)
  have "a \<noteq> edi + 2 + 2 * of_nat i" if "i < n" for i
    using Suc.prems [of "Suc i"] that by (simp add: algebra_simps)
  then show ?case using Suc.IH [of "edi + 2"] Suc.prems [of 0] by simp
qed simp

lemma rep_stosw_down_out:
  "(\<And>i. i < n \<Longrightarrow> a \<noteq> edi - 2 * of_nat i) \<Longrightarrow> rep_stosw_down n ax edi v a = v a"
proof (induction n arbitrary: edi v)
  case (Suc n)
  have "a \<noteq> edi - 2 - 2 * of_nat i" if "i < n" for i
    using Suc.prems [of "Suc i"] that by (simp add: algebra_simps)
  then show ?case using Suc.IH [of "edi - 2"] Suc.prems [of 0] by simp
qed simp

lemma cells_movsl_out:
  "(\<And>i. i < 2 * n \<Longrightarrow> a \<noteq> edi + 2 * of_nat i) \<Longrightarrow> cells_movsl n esi edi v a = v a"
proof (induction n arbitrary: esi edi v)
  case (Suc n)
  have "a \<noteq> edi + 4 + 2 * of_nat i" if "i < 2 * n" for i
    using Suc.prems [of "Suc (Suc i)"] that by (simp add: algebra_simps)
  then show ?case using Suc.IH [of "edi + 4"] Suc.prems [of 0] Suc.prems [of 1] by simp
qed simp

lemma cells_movsl_down_out:
  "(\<And>i. i < n \<Longrightarrow> a \<noteq> edi - 4 * of_nat i \<and> a \<noteq> edi - 4 * of_nat i + 2) \<Longrightarrow>
   cells_movsl_down n esi edi v a = v a"
proof (induction n arbitrary: esi edi v)
  case (Suc n)
  have "a \<noteq> edi - 4 - 4 * of_nat i \<and> a \<noteq> edi - 4 - 4 * of_nat i + 2" if "i < n" for i
    using Suc.prems [of "Suc i"] that by (simp add: algebra_simps)
  then show ?case using Suc.IH [of "edi - 4"] Suc.prems [of 0] by simp
qed simp

lemma insert_loop_out:
  "(\<And>i. i < n \<Longrightarrow> a \<noteq> p + 2 * of_nat i) \<Longrightarrow> insert_loop n p old v a = v a"
proof (induction n arbitrary: p old v)
  case (Suc n)
  have "a \<noteq> p + 2 + 2 * of_nat i" if "i < n" for i
    using Suc.prems [of "Suc i"] that by (simp add: algebra_simps)
  then show ?case using Suc.IH [of "p + 2"] Suc.prems [of 0] by simp
qed simp

lemma delete_loop_out:
  "(\<And>i. i \<le> n \<Longrightarrow> a \<noteq> p + 2 * of_nat i) \<Longrightarrow> delete_loop n p er v a = v a"
proof (induction n arbitrary: p v)
  case 0
  then show ?case using "0" [of 0] by simp
next
  case (Suc n)
  have "a \<noteq> p + 2 + 2 * of_nat i" if "i \<le> n" for i
    using Suc.prems [of "Suc i"] that by (simp add: algebra_simps)
  then show ?case using Suc.IH [of "p + 2"] Suc.prems [of 0] by simp
qed

subsection \<open>Safe steps\<close>

definition same_geometry :: "con \<Rightarrow> con \<Rightarrow> bool" where
  "same_geometry w w' \<longleftrightarrow>
     video_num_columns w' = video_num_columns w \<and> video_num_lines w' = video_num_lines w \<and>
     video_mem_start w' = video_mem_start w \<and> video_mem_end w' = video_mem_end w \<and>
     video_type w' = video_type w"

definition con_safe :: "con \<Rightarrow> con \<Rightarrow> bool" where
  "con_safe w w' \<longleftrightarrow>
     con_wf w' \<and> same_geometry w w' \<and> (\<forall>a. \<not> in_video w a \<longrightarrow> vmem w' a = vmem w a)"

lemma con_safe_trans: "con_safe w w' \<Longrightarrow> con_safe w' w'' \<Longrightarrow> con_safe w w''"
  by (simp add: con_safe_def same_geometry_def in_video_def)

lemma con_safe_refl: "con_wf w \<Longrightarrow> con_safe w w"
  by (simp add: con_safe_def same_geometry_def)

lemma con_safe_wf: "con_safe w w' \<Longrightarrow> con_wf w'"
  by (simp add: con_safe_def)

lemma con_safe_if:
  "(b \<Longrightarrow> con_safe w x) \<Longrightarrow> (\<not> b \<Longrightarrow> con_safe w y) \<Longrightarrow> con_safe w (if b then x else y)"
  by simp

text \<open>Fields the invariant does not speak about.\<close>

lemma con_geo_simps [simp]:
  "con_geo (w\<lparr>vmem := v\<rparr>) = con_geo w" "con_geo (con_outb b p w) = con_geo w"
  "con_geo (w\<lparr>c_state := st\<rparr>) = con_geo w" "con_geo (w\<lparr>attr := at\<rparr>) = con_geo w"
  "con_geo (set_par i x w) = con_geo w" "con_geo (save_cur w) = con_geo w"
  "con_geo (w\<lparr>con_beepcount := bc\<rparr>) = con_geo w" "con_geo (w\<lparr>ques := qu\<rparr>) = con_geo w"
  "con_geo (w\<lparr>c_x := nx\<rparr>) = con_geo w" "con_geo (w\<lparr>c_y := ny\<rparr>) = con_geo w"
  "con_geo (w\<lparr>c_pos := np\<rparr>) = con_geo w" "con_geo (w\<lparr>par := pa\<rparr>) = con_geo w"
  by (simp_all add: con_geo_def cells_def con_outb_def set_par_def save_cur_def)

lemma con_wf_simps [simp]:
  "con_wf (w\<lparr>vmem := v\<rparr>) = con_wf w" "con_wf (con_outb b p w) = con_wf w"
  "con_wf (w\<lparr>c_state := st\<rparr>) = con_wf w" "con_wf (w\<lparr>attr := at\<rparr>) = con_wf w"
  "con_wf (set_par i x w) = con_wf w" "con_wf (save_cur w) = con_wf w"
  "con_wf (w\<lparr>con_beepcount := bc\<rparr>) = con_wf w" "con_wf (w\<lparr>ques := qu\<rparr>) = con_wf w"
  "con_wf (w\<lparr>par := pa\<rparr>) = con_wf w"
  by (simp_all add: con_wf_def) (simp_all add: con_outb_def set_par_def save_cur_def)

lemma con_safe_simps [simp]:
  "con_safe w (con_outb b p w') = con_safe w w'" "con_safe w (w'\<lparr>c_state := st\<rparr>) = con_safe w w'"
  "con_safe w (w'\<lparr>attr := at\<rparr>) = con_safe w w'" "con_safe w (set_par i x w') = con_safe w w'"
  "con_safe w (save_cur w') = con_safe w w'" "con_safe w (w'\<lparr>con_beepcount := bc\<rparr>) = con_safe w w'"
  "con_safe w (w'\<lparr>ques := qu\<rparr>) = con_safe w w'" "con_safe w (w'\<lparr>par := pa\<rparr>) = con_safe w w'"
  by (simp_all add: con_safe_def) (simp_all add: same_geometry_def con_outb_def set_par_def save_cur_def)

text \<open>A step that changes only cells of the screen.\<close>

lemma screen_only:
  assumes "con_geo w" and "\<And>a. (\<And>i. i < cells w \<Longrightarrow> a \<noteq> cell w i) \<Longrightarrow> v a = vmem w a"
    and "\<not> in_video w a"
  shows "v a = vmem w a"
  by (rule assms(2)) (use assms(1,3) cell_in_video(1) in blast)

lemma con_safe_vmem:
  assumes wf: "con_wf w" and out: "\<And>a. (\<And>i. i < cells w \<Longrightarrow> a \<noteq> cell w i) \<Longrightarrow> v a = vmem w a"
  shows "con_safe w (w\<lparr>vmem := v\<rparr>)"
  using wf screen_only [OF con_wf_geo [OF wf] out] by (simp add: con_safe_def same_geometry_def)

text \<open>A step that moves the cursor within the screen.\<close>

lemma con_safe_cursor:
  assumes "con_wf w" and "unat nx \<le> unat (video_num_columns w)" and "unat ny < unat (video_num_lines w)"
    and "np = origin w + ny * video_size_row w + 2 * nx"
  shows "con_safe w (w\<lparr>c_x := nx, c_y := ny, c_pos := np\<rparr>)"
  using assms(2,3) con_wf_geo [OF assms(1)] unfolding con_safe_def con_wf_def same_geometry_def assms(4)
  by simp

lemma con_safe_column:
  assumes "con_wf w" and "unat nx \<le> unat (video_num_columns w)"
    and "np = origin w + c_y w * video_size_row w + 2 * nx"
  shows "con_safe w (w\<lparr>c_x := nx, c_pos := np\<rparr>)" "con_safe w (w\<lparr>c_pos := np, c_x := nx\<rparr>)"
proof -
  have eq: "w\<lparr>c_pos := np, c_x := nx\<rparr> = w\<lparr>c_x := nx, c_pos := np\<rparr>" by simp
  show *: "con_safe w (w\<lparr>c_x := nx, c_pos := np\<rparr>)"
    using con_safe_cursor [OF assms(1,2) con_wf_cursor(3) [OF assms(1)] assms(3)] by simp
  show "con_safe w (w\<lparr>c_pos := np, c_x := nx\<rparr>)" unfolding eq by (rule *)
qed

lemma con_safe_line:
  assumes "con_wf w" and "unat ny < unat (video_num_lines w)"
    and "np = origin w + ny * video_size_row w + 2 * c_x w"
  shows "con_safe w (w\<lparr>c_y := ny, c_pos := np\<rparr>)"
  using con_safe_cursor [OF assms(1) con_wf_cursor(2) [OF assms(1)] assms(2,3)] by simp

lemma gotoxy_safe: "con_wf w \<Longrightarrow> con_safe w (gotoxy nx ny w)"
  unfolding gotoxy_def
  by (auto simp: con_safe_refl not_less not_le word_le_nat_alt word_less_nat_alt push_bit_eq_mult
      intro!: con_safe_cursor)

lemma sysbeep_safe: "con_wf w \<Longrightarrow> con_safe w (sysbeep w)"
  by (simp add: sysbeep_def con_safe_refl)

lemma cr_safe:
  assumes "con_wf w"
  shows "con_safe w (cr w)"
  unfolding cr_def con_wf_cursor(1) [OF assms]
  by (rule con_safe_column [OF assms]) (simp_all add: push_bit_eq_mult)

lemma unat_dec: "(a :: u32) \<noteq> 0 \<Longrightarrow> unat (a - 1) = unat a - 1"
  by (simp add: unat_minus_one)

lemma left_safe:
  assumes "con_wf w" and "c_x w \<noteq> 0"
  shows "con_safe w (w\<lparr>c_x := c_x w - 1, c_pos := c_pos w - 2\<rparr>)"
  unfolding con_wf_cursor(1) [OF assms(1)]
  using con_wf_cursor(2) [OF assms(1)] unat_dec [OF assms(2)]
  by (intro con_safe_column [OF assms(1)]) (simp_all add: algebra_simps)

subsection \<open>Scrolling\<close>

lemma cell_add: "cell w s + 2 * of_nat i = cell w (s + i)"
  by (simp add: cell_def algebra_simps)

lemma cell_sub: "i \<le> s \<Longrightarrow> cell w s - 2 * of_nat i = cell w (s - i)"
  by (simp add: cell_def algebra_simps of_nat_diff)

lemma vmem_move_up_out:
  assumes "\<And>i. i < 2 * unat cnt + unat (video_num_columns w) \<Longrightarrow> a \<noteq> edi + 2 * of_nat i"
  shows "vmem (move_up cnt esi edi w) a = vmem w a"
proof -
  have "a \<noteq> edi + 4 * of_nat (unat cnt) + 2 * of_nat i" if "i < unat (video_num_columns w)" for i
    using assms [of "2 * unat cnt + i"] that by (simp add: algebra_simps)
  then show ?thesis
    unfolding move_up_def using assms by (simp add: rep_stosw_out cells_movsl_out)
qed

lemma vmem_move_down_out:
  assumes "\<And>i. i < 2 * unat cnt + unat (video_num_columns w) \<Longrightarrow> a \<noteq> edi + 2 - 2 * of_nat i"
  shows "vmem (move_down cnt esi edi w) a = vmem w a"
proof -
  have 1: "a \<noteq> edi - 4 * of_nat (unat cnt) + 2 - 2 * of_nat i" if "i < unat (video_num_columns w)" for i
    using assms [of "2 * unat cnt + i"] that by (simp add: algebra_simps)
  have 2: "a \<noteq> edi - 4 * of_nat i \<and> a \<noteq> edi - 4 * of_nat i + 2" if "i < unat cnt" for i
    using assms [of "2 * i"] assms [of "2 * i + 1"] that by (simp add: algebra_simps)
  show ?thesis
    unfolding move_down_def using 1 2 by (simp add: rep_stosw_down_out cells_movsl_down_out)
qed

lemma move_vmem:
  "move_up cnt esi edi w = w\<lparr>vmem := vmem (move_up cnt esi edi w)\<rparr>"
  "move_down cnt esi edi w = w\<lparr>vmem := vmem (move_down cnt esi edi w)\<rparr>"
  by (simp_all add: move_up_def move_down_def)

lemma unat_half:
  fixes n c :: u32
  assumes "even (unat c)" and "unat n * unat c < 4294967296"
  shows "2 * unat (drop_bit 1 (n * c)) = unat n * unat c"
proof -
  have "unat (drop_bit 1 (n * c)) = unat n * unat c div 2"
    using unat_mult_no_wrap [OF assms(2)] by (simp add: drop_bit_eq_div unat_div)
  then show ?thesis using assms(1) by simp
qed

lemma row_cell: "con_geo w \<Longrightarrow> origin w + video_size_row w * t = cell w (unat t * unat (video_num_columns w))"
  by (simp add: con_geoD cell_def algebra_simps)

lemma rows_le:
  assumes "con_geo w" and "n \<le> unat (video_num_lines w)"
  shows "n * unat (video_num_columns w) \<le> cells w" "n * unat (video_num_columns w) < 4294967296"
proof -
  show "n * unat (video_num_columns w) \<le> cells w"
    using assms(2) by (simp add: cells_def)
  then show "n * unat (video_num_columns w) < 4294967296"
    using cells_bound [OF assms(1)] by linarith
qed

text \<open>The number of double words that are moved when the region scrolls.\<close>

lemma region_count:
  assumes "con_geo w"
  shows "2 * unat (drop_bit 1 ((c_bottom w - c_top w - 1) * video_num_columns w)) =
    (unat (c_bottom w) - unat (c_top w) - 1) * unat (video_num_columns w)"
proof -
  note D = con_geoD [OF assms]
  have le: "c_top w \<le> c_bottom w" and ne: "c_bottom w - c_top w \<noteq> 0"
    using D(3) by (auto simp: word_le_nat_alt)
  have n: "unat (c_bottom w - c_top w - 1) = unat (c_bottom w) - unat (c_top w) - 1"
    using unat_dec [OF ne] unat_sub [OF le] by simp
  have "unat (c_bottom w) - unat (c_top w) - 1 \<le> unat (video_num_lines w)" using D(4) by simp
  from rows_le(2) [OF assms this] show ?thesis
    using unat_half [OF D(6), of "c_bottom w - c_top w - 1"] n by simp
qed

lemma region_split:
  assumes "con_geo w"
  shows "unat (c_top w) * unat (video_num_columns w) +
      ((unat (c_bottom w) - unat (c_top w) - 1) * unat (video_num_columns w) + unat (video_num_columns w)) =
    unat (c_bottom w) * unat (video_num_columns w)"
proof -
  obtain d where "unat (c_bottom w) = unat (c_top w) + d + 1"
    using con_geoD(3) [OF assms] less_iff_Suc_add by auto
  then show ?thesis by (simp add: algebra_simps)
qed

lemma scroll_region_safe:
  assumes "con_wf w"
  shows "con_safe w (scroll_region w)"
proof -
  let ?c = "unat (video_num_columns w)"
  let ?n = "drop_bit 1 ((c_bottom w - c_top w - 1) * video_num_columns w)"
  note g = con_wf_geo [OF assms]
  have lt: "unat (c_top w) * ?c + i < cells w" if "i < 2 * unat ?n + ?c" for i
    using that region_count [OF g] region_split [OF g] rows_le(1) [OF g con_geoD(4) [OF g]] by linarith
  have "con_safe w (w\<lparr>vmem := vmem (move_up ?n esi (cell w (unat (c_top w) * ?c)) w)\<rparr>)" for esi
    by (intro con_safe_vmem [OF assms] vmem_move_up_out) (simp only: cell_add lt not_False_eq_True)
  then show ?thesis
    unfolding scroll_region_def row_cell [OF g] move_vmem(1) [symmetric] .
qed

lemma scrdown_safe:
  assumes "con_wf w"
  shows "con_safe w (scrdown w)"
proof -
  let ?c = "unat (video_num_columns w)" and ?b = "unat (c_bottom w) * unat (video_num_columns w)"
  let ?n = "drop_bit 1 ((c_bottom w - c_top w - 1) * video_num_columns w)"
  note g = con_wf_geo [OF assms]
  have b: "i < ?b" if "i < 2 * unat ?n + ?c" for i
    using that region_count [OF g] region_split [OF g] by linarith
  have lt: "?b - (i + 1) < cells w" if "i < 2 * unat ?n + ?c" for i
    using b [OF that] rows_le(1) [OF g con_geoD(4) [OF g]] by linarith
  have eq: "cell w ?b - 4 + 2 - 2 * of_nat i = cell w (?b - (i + 1))" if "i < 2 * unat ?n + ?c" for i
  proof -
    have "cell w (?b - (i + 1)) = cell w ?b - 2 * of_nat (i + 1)"
      using cell_sub [of "i + 1" ?b w] b [OF that] by simp
    then show ?thesis by (simp add: algebra_simps)
  qed
  have "con_safe w (w\<lparr>vmem := vmem (move_down ?n esi (cell w ?b - 4) w)\<rparr>)" for esi
    by (intro con_safe_vmem [OF assms] vmem_move_down_out) (simp only: eq lt not_False_eq_True)
  then show ?thesis
    unfolding scrdown_def row_cell [OF g] move_vmem(2) [symmetric] .
qed

text \<open>A hardware scroll: the origin moves within video memory and the cursor with it.\<close>

lemma con_safe_origin:
  assumes wf: "con_wf w"
    and ev: "even (unat no)"
    and lo: "unat (video_mem_start w) \<le> unat no" and hi: "unat no + 2 * cells w \<le> unat (video_mem_end w)"
    and out: "\<And>a. (\<And>i. i < cells w \<Longrightarrow> a \<noteq> no + 2 * of_nat i) \<Longrightarrow> v a = vmem w a"
  shows "con_safe w (w\<lparr>origin := no, c_pos := c_pos w - origin w + no,
    scr_end := scr_end w - origin w + no, vmem := v\<rparr>)" (is "con_safe w ?w")
proof -
  note D = con_wfD [OF wf]
  have c: "cells ?w = cells w" by (simp add: cells_def)
  have "con_geo ?w"
    unfolding con_geo_def c using D(4-15) ev lo hi by simp
  moreover have "v a = vmem w a" if "\<not> in_video w a" for a
  proof -
    have "a \<noteq> cell ?w i" if "i < cells ?w" for i
      using cell_in_video(1) [OF \<open>con_geo ?w\<close> that] \<open>\<not> in_video w a\<close> by (auto simp: in_video_def)
    then show ?thesis using out [of a] by (simp add: c cell_def)
  qed
  ultimately show ?thesis
    using D(2,3) by (simp add: con_safe_def con_wf_def same_geometry_def D(1))
qed

lemma set_origin_safe [simp]: "con_safe w (set_origin w') = con_safe w w'"
  by (simp add: set_origin_def)

lemma scr_end_unat:
  assumes "con_wf w"
  shows "unat (scr_end w) = unat (origin w) + 2 * cells w"
    and "unat (scr_end w + video_size_row w) = unat (origin w) + 2 * cells w + 2 * unat (video_num_columns w)"
    and "unat (origin w + video_size_row w) = unat (origin w) + 2 * unat (video_num_columns w)"
proof -
  note D = con_wfD [OF assms]
  have c: "unat (video_num_columns w) \<le> cells w"
    using rows_le(1) [OF con_wf_geo [OF assms], of 1] D(3) by simp
  have r: "unat (video_size_row w) = 2 * unat (video_num_columns w)"
    unfolding D(4) using c D(11,12) by (simp add: unat_mult_no_wrap)
  have "cells w < 4294967296" using D(11,12) by linarith
  then have "unat (video_num_lines w * video_size_row w) = 2 * cells w"
    using D(11,12) r by (subst unat_mult_no_wrap) (simp_all add: cells_def algebra_simps)
  then show *: "unat (scr_end w) = unat (origin w) + 2 * cells w"
    unfolding D(5) using D(11,12) by (subst unat_add_no_wrap) simp_all
  show "unat (scr_end w + video_size_row w) = unat (origin w) + 2 * cells w + 2 * unat (video_num_columns w)"
    using * r c D(11,12) by (subst unat_add_no_wrap) simp_all
  show "unat (origin w + video_size_row w) = unat (origin w) + 2 * unat (video_num_columns w)"
    using r c D(11,12) by (subst unat_add_no_wrap) simp_all
qed

lemma scrup_ega_stay:
  assumes wf: "con_wf w" and fits: "scr_end w + video_size_row w \<le> video_mem_end w"
  shows "con_safe w (w\<lparr>origin := origin w + video_size_row w, c_pos := c_pos w + video_size_row w,
    scr_end := scr_end w + video_size_row w,
    vmem := rep_stosw (unat (video_num_columns w)) e (scr_end w) (vmem w)\<rparr>)"
proof -
  let ?c = "unat (video_num_columns w)"
  note D = con_wfD [OF wf] and E = scr_end_unat [OF wf]
  have c: "?c \<le> cells w"
    using rows_le(1) [OF con_wf_geo [OF wf], of 1] D(3) by simp
  have eq: "scr_end w + 2 * of_nat i = origin w + video_size_row w + 2 * of_nat (cells w - ?c + i)" for i
    unfolding pos_cell(2) [OF wf] using c by (simp add: cell_def D(4) of_nat_diff algebra_simps)
  have "cells w - ?c + i < cells w" if "i < ?c" for i
    using that c by linarith
  then have "rep_stosw ?c e (scr_end w) (vmem w) a = vmem w a"
    if "\<And>i. i < cells w \<Longrightarrow> a \<noteq> origin w + video_size_row w + 2 * of_nat i" for a
    by (intro rep_stosw_out) (simp only: eq that not_False_eq_True)
  note out = this
  have shift: "x - origin w + (origin w + video_size_row w) = x + video_size_row w" for x by simp
  show ?thesis
    by (rule con_safe_origin [OF wf, of "origin w + video_size_row w", unfolded shift])
      (use D(10,14) E(2,3) fits out in \<open>auto simp: word_le_nat_alt\<close>)
qed

lemma screen_count:
  assumes "con_geo w" and "0 < unat (video_num_lines w)"
  shows "2 * unat (drop_bit 1 ((video_num_lines w - 1) * video_num_columns w)) + unat (video_num_columns w) = cells w"
proof -
  let ?c = "unat (video_num_columns w)" and ?n = "drop_bit 1 ((video_num_lines w - 1) * video_num_columns w)"
  have l: "unat (video_num_lines w - 1) = unat (video_num_lines w) - 1"
    using assms(2) by (intro unat_dec) auto
  have "(unat (video_num_lines w) - 1) * ?c < 4294967296"
    using rows_le(2) [OF assms(1), of "unat (video_num_lines w) - 1"] by simp
  then have "2 * unat ?n = (unat (video_num_lines w) - 1) * ?c"
    using unat_half [OF con_geoD(6) [OF assms(1)], of "video_num_lines w - 1"] l by simp
  moreover obtain n where "unat (video_num_lines w) = Suc n"
    using assms(2) by (metis Suc_pred)
  ultimately show ?thesis by (simp add: cells_def)
qed

lemma scrup_ega_wrap:
  assumes wf: "con_wf w"
    and v: "v = vmem (move_up (drop_bit 1 ((video_num_lines w - 1) * video_num_columns w)) esi
      (video_mem_start w) w)"
  shows "con_safe w (w\<lparr>origin := video_mem_start w,
    c_pos := c_pos w - origin w + video_mem_start w,
    scr_end := scr_end w - origin w + video_mem_start w, vmem := v\<rparr>)"
proof -
  let ?c = "unat (video_num_columns w)" and ?n = "drop_bit 1 ((video_num_lines w - 1) * video_num_columns w)"
  note D = con_wfD [OF wf]
  have n: "2 * unat ?n + ?c = cells w"
    by (rule screen_count [OF con_wf_geo [OF wf]]) (use D(3) in linarith)
  have "v a = vmem w a" if "\<And>i. i < cells w \<Longrightarrow> a \<noteq> video_mem_start w + 2 * of_nat i" for a
    unfolding v by (rule vmem_move_up_out) (simp only: n that not_False_eq_True)
  from con_safe_origin [OF wf D(15) _ _ this] show ?thesis
    using D(10,11) by simp
qed

lemma scrup_safe:
  assumes wf: "con_wf w"
  shows "con_safe w (scrup w)"
proof (cases "(video_type w = VIDEO_TYPE_EGAC \<or> video_type w = VIDEO_TYPE_EGAM) \<and>
    c_top w = 0 \<and> c_bottom w = video_num_lines w")
  case False
  then have "scrup w = scroll_region w" by (auto simp: scrup_def)
  then show ?thesis using scroll_region_safe [OF wf] by simp
next
  case ega: True
  show ?thesis
  proof (cases "scr_end w + video_size_row w > video_mem_end w")
    case True
    then have "scrup w = set_origin (w\<lparr>origin := video_mem_start w,
        c_pos := c_pos w - origin w + video_mem_start w,
        scr_end := scr_end w - origin w + video_mem_start w,
        vmem := vmem (move_up (drop_bit 1 ((video_num_lines w - 1) * video_num_columns w))
          (origin w + video_size_row w) (video_mem_start w) w)\<rparr>)"
      using ega by (auto simp: scrup_def Let_def move_up_def algebra_simps
          intro!: arg_cong [where f = set_origin])
    then show ?thesis using scrup_ega_wrap [OF wf refl] by simp
  next
    case False
    then have "scrup w = set_origin (w\<lparr>origin := origin w + video_size_row w,
        c_pos := c_pos w + video_size_row w, scr_end := scr_end w + video_size_row w,
        vmem := rep_stosw (unat (video_num_columns w)) (video_erase_char w) (scr_end w) (vmem w)\<rparr>)"
      using ega by (auto simp: scrup_def Let_def intro!: arg_cong [where f = set_origin])
    then show ?thesis using scrup_ega_stay [OF wf] False by (simp add: not_less)
  qed
qed

subsection \<open>Every operation is safe\<close>

lemma lf_safe:
  assumes wf: "con_wf w"
  shows "con_safe w (lf w)"
proof (cases "c_y w + 1 < c_bottom w")
  case True
  have "unat (c_y w + 1) < unat (video_num_lines w)"
    using True con_wfD(7) [OF wf] by (simp add: word_less_nat_alt)
  then show ?thesis
    using True con_wf_cursor(1) [OF wf]
    by (simp add: lf_def) (rule con_safe_line [OF wf], simp_all add: algebra_simps)
next
  case False
  then show ?thesis using scrup_safe [OF wf] by (simp add: lf_def)
qed

lemma ri_safe:
  assumes wf: "con_wf w"
  shows "con_safe w (ri w)"
proof (cases "c_y w > c_top w")
  case True
  then have "c_y w \<noteq> 0" by auto
  then have "unat (c_y w - 1) < unat (video_num_lines w)"
    using con_wf_cursor(3) [OF wf] by (simp add: unat_dec)
  then show ?thesis
    using True con_wf_cursor(1) [OF wf]
    by (simp add: ri_def) (rule con_safe_line [OF wf], simp_all add: algebra_simps)
next
  case False
  then show ?thesis using scrdown_safe [OF wf] by (simp add: ri_def)
qed

lemma set_cell_safe:
  assumes "con_wf w" and "i < cells w"
  shows "con_safe w (w\<lparr>vmem := (vmem w)(cell w i := e)\<rparr>)"
  by (rule con_safe_vmem [OF assms(1)]) (use assms(2) in auto)

lemma line_end:
  assumes "con_wf w"
  shows "unat (c_y w) * unat (video_num_columns w) + unat (video_num_columns w) \<le> cells w"
proof -
  have "Suc (unat (c_y w)) * unat (video_num_columns w) \<le> cells w"
    unfolding cells_def using con_wf_cursor(3) [OF assms] by (intro mult_right_mono) auto
  then show ?thesis by simp
qed

lemma cursor_cell:
  "con_wf w \<Longrightarrow> unat (c_x w) < unat (video_num_columns w) \<Longrightarrow>
   unat (c_y w) * unat (video_num_columns w) + unat (c_x w) < cells w"
  using line_end [of w] by linarith

lemma del_char_safe:
  assumes wf: "con_wf w"
  shows "con_safe w (del_char w)"
proof (cases "c_x w = 0")
  case True
  then show ?thesis using con_safe_refl [OF wf] by (simp add: del_char_def)
next
  case False
  let ?w = "w\<lparr>c_x := c_x w - 1, c_pos := c_pos w - 2\<rparr>"
  have s: "con_safe w ?w" by (rule left_safe [OF wf False])
  then have w1: "con_wf ?w" by (rule con_safe_wf)
  have x: "unat (c_x ?w) < unat (video_num_columns ?w)"
    using con_wf_cursor(2) [OF wf] False by (simp add: unat_dec unat_gt_0 less_le_trans [OF diff_less])
  have "con_safe ?w (?w\<lparr>vmem := (vmem ?w)(c_pos ?w := video_erase_char w)\<rparr>)"
    unfolding pos_cell(1) [OF w1] by (rule set_cell_safe [OF w1 cursor_cell [OF w1 x]])
  moreover have "del_char w = ?w\<lparr>vmem := (vmem ?w)(c_pos ?w := video_erase_char w)\<rparr>"
    using False by (simp add: del_char_def)
  ultimately show ?thesis using con_safe_trans [OF s] by simp
qed

lemma erase_cells_safe:
  assumes wf: "con_wf w" and "start = cell w s" and "s + unat count \<le> cells w"
  shows "con_safe w (erase_cells count start w)"
proof -
  have lt: "s + i < cells w" if "i < unat count" for i using that assms(3) by linarith
  show ?thesis unfolding erase_cells_def assms(2)
    by (intro con_safe_vmem [OF wf] rep_stosw_out) (simp only: cell_add lt not_False_eq_True)
qed

lemma cell_diff:
  assumes "con_geo w" and "k \<le> m" and "m \<le> cells w"
  shows "unat (drop_bit 1 (cell w m - cell w k)) = m - k"
proof -
  have "cell w m - cell w k = of_nat (2 * (m - k))"
    using assms(2) by (simp add: cell_def of_nat_diff algebra_simps)
  moreover have "2 * (m - k) < 4294967296"
    using cells_bound [OF assms(1)] assms(3) by linarith
  ultimately show ?thesis
    by (simp only:) (simp add: drop_bit_eq_div unat_div unat_of_nat del: of_nat_mult of_nat_diff)
qed

lemma csi_J_safe:
  assumes wf: "con_wf w"
  shows "con_safe w (csi_J p w)"
proof -
  let ?k = "unat (c_y w) * unat (video_num_columns w) + unat (c_x w)"
  note g = con_wf_geo [OF wf] and P = pos_cell [OF wf]
  have o: "origin w = cell w 0" by (simp add: cell_def)
  have all: "unat (video_num_columns w * video_num_lines w) = cells w"
    using cells_bound [OF g] by (simp add: unat_mult_no_wrap cells_def mult.commute)
  have "con_safe w (erase_cells (drop_bit 1 (scr_end w - c_pos w)) (c_pos w) w)"
    by (rule erase_cells_safe [OF wf P(1)]) (use P cell_diff [OF g P(3)] in simp)
  moreover have "con_safe w (erase_cells (drop_bit 1 (c_pos w - origin w)) (origin w) w)"
    by (rule erase_cells_safe [OF wf o]) (use P cell_diff [OF g _ P(3), of 0] o in simp)
  moreover have "con_safe w (erase_cells (video_num_columns w * video_num_lines w) (origin w) w)"
    by (rule erase_cells_safe [OF wf o]) (simp add: all)
  ultimately show ?thesis using con_safe_refl [OF wf] by (simp add: csi_J_def)
qed

lemma line_start:
  "con_wf w \<Longrightarrow> c_pos w - push_bit 1 (c_x w) = cell w (unat (c_y w) * unat (video_num_columns w))"
  by (simp add: pos_cell(1) push_bit_eq_mult cell_def algebra_simps)

lemma csi_K_safe:
  assumes wf: "con_wf w"
  shows "con_safe w (csi_K p w)"
proof -
  note P = pos_cell(1) [OF wf] and S = line_start [OF wf] and E = line_end [OF wf]
  have "con_safe w (erase_cells (video_num_columns w - c_x w) (c_pos w) w)" if "\<not> video_num_columns w \<le> c_x w"
    by (rule erase_cells_safe [OF wf P])
      (use that E unat_sub [of "c_x w" "video_num_columns w"] in \<open>simp add: word_le_nat_alt\<close>)
  moreover have "con_safe w (erase_cells (if c_x w < video_num_columns w then c_x w else video_num_columns w)
      (c_pos w - push_bit 1 (c_x w)) w)"
    by (rule erase_cells_safe [OF wf S]) (use E con_wf_cursor(2) [OF wf] in simp)
  moreover have "con_safe w (erase_cells (video_num_columns w) (c_pos w - push_bit 1 (c_x w)) w)"
    by (rule erase_cells_safe [OF wf S E])
  ultimately show ?thesis using con_safe_refl [OF wf] by (simp add: csi_K_def)
qed

lemma csi_m_safe:
  assumes wf: "con_wf w"
  shows "con_safe w (csi_m w)"
proof -
  have "con_safe w (fold (\<lambda>i w.
        if par w i = 0 then w\<lparr>attr := 0x07\<rparr>
        else if par w i = 1 then w\<lparr>attr := 0x0f\<rparr>
        else if par w i = 4 then w\<lparr>attr := 0x0f\<rparr>
        else if par w i = 7 then w\<lparr>attr := 0x70\<rparr>
        else if par w i = 27 then w\<lparr>attr := 0x07\<rparr>
        else w) is w')" if "con_safe w w'" for "is" w'
    using that by (induction "is" arbitrary: w') simp_all
  then show ?thesis using con_safe_refl [OF wf] unfolding csi_m_def by blast
qed

lemma insert_char_safe:
  assumes wf: "con_wf w"
  shows "con_safe w (insert_char w)"
proof -
  have lt: "unat (c_y w) * unat (video_num_columns w) + unat (c_x w) + i < cells w"
    if "i < unat (video_num_columns w) - unat (c_x w)" for i
    using that line_end [OF wf] by linarith
  show ?thesis unfolding insert_char_def pos_cell(1) [OF wf]
    by (intro con_safe_vmem [OF wf] insert_loop_out) (simp only: cell_add lt not_False_eq_True)
qed

lemma delete_char_safe:
  assumes wf: "con_wf w"
  shows "con_safe w (delete_char w)"
proof (cases "video_num_columns w \<le> c_x w")
  case True
  then show ?thesis using con_safe_refl [OF wf] by (simp add: delete_char_def)
next
  case False
  then have lt: "unat (c_y w) * unat (video_num_columns w) + unat (c_x w) + i < cells w"
    if "i \<le> unat (video_num_columns w) - unat (c_x w) - 1" for i
    using that line_end [OF wf] by (simp add: word_le_nat_alt)
  have "con_safe w (w\<lparr>vmem := delete_loop (unat (video_num_columns w) - unat (c_x w) - 1) (c_pos w)
          (video_erase_char w) (vmem w)\<rparr>)"
    unfolding pos_cell(1) [OF wf]
    by (intro con_safe_vmem [OF wf] delete_loop_out) (simp only: cell_add lt not_False_eq_True)
  then show ?thesis using False by (simp add: delete_char_def)
qed

text \<open>The lines below the cursor as a scroll region, and the old region put back.\<close>

lemma con_wf_region:
  "con_wf w \<Longrightarrow> unat t < unat b \<Longrightarrow> unat b \<le> unat (video_num_lines w) \<Longrightarrow>
   con_wf (w\<lparr>c_top := t, c_bottom := b\<rparr>)"
  unfolding con_wf_def con_geo_def cells_def by simp

lemma with_region_safe:
  assumes wf: "con_wf w" and t: "unat t < unat b" "unat b \<le> unat (video_num_lines w)"
    and s: "con_safe (w\<lparr>c_top := t, c_bottom := b\<rparr>) w'"
  shows "con_safe w (w'\<lparr>c_top := c_top w, c_bottom := c_bottom w\<rparr>)"
proof -
  have "same_geometry w w'" and out: "\<And>a. \<not> in_video w a \<Longrightarrow> vmem w' a = vmem w a" and w': "con_wf w'"
    using s by (simp_all add: con_safe_def same_geometry_def in_video_def)
  then have "con_wf (w'\<lparr>c_top := c_top w, c_bottom := c_bottom w\<rparr>)"
    using con_wfD(6,7) [OF wf] by (intro con_wf_region) (simp_all add: same_geometry_def)
  then show ?thesis
    using \<open>same_geometry w w'\<close> out by (simp add: con_safe_def same_geometry_def)
qed

lemma set_region_safe:
  assumes wf: "con_wf w" and "unat t < unat b" "unat b \<le> unat (video_num_lines w)"
  shows "con_safe w (w\<lparr>c_top := t, c_bottom := b\<rparr>)"
  using con_wf_region [OF assms] by (simp add: con_safe_def same_geometry_def)

lemma line_ops_safe:
  assumes wf: "con_wf w"
  shows "con_safe w (insert_line w)" and "con_safe w (delete_line w)"
proof -
  have r: "unat (c_y w) < unat (video_num_lines w)" "unat (video_num_lines w) \<le> unat (video_num_lines w)"
    using con_wf_cursor(3) [OF wf] by simp_all
  show "con_safe w (insert_line w)" unfolding insert_line_def
    by (rule with_region_safe [OF wf r scrdown_safe [OF con_wf_region [OF wf r]]])
  show "con_safe w (delete_line w)" unfolding delete_line_def
    by (rule with_region_safe [OF wf r scrup_safe [OF con_wf_region [OF wf r]]])
qed

lemma repeat_safe:
  assumes "con_wf w" and "\<And>w. con_wf w \<Longrightarrow> con_safe w (f w)"
  shows "con_safe w ((f ^^ n) w)"
proof (induction n)
  case (Suc n)
  then show ?case using con_safe_trans [OF Suc.IH assms(2) [OF con_safe_wf [OF Suc.IH]]] by simp
qed (simp add: con_safe_refl [OF assms(1)])

lemma csi_repeats_safe:
  assumes "con_wf w"
  shows "con_safe w (csi_at n w)" "con_safe w (csi_L n w)" "con_safe w (csi_P n w)" "con_safe w (csi_M n w)"
  unfolding csi_at_def csi_L_def csi_P_def csi_M_def
  by (rule repeat_safe [OF assms], erule insert_char_safe line_ops_safe delete_char_safe)+

lemma wrap_line_safe:
  assumes wf: "con_wf w" and lo: "unat (video_num_columns w) \<le> unat nx"
    and hi: "unat nx \<le> 2 * unat (video_num_columns w)"
    and np: "np = origin w + c_y w * video_size_row w + 2 * nx"
  shows "con_safe w (wrap_line (w\<lparr>c_x := nx, c_pos := np\<rparr>))"
proof -
  let ?w = "w\<lparr>c_x := nx - video_num_columns w, c_pos := np - video_size_row w\<rparr>"
  have "con_safe w ?w"
    by (rule con_safe_column [OF wf])
      (use lo hi in \<open>simp_all add: unat_sub word_le_nat_alt np con_wfD(4) [OF wf] algebra_simps\<close>)
  from con_safe_trans [OF this lf_safe [OF con_safe_wf [OF this]]]
  show ?thesis by (simp add: wrap_line_def)
qed

lemma put_char_safe:
  assumes wf: "con_wf w" and x: "\<not> video_num_columns w \<le> c_x w"
  shows "con_safe w (w\<lparr>vmem := (vmem w)(c_pos w := e), c_pos := c_pos w + 2, c_x := c_x w + 1\<rparr>)"
proof -
  have lt: "unat (c_x w) < unat (video_num_columns w)" using x by (simp add: word_le_nat_alt)
  let ?w = "w\<lparr>vmem := (vmem w)(c_pos w := e)\<rparr>"
  have s: "con_safe w ?w" unfolding pos_cell(1) [OF wf] by (rule set_cell_safe [OF wf cursor_cell [OF wf lt]])
  have u: "unat (c_x w + 1) = unat (c_x w) + 1"
    by (rule unat_Suc_less [OF lt])
  have "con_safe ?w (?w\<lparr>c_pos := c_pos w + 2, c_x := c_x w + 1\<rparr>)"
    by (rule con_safe_column(2) [OF con_safe_wf [OF s]])
      (use lt u in \<open>simp_all add: con_wf_cursor(1) [OF wf]\<close>)
  from con_safe_trans [OF s this] show ?thesis by simp
qed

lemma tab_width: "unat (8 - (x AND 7) :: u32) \<le> 8" "0 < unat (8 - (x AND 7) :: u32)"
proof -
  have "(7 :: u32) = mask 3" by (simp add: mask_eq_exp_minus_1)
  then have "unat (x AND 7) = unat x mod 8" using unat_and_mask [of x 3] by simp
  then have "unat (x AND 7) < 8" by simp
  then show "unat (8 - (x AND 7)) \<le> 8" "0 < unat (8 - (x AND 7))"
    by (simp_all add: unat_sub word_le_nat_alt)
qed

lemma tab_safe:
  assumes wf: "con_wf w" and t: "unat t \<le> 8"
    and w': "w' = w\<lparr>c_x := c_x w + t, c_pos := c_pos w + push_bit 1 t\<rparr>"
  shows "con_safe w (if c_x w' > video_num_columns w' then wrap_line w' else w')"
proof -
  note D = con_wfD [OF wf]
  have c: "unat (video_num_columns w) \<le> 1048576"
    using D(11,12) line_end [OF wf] by linarith
  have u: "unat (c_x w + t) = unat (c_x w) + unat t"
    using D(2) t c by (intro unat_add_no_wrap) linarith
  have np: "c_pos w + push_bit 1 t = origin w + c_y w * video_size_row w + 2 * (c_x w + t)"
    unfolding D(1) by (simp add: push_bit_eq_mult)
  show ?thesis
  proof (cases "c_x w' > video_num_columns w'")
    case True
    then have "unat (video_num_columns w) \<le> unat (c_x w + t)"
      by (simp add: w' word_less_nat_alt)
    moreover have "unat (c_x w + t) \<le> 2 * unat (video_num_columns w)"
      using u D(2,8) t by linarith
    ultimately have "con_safe w (wrap_line w')"
      unfolding w' by (rule wrap_line_safe [OF wf _ _ np])
    then show ?thesis using True by simp
  next
    case False
    then have "con_safe w w'"
      unfolding w' by (intro con_safe_column [OF wf _ np]) (simp add: not_less word_le_nat_alt)
    then show ?thesis using False by simp
  qed
qed

lemma lf_x [simp]: "c_x (lf w) = c_x w"
  by (simp add: lf_def scrup_def scroll_region_def move_up_def set_origin_def con_outb_def Let_def)

lemma con_plain_safe:
  assumes wf: "con_wf w"
  shows "con_safe w (con_plain erase c w)"
proof -
  have put: "con_safe w (let w = (if c_x w \<ge> video_num_columns w then wrap_line w else w);
            w = w\<lparr>vmem := (vmem w)(c_pos w := push_bit 8 (ucast (attr w)) OR ucast c)\<rparr>
        in w\<lparr>c_pos := c_pos w + 2, c_x := c_x w + 1\<rparr>)"
  proof (cases "c_x w \<ge> video_num_columns w")
    case True
    then have x: "c_x w = video_num_columns w"
      using con_wf_cursor(2) [OF wf] by (simp add: word_le_nat_alt word_unat_eq_iff)
    have s: "con_safe w (wrap_line w)"
    proof -
      have "con_safe w (wrap_line (w\<lparr>c_x := c_x w, c_pos := c_pos w\<rparr>))"
        by (rule wrap_line_safe [OF wf _ _ con_wf_cursor(1) [OF wf]]) (simp_all add: x)
      moreover have "w\<lparr>c_x := c_x w, c_pos := c_pos w\<rparr> = w" by simp
      ultimately show ?thesis by simp
    qed
    have "c_x (wrap_line w) = 0" by (simp add: wrap_line_def x)
    moreover have "unat (video_num_columns (wrap_line w)) \<noteq> 0"
      using con_wfD(8) [OF con_safe_wf [OF s]] by linarith
    ultimately have "\<not> video_num_columns (wrap_line w) \<le> c_x (wrap_line w)" by auto
    from con_safe_trans [OF s put_char_safe [OF con_safe_wf [OF s] this]] True
    show ?thesis by (simp add: Let_def)
  next
    case False
    then show ?thesis using put_char_safe [OF wf False] by (simp add: Let_def)
  qed
  have tab: "con_safe w (let t = 8 - (c_x w AND 7);
            w = w\<lparr>c_x := c_x w + t, c_pos := c_pos w + push_bit 1 t\<rparr>
        in if c_x w > video_num_columns w then wrap_line w else w)"
    using tab_safe [OF wf tab_width(1) refl, of "c_x w"] by (simp only: Let_def)
  have esc: "con_safe w (w\<lparr>c_state := 1\<rparr>)" using con_safe_refl [OF wf] by simp
  show ?thesis
    unfolding con_plain_def
    by (intro con_safe_if put tab esc con_safe_refl [OF wf] lf_safe [OF wf]
        cr_safe [OF wf] del_char_safe [OF wf] left_safe [OF wf] sysbeep_safe [OF wf])
qed

lemma par_safe [simp]: "con_safe w (par_dec i w') = con_safe w w'" "con_safe w (par_one i w') = con_safe w w'"
  by (simp_all add: par_dec_def par_one_def)

lemma goto_after_safe: "con_safe w w' \<Longrightarrow> con_safe w (gotoxy nx ny w')"
  using con_safe_trans gotoxy_safe con_safe_wf by blast

lemma par_region_safe:
  assumes wf: "con_wf w"
  shows "con_safe w (let w = par_dec 0 w;
            w = (if par w 1 = 0 then set_par 1 (video_num_lines w) w else w)
        in if par w 0 < par w 1 \<and> par w 1 \<le> video_num_lines w
           then w\<lparr>c_top := par w 0, c_bottom := par w 1\<rparr> else w)"
proof -
  let ?w = "let w = par_dec 0 w in if par w 1 = 0 then set_par 1 (video_num_lines w) w else w"
  have s: "con_safe w ?w" using con_safe_refl [OF wf] by (simp add: Let_def)
  have "con_safe w (?w\<lparr>c_top := par ?w 0, c_bottom := par ?w 1\<rparr>)"
    if "par ?w 0 < par ?w 1 \<and> par ?w 1 \<le> video_num_lines ?w"
    using con_safe_trans [OF s set_region_safe [OF con_safe_wf [OF s]]] that
    by (simp add: word_less_nat_alt word_le_nat_alt)
  then show ?thesis using s by (simp add: Let_def)
qed

lemma con_csi_safe:
  assumes wf: "con_wf w"
  shows "con_safe w (con_csi c w)"
proof -
  have p: "con_safe w (par_dec i w)" "con_safe w (par_one i w)" "con_safe w (par_dec j (par_dec i w))"
    "con_safe w (save_cur w)" for i j
    using con_safe_refl [OF wf] by simp_all
  show ?thesis
    unfolding con_csi_def restore_cur_def
    by (intro con_safe_if csi_J_safe csi_K_safe csi_repeats_safe csi_m_safe
        par_region_safe con_safe_refl wf p(4) gotoxy_safe)
      (simp_all only: Let_def goto_after_safe p)
qed

lemma con_geo_npar: "unat n < NPAR \<Longrightarrow> con_geo w \<Longrightarrow> con_geo (w\<lparr>npar := n\<rparr>)"
  unfolding con_geo_def cells_def by simp

lemma con_wf_npar: "unat n < NPAR \<Longrightarrow> con_wf w \<Longrightarrow> con_wf (w\<lparr>npar := n\<rparr>)"
  unfolding con_wf_def by (simp add: con_geo_npar)

lemma con_params_safe:
  assumes wf: "con_wf w"
  shows "con_safe w (con_params c w)"
proof -
  have "unat (npar w + 1) < NPAR" if "npar w < 15"
    using that by (simp add: word_less_nat_alt unat_word_ariths)
  then have "con_safe w (w\<lparr>npar := npar w + 1\<rparr>)" if "npar w < 15"
    using con_wf_npar [OF _ wf] that by (simp add: con_safe_def same_geometry_def)
  moreover have "con_safe w (set_par i v w)" for i v
    using con_safe_refl [OF wf] by simp
  moreover have "con_safe w (w\<lparr>c_state := 0\<rparr>)" using con_safe_refl [OF wf] by simp
  then have "con_safe w (con_csi c (w\<lparr>c_state := 0\<rparr>))"
    by (rule con_safe_trans) (use wf in \<open>simp add: con_csi_safe\<close>)
  ultimately show ?thesis unfolding con_params_def by simp
qed

lemma con_char_safe_step:
  assumes wf: "con_wf w"
  shows "con_safe w (snd (con_char erase c w))"
proof -
  have st: "con_safe w (w\<lparr>c_state := s\<rparr>)" for s using con_safe_refl [OF wf] by simp
  have after: "con_safe w (f (w\<lparr>c_state := s\<rparr>))" if "\<And>w. con_wf w \<Longrightarrow> con_safe w (f w)" for f s
    using con_safe_trans [OF st that [OF con_safe_wf [OF st]]] .
  have "con_wf (w\<lparr>par := pa, npar := 0, c_state := 3, ques := q\<rparr>)" for pa q
    using con_wf_npar [of 0 "w\<lparr>par := pa\<rparr>"] wf by simp
  then have two: "con_safe w (w\<lparr>par := pa, npar := 0, c_state := 3, ques := q\<rparr>)" for pa q
    by (simp add: con_safe_def same_geometry_def)
  show ?thesis
    unfolding con_char_def Let_def if_distrib [of snd] snd_conv restore_cur_def
    using after [of ri] after [of lf] after [of "gotoxy nx ny" for nx ny] after [of save_cur] st two
      after [of "con_csi ch" for ch] con_safe_trans [OF two con_params_safe [OF con_safe_wf [OF two]]]
    by (simp add: con_plain_safe wf ri_safe lf_safe gotoxy_safe con_params_safe con_csi_safe con_safe_refl)
qed

text \<open>
  C25: whatever byte reaches the console and whatever escape sequence it is part of, the driver
  keeps the cursor on the screen with its position in video memory, the scroll region inside the
  screen, the parameter count inside \<open>par\<close>, and stores nothing outside the video memory.
\<close>

theorem con_char_safe:
  assumes "con_wf w"
  shows "con_wf (snd (con_char erase c w)) \<and>
    (\<forall>a. \<not> in_video w a \<longrightarrow> vmem (snd (con_char erase c w)) a = vmem w a)"
  using con_char_safe_step [OF assms] by (simp add: con_safe_def)

section \<open>What scrolling shows\<close>

text \<open>Cell \<open>k\<close> of an array of 16-bit cells that starts at \<open>b\<close>.\<close>

definition at_cell :: "u32 \<Rightarrow> nat \<Rightarrow> u32" where
  "at_cell b k = b + 2 * of_nat k"

lemma at_cell_eq:
  assumes "k < 2147483648" and "m < 2147483648"
  shows "at_cell b k = at_cell b m \<longleftrightarrow> k = m"
proof
  assume "at_cell b k = at_cell b m"
  then have "(of_nat (2 * k) :: u32) = of_nat (2 * m)" by (simp add: at_cell_def)
  then have "unat (of_nat (2 * k) :: u32) = unat (of_nat (2 * m) :: u32)" by simp
  then show "k = m" using assms by (simp add: unat_of_nat del: of_nat_mult)
qed simp

lemma at_cell_next: "at_cell b k + 2 = at_cell b (k + 1)" "at_cell b k + 4 = at_cell b (k + 2)"
  by (simp_all add: at_cell_def algebra_simps)

lemma rep_stosw_cells:
  "d + n \<le> 2147483648 \<Longrightarrow> k < 2147483648 \<Longrightarrow>
   rep_stosw n ax (at_cell b d) v (at_cell b k) =
     (if d \<le> k \<and> k < d + n then ax else v (at_cell b k))"
proof (induction n arbitrary: d v)
  case (Suc n)
  then show ?case
    using Suc.IH [of "d + 1" "v(at_cell b d := ax)"] by (auto simp: at_cell_next at_cell_eq)
qed auto

lemma cells_movsl_cells:
  "d \<le> s \<Longrightarrow> s + 2 * n \<le> 2147483648 \<Longrightarrow> k < 2147483648 \<Longrightarrow>
   cells_movsl n (at_cell b s) (at_cell b d) v (at_cell b k) =
     (if d \<le> k \<and> k < d + 2 * n then v (at_cell b (k - d + s)) else v (at_cell b k))"
proof (induction n arbitrary: d s v)
  case (Suc n)
  let ?v = "v(at_cell b d := v (at_cell b s), at_cell b (d + 1) := v (at_cell b (s + 1)))"
  have "cells_movsl (Suc n) (at_cell b s) (at_cell b d) v (at_cell b k) =
      cells_movsl n (at_cell b (s + 2)) (at_cell b (d + 2)) ?v (at_cell b k)"
    by (simp add: at_cell_next)
  also have "\<dots> = (if d + 2 \<le> k \<and> k < d + 2 + 2 * n then ?v (at_cell b (k - (d + 2) + (s + 2)))
      else ?v (at_cell b k))"
    using Suc.prems by (intro Suc.IH) simp_all
  also have "\<dots> = (if d \<le> k \<and> k < d + 2 * Suc n then v (at_cell b (k - d + s)) else v (at_cell b k))"
  proof (cases "d + 2 \<le> k \<and> k < d + 2 + 2 * n")
    case True
    then have "k - (d + 2) + (s + 2) = k - d + s" "k - d + s \<noteq> d" "k - d + s \<noteq> d + 1"
      "k - d + s < 2147483648" "d + 1 < 2147483648"
      using Suc.prems(1,2) unfolding mult_Suc_right by linarith+
    then show ?thesis using True by (simp add: at_cell_eq)
  next
    case False
    moreover have "d + 1 < 2147483648"
      using Suc.prems(1,2) unfolding mult_Suc_right by linarith
    ultimately show ?thesis using Suc.prems(3)
      by (cases "k = d"; cases "k = d + 1") (auto simp: at_cell_eq)
  qed
  finally show ?case .
qed auto

text \<open>The character cell in row \<open>i\<close>, column \<open>j\<close> of the screen.\<close>

definition screen :: "con \<Rightarrow> nat \<Rightarrow> nat \<Rightarrow> u16" where
  "screen w i j = vmem w (at_cell (origin w) (i * unat (video_num_columns w) + j))"

text \<open>The picture one line further up: what \<open>scrup\<close> is to show.\<close>

definition scrolled_up :: "con \<Rightarrow> nat \<Rightarrow> nat \<Rightarrow> u16" where
  "scrolled_up w i j =
     (if unat (c_top w) \<le> i \<and> i + 1 < unat (c_bottom w) then screen w (i + 1) j
      else if i + 1 = unat (c_bottom w) then video_erase_char w
      else screen w i j)"

lemma vmem_move_up:
  assumes "d \<le> s" and "s + 2 * unat cnt + unat (video_num_columns w) \<le> 2147483648" and "k < 2147483648"
  shows "vmem (move_up cnt (at_cell b s) (at_cell b d) w) (at_cell b k) =
    (if d \<le> k \<and> k < d + 2 * unat cnt then vmem w (at_cell b (k - d + s))
     else if d + 2 * unat cnt \<le> k \<and> k < d + 2 * unat cnt + unat (video_num_columns w)
     then video_erase_char w else vmem w (at_cell b k))"
proof -
  have "at_cell b d + 4 * of_nat (unat cnt) = at_cell b (d + 2 * unat cnt)"
    by (simp add: at_cell_def algebra_simps)
  then show ?thesis
    using assms unfolding move_up_def
    by (simp add: rep_stosw_cells cells_movsl_cells del: of_nat_mult of_nat_add)
qed

lemma row_col_less:
  fixes i j c n :: nat
  assumes "j < c"
  shows "i * c + j < n * c \<longleftrightarrow> i < n" and "n * c \<le> i * c + j \<longleftrightarrow> n \<le> i"
proof -
  show "i * c + j < n * c \<longleftrightarrow> i < n"
  proof
    assume "i < n"
    then have "Suc i * c \<le> n * c" by (intro mult_right_mono) auto
    then show "i * c + j < n * c" using assms by simp
  next
    assume "i * c + j < n * c"
    then have "i * c < n * c" by linarith
    then show "i < n" by simp
  qed
  then show "n * c \<le> i * c + j \<longleftrightarrow> n \<le> i" by (simp add: not_less [symmetric])
qed

lemma screen_bound:
  assumes "con_geo w" and "i < unat (video_num_lines w)" and "j < unat (video_num_columns w)"
  shows "i * unat (video_num_columns w) + j < cells w" and "cells w + unat (video_num_columns w) \<le> 1048576"
proof -
  show "i * unat (video_num_columns w) + j < cells w"
    unfolding cells_def using row_col_less(1) [OF assms(3)] assms(2) by blast
  have "unat (video_num_columns w) \<le> cells w"
    using rows_le(1) [OF assms(1), of 1] assms(2) by simp
  then show "cells w + unat (video_num_columns w) \<le> 1048576" using cells_bound [OF assms(1)] by linarith
qed

lemma scroll_region_shows:
  assumes g: "con_geo w" and i: "i < unat (video_num_lines w)" and j: "j < unat (video_num_columns w)"
  shows "screen (scroll_region w) i j = scrolled_up w i j"
proof -
  let ?c = "unat (video_num_columns w)" and ?t = "unat (c_top w)" and ?b = "unat (c_bottom w)"
  let ?n = "drop_bit 1 ((c_bottom w - c_top w - 1) * video_num_columns w)"
  note D = con_geoD [OF g] and S = screen_bound [OF g i j]
  have t1: "unat (c_top w + 1) = ?t + 1"
    by (rule unat_Suc_less [OF D(3)])
  have R: "?t * ?c + 2 * unat ?n + ?c = ?b * ?c" "?b * ?c \<le> cells w"
    using region_count [OF g] region_split [OF g] rows_le(1) [OF g D(4)] by simp_all
  have last: "?t * ?c + 2 * unat ?n = (?b - 1) * ?c"
    using R(1) D(3) by (cases ?b) auto
  have last': "(?b - 1) * ?c + ?c = ?b * ?c" using R(1) last by simp
  have le: "?t * ?c \<le> (?t + 1) * ?c" "(?t + 1) * ?c + 2 * unat ?n + ?c \<le> 2147483648"
    "i * ?c + j < 2147483648"
    using R S by simp_all
  note * = vmem_move_up [OF le, of "origin w", unfolded last last']
  have "i * ?c + j - ?t * ?c + (?t + 1) * ?c = (i + 1) * ?c + j" if "?t \<le> i"
  proof -
    have "?t * ?c \<le> i * ?c" using that by (rule mult_right_mono) simp
    then show ?thesis unfolding add_mult_distrib by linarith
  qed
  with * have "vmem (scroll_region w) (at_cell (origin w) (i * ?c + j)) = scrolled_up w i j"
    unfolding scroll_region_def row_cell [OF g] cell_def [folded at_cell_def] t1
      row_col_less [OF j] scrolled_up_def screen_def
    using D(3) by (auto simp: ac_simps)
  then show ?thesis
    unfolding screen_def by (simp add: scroll_region_def move_up_def)
qed

lemma hardware_stay_shows:
  assumes wf: "con_wf w" and i: "i < unat (video_num_lines w)" and j: "j < unat (video_num_columns w)"
  shows "rep_stosw (unat (video_num_columns w)) e (scr_end w) (vmem w)
      (at_cell (origin w + video_size_row w) (i * unat (video_num_columns w) + j)) =
    (if i + 1 = unat (video_num_lines w) then e else screen w (i + 1) j)"
proof -
  let ?c = "unat (video_num_columns w)"
  note g = con_wf_geo [OF wf]
  note S = screen_bound [OF g i j]
  have a: "at_cell (origin w + video_size_row w) (i * ?c + j) = at_cell (origin w) ((i + 1) * ?c + j)"
    by (simp add: at_cell_def con_geoD(1) [OF g] algebra_simps)
  have e: "scr_end w = at_cell (origin w) (cells w)"
    using pos_cell(2) [OF wf] by (simp add: cell_def at_cell_def)
  have k: "cells w \<le> (i + 1) * ?c + j \<longleftrightarrow> unat (video_num_lines w) \<le> i + 1"
    unfolding cells_def by (rule row_col_less(2) [OF j])
  have u: "(i + 1) * ?c + j < cells w + ?c" using S(1) by simp
  show ?thesis
    unfolding a e using S u rep_stosw_cells [of "cells w" ?c "(i + 1) * ?c + j" e "origin w" "vmem w"] k i
    by (auto simp: screen_def)
qed

lemma hardware_wrap_shows:
  assumes wf: "con_wf w" and i: "i < unat (video_num_lines w)" and j: "j < unat (video_num_columns w)"
  shows "vmem (move_up (drop_bit 1 ((video_num_lines w - 1) * video_num_columns w))
      (origin w + video_size_row w) (video_mem_start w) w)
      (at_cell (video_mem_start w) (i * unat (video_num_columns w) + j)) =
    (if i + 1 = unat (video_num_lines w) then video_erase_char w else screen w (i + 1) j)"
proof -
  let ?c = "unat (video_num_columns w)" and ?s = "video_mem_start w"
  let ?n = "drop_bit 1 ((video_num_lines w - 1) * video_num_columns w)"
  note g = con_wf_geo [OF wf]
  note D = con_geoD [OF g] and S = screen_bound [OF g i j]
  obtain h where h: "unat (origin w) = unat ?s + 2 * h"
    using D(7,11,12) by (metis dvd_def dvd_diff_nat le_add_diff_inverse)
  have "origin w = of_nat (unat (origin w))" by simp
  also have "\<dots> = ?s + 2 * of_nat h" unfolding h by simp
  finally have o: "origin w = ?s + 2 * of_nat h" .
  have s: "origin w + video_size_row w = at_cell ?s (h + ?c)" "?s = at_cell ?s 0"
    by (simp_all add: o at_cell_def D(1) algebra_simps)
  have l: "0 < unat (video_num_lines w)" using i by linarith
  have n: "2 * unat ?n + ?c = cells w" by (rule screen_count [OF g l])
  have last: "2 * unat ?n = (unat (video_num_lines w) - 1) * ?c"
    using n l by (cases "unat (video_num_lines w)") (simp_all add: cells_def)
  have k: "i * ?c + j < 2 * unat ?n \<longleftrightarrow> i + 1 < unat (video_num_lines w)"
    unfolding last row_col_less(1) [OF j] by linarith
  have "h + ?c + 2 * unat ?n + ?c \<le> 2147483648" "i * ?c + j < 2147483648"
    using n S h D(8,9) by linarith+
  from vmem_move_up [OF le0 this, of ?s]
  have "vmem (move_up ?n (origin w + video_size_row w) ?s w) (at_cell ?s (i * ?c + j)) =
      (if i + 1 < unat (video_num_lines w) then vmem w (at_cell ?s (i * ?c + j + (h + ?c)))
       else video_erase_char w)"
    unfolding s(1) s(2) [symmetric] using k S(1) n by (auto simp del: of_nat_add)
  moreover have "at_cell ?s (i * ?c + j + (h + ?c)) = at_cell (origin w) ((i + 1) * ?c + j)"
    by (simp add: at_cell_def o algebra_simps)
  ultimately show ?thesis using i by (auto simp: screen_def)
qed

text \<open>The writes that give the controller the start of the screen, a count of cells from the start of video memory.\<close>

definition origin_told :: "con \<Rightarrow> con \<Rightarrow> bool" where
  "origin_told w w' \<longleftrightarrow>
     (let start = unat (origin w' - video_mem_start w') div 2
      in con_out w' = con_out w @ [(video_port_reg w, 12), (video_port_val w, word_of_nat (start div 256)),
                                   (video_port_reg w, 13), (video_port_val w, word_of_nat start)])"

lemma ucast_byte: "ucast (0xff AND drop_bit n (x :: u32)) = (word_of_nat (unat x div 2 ^ n) :: u8)"
proof -
  have m: "ucast (mask 8 AND y) = (ucast y :: u8)" for y :: u32 by (auto intro!: bit_word_eqI simp: bit_simps)
  have ff: "(0xff :: u32) = mask 8" by (simp add: mask_eq_exp_minus_1)
  have u: "unat (drop_bit n x) = unat x div 2 ^ n" by (simp only: unat_drop_bit_eq) (simp only: drop_bit_eq_div)
  have "ucast (0xff AND drop_bit n x) = (ucast (drop_bit n x) :: u8)" unfolding ff by (rule m)
  also have "\<dots> = word_of_nat (unat (drop_bit n x))" by simp
  finally show ?thesis unfolding u .
qed

lemma set_origin_tells: "con_out w = con_out v \<Longrightarrow> video_port_reg w = video_port_reg v \<Longrightarrow>
   video_port_val w = video_port_val v \<Longrightarrow> origin_told v (set_origin w)"
  by (simp add: origin_told_def set_origin_def con_outb_def ucast_byte div_mult2_eq [symmetric])

lemma scrup_tells_origin:
  "origin (scrup w) = origin w \<and> con_out (scrup w) = con_out w \<or> origin_told w (scrup w)"
  by (simp add: scrup_def scroll_region_def move_up_def Let_def set_origin_tells)

lemma scrup_screen:
  assumes wf: "con_wf w" and i: "i < unat (video_num_lines w)" and j: "j < unat (video_num_columns w)"
  shows "screen (scrup w) i j = scrolled_up w i j"
proof (cases "(video_type w = VIDEO_TYPE_EGAC \<or> video_type w = VIDEO_TYPE_EGAM) \<and>
    c_top w = 0 \<and> c_bottom w = video_num_lines w")
  case False
  then have "scrup w = scroll_region w" by (auto simp: scrup_def)
  then show ?thesis using scroll_region_shows [OF con_wf_geo [OF wf] i j] by simp
next
  case ega: True
  then have sh: "scrolled_up w i j =
      (if i + 1 = unat (video_num_lines w) then video_erase_char w else screen w (i + 1) j)"
    using i by (auto simp: scrolled_up_def)
  show ?thesis
  proof (cases "scr_end w + video_size_row w > video_mem_end w")
    case True
    then show ?thesis
      unfolding sh hardware_wrap_shows [OF wf i j, symmetric] using ega
      by (auto simp: scrup_def Let_def screen_def move_up_def set_origin_def con_outb_def)
  next
    case False
    then show ?thesis
      unfolding sh hardware_stay_shows [OF wf i j, symmetric] using ega
      by (auto simp: scrup_def Let_def screen_def set_origin_def con_outb_def)
  qed
qed

text \<open>
  C26: scrolling up by a line shows the same picture however it is done: by moving the region in
  memory, by moving the origin of an EGA screen in hardware, or by moving the screen back to the
  start of video memory when the hardware scroll runs off its end.  Every line of the region
  shows the line below it, the last one is blank, and the other lines do not change.  When the
  origin moves, the controller is told the new one, in registers 12 and 13; else nothing is written
  to a port.
\<close>

theorem scrup_shows_scrolled:
  assumes wf: "con_wf w" and i: "i < unat (video_num_lines w)" and j: "j < unat (video_num_columns w)"
  shows "screen (scrup w) i j = scrolled_up w i j \<and>
    (origin (scrup w) = origin w \<and> con_out (scrup w) = con_out w \<or> origin_told w (scrup w))"
  using scrup_screen [OF assms] scrup_tells_origin by blast

section \<open>The state con_init leaves\<close>

lemma unat_25: "unat (25 :: u32) = 25"
  by simp

lemma con_geo_init:
  assumes cols: "8 \<le> unat cols" "even (unat cols)" "unat cols \<le> 160" and np: "unat (npar w) < NPAR"
    and m: "even (unat (video_mem_start w))" "unat (video_mem_start w) + 8192 \<le> unat (video_mem_end w)"
      "unat (video_mem_end w) \<le> 1048576"
    and w': "video_num_columns w = cols" "video_size_row w = cols * 2" "video_num_lines w = 25"
      "origin w = video_mem_start w" "scr_end w = video_mem_start w + 25 * (cols * 2)"
      "c_top w = 0" "c_bottom w = 25"
  shows "con_geo w"
proof -
  have "unat (video_mem_start w) + 2 * (25 * unat cols) \<le> unat (video_mem_end w)"
    using cols(3) m(2) by linarith
  then show ?thesis
    unfolding con_geo_def cells_def w' unat_25 using cols np m by (simp add: mult.commute)
qed

lemma con_wf_gotoxy:
  assumes "con_geo w" and "unat nx \<le> unat (video_num_columns w)" and "unat ny < unat (video_num_lines w)"
  shows "con_wf (gotoxy nx ny w)"
  using assms unfolding con_wf_def gotoxy_def
  by (simp add: word_le_nat_alt word_less_nat_alt push_bit_eq_mult)

lemma unat_start:
  "unat (0xb0000 :: u32) = 0xb0000" "unat (0xb2000 :: u32) = 0xb2000" "unat (0xb8000 :: u32) = 0xb8000"
  "unat (0xba000 :: u32) = 0xba000" "unat (0xbc000 :: u32) = 0xbc000"
  by simp_all

lemma con_wf_init:
  assumes cols: "8 \<le> unat (drop_bit 8 (mode_cols AND 0xff00))" "even (unat (drop_bit 8 (mode_cols AND 0xff00)))"
      "unat (drop_bit 8 (mode_cols AND 0xff00)) \<le> 160"
    and cursor: "unat orig_x \<le> unat (drop_bit 8 (mode_cols AND 0xff00))" "unat orig_y < 25"
    and np: "unat (npar w) < NPAR"
  shows "con_wf (con_init orig_x orig_y page mode_cols ega_bx w)"
proof -
  show ?thesis
    unfolding con_init_def Let_def con_wf_simps
    by (intro con_wf_gotoxy con_geo_init [OF _ _ _ _ _ _ _ refl])
      (use cols cursor np in \<open>simp_all add: unat_ucast_u32 unat_start unat_25\<close>)
qed

text \<open>
  C27: on a display of 25 lines and an even number of columns from 8 to 160, with the cursor
  where the set-up code can have left it, \<open>con_init\<close> establishes the console's invariant,
  whatever the adapter: MDA, CGA, or EGA in monochrome or colour.
\<close>

theorem con_init_wf:
  assumes "8 \<le> unat (drop_bit 8 (mode_cols AND 0xff00))" "even (unat (drop_bit 8 (mode_cols AND 0xff00)))"
      "unat (drop_bit 8 (mode_cols AND 0xff00)) \<le> 160"
    and "unat orig_x \<le> unat (drop_bit 8 (mode_cols AND 0xff00))" "unat orig_y < 25"
    and "unat (npar w) < NPAR"
  shows "con_wf (con_init orig_x orig_y page mode_cols ega_bx w)"
  by (rule con_wf_init [OF assms])

text \<open>The console of an 80-column EGA colour display.\<close>

definition con_zero :: con where
  "con_zero = \<lparr>video_type = 0, video_num_columns = 0, video_size_row = 0, video_num_lines = 0,
     video_page = 0, video_mem_start = 0, video_mem_end = 0, video_port_reg = 0, video_port_val = 0,
     video_erase_char = 0, origin = 0, scr_end = 0, c_pos = 0, c_x = 0, c_y = 0, c_top = 0,
     c_bottom = 0, c_state = 0, npar = 0, par = (\<lambda>_. 0), ques = False, attr = 7, saved_x = 0,
     saved_y = 0, con_beepcount = 0, vmem = (\<lambda>_. 0), con_in = (\<lambda>_. 0), con_out = []\<rparr>"

definition demo_con :: con where
  "demo_con = con_init 0 24 0 0x5003 0 con_zero"

lemma demo_cols: "drop_bit 8 (0x5003 AND 0xff00 :: u16) = 80"
  by simp

lemma demo_con_wf: "con_wf demo_con"
  unfolding demo_con_def by (rule con_wf_init) (simp_all only: demo_cols, simp_all add: con_zero_def)

lemma demo_con_lines: "video_num_lines demo_con = 25" "video_num_columns demo_con = 80" "c_state demo_con = 0"
  by (simp_all add: demo_con_def con_init_def Let_def gotoxy_def con_outb_def con_zero_def)

theorem con_init_wf_witness: "con_wf (con_init 0 24 0 0x5003 0 con_zero)"
  by (rule con_init_wf) (simp_all only: demo_cols, simp_all add: con_zero_def)

theorem con_char_safe_witness:
  "con_wf (snd (con_char 127 10 demo_con)) \<and> vmem (snd (con_char 127 10 demo_con)) 0 = vmem demo_con 0"
  using con_char_safe [OF demo_con_wf, of 127 10] con_wfD(10) [OF demo_con_wf]
  by (simp add: in_video_def demo_con_def con_init_def Let_def gotoxy_def con_outb_def con_zero_def)

theorem scrup_shows_scrolled_witness: "screen (scrup demo_con) 3 7 = scrolled_up demo_con 3 7"
  using scrup_shows_scrolled [OF demo_con_wf, of 3 7] by (simp add: demo_con_lines)

text \<open>
  \<open>ESC 7\<close> and \<open>ESC 8\<close> do not save and restore the cursor: the driver compares the column of
  the cursor, not the character, with \<open>'7'\<close> and \<open>'8'\<close>.  Away from the columns 55 and 56 they do
  nothing; in column 55 any other letter saves the cursor.
\<close>

theorem esc_7_8_test_column:
  assumes "c_state w = 1"
  shows "(c_x w \<noteq> 55 \<longrightarrow> c_x w \<noteq> 56 \<longrightarrow> con_char erase 55 w = (False, w\<lparr>c_state := 0\<rparr>) \<and>
           con_char erase 56 w = (False, w\<lparr>c_state := 0\<rparr>)) \<and>
    (c_x w = 55 \<longrightarrow> con_char erase 120 w = (False, save_cur (w\<lparr>c_state := 0\<rparr>)))"
  using assms by (simp add: con_char_def Let_def)

theorem esc_7_8_test_column_witness:
  "snd (con_char 127 55 (demo_con\<lparr>c_state := 1, c_x := 3\<rparr>)) = demo_con\<lparr>c_state := 0, c_x := 3\<rparr>"
  using esc_7_8_test_column [of "demo_con\<lparr>c_state := 1, c_x := 3\<rparr>" 127] by simp

end
