(* ===== verification/Ctype.thy ===== *)
theory Ctype
  imports Kernel_Prelude
begin

text \<open>
  Character classes: the table of \<open>lib/ctype.c\<close> and the macros of \<open>include/ctype.h\<close>.  The table
  has an entry for \<open>EOF\<close> (-1) and one for each of the characters 0 to 255; an index outside it is
  a read outside the array.  The macros that convert case keep the character in a variable of
  type \<open>char\<close>, which is signed.
\<close>

section \<open>The table\<close>

abbreviation (input) CT_U :: u8 where "CT_U \<equiv> 0x01"
abbreviation (input) CT_L :: u8 where "CT_L \<equiv> 0x02"
abbreviation (input) CT_D :: u8 where "CT_D \<equiv> 0x04"
abbreviation (input) CT_C :: u8 where "CT_C \<equiv> 0x08"
abbreviation (input) CT_P :: u8 where "CT_P \<equiv> 0x10"
abbreviation (input) CT_S :: u8 where "CT_S \<equiv> 0x20"
abbreviation (input) CT_X :: u8 where "CT_X \<equiv> 0x40"
abbreviation (input) CT_SP :: u8 where "CT_SP \<equiv> 0x80"

definition ctype_table :: "u8 list" where
  "ctype_table =
     [0x00] @
     replicate 9 CT_C @ replicate 5 (CT_C OR CT_S) @ replicate 18 CT_C @
     [CT_S OR CT_SP] @ replicate 15 CT_P @
     replicate 10 CT_D @ replicate 7 CT_P @
     replicate 6 (CT_U OR CT_X) @ replicate 20 CT_U @ replicate 6 CT_P @
     replicate 6 (CT_L OR CT_X) @ replicate 20 CT_L @ replicate 4 CT_P @ [CT_C] @
     replicate 128 0"

definition ctype_class :: "int \<Rightarrow> u8 kres" where
  "ctype_class c = (if - 1 \<le> c \<and> c \<le> 255 then Inr (ctype_table ! nat (c + 1)) else Inl Fault)"

definition in_class :: "u8 \<Rightarrow> int \<Rightarrow> bool kres" where
  "in_class m c = bindE (ctype_class c) (\<lambda>k. Inr (k AND m \<noteq> 0))"

definition isalnum :: "int \<Rightarrow> bool kres" where "isalnum = in_class (CT_U OR CT_L OR CT_D)"
definition isalpha :: "int \<Rightarrow> bool kres" where "isalpha = in_class (CT_U OR CT_L)"
definition iscntrl :: "int \<Rightarrow> bool kres" where "iscntrl = in_class CT_C"
definition isdigit :: "int \<Rightarrow> bool kres" where "isdigit = in_class CT_D"
definition isgraph :: "int \<Rightarrow> bool kres" where "isgraph = in_class (CT_P OR CT_U OR CT_L OR CT_D)"
definition islower :: "int \<Rightarrow> bool kres" where "islower = in_class CT_L"
definition isprint :: "int \<Rightarrow> bool kres" where
  "isprint = in_class (CT_P OR CT_U OR CT_L OR CT_D OR CT_SP)"
definition ispunct :: "int \<Rightarrow> bool kres" where "ispunct = in_class CT_P"
definition isspace :: "int \<Rightarrow> bool kres" where "isspace = in_class CT_S"
definition isupper :: "int \<Rightarrow> bool kres" where "isupper = in_class CT_U"
definition isxdigit :: "int \<Rightarrow> bool kres" where "isxdigit = in_class (CT_D OR CT_X)"

definition tolower :: "u8 \<Rightarrow> u8 kres" where
  "tolower c = bindE (isupper (sint c)) (\<lambda>up. Inr (if up then c - (65 - 97) else c))"

definition toupper :: "u8 \<Rightarrow> u8 kres" where
  "toupper c = bindE (islower (sint c)) (\<lambda>low. Inr (if low then c - (97 - 65) else c))"

section \<open>What the classes are\<close>

text \<open>The reference: the ranges of ASCII.\<close>

definition ascii_classes :: "int \<Rightarrow> u8" where
  "ascii_classes c =
     (if 65 \<le> c \<and> c \<le> 90 then CT_U else 0) OR (if 97 \<le> c \<and> c \<le> 122 then CT_L else 0) OR
     (if 48 \<le> c \<and> c \<le> 57 then CT_D else 0) OR
     (if 0 \<le> c \<and> c \<le> 31 \<or> c = 127 then CT_C else 0) OR
     (if 33 \<le> c \<and> c \<le> 47 \<or> 58 \<le> c \<and> c \<le> 64 \<or> 91 \<le> c \<and> c \<le> 96 \<or> 123 \<le> c \<and> c \<le> 126 then CT_P else 0) OR
     (if 9 \<le> c \<and> c \<le> 13 \<or> c = 32 then CT_S else 0) OR
     (if 65 \<le> c \<and> c \<le> 70 \<or> 97 \<le> c \<and> c \<le> 102 then CT_X else 0) OR
     (if c = 32 then CT_SP else 0)"

lemma ctype_table_ascii: "list_all (\<lambda>i. ctype_table ! i = ascii_classes (int i - 1)) [0..<257]"
  by code_simp

lemma ctype_class_ascii: "- 1 \<le> c \<Longrightarrow> c \<le> 255 \<Longrightarrow> ctype_class c = Inr (ascii_classes c)"
  using ctype_table_ascii unfolding list_all_iff
  by (auto simp: ctype_class_def dest!: bspec [of _ _ "nat (c + 1)"])

lemma isupper_ascii: "- 1 \<le> c \<Longrightarrow> c \<le> 255 \<Longrightarrow> isupper c = Inr (65 \<le> c \<and> c \<le> 90)"
  by (auto simp: isupper_def in_class_def ctype_class_ascii ascii_classes_def)

lemma islower_ascii: "- 1 \<le> c \<Longrightarrow> c \<le> 255 \<Longrightarrow> islower c = Inr (97 \<le> c \<and> c \<le> 122)"
  by (auto simp: islower_def in_class_def ctype_class_ascii ascii_classes_def)

end
