(* ===== verification/Segment.thy ===== *)
theory Segment
  imports Kernel_Prelude
begin

text \<open>
  Access to the user's data segment, \<open>include/asm/segment.h\<close>: during a system call \<open>fs\<close> selects
  the segment of the calling task; its bytes are a function of the address.
\<close>

type_synonym fsmem = "u32 \<Rightarrow> u8"

definition get_fs_byte :: "u32 \<Rightarrow> fsmem \<Rightarrow> u8" where
  "get_fs_byte addr fs = fs addr"

definition get_fs_word :: "u32 \<Rightarrow> fsmem \<Rightarrow> u16" where
  "get_fs_word addr fs = ucast (fs addr) OR push_bit 8 (ucast (fs (addr + 1)))"

definition get_fs_long :: "u32 \<Rightarrow> fsmem \<Rightarrow> u32" where
  "get_fs_long addr fs =
     ucast (fs addr) OR push_bit 8 (ucast (fs (addr + 1))) OR
     push_bit 16 (ucast (fs (addr + 2))) OR push_bit 24 (ucast (fs (addr + 3)))"

definition put_fs_byte :: "u8 \<Rightarrow> u32 \<Rightarrow> fsmem \<Rightarrow> fsmem" where
  "put_fs_byte val addr fs = fs(addr := val)"

definition put_fs_word :: "u16 \<Rightarrow> u32 \<Rightarrow> fsmem \<Rightarrow> fsmem" where
  "put_fs_word val addr fs = fs(addr := ucast val, addr + 1 := ucast (drop_bit 8 val))"

definition put_fs_long :: "u32 \<Rightarrow> u32 \<Rightarrow> fsmem \<Rightarrow> fsmem" where
  "put_fs_long val addr fs =
     fs(addr := ucast val, addr + 1 := ucast (drop_bit 8 val),
        addr + 2 := ucast (drop_bit 16 val), addr + 3 := ucast (drop_bit 24 val))"

text \<open>A run of bytes in the segment, as the loops over \<open>put_fs_byte\<close> and \<open>get_fs_byte\<close> move it.\<close>

primrec put_fs_bytes :: "u8 list \<Rightarrow> u32 \<Rightarrow> fsmem \<Rightarrow> fsmem" where
  "put_fs_bytes [] addr fs = fs"
| "put_fs_bytes (b # bs) addr fs = put_fs_bytes bs (addr + 1) (put_fs_byte b addr fs)"

primrec get_fs_bytes :: "nat \<Rightarrow> u32 \<Rightarrow> fsmem \<Rightarrow> u8 list" where
  "get_fs_bytes 0 addr fs = []"
| "get_fs_bytes (Suc n) addr fs = get_fs_byte addr fs # get_fs_bytes n (addr + 1) fs"

lemma length_get_fs_bytes [simp]: "length (get_fs_bytes n addr fs) = n"
  by (induction n arbitrary: addr) simp_all

lemma get_fs_bytes_nth: "i < n \<Longrightarrow> get_fs_bytes n addr fs ! i = fs (addr + of_nat i)"
proof (induction n arbitrary: addr i)
  case (Suc n)
  then show ?case by (cases i) (simp_all add: get_fs_byte_def algebra_simps)
qed simp

lemma put_fs_bytes_out:
  "(\<And>i. i < length bs \<Longrightarrow> a \<noteq> addr + of_nat i) \<Longrightarrow> put_fs_bytes bs addr fs a = fs a"
proof (induction bs arbitrary: addr fs)
  case (Cons b bs)
  have "a \<noteq> addr + 1 + of_nat i" if "i < length bs" for i
    using Cons.prems [of "Suc i"] that by (simp add: algebra_simps)
  then show ?case using Cons.IH [of "addr + 1"] Cons.prems [of 0] by (simp add: put_fs_byte_def)
qed simp

lemma put_fs_bytes_in:
  "i < length bs \<Longrightarrow> length bs \<le> 4294967296 \<Longrightarrow> put_fs_bytes bs addr fs (addr + of_nat i) = bs ! i"
proof (induction bs arbitrary: addr fs i)
  case (Cons b bs)
  show ?case
  proof (cases i)
    case 0
    have "addr \<noteq> addr + 1 + of_nat j" if "j < length bs" for j
    proof -
      have "unat (of_nat (Suc j) :: u32) = Suc j"
        using that Cons.prems(2) by (simp add: unat_of_nat del: of_nat_Suc)
      then have "(of_nat (Suc j) :: u32) \<noteq> 0" by (metis Zero_not_Suc unat_0)
      then show ?thesis by (simp add: algebra_simps)
    qed
    then have "put_fs_bytes bs (addr + 1) (put_fs_byte b addr fs) addr = put_fs_byte b addr fs addr"
      by (rule put_fs_bytes_out)
    then show ?thesis using 0 by (simp add: put_fs_byte_def)
  next
    case (Suc j)
    then show ?thesis
      using Cons.IH [of j "addr + 1" "put_fs_byte b addr fs"] Cons.prems by (simp add: algebra_simps)
  qed
qed simp

lemma get_put_fs_bytes:
  "length bs \<le> 4294967296 \<Longrightarrow> get_fs_bytes (length bs) addr (put_fs_bytes bs addr fs) = bs"
  by (rule nth_equalityI) (simp_all add: get_fs_bytes_nth put_fs_bytes_in)

text \<open>A word as the four bytes that are stored.\<close>

definition long_bytes :: "u32 \<Rightarrow> u8 list" where
  "long_bytes w = [ucast w, ucast (drop_bit 8 w), ucast (drop_bit 16 w), ucast (drop_bit 24 w)]"

lemma length_long_bytes [simp]: "length (long_bytes w) = 4"
  by (simp add: long_bytes_def)

lemma put_fs_long_bytes: "put_fs_long w a fs = put_fs_bytes (long_bytes w) a fs"
  by (simp add: put_fs_long_def long_bytes_def put_fs_byte_def add.assoc)

lemma get_fs_long_bytes:
  assumes "\<And>k. k < 4 \<Longrightarrow> fs (a + of_nat k) = long_bytes w ! k"
  shows "get_fs_long a fs = w"
proof -
  have b: "fs a = ucast w" "fs (a + 1) = ucast (drop_bit 8 w)" "fs (a + 2) = ucast (drop_bit 16 w)"
    "fs (a + 3) = ucast (drop_bit 24 w)"
    using assms [of 0] assms [of 1] assms [of 2] assms [of 3] by (simp_all add: long_bytes_def)
  let ?v = "ucast (ucast w :: u8) OR push_bit 8 (ucast (ucast (drop_bit 8 w) :: u8)) OR
      push_bit 16 (ucast (ucast (drop_bit 16 w) :: u8)) OR push_bit 24 (ucast (ucast (drop_bit 24 w) :: u8)) :: u32"
  have "get_fs_long a fs = ?v" unfolding get_fs_long_def b by simp
  also have "\<dots> = w"
  proof (rule bit_word_eqI)
    fix n assume n: "n < LENGTH(32)"
    then have "n < 8 \<or> (\<exists>m < 8. n = 8 + m) \<or> (\<exists>m < 8. n = 16 + m) \<or> (\<exists>m < 8. n = 24 + m)" by simp presburger
    then show "bit ?v n = bit w n"
      using n by (elim disjE exE conjE) (auto simp: bit_simps)
  qed
  finally show ?thesis .
qed

lemma concat_long_bytes_nth:
  "j < length ws \<Longrightarrow> k < 4 \<Longrightarrow> concat (map long_bytes ws) ! (4 * j + k) = long_bytes (ws ! j) ! k"
proof (induction ws arbitrary: j)
  case (Cons w ws)
  then show ?case by (cases j) (simp_all add: nth_append)
qed simp

lemma length_concat_long_bytes: "length (concat (map long_bytes ws)) = 4 * length ws"
  by (induction ws) simp_all

lemma put_fs_bytes_append:
  "put_fs_bytes (xs @ ys) a fs = put_fs_bytes ys (a + of_nat (length xs)) (put_fs_bytes xs a fs)"
  by (induction xs arbitrary: a fs) (simp_all add: algebra_simps)

end
