(* ===== verification/Tty.thy ===== *)
theory Tty
  imports Sched Tty_Queue Console Ctype Segment
begin

text \<open>
  The terminal layer: \<open>kernel/chr_drv/tty_io.c\<close> (the line discipline), \<open>serial.c\<close> and
  \<open>tty_ioctl.c\<close>.  The state is the three terminals of \<open>tty_table\<close>, the console, the task table
  and the caller's data segment.  The function pointer \<open>write\<close> of a terminal is one of the two
  drivers; the console driver can answer a query through the line discipline, which echoes
  through the driver again, so the drivers take a bound on the depth of these calls and loops,
  and exceeding it is \<open>Hang\<close>.  What a call of \<open>interruptible_sleep_on\<close> or \<open>schedule\<close> lets the
  rest of the system do is a parameter.
\<close>

section \<open>Terminals\<close>

abbreviation (input) VINTR :: nat where "VINTR \<equiv> 0"
abbreviation (input) VQUIT :: nat where "VQUIT \<equiv> 1"
abbreviation (input) VERASE :: nat where "VERASE \<equiv> 2"
abbreviation (input) VKILL :: nat where "VKILL \<equiv> 3"
abbreviation (input) VEOF :: nat where "VEOF \<equiv> 4"
abbreviation (input) VTIME :: nat where "VTIME \<equiv> 5"
abbreviation (input) VMIN :: nat where "VMIN \<equiv> 6"
abbreviation (input) VSTART :: nat where "VSTART \<equiv> 8"
abbreviation (input) VSTOP :: nat where "VSTOP \<equiv> 9"
abbreviation (input) INTMASK :: u32 where "INTMASK \<equiv> 0x2"
abbreviation (input) QUITMASK :: u32 where "QUITMASK \<equiv> 0x4"
abbreviation (input) ALRMMASK :: u32 where "ALRMMASK \<equiv> 0x2000"

text \<open>The compiler pads \<open>struct termios\<close> to 36 bytes.\<close>

record termios =
  c_iflag :: u32
  c_oflag :: u32
  c_cflag :: u32
  c_lflag :: u32
  c_line :: u8
  c_cc :: "u8 list"
  c_pad :: "u8 list"

datatype tty_driver = con_write_fn | rs_write_fn

record tty_struct =
  tty_termios :: termios
  tty_pgrp :: int
  tty_stopped :: bool
  tty_write_fn :: tty_driver
  read_q :: tty_queue
  write_q :: tty_queue
  secondary :: tty_queue

record ttyw =
  tty_table :: "nat \<Rightarrow> tty_struct"
  w_con :: con
  w_sched :: sched
  w_fs :: fsmem
  cr_flag :: bool

definition L_FLAG :: "tty_struct \<Rightarrow> u32 \<Rightarrow> bool" where
  "L_FLAG t f \<longleftrightarrow> c_lflag (tty_termios t) AND f \<noteq> 0"

definition I_FLAG :: "tty_struct \<Rightarrow> u32 \<Rightarrow> bool" where
  "I_FLAG t f \<longleftrightarrow> c_iflag (tty_termios t) AND f \<noteq> 0"

definition O_FLAG :: "tty_struct \<Rightarrow> u32 \<Rightarrow> bool" where
  "O_FLAG t f \<longleftrightarrow> c_oflag (tty_termios t) AND f \<noteq> 0"

abbreviation (input) "L_ISIG t \<equiv> L_FLAG t 0x1"
abbreviation (input) "L_CANON t \<equiv> L_FLAG t 0x2"
abbreviation (input) "L_ECHO t \<equiv> L_FLAG t 0x8"
abbreviation (input) "L_ECHOCTL t \<equiv> L_FLAG t 0x200"
abbreviation (input) "I_NLCR t \<equiv> I_FLAG t 0x40"
abbreviation (input) "I_NOCR t \<equiv> I_FLAG t 0x80"
abbreviation (input) "I_CRNL t \<equiv> I_FLAG t 0x100"
abbreviation (input) "I_UCLC t \<equiv> I_FLAG t 0x200"
abbreviation (input) "O_POST t \<equiv> O_FLAG t 0x1"
abbreviation (input) "O_LCUC t \<equiv> O_FLAG t 0x2"
abbreviation (input) "O_NLCR t \<equiv> O_FLAG t 0x4"
abbreviation (input) "O_CRNL t \<equiv> O_FLAG t 0x8"
abbreviation (input) "O_NLRET t \<equiv> O_FLAG t 0x20"

text \<open>A \<open>char\<close> (signed) against an \<open>unsigned char\<close> of \<open>c_cc\<close>.\<close>

definition is_cc :: "tty_struct \<Rightarrow> nat \<Rightarrow> u8 \<Rightarrow> bool" where
  "is_cc t v c \<longleftrightarrow> sint c = uint (c_cc (tty_termios t) ! v)"

definition INIT_C_CC :: "u8 list" where
  "INIT_C_CC = [3, 28, 127, 21, 4, 0, 1, 0, 17, 19, 26, 0, 18, 15, 23, 22, 0]"

definition init_tty :: "nat \<Rightarrow> tty_struct" where
  "init_tty n =
     (let t = \<lparr>c_iflag = 0, c_oflag = 0, c_cflag = 0x3b, c_lflag = 0, c_line = 0, c_cc = INIT_C_CC,
               c_pad = [0, 0]\<rparr>;
          serial = (\<lambda>port. \<lparr>tty_termios = t, tty_pgrp = 0, tty_stopped = False, tty_write_fn = rs_write_fn,
               read_q = empty_queue port, write_q = empty_queue port, secondary = empty_queue 0\<rparr>)
      in if n = 0 then
           \<lparr>tty_termios = t\<lparr>c_iflag := 0x100, c_oflag := 0x5, c_cflag := 0, c_lflag := 0xA0B\<rparr>,
            tty_pgrp = 0, tty_stopped = False, tty_write_fn = con_write_fn,
            read_q = empty_queue 0, write_q = empty_queue 0, secondary = empty_queue 0\<rparr>
         else if n = 1 then serial 0x3f8 else serial 0x2f8)"

definition upd_tty :: "nat \<Rightarrow> (tty_struct \<Rightarrow> tty_struct) \<Rightarrow> ttyw \<Rightarrow> ttyw" where
  "upd_tty ch f w = w\<lparr>tty_table := (tty_table w)(ch := f (tty_table w ch))\<rparr>"

definition put_write :: "nat \<Rightarrow> u8 \<Rightarrow> ttyw \<Rightarrow> ttyw" where
  "put_write ch c = upd_tty ch (write_q_update (PUTCH c))"

definition put_secondary :: "nat \<Rightarrow> u8 \<Rightarrow> ttyw \<Rightarrow> ttyw" where
  "put_secondary ch c = upd_tty ch (secondary_update (PUTCH c))"

text \<open>Send a signal to the terminal's process group.\<close>

definition tty_intr :: "nat \<Rightarrow> u32 \<Rightarrow> ttyw \<Rightarrow> ttyw" where
  "tty_intr ch m w =
     (let g = tty_pgrp (tty_table w ch)
      in if g \<le> 0 then w
         else w\<lparr>w_sched := (w_sched w)\<lparr>task := (\<lambda>i.
                if i < NR_TASKS
                then map_option (\<lambda>t. if t_pgrp t = g then t\<lparr>t_signal := t_signal t OR m\<rparr> else t)
                       (task (w_sched w) i)
                else task (w_sched w) i)\<rparr>\<rparr>)"

definition wake_secondary :: "nat \<Rightarrow> ttyw \<Rightarrow> ttyw" where
  "wake_secondary ch w =
     (let (p, s) = wake_up (q_proc_list (secondary (tty_table w ch))) (w_sched w)
      in upd_tty ch (secondary_update (q_proc_list_update (\<lambda>_. p))) (w\<lparr>w_sched := s\<rparr>))"

section \<open>copy_to_cooked\<close>

type_synonym driver = "nat \<Rightarrow> ttyw \<Rightarrow> ttyw kres"

text \<open>Carriage return and newline on input; \<open>None\<close> is a byte that is dropped.\<close>

definition input_nl :: "tty_struct \<Rightarrow> u8 \<Rightarrow> u8 option" where
  "input_nl t c =
     (if c = 13 then if I_CRNL t then Some 10 else if I_NOCR t then None else Some c
      else if c = 10 \<and> I_NLCR t then Some 13 else Some c)"

text \<open>The line can be edited back to a newline or an end-of-file character.\<close>

definition at_line_start :: "tty_struct \<Rightarrow> bool" where
  "at_line_start t \<longleftrightarrow>
     EMPTY (secondary t) \<or> LAST (secondary t) = 10 \<or> is_cc t VEOF (LAST (secondary t))"

definition rub_out :: "driver \<Rightarrow> nat \<Rightarrow> ttyw \<Rightarrow> ttyw kres" where
  "rub_out wr ch w =
     (let c = LAST (secondary (tty_table w ch))
      in bindE (if L_ECHO (tty_table w ch) then
                  let w = (if c <s 32 then put_write ch 127 w else w)
                  in wr ch (put_write ch 127 w)
                else Inr w)
           (\<lambda>w. Inr (upd_tty ch (secondary_update UNPUT) w)))"

primrec kill_loop :: "driver \<Rightarrow> nat \<Rightarrow> nat \<Rightarrow> ttyw \<Rightarrow> ttyw kres" where
  "kill_loop wr 0 ch w = Inl Hang"
| "kill_loop wr (Suc f) ch w =
     (if at_line_start (tty_table w ch) then Inr w
      else bindE (rub_out wr ch w) (kill_loop wr f ch))"

definition echo :: "driver \<Rightarrow> nat \<Rightarrow> u8 \<Rightarrow> ttyw \<Rightarrow> ttyw kres" where
  "echo wr ch c w =
     (if L_ECHO (tty_table w ch) then
        wr ch (if c = 10 then put_write ch 13 (put_write ch 10 w)
               else if c <s 32 then
                 if L_ECHOCTL (tty_table w ch) then put_write ch (c + 64) (put_write ch 94 w) else w
               else put_write ch c w)
      else Inr w)"

definition accept_char :: "driver \<Rightarrow> nat \<Rightarrow> u8 \<Rightarrow> ttyw \<Rightarrow> ttyw kres" where
  "accept_char wr ch c w =
     (let w = (if c = 10 \<or> is_cc (tty_table w ch) VEOF c
               then upd_tty ch (secondary_update (q_data_update (\<lambda>d. d + 1))) w else w)
      in bindE (echo wr ch c w) (\<lambda>w. Inr (put_secondary ch c w)))"

definition cook_char :: "driver \<Rightarrow> nat \<Rightarrow> nat \<Rightarrow> u8 \<Rightarrow> ttyw \<Rightarrow> ttyw kres" where
  "cook_char wr f ch c w =
     (let t = tty_table w ch
      in if L_CANON t \<and> is_cc t VKILL c then kill_loop wr f ch w
         else if L_CANON t \<and> is_cc t VERASE c then
           if at_line_start t then Inr w else rub_out wr ch w
         else if L_CANON t \<and> is_cc t VSTOP c then Inr (upd_tty ch (tty_stopped_update (\<lambda>_. True)) w)
         else if L_CANON t \<and> is_cc t VSTART c then Inr (upd_tty ch (tty_stopped_update (\<lambda>_. False)) w)
         else if L_ISIG t \<and> is_cc t VINTR c then Inr (tty_intr ch INTMASK w)
         else if L_ISIG t \<and> is_cc t VQUIT c then Inr (tty_intr ch QUITMASK w)
         else accept_char wr ch c w)"

definition copy_char :: "driver \<Rightarrow> nat \<Rightarrow> nat \<Rightarrow> ttyw \<Rightarrow> ttyw kres" where
  "copy_char wr f ch w =
     (let (c, q) = GETCH (read_q (tty_table w ch));
          w = upd_tty ch (read_q_update (\<lambda>_. q)) w
      in case input_nl (tty_table w ch) c of
           None \<Rightarrow> Inr w
         | Some c \<Rightarrow>
             bindE (if I_UCLC (tty_table w ch) then tolower c else Inr c)
               (\<lambda>c. cook_char wr f ch c w))"

primrec cooked_loop :: "driver \<Rightarrow> nat \<Rightarrow> nat \<Rightarrow> nat \<Rightarrow> ttyw \<Rightarrow> ttyw kres" where
  "cooked_loop wr f 0 ch w = Inl Hang"
| "cooked_loop wr f (Suc n) ch w =
     (if \<not> EMPTY (read_q (tty_table w ch)) \<and> \<not> FULL (secondary (tty_table w ch))
      then bindE (copy_char wr f ch w) (cooked_loop wr f n ch)
      else Inr w)"

definition copy_to_cooked_with :: "driver \<Rightarrow> nat \<Rightarrow> nat \<Rightarrow> ttyw \<Rightarrow> ttyw kres" where
  "copy_to_cooked_with wr f ch w =
     bindE (cooked_loop wr f f ch w) (\<lambda>w. Inr (wake_secondary ch w))"

section \<open>The drivers\<close>

definition rs_write :: driver where
  "rs_write ch w =
     (let q = write_q (tty_table w ch); port = unat (q_data q) + 1
      in if EMPTY q then Inr w
         else Inr (w\<lparr>w_sched := outb (port_in (w_sched w) port OR 0x02) port (w_sched w)\<rparr>))"

definition rs_init_port :: "nat \<Rightarrow> sched \<Rightarrow> sched" where
  "rs_init_port port s =
     outb 0x0d (port + 1) (outb 0x0b (port + 4) (outb 0x03 (port + 3) (outb 0x00 (port + 1)
       (outb 0x30 port (outb 0x80 (port + 3) s)))))"

definition rs_init :: "ttyw \<Rightarrow> ttyw" where
  "rs_init w =
     (let s = rs_init_port (unat (q_data (read_q (tty_table w 1)))) (w_sched w);
          s = rs_init_port (unat (q_data (read_q (tty_table w 2)))) s
      in w\<lparr>w_sched := outb (port_in s 0x21 AND 0xE7) 0x21 s\<rparr>)"

definition tty_init :: "u8 \<Rightarrow> u8 \<Rightarrow> u16 \<Rightarrow> u16 \<Rightarrow> u16 \<Rightarrow> ttyw \<Rightarrow> ttyw" where
  "tty_init orig_x orig_y page mode_cols ega_bx w =
     (let w = rs_init w in w\<lparr>w_con := con_init orig_x orig_y page mode_cols ega_bx (w_con w)\<rparr>)"

primrec con_write_loop :: "driver \<Rightarrow> nat \<Rightarrow> nat \<Rightarrow> ttyw \<Rightarrow> ttyw kres" where
  "con_write_loop respond 0 ch w = Inr w"
| "con_write_loop respond (Suc nr) ch w =
     (let (c, q) = GETCH (write_q (tty_table w ch));
          w = upd_tty ch (write_q_update (\<lambda>_. q)) w;
          (query, k) = con_char (c_cc (tty_termios (tty_table w ch)) ! VERASE) c (w_con w);
          w = w\<lparr>w_con := k\<rparr>
      in bindE (if query then respond ch w else Inr w) (con_write_loop respond nr ch))"

definition con_write_with :: "driver \<Rightarrow> driver" where
  "con_write_with respond ch w =
     bindE (con_write_loop respond (unat (CHARS (write_q (tty_table w ch)))) ch w)
       (\<lambda>w. Inr (w\<lparr>w_con := set_cursor (w_con w)\<rparr>))"

definition respond_with :: "driver \<Rightarrow> driver" where
  "respond_with cooked ch w =
     cooked ch (fold (\<lambda>c. upd_tty ch (read_q_update (PUTCH c))) RESPONSE w)"

text \<open>\<open>tty->write (tty)\<close>, with at most the given number of calls nested in each other.\<close>

primrec tty_driver_write :: "nat \<Rightarrow> driver" where
  "tty_driver_write 0 ch w = Inl Hang"
| "tty_driver_write (Suc f) ch w =
     (case tty_write_fn (tty_table w ch) of
        rs_write_fn \<Rightarrow> rs_write ch w
      | con_write_fn \<Rightarrow>
          con_write_with (respond_with (copy_to_cooked_with (tty_driver_write f) f)) ch w)"

definition copy_to_cooked :: "nat \<Rightarrow> nat \<Rightarrow> ttyw \<Rightarrow> ttyw kres" where
  "copy_to_cooked f = copy_to_cooked_with (tty_driver_write f) f"

definition do_tty_interrupt :: "nat \<Rightarrow> nat \<Rightarrow> ttyw \<Rightarrow> ttyw kres" where
  "do_tty_interrupt f t = copy_to_cooked f t"

section \<open>Reading and writing\<close>

text \<open>
  \<open>isleep ch w\<close> is what a call of \<open>interruptible_sleep_on\<close> on the list of the queue does, the work
  of the tasks and interrupts that run meanwhile included; \<open>switch\<close> is a call of \<open>schedule\<close>.
\<close>

definition cur_signal :: "ttyw \<Rightarrow> u32" where
  "cur_signal w = (case cur (w_sched w) of None \<Rightarrow> 0 | Some t \<Rightarrow> t_signal t)"

definition upd_cur :: "(task_struct \<Rightarrow> task_struct) \<Rightarrow> ttyw \<Rightarrow> ttyw" where
  "upd_cur f w = w\<lparr>w_sched := upd_task (current (w_sched w)) f (w_sched w)\<rparr>"

primrec sleep_if_empty :: "(nat \<Rightarrow> ttyw \<Rightarrow> ttyw) \<Rightarrow> nat \<Rightarrow> nat \<Rightarrow> ttyw \<Rightarrow> ttyw kres" where
  "sleep_if_empty isleep 0 ch w = Inl Hang"
| "sleep_if_empty isleep (Suc f) ch w =
     (if cur_signal w = 0 \<and> EMPTY (secondary (tty_table w ch))
      then sleep_if_empty isleep f ch (isleep ch w) else Inr w)"

primrec sleep_full_loop :: "(nat \<Rightarrow> ttyw \<Rightarrow> ttyw) \<Rightarrow> nat \<Rightarrow> nat \<Rightarrow> ttyw \<Rightarrow> ttyw kres" where
  "sleep_full_loop isleep 0 ch w = Inl Hang"
| "sleep_full_loop isleep (Suc f) ch w =
     (if cur_signal w = 0 \<and> LEFT (write_q (tty_table w ch)) < 128
      then sleep_full_loop isleep f ch (isleep ch w) else Inr w)"

definition sleep_if_full :: "(nat \<Rightarrow> ttyw \<Rightarrow> ttyw) \<Rightarrow> nat \<Rightarrow> nat \<Rightarrow> ttyw \<Rightarrow> ttyw kres" where
  "sleep_if_full isleep f ch w =
     (if FULL (write_q (tty_table w ch)) then sleep_full_loop isleep f ch w else Inr w)"

definition wait_for_keypress :: "(nat \<Rightarrow> ttyw \<Rightarrow> ttyw) \<Rightarrow> nat \<Rightarrow> ttyw \<Rightarrow> ttyw kres" where
  "wait_for_keypress isleep f w = sleep_if_empty isleep f 0 w"

text \<open>
  The inner loop of \<open>tty_read\<close>: bytes move to the caller until the request is served, the queue
  is empty, or an end-of-file character is taken (the first component of the result).
\<close>

primrec read_chars :: "nat \<Rightarrow> nat \<Rightarrow> u32 \<Rightarrow> ttyw \<Rightarrow> bool \<times> nat \<times> u32 \<times> ttyw" where
  "read_chars ch 0 b w = (False, 0, b, w)"
| "read_chars ch (Suc nr) b w =
     (let (c, q) = GETCH (secondary (tty_table w ch));
          w = upd_tty ch (secondary_update (\<lambda>_. q)) w;
          t = tty_table w ch;
          w = (if is_cc t VEOF c \<or> c = 10
               then upd_tty ch (secondary_update (q_data_update (\<lambda>d. d - 1))) w else w)
      in if is_cc t VEOF c \<and> L_CANON t then (True, Suc nr, b, w)
         else
           let w = w\<lparr>w_fs := put_fs_byte c b (w_fs w)\<rparr>
           in if nr = 0 \<or> EMPTY (secondary (tty_table w ch)) then (False, nr, b + 1, w)
              else read_chars ch nr (b + 1) w)"

definition set_read_alarm :: "int \<Rightarrow> int \<Rightarrow> ttyw \<Rightarrow> bool \<times> ttyw" where
  "set_read_alarm oldalarm time w =
     (let j = jiffies (w_sched w); flag = (oldalarm = 0 \<or> time + j < oldalarm)
      in (flag, if flag then upd_cur (t_alarm_update (\<lambda>_. time + j)) w else w))"

definition read_ready :: "tty_struct \<Rightarrow> bool" where
  "read_ready t \<longleftrightarrow>
     \<not> (EMPTY (secondary t) \<or>
        L_CANON t \<and> q_data (secondary t) = 0 \<and> LEFT (secondary t) > 20)"

text \<open>The loop of \<open>tty_read\<close>; the result is the return value of an early return, if there is one.\<close>

primrec tty_read_loop ::
  "(nat \<Rightarrow> ttyw \<Rightarrow> ttyw) \<Rightarrow> int \<Rightarrow> int \<Rightarrow> int \<Rightarrow> u32 \<Rightarrow> nat \<Rightarrow> nat \<Rightarrow> bool \<Rightarrow> nat \<Rightarrow> u32 \<Rightarrow> ttyw \<Rightarrow>
   (bool \<times> u32 \<times> ttyw) kres" where
  "tty_read_loop isleep oldalarm time minimum buf 0 ch flag nr b w = Inl Hang"
| "tty_read_loop isleep oldalarm time minimum buf (Suc f) ch flag nr b w =
     (if nr = 0 then Inr (False, b, w)
      else if flag \<and> cur_signal w AND ALRMMASK \<noteq> 0
      then Inr (False, b, upd_cur (t_signal_update (\<lambda>s. s AND NOT ALRMMASK)) w)
      else if cur_signal w \<noteq> 0 then Inr (False, b, w)
      else if \<not> read_ready (tty_table w ch)
      then bindE (sleep_if_empty isleep (Suc f) ch w)
             (\<lambda>w. tty_read_loop isleep oldalarm time minimum buf f ch flag nr b w)
      else
        let (eof, nr, b, w) = read_chars ch nr b w;
            canon = L_CANON (tty_table w ch)
        in if eof then Inr (True, b, w)
           else
             let (flag, w) =
                   (if time \<noteq> 0 \<and> \<not> canon then
                      let (fl, w') = set_read_alarm oldalarm time w
                      in (fl, if fl then w' else upd_cur (t_alarm_update (\<lambda>_. oldalarm)) w)
                    else (flag, w))
             in if canon \<and> b \<noteq> buf \<or> \<not> canon \<and> minimum \<le> uint (b - buf)
                then Inr (False, b, w)
                else tty_read_loop isleep oldalarm time minimum buf f ch flag nr b w)"

definition tty_read ::
  "(nat \<Rightarrow> ttyw \<Rightarrow> ttyw) \<Rightarrow> nat \<Rightarrow> nat \<Rightarrow> u32 \<Rightarrow> int \<Rightarrow> ttyw \<Rightarrow> (int \<times> ttyw) kres" where
  "tty_read isleep f ch buf nr w =
     (if ch > 2 \<or> nr < 0 then Inr (- 1, w)
      else
        let t = tty_table w ch;
            oldalarm = (case cur (w_sched w) of None \<Rightarrow> 0 | Some c \<Rightarrow> t_alarm c);
            time = 10 * uint (c_cc (tty_termios t) ! VTIME);
            minimum = uint (c_cc (tty_termios t) ! VMIN);
            (minimum, flag, w) =
              (if time \<noteq> 0 \<and> minimum = 0 then (1, set_read_alarm oldalarm time w)
               else (minimum, False, w));
            minimum = (if minimum > nr then nr else minimum)
        in bindE (tty_read_loop isleep oldalarm time minimum buf f ch flag (nat nr) buf w)
             (\<lambda>(eof, b, w).
                if eof then Inr (uint (b - buf), w)
                else
                  let w = upd_cur (t_alarm_update (\<lambda>_. oldalarm)) w
                  in Inr (if cur_signal w \<noteq> 0 \<and> b = buf then - EINTR else uint (b - buf), w)))"

text \<open>
  The inner loop of \<open>tty_write\<close>.  A newline that becomes two characters leaves the loop with the
  first of them written and \<open>cr_flag\<close> set.
\<close>

definition output_map :: "tty_struct \<Rightarrow> u8 \<Rightarrow> u8" where
  "output_map t c =
     (if O_POST t then
        if c = 13 \<and> O_CRNL t then 10 else if c = 10 \<and> O_NLRET t then 13 else c
      else c)"

primrec write_chars :: "nat \<Rightarrow> nat \<Rightarrow> nat \<Rightarrow> u32 \<Rightarrow> ttyw \<Rightarrow> (nat \<times> u32 \<times> ttyw) kres" where
  "write_chars 0 ch nr b w = Inl Hang"
| "write_chars (Suc f) ch nr b w =
     (let t = tty_table w ch
      in if nr = 0 \<or> FULL (write_q t) then Inr (nr, b, w)
         else
           let c = output_map t (get_fs_byte b (w_fs w))
           in if O_POST t \<and> c = 10 \<and> \<not> cr_flag w \<and> O_NLCR t
              then write_chars f ch nr b (put_write ch 13 (w\<lparr>cr_flag := True\<rparr>))
              else bindE (if O_POST t \<and> O_LCUC t then toupper c else Inr c)
                     (\<lambda>c. write_chars f ch (nr - 1) (b + 1)
                            (put_write ch c (w\<lparr>cr_flag := False\<rparr>))))"

primrec tty_write_loop ::
  "(nat \<Rightarrow> ttyw \<Rightarrow> ttyw) \<Rightarrow> (ttyw \<Rightarrow> ttyw) \<Rightarrow> nat \<Rightarrow> nat \<Rightarrow> nat \<Rightarrow> u32 \<Rightarrow> ttyw \<Rightarrow> (u32 \<times> ttyw) kres" where
  "tty_write_loop isleep switch 0 ch nr b w = Inl Hang"
| "tty_write_loop isleep switch (Suc f) ch nr b w =
     (if nr = 0 then Inr (b, w)
      else bindE (sleep_if_full isleep (Suc f) ch w) (\<lambda>w.
        if cur_signal w \<noteq> 0 then Inr (b, w)
        else bindE (write_chars TTY_BUF_SIZE ch nr b w) (\<lambda>(nr, b, w).
               bindE (tty_driver_write (Suc f) ch w) (\<lambda>w.
                 tty_write_loop isleep switch f ch nr b (if nr > 0 then switch w else w)))))"

definition tty_write ::
  "(nat \<Rightarrow> ttyw \<Rightarrow> ttyw) \<Rightarrow> (ttyw \<Rightarrow> ttyw) \<Rightarrow> nat \<Rightarrow> nat \<Rightarrow> u32 \<Rightarrow> int \<Rightarrow> ttyw \<Rightarrow> (int \<times> ttyw) kres" where
  "tty_write isleep switch f ch buf nr w =
     (if ch > 2 \<or> nr < 0 then Inr (- 1, w)
      else bindE (tty_write_loop isleep switch f ch (nat nr) buf w)
             (\<lambda>(b, w). Inr (uint (b - buf), w)))"

end
