(* ===== verification/Line_Discipline.thy ===== *)
theory Line_Discipline
  imports Tty
begin

text \<open>
  The line discipline as a function on lists of bytes, and the proof that \<open>copy_to_cooked\<close>
  computes it.  What the proof needs of a driver is the locale \<open>line_driver\<close>: the serial driver
  and the console driver are its two interpretations.
\<close>

section \<open>The line discipline on lists\<close>

text \<open>A newline or an end-of-file character ends a line: editing does not go back past it.\<close>

definition ends_line :: "tty_struct \<Rightarrow> u8 \<Rightarrow> bool" where
  "ends_line t c \<longleftrightarrow> c = 10 \<or> is_cc t VEOF c"

definition kill_line :: "tty_struct \<Rightarrow> u8 list \<Rightarrow> u8 list" where
  "kill_line t s = rev (dropWhile (\<lambda>c. \<not> ends_line t c) (rev s))"

definition erase_last :: "tty_struct \<Rightarrow> u8 list \<Rightarrow> u8 list" where
  "erase_last t s = (if s = [] \<or> ends_line t (last s) then s else butlast s)"

text \<open>\<open>ASCII\<close> lower case.\<close>

definition lower :: "u8 \<Rightarrow> u8" where
  "lower c = (if 65 \<le> uint c \<and> uint c \<le> 90 then c + 32 else c)"

definition discipline :: "tty_struct \<Rightarrow> u8 \<Rightarrow> u8 list \<Rightarrow> u8 list" where
  "discipline t c s =
     (case input_nl t c of
        None \<Rightarrow> s
      | Some c \<Rightarrow>
          let c = (if I_UCLC t then lower c else c)
          in if L_CANON t \<and> is_cc t VKILL c then kill_line t s
             else if L_CANON t \<and> is_cc t VERASE c then erase_last t s
             else if L_CANON t \<and> (is_cc t VSTOP c \<or> is_cc t VSTART c) then s
             else if L_ISIG t \<and> (is_cc t VINTR c \<or> is_cc t VQUIT c) then s
             else s @ [c])"

section \<open>What the line discipline needs of a driver\<close>

text \<open>The part of a terminal that a driver leaves alone.\<close>

definition same_line :: "tty_struct \<Rightarrow> tty_struct \<Rightarrow> bool" where
  "same_line t t' \<longleftrightarrow>
     read_q t' = read_q t \<and> secondary t' = secondary t \<and> tty_termios t' = tty_termios t"

text \<open>The part of the state a driver may look at.\<close>

definition same_output :: "nat \<Rightarrow> ttyw \<Rightarrow> ttyw \<Rightarrow> bool" where
  "same_output ch w w' \<longleftrightarrow>
     write_q (tty_table w' ch) = write_q (tty_table w ch) \<and>
     tty_write_fn (tty_table w' ch) = tty_write_fn (tty_table w ch) \<and> w_con w' = w_con w"

lemma echo_not_escape:
  fixes c :: u8
  assumes "uint c < 128"
  shows "c + 64 \<noteq> 27"
proof
  assume "c + 64 = 27"
  then have "c = 219" by (simp add: eq_diff_eq [symmetric])
  then show False using assms by simp
qed

text \<open>The queues after a step: the input as it was, the edited line in the secondary queue.\<close>

definition line_effect :: "tty_struct \<Rightarrow> tty_struct \<Rightarrow> u8 list \<Rightarrow> bool" where
  "line_effect t t' s \<longleftrightarrow>
     read_q t' = read_q t \<and> tty_termios t' = tty_termios t \<and> q_wf (secondary t') \<and>
     q_list (secondary t') = s"

lemma flags_termios:
  assumes "tty_termios t' = tty_termios t"
  shows "L_FLAG t' f = L_FLAG t f" "I_FLAG t' f = I_FLAG t f" "is_cc t' v c = is_cc t v c"
    "ends_line t' c = ends_line t c" "kill_line t' s = kill_line t s" "erase_last t' s = erase_last t s"
    "input_nl t' c = input_nl t c" "discipline t' c s = discipline t c s"
  by (simp_all only: L_FLAG_def I_FLAG_def is_cc_def ends_line_def kill_line_def erase_last_def
      input_nl_def discipline_def assms)

lemma at_line_start_list:
  assumes "q_wf (secondary t)"
  shows "at_line_start t \<longleftrightarrow> q_list (secondary t) = [] \<or> ends_line t (last (q_list (secondary t)))"
proof (cases "q_list (secondary t) = []")
  case True
  then show ?thesis using ring.empty_contents [OF assms] by (simp add: at_line_start_def)
next
  case False
  then obtain xs x where "q_list (secondary t) = xs @ [x]" by (metis append_butlast_last_id)
  then show ?thesis
    using ring.empty_contents [OF assms] ring.unput_contents [OF assms]
    by (auto simp: at_line_start_def ends_line_def)
qed

lemma unput_list:
  assumes "q_wf q" and "q_list q \<noteq> []"
  shows "q_wf (UNPUT q)" "q_list (UNPUT q) = butlast (q_list q)"
proof -
  obtain xs x where "q_list q = xs @ [x]" using assms(2) by (metis append_butlast_last_id)
  then show "q_wf (UNPUT q)" "q_list (UNPUT q) = butlast (q_list q)"
    using ring.unput_contents [OF assms(1)] by auto
qed

lemma kill_line_simps:
  "s = [] \<or> ends_line t (last s) \<Longrightarrow> kill_line t s = s"
  "s \<noteq> [] \<Longrightarrow> \<not> ends_line t (last s) \<Longrightarrow> kill_line t s = kill_line t (butlast s)"
proof -
  show "s = [] \<or> ends_line t (last s) \<Longrightarrow> kill_line t s = s"
    by (cases s rule: rev_cases) (auto simp: kill_line_def)
  show "s \<noteq> [] \<Longrightarrow> \<not> ends_line t (last s) \<Longrightarrow> kill_line t s = kill_line t (butlast s)"
    by (cases s rule: rev_cases) (auto simp: kill_line_def)
qed

lemma tolower_ascii: "uint c < 128 \<Longrightarrow> tolower c = Inr (lower c)"
proof -
  assume c: "uint c < 128"
  then have "sint c = uint c"
    by (simp add: sint_uint signed_take_bit_eq_if_positive bit_iff_odd_drop_bit drop_bit_eq_div
        take_bit_int_eq_self_iff)
  moreover have "isupper (uint c) = Inr (65 \<le> uint c \<and> uint c \<le> 90)"
    by (rule isupper_ascii) (use c uint_ge_0 [of c] in linarith)+
  ultimately show ?thesis by (simp only: tolower_def bindE_simps lower_def) simp
qed

lemma lower_ascii: "uint c < 128 \<Longrightarrow> uint (lower c) < 128"
  by (simp add: lower_def uint_word_ariths)

lemma input_nl_ascii: "uint c < 128 \<Longrightarrow> input_nl t c = Some d \<Longrightarrow> uint d < 128"
  by (auto simp: input_nl_def split: if_splits)

lemma length_discipline: "length (discipline t c s) \<le> Suc (length s)"
proof -
  have "length (dropWhile P (rev s)) \<le> length s" for P
    using length_dropWhile_le [of P "rev s"] by simp
  then show ?thesis
    by (auto simp: discipline_def kill_line_def erase_last_def Let_def le_SucI split: option.split)
qed

locale line_driver =
  fixes wr :: driver
    and ready :: "nat \<Rightarrow> ttyw \<Rightarrow> bool"
  assumes returns: "ready ch w \<Longrightarrow>
      \<exists>w'. wr ch w = Inr w' \<and> same_line (tty_table w ch) (tty_table w' ch) \<and> ready ch w'"
    and put: "ready ch w \<Longrightarrow> b \<noteq> 27 \<Longrightarrow> ready ch (put_write ch b w)"
    and depends: "ready ch w \<Longrightarrow> same_output ch w w' \<Longrightarrow> ready ch w'"
begin

lemma put_line [simp]: "same_line t (tty_table (put_write ch b w) ch) = same_line t (tty_table w ch)"
  by (simp add: put_write_def upd_tty_def same_line_def)

lemma rub_out_effect:
  assumes "ready ch w"
  shows "\<exists>w'. rub_out wr ch w = Inr w' \<and> ready ch w' \<and>
    same_line ((tty_table w ch)\<lparr>secondary := UNPUT (secondary (tty_table w ch))\<rparr>) (tty_table w' ch)"
proof -
  let ?w = "if LAST (secondary (tty_table w ch)) <s 32 then put_write ch 127 w else w"
  have r: "ready ch (put_write ch 127 ?w)"
    using assms put by simp
  obtain w1 where w1: "wr ch (put_write ch 127 ?w) = Inr w1" "ready ch w1"
    "same_line (tty_table (put_write ch 127 ?w) ch) (tty_table w1 ch)"
    using returns [OF r] by blast
  have s: "same_line (tty_table w ch) (tty_table (put_write ch 127 ?w) ch)"
    by (simp add: same_line_def put_write_def upd_tty_def)
  obtain w2 where w2: "(if L_ECHO (tty_table w ch) then wr ch (put_write ch 127 ?w) else Inr w) = Inr w2"
    "ready ch w2" "same_line (tty_table w ch) (tty_table w2 ch)"
    using w1 s assms by (cases "L_ECHO (tty_table w ch)") (auto simp: same_line_def)
  let ?w' = "upd_tty ch (secondary_update UNPUT) w2"
  have "ready ch ?w'"
    by (rule depends [OF w2(2)]) (simp add: same_output_def upd_tty_def)
  moreover have "rub_out wr ch w = Inr ?w'"
    by (simp only: rub_out_def Let_def w2(1) bindE_simps)
  moreover have "same_line ((tty_table w ch)\<lparr>secondary := UNPUT (secondary (tty_table w ch))\<rparr>) (tty_table ?w' ch)"
    using w2(3) by (simp add: same_line_def upd_tty_def)
  ultimately show ?thesis by blast
qed

lemma echo_effect:
  assumes "ready ch w" and "uint c < 128"
  shows "\<exists>w'. echo wr ch c w = Inr w' \<and> ready ch w' \<and> same_line (tty_table w ch) (tty_table w' ch)"
proof (cases "L_ECHO (tty_table w ch)")
  case False
  then show ?thesis using assms(1) by (simp add: echo_def same_line_def)
next
  case True
  let ?w = "if c = 10 then put_write ch 13 (put_write ch 10 w)
      else if c <s 32 then
        if L_ECHOCTL (tty_table w ch) then put_write ch (c + 64) (put_write ch 94 w) else w
      else put_write ch c w"
  have c: "c \<noteq> 27" if "\<not> c <s 32" using that by auto
  have "ready ch ?w"
    using assms(1) put [OF _ echo_not_escape [OF assms(2)]] put [OF assms(1) c] put by simp
  moreover have "same_line (tty_table w ch) (tty_table ?w ch)"
    by (simp add: same_line_def put_write_def upd_tty_def)
  ultimately show ?thesis
    using True returns [of ch ?w] by (auto simp: echo_def same_line_def)
qed

lemma rub_out_line:
  assumes r: "ready ch w" and wf: "q_wf (secondary (tty_table w ch))"
    and ne: "q_list (secondary (tty_table w ch)) \<noteq> []"
  shows "\<exists>w'. rub_out wr ch w = Inr w' \<and> ready ch w' \<and>
    line_effect (tty_table w ch) (tty_table w' ch) (butlast (q_list (secondary (tty_table w ch))))"
  using rub_out_effect [OF r] unput_list [OF wf ne] by (auto simp: same_line_def line_effect_def)

lemma kill_loop_line:
  "ready ch w \<Longrightarrow> q_wf (secondary (tty_table w ch)) \<Longrightarrow> length (q_list (secondary (tty_table w ch))) < f \<Longrightarrow>
   \<exists>w'. kill_loop wr f ch w = Inr w' \<and> ready ch w' \<and>
     line_effect (tty_table w ch) (tty_table w' ch)
       (kill_line (tty_table w ch) (q_list (secondary (tty_table w ch))))"
proof (induction f arbitrary: w)
  case (Suc f)
  let ?t = "tty_table w ch" and ?s = "q_list (secondary (tty_table w ch))"
  show ?case
  proof (cases "?s = [] \<or> ends_line ?t (last ?s)")
    case True
    then show ?thesis
      using Suc.prems kill_line_simps(1) [OF True] at_line_start_list [OF Suc.prems(2)]
      by (simp add: line_effect_def)
  next
    case False
    then obtain w1 where w1: "rub_out wr ch w = Inr w1" "ready ch w1" "line_effect ?t (tty_table w1 ch) (butlast ?s)"
      using rub_out_line [OF Suc.prems(1,2)] by blast
    then have "length (q_list (secondary (tty_table w1 ch))) = length ?s - 1"
      by (simp only: line_effect_def length_butlast)
    moreover have "0 < length ?s" using False by (metis length_greater_0_conv)
    ultimately have "length (q_list (secondary (tty_table w1 ch))) < f"
      using Suc.prems(3) by linarith
    then obtain w2 where "kill_loop wr f ch w1 = Inr w2" "ready ch w2"
      "line_effect (tty_table w1 ch) (tty_table w2 ch) (kill_line (tty_table w1 ch) (butlast ?s))"
      using Suc.IH [of w1] w1 by (auto simp: line_effect_def)
    moreover have "kill_line (tty_table w1 ch) (butlast ?s) = kill_line ?t ?s"
    proof -
      have "tty_termios (tty_table w1 ch) = tty_termios ?t" using w1(3) by (simp add: line_effect_def)
      from flags_termios(5) [OF this] show ?thesis using False kill_line_simps(2) [of ?s ?t] by metis
    qed
    ultimately show ?thesis
      using False w1 at_line_start_list [OF Suc.prems(2)] by (simp add: line_effect_def)
  qed
qed simp

lemma accept_char_line:
  assumes r: "ready ch w" and wf: "q_wf (secondary (tty_table w ch))"
    and room: "\<not> FULL (secondary (tty_table w ch))" and c: "uint c < 128"
  shows "\<exists>w'. accept_char wr ch c w = Inr w' \<and> ready ch w' \<and>
    line_effect (tty_table w ch) (tty_table w' ch) (q_list (secondary (tty_table w ch)) @ [c])"
proof -
  let ?w = "if c = 10 \<or> is_cc (tty_table w ch) VEOF c
    then upd_tty ch (secondary_update (q_data_update (\<lambda>d. d + 1))) w else w"
  have "ready ch ?w"
    by (rule depends [OF r]) (simp add: same_output_def upd_tty_def)
  from echo_effect [OF this c] obtain w1 where
    w1: "echo wr ch c ?w = Inr w1" "ready ch w1" "same_line (tty_table ?w ch) (tty_table w1 ch)"
    by blast
  have sec: "q_wf (secondary (tty_table ?w ch))" "\<not> FULL (secondary (tty_table ?w ch))"
    "q_list (secondary (tty_table ?w ch)) = q_list (secondary (tty_table w ch))"
    using wf room by (simp_all add: upd_tty_def)
  have "ready ch (put_secondary ch c w1)"
    by (rule depends [OF w1(2)]) (simp add: same_output_def upd_tty_def put_secondary_def)
  moreover have "accept_char wr ch c w = Inr (put_secondary ch c w1)"
    by (simp only: accept_char_def Let_def w1(1) bindE_simps)
  moreover have "line_effect (tty_table w ch) (tty_table (put_secondary ch c w1) ch)
      (q_list (secondary (tty_table w ch)) @ [c])"
  proof -
    have "secondary (tty_table w1 ch) = secondary (tty_table ?w ch)"
      "read_q (tty_table w1 ch) = read_q (tty_table w ch)"
      "tty_termios (tty_table w1 ch) = tty_termios (tty_table w ch)"
      using w1(3) by (simp_all add: same_line_def upd_tty_def)
    then show ?thesis
      using ring.put_contents [OF sec(1,2), of c] sec(3)
      by (simp add: line_effect_def put_secondary_def upd_tty_def)
  qed
  ultimately show ?thesis by blast
qed

lemma cook_char_line:
  assumes r: "ready ch w" and wf: "q_wf (secondary (tty_table w ch))"
    and room: "\<not> FULL (secondary (tty_table w ch))" and c: "uint c < 128" and f: "TTY_BUF_SIZE \<le> f"
    and t: "t = tty_table w ch" and s: "s = q_list (secondary t)"
  shows "\<exists>w'. cook_char wr f ch c w = Inr w' \<and> ready ch w' \<and>
    line_effect t (tty_table w' ch)
      (if L_CANON t \<and> is_cc t VKILL c then kill_line t s
       else if L_CANON t \<and> is_cc t VERASE c then erase_last t s
       else if L_CANON t \<and> (is_cc t VSTOP c \<or> is_cc t VSTART c) then s
       else if L_ISIG t \<and> (is_cc t VINTR c \<or> is_cc t VQUIT c) then s
       else s @ [c])"
proof -
  have len: "length (q_list (secondary (tty_table w ch))) < f"
    using f q_len_less [of "secondary (tty_table w ch)"] by simp
  have same: "ready ch w' \<and> line_effect t (tty_table w' ch) s"
    if "same_output ch w w'" "same_line (tty_table w ch) (tty_table w' ch)" for w'
    using depends [OF r that(1)] that(2) wf by (simp add: line_effect_def same_line_def t s)
  have keep: "same_output ch w (upd_tty ch (tty_stopped_update g) w)"
    "same_line (tty_table w ch) (tty_table (upd_tty ch (tty_stopped_update g) w) ch)"
    "same_output ch w (tty_intr ch m w)" "same_line (tty_table w ch) (tty_table (tty_intr ch m w) ch)" for g m
    by (simp_all add: same_output_def same_line_def upd_tty_def tty_intr_def Let_def)
  note rub = rub_out_line [OF r wf] and kill = kill_loop_line [OF r wf len]
    and acc = accept_char_line [OF r wf room c]
  consider (kill) "L_CANON t \<and> is_cc t VKILL c"
    | (erase) "\<not> (L_CANON t \<and> is_cc t VKILL c)" "L_CANON t \<and> is_cc t VERASE c"
    | (stop) "\<not> (L_CANON t \<and> is_cc t VKILL c)" "\<not> (L_CANON t \<and> is_cc t VERASE c)"
        "L_CANON t \<and> (is_cc t VSTOP c \<or> is_cc t VSTART c)"
    | (sig) "\<not> (L_CANON t \<and> is_cc t VKILL c)" "\<not> (L_CANON t \<and> is_cc t VERASE c)"
        "\<not> (L_CANON t \<and> (is_cc t VSTOP c \<or> is_cc t VSTART c))"
        "L_ISIG t \<and> (is_cc t VINTR c \<or> is_cc t VQUIT c)"
    | (other) "\<not> (L_CANON t \<and> is_cc t VKILL c)" "\<not> (L_CANON t \<and> is_cc t VERASE c)"
        "\<not> (L_CANON t \<and> (is_cc t VSTOP c \<or> is_cc t VSTART c))"
        "\<not> (L_ISIG t \<and> (is_cc t VINTR c \<or> is_cc t VQUIT c))"
    by blast
  then show ?thesis
  proof cases
    case kill
    then show ?thesis using \<open>\<exists>w'. kill_loop wr f ch w = Inr w' \<and> _\<close> by (simp add: cook_char_def t s)
  next
    case erase
    show ?thesis
    proof (cases "at_line_start t")
      case True
      then have "erase_last t s = s" using at_line_start_list wf by (simp add: erase_last_def t s)
      moreover have "cook_char wr f ch c w = Inr w" using erase True by (simp add: cook_char_def t)
      ultimately show ?thesis using erase same [of w] by (simp add: same_output_def same_line_def)
    next
      case False
      then have "erase_last t s = butlast s" "s \<noteq> []"
        using at_line_start_list wf by (auto simp: erase_last_def t s)
      moreover have "cook_char wr f ch c w = rub_out wr ch w" using erase False by (auto simp: cook_char_def t)
      ultimately show ?thesis using erase rub by (simp add: t s)
    qed
  next
    case stop
    then have "cook_char wr f ch c w = Inr (upd_tty ch (tty_stopped_update (\<lambda>_. is_cc t VSTOP c)) w)"
      by (auto simp: cook_char_def Let_def t)
    then show ?thesis using stop same [OF keep(1,2)] by auto
  next
    case sig
    then have "cook_char wr f ch c w = Inr (tty_intr ch (if is_cc t VINTR c then INTMASK else QUITMASK) w)"
      by (auto simp: cook_char_def Let_def t)
    then show ?thesis using sig same [OF keep(3,4)] by auto
  next
    case other
    then have "cook_char wr f ch c w = accept_char wr ch c w" by (auto simp: cook_char_def t)
    then show ?thesis using other acc by (auto simp: t s)
  qed
qed

lemma copy_char_line:
  assumes r: "ready ch w" and t: "t = tty_table w ch" and wf: "q_wf (read_q t)" "q_wf (secondary t)"
    and input: "q_list (read_q t) = c # cs" and c: "uint c < 128" and room: "\<not> FULL (secondary t)"
    and f: "TTY_BUF_SIZE \<le> f"
  shows "\<exists>w' t'. copy_char wr f ch w = Inr w' \<and> ready ch w' \<and> t' = tty_table w' ch \<and>
    q_wf (read_q t') \<and> q_list (read_q t') = cs \<and> tty_termios t' = tty_termios t \<and>
    q_wf (secondary t') \<and> q_list (secondary t') = discipline t c (q_list (secondary t))"
proof -
  obtain q where q: "GETCH (read_q t) = (c, q)" "q_list q = cs" "q_wf q"
    using ring.get_contents [OF wf(1) input] by blast
  let ?w = "upd_tty ch (read_q_update (\<lambda>_. q)) w" and ?s = "q_list (secondary t)"
  have tw: "tty_table ?w ch = t\<lparr>read_q := q\<rparr>" by (simp add: upd_tty_def t)
  then have tm: "tty_termios (tty_table ?w ch) = tty_termios t" by simp
  have rw: "ready ch ?w" by (rule depends [OF r]) (simp add: same_output_def upd_tty_def)
  show ?thesis
  proof (cases "input_nl t c")
    case None
    then have "copy_char wr f ch w = Inr ?w"
      using q(1) flags_termios(7) [OF tm] by (simp add: copy_char_def t)
    moreover have "discipline t c ?s = ?s" using None by (simp add: discipline_def)
    ultimately show ?thesis using rw q(2,3) wf(2) tw by auto
  next
    case (Some d)
    let ?d = "if I_UCLC t then lower d else d"
    have d: "uint d < 128" "uint ?d < 128"
      using input_nl_ascii [OF c Some] lower_ascii by auto
    have "copy_char wr f ch w = cook_char wr f ch ?d ?w"
      using q(1) Some flags_termios(7) [OF tm, of c] flags_termios(2) [OF tm] tolower_ascii [OF d(1)]
      by (simp add: copy_char_def t)
    moreover have "q_wf (secondary (tty_table ?w ch))" "\<not> FULL (secondary (tty_table ?w ch))"
      "q_list (secondary (tty_table ?w ch)) = ?s"
      using wf(2) room tw by simp_all
    moreover note cook_char_line [OF rw this(1,2) d(2) f refl this(3) [symmetric], unfolded flags_termios [OF tm]]
    ultimately obtain w' where w': "copy_char wr f ch w = Inr w'" "ready ch w'"
      "line_effect (tty_table ?w ch) (tty_table w' ch) (discipline t c ?s)"
      using Some by (auto simp: discipline_def Let_def)
    then show ?thesis using q(2,3) by (auto simp: line_effect_def tw)
  qed
qed

lemma cooked_loop_line:
  "ready ch w \<Longrightarrow> q_wf (read_q (tty_table w ch)) \<Longrightarrow> q_wf (secondary (tty_table w ch)) \<Longrightarrow>
   q_list (read_q (tty_table w ch)) = cs \<Longrightarrow> \<forall>c \<in> set cs. uint c < 128 \<Longrightarrow>
   length (q_list (secondary (tty_table w ch))) + length cs < TTY_BUF_SIZE \<Longrightarrow>
   TTY_BUF_SIZE \<le> f \<Longrightarrow> length cs < n \<Longrightarrow>
   \<exists>w' t'. cooked_loop wr f n ch w = Inr w' \<and> ready ch w' \<and> t' = tty_table w' ch \<and>
     q_list (read_q t') = [] \<and> tty_termios t' = tty_termios (tty_table w ch) \<and>
     q_list (secondary t') = fold (discipline (tty_table w ch)) cs (q_list (secondary (tty_table w ch)))"
proof (induction cs arbitrary: w n)
  case Nil
  then obtain m where n: "n = Suc m" by (cases n) auto
  have "EMPTY (read_q (tty_table w ch))" using ring.empty_contents [OF Nil.prems(2)] Nil.prems(4) by simp
  then show ?case using Nil.prems n by simp
next
  case (Cons c cs)
  let ?t = "tty_table w ch"
  obtain m where n: "n = Suc m" "length cs < m" using Cons.prems(8) by (cases n) auto
  have ne: "\<not> EMPTY (read_q ?t)" using ring.empty_contents [OF Cons.prems(2)] Cons.prems(4) by simp
  have nf: "\<not> FULL (secondary ?t)"
    using Cons.prems(6) FULL_iff [OF Cons.prems(3)] by simp
  obtain w1 where w1: "copy_char wr f ch w = Inr w1" "ready ch w1"
    "q_wf (read_q (tty_table w1 ch))" "q_list (read_q (tty_table w1 ch)) = cs"
    "tty_termios (tty_table w1 ch) = tty_termios ?t" "q_wf (secondary (tty_table w1 ch))"
    "q_list (secondary (tty_table w1 ch)) = discipline ?t c (q_list (secondary ?t))"
    using copy_char_line [OF Cons.prems(1) refl Cons.prems(2,3,4) _ nf Cons.prems(7)] Cons.prems(5) by auto
  have "length (q_list (secondary (tty_table w1 ch))) + length cs < TTY_BUF_SIZE"
    using Cons.prems(6) length_discipline [of ?t c "q_list (secondary ?t)"] unfolding w1(7) list.size by linarith
  moreover have "\<forall>c \<in> set cs. uint c < 128" using Cons.prems(5) by simp
  ultimately obtain w2 where w2: "cooked_loop wr f m ch w1 = Inr w2" "ready ch w2" "q_list (read_q (tty_table w2 ch)) = []"
    "tty_termios (tty_table w2 ch) = tty_termios (tty_table w1 ch)"
    "q_list (secondary (tty_table w2 ch)) =
       fold (discipline (tty_table w1 ch)) cs (q_list (secondary (tty_table w1 ch)))"
    using Cons.IH [OF w1(2,3,6,4) _ _ Cons.prems(7) n(2)] by blast
  have "discipline (tty_table w1 ch) = discipline ?t"
    using flags_termios(8) [OF w1(5)] by (intro ext) blast
  then show ?case using w1(1,5,7) w2 n(1) ne nf by simp
qed

end

section \<open>The serial driver\<close>

definition serial_ready :: "nat \<Rightarrow> ttyw \<Rightarrow> bool" where
  "serial_ready ch w \<longleftrightarrow> tty_write_fn (tty_table w ch) = rs_write_fn"

interpretation serial: line_driver "tty_driver_write (Suc f)" serial_ready for f
  by unfold_locales
    (auto simp: serial_ready_def rs_write_def Let_def same_line_def put_write_def upd_tty_def same_output_def)

section \<open>The console driver\<close>

text \<open>
  Without an escape character in its queue, and not in the middle of an escape sequence, the
  console has nothing to answer.
\<close>

lemma con_state_simps [simp]:
  "c_state (con_outb v p k) = c_state k" "c_state (gotoxy nx ny k) = c_state k"
  "c_state (set_origin k) = c_state k" "c_state (set_cursor k) = c_state k"
  "c_state (move_up cnt a b k) = c_state k" "c_state (move_down cnt a b k) = c_state k"
  by (simp_all add: con_outb_def gotoxy_def set_origin_def set_cursor_def move_up_def move_down_def)

lemma con_state_scroll [simp]:
  "c_state (scrup k) = c_state k" "c_state (scrdown k) = c_state k"
  by (simp_all add: scrup_def scrdown_def scroll_region_def Let_def)

lemma con_state_ops [simp]:
  "c_state (lf k) = c_state k" "c_state (cr k) = c_state k" "c_state (del_char k) = c_state k"
  "c_state (sysbeep k) = c_state k" "c_state (erase_cells n a k) = c_state k"
  "c_state (csi_J p k) = c_state k" "c_state (csi_K p k) = c_state k"
  "c_state (insert_char k) = c_state k" "c_state (delete_char k) = c_state k"
  "c_state (insert_line k) = c_state k" "c_state (delete_line k) = c_state k"
  "c_state (save_cur k) = c_state k" "c_state (restore_cur k) = c_state k"
  "c_state (par_dec i k) = c_state k" "c_state (par_one i k) = c_state k" "c_state (set_par i v k) = c_state k"
  "c_state (wrap_line k) = c_state k"
  by (simp_all add: lf_def cr_def del_char_def sysbeep_def erase_cells_def csi_J_def csi_K_def
      insert_char_def delete_char_def insert_line_def delete_line_def save_cur_def restore_cur_def
      par_dec_def par_one_def set_par_def wrap_line_def)

lemma funpow_state: "(\<And>k. c_state ((g :: con \<Rightarrow> con) k) = c_state k) \<Longrightarrow> c_state ((g ^^ n) k) = c_state k"
  by (induction n) simp_all

lemma fold_state: "(\<And>i k. c_state (g i k) = c_state k) \<Longrightarrow> c_state (fold g is k) = c_state k"
  by (induction "is" arbitrary: k) simp_all

lemma con_state_csi [simp]: "c_state (con_csi c k) = c_state k"
proof -
  have "c_state (csi_at n k) = c_state k" "c_state (csi_L n k) = c_state k" "c_state (csi_P n k) = c_state k"
    "c_state (csi_M n k) = c_state k" "c_state (csi_m k) = c_state k" for n k
    by (simp_all add: csi_at_def csi_L_def csi_P_def csi_M_def csi_m_def funpow_state fold_state)
  then show ?thesis by (simp add: con_csi_def Let_def)
qed

lemma con_char_quiet:
  assumes "c_state k \<noteq> 1" and "c \<noteq> 27"
  shows "\<not> fst (con_char e c k)" "c_state (snd (con_char e c k)) \<noteq> 1"
  using assms by (auto simp: con_char_def Let_def con_params_def con_plain_def)

definition console_ready :: "nat \<Rightarrow> ttyw \<Rightarrow> bool" where
  "console_ready ch w \<longleftrightarrow>
     tty_write_fn (tty_table w ch) = con_write_fn \<and> q_wf (write_q (tty_table w ch)) \<and>
     27 \<notin> set (q_list (write_q (tty_table w ch))) \<and> c_state (w_con w) \<noteq> 1"

lemma con_write_loop_quiet:
  "console_ready ch w \<Longrightarrow> n \<le> length (q_list (write_q (tty_table w ch))) \<Longrightarrow>
   \<exists>w'. con_write_loop resp n ch w = Inr w' \<and> console_ready ch w' \<and>
     same_line (tty_table w ch) (tty_table w' ch)"
proof (induction n arbitrary: w)
  case (Suc n)
  let ?t = "tty_table w ch"
  obtain c cs where cs: "q_list (write_q ?t) = c # cs" using Suc.prems(2) by (cases "q_list (write_q ?t)") auto
  have wf: "q_wf (write_q ?t)" using Suc.prems(1) by (simp add: console_ready_def)
  obtain q where q: "GETCH (write_q ?t) = (c, q)" "q_list q = cs" "q_wf q"
    using ring.get_contents [OF wf cs] by blast
  let ?k = "snd (con_char (c_cc (tty_termios ?t) ! VERASE) c (w_con w))"
  let ?w = "(upd_tty ch (write_q_update (\<lambda>_. q)) w)\<lparr>w_con := ?k\<rparr>"
  have c: "c \<noteq> 27" "c_state (w_con w) \<noteq> 1" using Suc.prems(1) cs by (auto simp: console_ready_def)
  note quiet = con_char_quiet [OF c(2,1), of "c_cc (tty_termios ?t) ! VERASE"]
  have "console_ready ch ?w"
    using Suc.prems(1) cs q quiet by (simp add: console_ready_def upd_tty_def)
  moreover have "n \<le> length (q_list (write_q (tty_table ?w ch)))"
    using Suc.prems(2) cs q by (simp add: upd_tty_def del: length_q_list)
  ultimately obtain w' where "con_write_loop resp n ch ?w = Inr w'" "console_ready ch w'"
    "same_line (tty_table ?w ch) (tty_table w' ch)"
    using Suc.IH by blast
  moreover have "con_write_loop resp (Suc n) ch w = con_write_loop resp n ch ?w"
    using q(1) quiet(1)
    by (cases "con_char (c_cc (tty_termios ?t) ! VERASE) c (w_con w)") (simp add: upd_tty_def Let_def)
  ultimately show ?case by (auto simp: same_line_def upd_tty_def)
qed (simp add: same_line_def)

lemma put_list_subset: "q_wf q \<Longrightarrow> set (q_list (PUTCH b q)) \<subseteq> insert b (set (q_list q))"
  using ring.put_contents [of q b] q_len_PUTCH_full [of q b] by (cases "FULL q") auto

interpretation console: line_driver "tty_driver_write (Suc f)" console_ready for f
proof unfold_locales
  fix ch w w' and b :: u8
  assume r: "console_ready ch w"
  have "unat (CHARS (write_q (tty_table w ch))) \<le> length (q_list (write_q (tty_table w ch)))"
    using r unat_CHARS by (simp add: console_ready_def)
  from con_write_loop_quiet [OF r this] r
  show "\<exists>w'. tty_driver_write (Suc f) ch w = Inr w' \<and> same_line (tty_table w ch) (tty_table w' ch) \<and>
      console_ready ch w'"
    by (fastforce simp: con_write_with_def console_ready_def)
  show "console_ready ch (put_write ch b w)" if "b \<noteq> 27"
    using r that PUTCH_wf put_list_subset [of "write_q (tty_table w ch)" b]
    by (auto simp: console_ready_def put_write_def upd_tty_def)
  show "console_ready ch w'" if "same_output ch w w'"
    using r that by (simp add: console_ready_def same_output_def)
qed

section \<open>copy_to_cooked\<close>

lemma wake_secondary_line [simp]:
  "read_q (tty_table (wake_secondary ch w) ch) = read_q (tty_table w ch)"
  "q_list (secondary (tty_table (wake_secondary ch w) ch)) = q_list (secondary (tty_table w ch))"
  by (simp_all add: wake_secondary_def wake_up_def upd_tty_def)

text \<open>
  C39: \<open>copy_to_cooked\<close> applies the line discipline to the bytes of the read queue in their order
  and leaves that queue empty: translation of carriage returns and newlines, lower case, erasing
  a character, killing the line back to its start (never past a newline or end-of-file), the
  characters that stop, start and interrupt.  For seven-bit input that fits, on a serial line,
  and on the console outside escape sequences; a depth of 1024 calls and loop rounds is enough.
\<close>

theorem copy_to_cooked_refines:
  assumes driver: "serial_ready ch w \<or> console_ready ch w"
    and wf: "q_wf (read_q (tty_table w ch))" "q_wf (secondary (tty_table w ch))"
    and ascii: "\<forall>c \<in> set (q_list (read_q (tty_table w ch))). uint c < 128"
    and room: "length (q_list (secondary (tty_table w ch))) + length (q_list (read_q (tty_table w ch))) < TTY_BUF_SIZE"
    and f: "TTY_BUF_SIZE \<le> f"
  shows "\<exists>w'. copy_to_cooked f ch w = Inr w' \<and> q_list (read_q (tty_table w' ch)) = [] \<and>
    q_list (secondary (tty_table w' ch)) =
      fold (discipline (tty_table w ch)) (q_list (read_q (tty_table w ch))) (q_list (secondary (tty_table w ch)))"
proof -
  obtain g where g: "f = Suc g" using f by (cases f) auto
  have n: "length (q_list (read_q (tty_table w ch))) < f"
    using f q_len_less [of "read_q (tty_table w ch)"] by simp
  have "\<exists>w'. cooked_loop (tty_driver_write (Suc g)) f f ch w = Inr w' \<and> q_list (read_q (tty_table w' ch)) = [] \<and>
    q_list (secondary (tty_table w' ch)) =
      fold (discipline (tty_table w ch)) (q_list (read_q (tty_table w ch))) (q_list (secondary (tty_table w ch)))"
    using driver serial.cooked_loop_line [OF _ wf refl ascii room f n, of g]
      console.cooked_loop_line [OF _ wf refl ascii room f n, of g] by blast
  then show ?thesis
    by (auto simp: copy_to_cooked_def copy_to_cooked_with_def g)
qed

definition demo_line :: ttyw where
  "demo_line = \<lparr>tty_table = init_tty(0 := (init_tty 0)\<lparr>read_q := PUTCH 127 (PUTCH 66 (PUTCH 65 (empty_queue 0)))\<rparr>),
     w_con = demo_con, w_sched = demo_sched, w_fs = (\<lambda>_. 0), cr_flag = False\<rparr>"

lemma demo_line_queues:
  "console_ready 0 demo_line" "q_wf (read_q (tty_table demo_line 0))" "q_wf (secondary (tty_table demo_line 0))"
  "q_list (read_q (tty_table demo_line 0)) = [65, 66, 127]" "q_list (secondary (tty_table demo_line 0)) = []"
proof -
  have e: "q_wf (empty_queue 0)" "q_list (empty_queue 0) = []" by (rule empty_queue_wf)+
  have "q_list (PUTCH 65 (empty_queue 0)) = [65]" "q_wf (PUTCH 65 (empty_queue 0))"
    using q_list_PUTCH [OF e(1)] PUTCH_wf [OF e(1)] length_q_list [of "empty_queue 0"] e(2) by simp_all
  then have 2: "q_list (PUTCH 66 (PUTCH 65 (empty_queue 0))) = [65, 66]" "q_wf (PUTCH 66 (PUTCH 65 (empty_queue 0)))"
    using q_list_PUTCH [of "PUTCH 65 (empty_queue 0)" 66] PUTCH_wf length_q_list [of "PUTCH 65 (empty_queue 0)"] by simp_all
  have 3: "q_list (PUTCH 127 (PUTCH 66 (PUTCH 65 (empty_queue 0)))) = [65, 66, 127]"
    using 2 q_list_PUTCH [OF 2(2), of 127] length_q_list [of "PUTCH 66 (PUTCH 65 (empty_queue 0))"] by simp
  show "q_list (read_q (tty_table demo_line 0)) = [65, 66, 127]" "q_wf (read_q (tty_table demo_line 0))"
    using 3 PUTCH_wf [OF 2(2)] by (simp_all add: demo_line_def)
  show "q_wf (secondary (tty_table demo_line 0))" "q_list (secondary (tty_table demo_line 0)) = []"
    "console_ready 0 demo_line"
    using e demo_con_lines by (simp_all add: demo_line_def init_tty_def console_ready_def)
qed

lemma demo_discipline: "fold (discipline (tty_table demo_line 0)) [65, 66, 127] [] = [65]"
  by (simp add: demo_line_def init_tty_def discipline_def input_nl_def L_FLAG_def I_FLAG_def is_cc_def
      INIT_C_CC_def erase_last_def ends_line_def)

theorem copy_to_cooked_refines_witness:
  "\<exists>w'. copy_to_cooked 1024 0 demo_line = Inr w' \<and> q_list (secondary (tty_table w' 0)) = [65]"
  using copy_to_cooked_refines [of 0 demo_line 1024] demo_line_queues demo_discipline
  by (auto simp del: length_q_list)

end
