(* ===== verification/Tty_Ioctl.thy ===== *)
theory Tty_Ioctl
  imports Tty
begin

text \<open>
  Terminal control, \<open>kernel/chr_drv/tty_ioctl.c\<close>.  The structures that pass between the kernel and
  the caller are copied byte by byte, so \<open>struct termios\<close> and \<open>struct termio\<close> have their layout
  in memory here: little endian, padded to a multiple of their alignment.  \<open>verify_area\<close>
  (\<open>kernel/fork.c\<close>) makes the pages of an area writable; it is a parameter, as it works on the
  page tables.
\<close>

section \<open>The layout of the structures\<close>

definition long_bytes :: "u32 \<Rightarrow> u8 list" where
  "long_bytes v = [ucast v, ucast (drop_bit 8 v), ucast (drop_bit 16 v), ucast (drop_bit 24 v)]"

definition bytes_long :: "u8 list \<Rightarrow> u32" where
  "bytes_long bs =
     ucast (bs ! 0) OR push_bit 8 (ucast (bs ! 1)) OR push_bit 16 (ucast (bs ! 2)) OR push_bit 24 (ucast (bs ! 3))"

definition short_bytes :: "u16 \<Rightarrow> u8 list" where
  "short_bytes v = [ucast v, ucast (drop_bit 8 v)]"

definition bytes_short :: "u8 list \<Rightarrow> u16" where
  "bytes_short bs = ucast (bs ! 0) OR push_bit 8 (ucast (bs ! 1))"

definition termios_bytes :: "termios \<Rightarrow> u8 list" where
  "termios_bytes t =
     long_bytes (c_iflag t) @ long_bytes (c_oflag t) @ long_bytes (c_cflag t) @ long_bytes (c_lflag t) @
     [c_line t] @ c_cc t @ c_pad t"

definition bytes_termios :: "u8 list \<Rightarrow> termios" where
  "bytes_termios bs =
     \<lparr>c_iflag = bytes_long (take 4 bs), c_oflag = bytes_long (take 4 (drop 4 bs)),
      c_cflag = bytes_long (take 4 (drop 8 bs)), c_lflag = bytes_long (take 4 (drop 12 bs)),
      c_line = bs ! 16, c_cc = take 17 (drop 17 bs), c_pad = drop 34 bs\<rparr>"

abbreviation (input) sizeof_termios :: nat where "sizeof_termios \<equiv> 36"
abbreviation (input) sizeof_termio :: nat where "sizeof_termio \<equiv> 18"

section \<open>tty_ioctl.c\<close>

definition quotient :: "u16 list" where
  "quotient = [0, 2304, 1536, 1047, 857, 768, 576, 384, 192, 96, 64, 48, 24, 12, 6, 3]"

definition change_speed :: "nat \<Rightarrow> ttyw \<Rightarrow> ttyw" where
  "change_speed ch w =
     (let t = tty_table w ch;
          port = unat (ucast (q_data (read_q t)) :: u16);
          quot = quotient ! unat (c_cflag (tty_termios t) AND 0xf)
      in if port = 0 then w
         else w\<lparr>w_sched :=
                outb 0x03 (port + 3) (outb (ucast (drop_bit 8 quot)) (port + 1)
                  (outb (ucast (quot AND 0xff)) port (outb 0x80 (port + 3) (w_sched w))))\<rparr>)"

definition flush :: "tty_queue \<Rightarrow> tty_queue" where
  "flush q = q\<lparr>q_head := q_tail q\<rparr>"

definition get_termios :: "(u32 \<Rightarrow> nat \<Rightarrow> ttyw \<Rightarrow> ttyw) \<Rightarrow> nat \<Rightarrow> u32 \<Rightarrow> ttyw \<Rightarrow> int \<times> ttyw" where
  "get_termios verify ch p w =
     (let w = verify p sizeof_termios w
      in (0, w\<lparr>w_fs := put_fs_bytes (termios_bytes (tty_termios (tty_table w ch))) p (w_fs w)\<rparr>))"

definition set_termios :: "nat \<Rightarrow> u32 \<Rightarrow> ttyw \<Rightarrow> int \<times> ttyw" where
  "set_termios ch p w =
     (0, change_speed ch
           (upd_tty ch (tty_termios_update (\<lambda>_. bytes_termios (get_fs_bytes sizeof_termios p (w_fs w)))) w))"

text \<open>The padding byte of the local \<open>tmp_termio\<close> is not initialised: it is an argument.\<close>

definition get_termio :: "u8 \<Rightarrow> (u32 \<Rightarrow> nat \<Rightarrow> ttyw \<Rightarrow> ttyw) \<Rightarrow> nat \<Rightarrow> u32 \<Rightarrow> ttyw \<Rightarrow> int \<times> ttyw" where
  "get_termio pad verify ch p w =
     (let w = verify p sizeof_termio w;
          t = tty_termios (tty_table w ch)
      in (0, w\<lparr>w_fs := put_fs_bytes
               (short_bytes (ucast (c_iflag t)) @ short_bytes (ucast (c_oflag t)) @
                short_bytes (ucast (c_cflag t)) @ short_bytes (ucast (c_lflag t)) @
                [c_line t] @ take 8 (c_cc t) @ [pad]) p (w_fs w)\<rparr>))"

definition set_low :: "u16 \<Rightarrow> u32 \<Rightarrow> u32" where
  "set_low v w = (w AND 0xffff0000) OR ucast v"

definition set_termio :: "nat \<Rightarrow> u32 \<Rightarrow> ttyw \<Rightarrow> int \<times> ttyw" where
  "set_termio ch p w =
     (let bs = get_fs_bytes sizeof_termio p (w_fs w);
          f = (\<lambda>t. t\<lparr>c_iflag := set_low (bytes_short (take 2 bs)) (c_iflag t),
                     c_oflag := set_low (bytes_short (take 2 (drop 2 bs))) (c_oflag t),
                     c_cflag := set_low (bytes_short (take 2 (drop 4 bs))) (c_cflag t),
                     c_lflag := set_low (bytes_short (take 2 (drop 6 bs))) (c_lflag t),
                     c_line := bs ! 8,
                     c_cc := take 8 (drop 9 bs) @ drop 8 (c_cc t)\<rparr>)
      in (0, change_speed ch (upd_tty ch (tty_termios_update f) w)))"

definition tty_ioctl ::
  "u8 \<Rightarrow> (u32 \<Rightarrow> nat \<Rightarrow> ttyw \<Rightarrow> ttyw) \<Rightarrow> u32 \<Rightarrow> u32 \<Rightarrow> u32 \<Rightarrow> ttyw \<Rightarrow> (int \<times> ttyw) kres" where
  "tty_ioctl pad verify dev cmd arg w =
     bindE (if drop_bit 8 dev = 5
            then case cur (w_sched w) of
                   None \<Rightarrow> Inl Fault
                 | Some c \<Rightarrow> if t_tty c < 0 then Inl (Panic ''tty_ioctl: dev<0'') else Inr (nat (t_tty c))
            else Inr (unat (dev AND 0xff)))
       (\<lambda>ch.
          if ch > 2 then Inl Fault
          else
            let rq = upd_tty ch (read_q_update flush); wq = upd_tty ch (write_q_update flush)
            in Inr (
              if cmd = 0x5401 then get_termios verify ch arg w
              else if cmd = 0x5404 then set_termios ch arg (rq w)
              else if cmd = 0x5403 \<or> cmd = 0x5402 then set_termios ch arg w
              else if cmd = 0x5405 then get_termio pad verify ch arg w
              else if cmd = 0x5408 then set_termio ch arg (rq w)
              else if cmd = 0x5407 \<or> cmd = 0x5406 then set_termio ch arg w
              else if cmd = 0x5409 then (0, w)
              else if cmd = 0x540B then
                if arg = 0 then (0, rq w) else if arg = 1 then (0, wq w)
                else if arg = 2 then (0, wq (rq w)) else (- EINVAL, w)
              else if cmd = 0x540F then
                let w = verify arg 4 w
                in (0, w\<lparr>w_fs := put_fs_long (of_int (tty_pgrp (tty_table w ch))) arg (w_fs w)\<rparr>)
              else if cmd = 0x5410 then
                (0, upd_tty ch (tty_pgrp_update (\<lambda>_. sint (get_fs_long arg (w_fs w)))) w)
              else if cmd = 0x5411 then
                let w = verify arg 4 w
                in (0, w\<lparr>w_fs := put_fs_long (CHARS (write_q (tty_table w ch))) arg (w_fs w)\<rparr>)
              else if cmd = 0x541B then
                let w = verify arg 4 w
                in (0, w\<lparr>w_fs := put_fs_long (CHARS (secondary (tty_table w ch))) arg (w_fs w)\<rparr>)
              else (- EINVAL, w)))"

section \<open>What is set can be read back\<close>

lemma long_bytes_roundtrip: "length bs = 4 \<Longrightarrow> long_bytes (bytes_long bs) = bs"
proof -
  assume "length bs = 4"
  then obtain a b c d where "bs = [a, b, c, d]"
    by (auto simp: length_Suc_conv numeral_eq_Suc)
  moreover have "ucast (ucast a OR push_bit 8 (ucast b) OR push_bit 16 (ucast c) OR push_bit 24 (ucast d) :: u32) = a"
    "ucast (drop_bit 8 (ucast a OR push_bit 8 (ucast b) OR push_bit 16 (ucast c) OR push_bit 24 (ucast d) :: u32)) = b"
    "ucast (drop_bit 16 (ucast a OR push_bit 8 (ucast b) OR push_bit 16 (ucast c) OR push_bit 24 (ucast d) :: u32)) = c"
    "ucast (drop_bit 24 (ucast a OR push_bit 8 (ucast b) OR push_bit 16 (ucast c) OR push_bit 24 (ucast d) :: u32)) = d"
    by (rule bit_word_eqI; auto simp: bit_simps dest: bit_imp_le_length)+
  ultimately show ?thesis by (simp add: long_bytes_def bytes_long_def)
qed

lemma termios_bytes_roundtrip:
  assumes "length bs = 36"
  shows "termios_bytes (bytes_termios bs) = bs"
proof -
  have l: "length (take 4 bs) = 4" "length (take 4 (drop 4 bs)) = 4" "length (take 4 (drop 8 bs)) = 4"
    "length (take 4 (drop 12 bs)) = 4"
    using assms by simp_all
  have "[bs ! 16] @ take 17 (drop 17 bs) @ drop 34 bs = drop 16 bs"
    using assms append_take_drop_id [of 17 "drop 17 bs"] Cons_nth_drop_Suc [of 16 bs] by simp
  then have "termios_bytes (bytes_termios bs) =
      take 4 bs @ take 4 (drop 4 bs) @ take 4 (drop 8 bs) @ take 4 (drop 12 bs) @ drop 16 bs"
    by (simp add: termios_bytes_def bytes_termios_def long_bytes_roundtrip [OF l(1)]
        long_bytes_roundtrip [OF l(2)] long_bytes_roundtrip [OF l(3)] long_bytes_roundtrip [OF l(4)])
  also have "\<dots> = bs"
    using append_take_drop_id [of 4 "drop 12 bs"] append_take_drop_id [of 4 "drop 8 bs"]
      append_take_drop_id [of 4 "drop 4 bs"] append_take_drop_id [of 4 bs] by simp
  finally show ?thesis .
qed

lemma change_speed_table [simp]: "tty_table (change_speed ch w) = tty_table w"
  by (simp add: change_speed_def Let_def)

lemma length_termios_bytes: "length (c_cc t) = 17 \<Longrightarrow> length (c_pad t) = 2 \<Longrightarrow> length (termios_bytes t) = 36"
  by (simp add: termios_bytes_def long_bytes_def)

text \<open>
  the terminal settings are kept bit for bit: after \<open>TCSETS\<close> from one address, \<open>TCGETS\<close> to any
  address delivers the 36 bytes that were there, provided that making the area writable does not
  touch the terminals.
\<close>

theorem tcsets_tcgets_roundtrip:
  assumes dev: "drop_bit 8 dev \<noteq> 5" "unat (dev AND 0xff) \<le> 2"
    and verify: "\<And>p n w. tty_table (verify p n w) = tty_table w"
  shows "\<exists>w' w''. tty_ioctl pad verify dev 0x5402 p w = Inr (0, w') \<and>
    tty_ioctl pad verify dev 0x5401 q w' = Inr (0, w'') \<and>
    get_fs_bytes 36 q (w_fs w'') = get_fs_bytes 36 p (w_fs w)"
proof -
  let ?bs = "get_fs_bytes 36 p (w_fs w)" and ?ch = "unat (dev AND 0xff)"
  let ?w = "snd (set_termios ?ch p w)"
  have t: "tty_termios (tty_table ?w ?ch) = bytes_termios ?bs"
    by (simp add: set_termios_def upd_tty_def)
  have b: "termios_bytes (bytes_termios ?bs) = ?bs" by (rule termios_bytes_roundtrip) simp
  have "get_fs_bytes 36 q (put_fs_bytes ?bs q fs) = ?bs" for fs
    using get_put_fs_bytes [of ?bs q] by simp
  then show ?thesis
    using dev by (simp add: tty_ioctl_def Let_def get_termios_def verify t b)
      (simp add: set_termios_def upd_tty_def b)
qed

definition demo_ttyw :: ttyw where
  "demo_ttyw = \<lparr>tty_table = init_tty, w_con = demo_con, w_sched = demo_sched, w_fs = (\<lambda>a. ucast a), cr_flag = False\<rparr>"

theorem tcsets_tcgets_roundtrip_witness:
  "\<exists>w' w''. tty_ioctl 0 (\<lambda>p n w. w) 0x401 0x5402 100 demo_ttyw = Inr (0, w') \<and>
    tty_ioctl 0 (\<lambda>p n w. w) 0x401 0x5401 200 w' = Inr (0, w'') \<and>
    get_fs_bytes 36 200 (w_fs w'') = get_fs_bytes 36 100 (w_fs demo_ttyw)"
  by (rule tcsets_tcgets_roundtrip) simp_all

end
