(* ===== verification/Sem.thy ===== *)
theory Sem
  imports Sched
begin

text \<open>
  The semaphores the repository adds to the kernel, \<open>kernel/sem.c\<close>.  A name is the bytes before
  its null byte, \<open>None\<close> a null pointer.  The name in a slot is an array of ten bytes: a comparison
  that does not find its end in the array, and a copy that does not fit, leave it (\<open>Fault\<close>).
  \<open>if_flag\<close> is the interrupt flag: while it is off nothing else runs, so a loop whose condition
  the routine itself does not change goes on for ever.  The value of a variable that is used
  before it is set, and of a function that ends without \<open>return\<close>, is an argument.  \<open>sem_v\<close> is an
  \<open>int\<close>: it wraps at 32 bits.
\<close>

section \<open>kernel/sem.c\<close>

abbreviation (input) MAX_SEM_NUM :: nat where "MAX_SEM_NUM \<equiv> 10"
abbreviation (input) MAX_NAME_LEN :: nat where "MAX_NAME_LEN \<equiv> 10"

record sem_st =
  sem_name :: "u8 list"
  sem_head :: "nat option"
  sem_use :: bool
  sem_v :: int

record semw =
  ksem :: "nat \<Rightarrow> sem_st"
  sem_init :: bool
  if_flag :: bool
  sem_sched :: sched

definition upd_sem :: "nat \<Rightarrow> (sem_st \<Rightarrow> sem_st) \<Rightarrow> semw \<Rightarrow> semw" where
  "upd_sem i f w = w\<lparr>ksem := (ksem w)(i := f (ksem w i))\<rparr>"

definition init_sems :: "semw \<Rightarrow> semw" where
  "init_sems w =
     (if sem_init w then w
      else w\<lparr>ksem := (\<lambda>i. if i < MAX_SEM_NUM
                          then (ksem w i)\<lparr>sem_name := replicate MAX_NAME_LEN 0, sem_use := False, sem_head := None\<rparr>
                          else ksem w i),
             sem_init := True\<rparr>)"

text \<open>\<open>strcmp (ksem[i].name, name) == 0\<close>.\<close>

fun name_is :: "u8 list \<Rightarrow> u8 list \<Rightarrow> bool kres" where
  "name_is [] n = Inl Fault"
| "name_is (a # as) [] = Inr (a = 0)"
| "name_is (a # as) (b # bs) = (if a \<noteq> b then Inr False else name_is as bs)"

text \<open>The search: a slot with the name ends it, the last unused slot is remembered.\<close>

fun find_sem :: "(nat \<Rightarrow> sem_st) \<Rightarrow> u8 list \<Rightarrow> nat list \<Rightarrow> int \<Rightarrow> (nat + int) kres" where
  "find_sem ks n [] unused = Inr (Inr unused)"
| "find_sem ks n (i # is) unused =
     bindE (name_is (sem_name (ks i)) n) (\<lambda>same.
       if same then Inr (Inl i)
       else find_sem ks n is (if \<not> sem_use (ks i) then int i else unused))"

definition sys_sem_open :: "int \<Rightarrow> u8 list option \<Rightarrow> int \<Rightarrow> semw \<Rightarrow> (int \<times> semw) kres" where
  "sys_sem_open garbage name value w =
     (case name of
        None \<Rightarrow> Inr (- 1, w)
      | Some n \<Rightarrow>
          if n = [] \<or> value < 0 then Inr (- 1, w)
          else
            let w = init_sems (w\<lparr>if_flag := False\<rparr>)
            in bindE (find_sem (ksem w) n [0..<MAX_SEM_NUM] garbage) (\<lambda>r.
                 case r of
                   Inl i \<Rightarrow> Inr (int i, w)
                 | Inr unused \<Rightarrow>
                     if unused < 0 \<or> int MAX_SEM_NUM \<le> unused \<or> MAX_NAME_LEN < length n then Inl Fault
                     else
                       let w = upd_sem (nat unused) (\<lambda>s. s\<lparr>sem_name := n @ drop (length n) (sem_name s),
                                 sem_use := True, sem_v := value\<rparr>) w
                       in Inr (int MAX_SEM_NUM, w\<lparr>if_flag := True\<rparr>)))"

text \<open>
  \<open>sleep_on\<close> and \<open>wake_up\<close> take the address of a queue's head, but are given the head itself:
  a null pointer, on which both return at once, or the address of a task, which they would use
  as that of a queue.
\<close>

definition sleep_on_head :: "nat option \<Rightarrow> semw \<Rightarrow> semw kres" where
  "sleep_on_head h w = (case h of None \<Rightarrow> Inr w | Some _ \<Rightarrow> Inl Fault)"

definition wake_up_head :: "nat option \<Rightarrow> semw \<Rightarrow> semw kres" where
  "wake_up_head h w = (case h of None \<Rightarrow> Inr w | Some _ \<Rightarrow> Inl Fault)"

primrec sem_wait_loop :: "nat \<Rightarrow> nat \<Rightarrow> semw \<Rightarrow> semw kres" where
  "sem_wait_loop 0 i w = Inl Hang"
| "sem_wait_loop (Suc f) i w =
     (if sem_v (ksem w i) < 0
      then bindE (sleep_on_head (sem_head (ksem w i)) w) (sem_wait_loop f i)
      else Inr w)"

definition sys_sem_wait :: "nat \<Rightarrow> int \<Rightarrow> int \<Rightarrow> semw \<Rightarrow> (int \<times> semw) kres" where
  "sys_sem_wait f noret sem w =
     (if sem < 0 \<or> int MAX_SEM_NUM \<le> sem then Inr (- 1, w)
      else
        let i = nat sem; w = w\<lparr>if_flag := False\<rparr>
        in if \<not> sem_use (ksem w i) then Inr (- 1, w)
           else bindE (sem_wait_loop f i (upd_sem i (sem_v_update (\<lambda>v. wrap32 (v - 1))) w))
                  (\<lambda>w. Inr (noret, w\<lparr>if_flag := True\<rparr>)))"

primrec sem_post_loop :: "nat \<Rightarrow> nat \<Rightarrow> semw \<Rightarrow> semw kres" where
  "sem_post_loop 0 i w = Inl Hang"
| "sem_post_loop (Suc f) i w =
     (if sem_v (ksem w i) \<le> 0
      then bindE (wake_up_head (sem_head (ksem w i)) w) (sem_post_loop f i)
      else Inr w)"

definition sys_sem_post :: "nat \<Rightarrow> int \<Rightarrow> int \<Rightarrow> semw \<Rightarrow> (int \<times> semw) kres" where
  "sys_sem_post f noret sem w =
     (if sem < 0 \<or> int MAX_SEM_NUM \<le> sem then Inr (- 1, w)
      else
        let i = nat sem; w = w\<lparr>if_flag := False\<rparr>
        in if \<not> sem_use (ksem w i) then Inr (- 1, w)
           else bindE (sem_post_loop f i (upd_sem i (sem_v_update (\<lambda>v. wrap32 (v + 1))) w))
                  (\<lambda>w. Inr (noret, w\<lparr>if_flag := True\<rparr>)))"

definition sys_sem_unlink :: "int \<Rightarrow> semw \<Rightarrow> int \<times> semw" where
  "sys_sem_unlink sem w = (0, w)"

section \<open>The invariant\<close>

text \<open>
  No slot ever has a queue and the names are ten bytes long; a slot that is not in use has an
  empty name once the table is set up.  Before that, no slot is in use.
\<close>

definition sem_ok :: "semw \<Rightarrow> bool" where
  "sem_ok w \<longleftrightarrow>
     (\<forall>i < MAX_SEM_NUM. sem_head (ksem w i) = None \<and> length (sem_name (ksem w i)) = MAX_NAME_LEN \<and>
        (\<not> sem_use (ksem w i) \<longrightarrow> sem_init w \<longrightarrow> sem_name (ksem w i) = replicate MAX_NAME_LEN 0))"

lemma init_sems_ok: "sem_ok w \<Longrightarrow> sem_ok (init_sems w)" "sem_init (init_sems w)"
  by (auto simp: sem_ok_def init_sems_def)

lemma init_sems_done: "sem_init w \<Longrightarrow> init_sems w = w"
  by (simp add: init_sems_def)

lemma if_flag_simps [simp]:
  "sem_ok (w\<lparr>if_flag := b\<rparr>) = sem_ok w" "init_sems (w\<lparr>if_flag := b\<rparr>) = (init_sems w)\<lparr>if_flag := b\<rparr>"
  by (simp_all add: sem_ok_def init_sems_def cong: if_cong)

lemma sem_wait_loop_keeps: "sem_wait_loop f i w = Inr w' \<Longrightarrow> w' = w"
  by (induction f arbitrary: w) (auto simp: sleep_on_head_def split: if_splits option.splits)

lemma sem_post_loop_keeps: "sem_post_loop f i w = Inr w' \<Longrightarrow> w' = w"
  by (induction f arbitrary: w) (auto simp: wake_up_head_def split: if_splits option.splits)

lemma set_slot_ok:
  "sem_ok w \<Longrightarrow> length n \<le> MAX_NAME_LEN \<Longrightarrow>
   sem_ok (upd_sem j (\<lambda>s. s\<lparr>sem_name := n @ drop (length n) (sem_name s), sem_use := True, sem_v := v\<rparr>) w)"
  by (auto simp: sem_ok_def upd_sem_def)

lemma sem_open_ok:
  assumes ok: "sem_ok w" and r: "sys_sem_open garbage name value w = Inr (r, w')"
  shows "sem_ok w'"
proof (cases "name = None \<or> name = Some [] \<or> value < 0")
  case True
  then show ?thesis using assms by (auto simp: sys_sem_open_def split: option.splits)
next
  case False
  then obtain n where n: "name = Some n" "n \<noteq> []" "\<not> value < 0" by auto
  let ?w = "(init_sems w)\<lparr>if_flag := False\<rparr>"
  have k: "sem_ok ?w" using init_sems_ok(1) [OF ok] by simp
  obtain x where x: "find_sem (ksem ?w) n [0..<MAX_SEM_NUM] garbage = Inr x"
    using r n by (auto simp: sys_sem_open_def Let_def simp del: upt_rec_numeral)
  show ?thesis
  proof (cases x)
    case (Inl i)
    then show ?thesis using r n x k by (auto simp: sys_sem_open_def simp del: upt_rec_numeral)
  next
    case (Inr u)
    then have "length n \<le> MAX_NAME_LEN" and "w' = (upd_sem (nat u) (\<lambda>s. s\<lparr>sem_name := n @ drop (length n) (sem_name s),
        sem_use := True, sem_v := value\<rparr>) ?w)\<lparr>if_flag := True\<rparr>"
      using r n x by (simp_all add: sys_sem_open_def Let_def del: upt_rec_numeral split: if_splits)
    then show ?thesis using set_slot_ok [OF k] by simp
  qed
qed

lemma sem_wait_ok: "sem_ok w \<Longrightarrow> sys_sem_wait f g i w = Inr (r, w') \<Longrightarrow> sem_ok w'"
  by (auto simp: sys_sem_wait_def Let_def upd_sem_def sem_ok_def dest!: sem_wait_loop_keeps split: if_splits)

lemma sem_post_ok: "sem_ok w \<Longrightarrow> sys_sem_post f g i w = Inr (r, w') \<Longrightarrow> sem_ok w'"
  by (auto simp: sys_sem_post_def Let_def upd_sem_def sem_ok_def dest!: sem_post_loop_keeps split: if_splits)

section \<open>Opening\<close>

lemma find_sem_none:
  "\<forall>i \<in> set is. name_is (sem_name (ks i)) n = Inr False \<Longrightarrow>
   \<exists>u'. find_sem ks n is u = Inr (Inr u') \<and>
     ((\<exists>i \<in> set is. \<not> sem_use (ks i)) \<longrightarrow> (\<exists>i \<in> set is. u' = int i \<and> \<not> sem_use (ks i))) \<and>
     ((\<forall>i \<in> set is. sem_use (ks i)) \<longrightarrow> u' = u)"
proof (induction "is" arbitrary: u)
  case (Cons i "is")
  let ?u = "if \<not> sem_use (ks i) then int i else u"
  obtain u' where "find_sem ks n is ?u = Inr (Inr u')"
    "(\<exists>i \<in> set is. \<not> sem_use (ks i)) \<longrightarrow> (\<exists>i \<in> set is. u' = int i \<and> \<not> sem_use (ks i))"
    "(\<forall>i \<in> set is. sem_use (ks i)) \<longrightarrow> u' = ?u"
    using Cons.IH [of ?u] Cons.prems by auto
  then show ?case using Cons.prems by (cases "sem_use (ks i)") auto
qed simp

lemma find_sem_found:
  "\<forall>j \<in> set xs. name_is (sem_name (ks j)) n = Inr False \<Longrightarrow> name_is (sem_name (ks i)) n = Inr True \<Longrightarrow>
   find_sem ks n (xs @ i # ys) u = Inr (Inl i)"
  by (induction xs arbitrary: u) auto

lemma name_is_self: "name_is (n @ 0 # z) n = Inr True"
  by (induction n) simp_all

lemma slots_split: "i < MAX_SEM_NUM \<Longrightarrow> [0..<MAX_SEM_NUM] = [0..<i] @ i # [Suc i..<MAX_SEM_NUM]"
  using upt_add_eq_append [of 0 i "MAX_SEM_NUM - i"] upt_conv_Cons [of i MAX_SEM_NUM]
  by (simp del: upt_rec_numeral)

lemma sem_open_new:
  assumes ok: "sem_ok w" and n: "n \<noteq> []" "length n < MAX_NAME_LEN" "0 \<le> value"
    and fresh: "\<forall>i < MAX_SEM_NUM. name_is (sem_name (ksem (init_sems w) i)) n = Inr False"
    and free: "\<exists>i < MAX_SEM_NUM. \<not> sem_use (ksem (init_sems w) i)"
  obtains i where "i < MAX_SEM_NUM"
    "sys_sem_open garbage (Some n) value w = Inr (10, (upd_sem i (\<lambda>s. s\<lparr>
       sem_name := n @ replicate (MAX_NAME_LEN - length n) 0, sem_use := True, sem_v := value\<rparr>) (init_sems w))\<lparr>if_flag := True\<rparr>)"
proof -
  let ?ks = "ksem (init_sems w)"
  obtain i where i: "i < MAX_SEM_NUM" "\<not> sem_use (?ks i)" "find_sem ?ks n [0..<MAX_SEM_NUM] garbage = Inr (Inr (int i))"
  proof -
    have "\<forall>i \<in> set [0..<MAX_SEM_NUM]. name_is (sem_name (?ks i)) n = Inr False" using fresh by simp
    moreover have "\<exists>i \<in> set [0..<MAX_SEM_NUM]. \<not> sem_use (?ks i)" using free by fastforce
    ultimately obtain i where "i \<in> set [0..<MAX_SEM_NUM]" "\<not> sem_use (?ks i)"
      "find_sem ?ks n [0..<MAX_SEM_NUM] garbage = Inr (Inr (int i))"
      using find_sem_none [of "[0..<MAX_SEM_NUM]" ?ks n garbage] by blast
    then show thesis using that by (simp del: upt_rec_numeral)
  qed
  have "sem_name (?ks i) = replicate MAX_NAME_LEN 0"
    using init_sems_ok(1) [OF ok] init_sems_ok(2) i(1,2) by (auto simp: sem_ok_def)
  then have "upd_sem i (\<lambda>s. s\<lparr>sem_name := n @ drop (length n) (sem_name s), sem_use := True, sem_v := value\<rparr>) (init_sems w) =
      upd_sem i (\<lambda>s. s\<lparr>sem_name := n @ replicate (MAX_NAME_LEN - length n) 0, sem_use := True, sem_v := value\<rparr>) (init_sems w)"
    by (simp add: upd_sem_def)
  then show thesis
    using that [OF i(1)] n i(1,3) by (simp add: sys_sem_open_def Let_def upd_sem_def del: upt_rec_numeral)
qed

text \<open>
  C36: opening a new semaphore fills a free slot with the name and the value but returns 10, the
  number of slots, instead of the slot: waiting and posting on the result fail.  Only a second
  \<open>sem_open\<close> of the same name returns the slot, and it returns with interrupts disabled.
\<close>

theorem sem_open_returns_no_handle:
  assumes ok: "sem_ok w" and n: "n \<noteq> []" "length n < MAX_NAME_LEN" "0 \<le> value"
    and fresh: "\<forall>i < MAX_SEM_NUM. name_is (sem_name (ksem (init_sems w) i)) n = Inr False"
    and free: "\<exists>i < MAX_SEM_NUM. \<not> sem_use (ksem (init_sems w) i)"
  shows "\<exists>i w'. sys_sem_open garbage (Some n) value w = Inr (10, w') \<and> i < MAX_SEM_NUM \<and>
    sem_use (ksem w' i) \<and> sem_v (ksem w' i) = value \<and>
    sys_sem_wait f noret 10 w' = Inr (- 1, w') \<and> sys_sem_post f noret 10 w' = Inr (- 1, w') \<and>
    sys_sem_open garbage (Some n) value' w' = Inr (if value' < 0 then - 1 else int i, w'\<lparr>if_flag := value' < 0\<rparr>)"
proof -
  obtain i where i: "i < MAX_SEM_NUM" and o: "sys_sem_open garbage (Some n) value w = Inr (10, (upd_sem i (\<lambda>s. s\<lparr>
       sem_name := n @ replicate (MAX_NAME_LEN - length n) 0, sem_use := True, sem_v := value\<rparr>) (init_sems w))\<lparr>if_flag := True\<rparr>)"
    using sem_open_new [OF assms] by blast
  let ?w = "(upd_sem i (\<lambda>s. s\<lparr>
       sem_name := n @ replicate (MAX_NAME_LEN - length n) 0, sem_use := True, sem_v := value\<rparr>) (init_sems w))\<lparr>if_flag := True\<rparr>"
  have "init_sems (upd_sem i g (init_sems w)) = upd_sem i g (init_sems w)" for g
    using init_sems_ok(2) by (intro init_sems_done) (simp add: upd_sem_def)
  note init = this
  obtain m where "MAX_NAME_LEN - length n = Suc m" using n(2) by (metis Suc_diff_Suc)
  then have same: "name_is (sem_name (ksem ?w i)) n = Inr True"
    using name_is_self [of n] by (simp add: upd_sem_def)
  have "find_sem (ksem ?w) n [0..<MAX_SEM_NUM] garbage = Inr (Inl i)"
    unfolding slots_split [OF i] using fresh i same
    by (intro find_sem_found) (auto simp: upd_sem_def)
  then have "sys_sem_open garbage (Some n) value' ?w =
      Inr (if value' < 0 then - 1 else int i, ?w\<lparr>if_flag := value' < 0\<rparr>)"
    using n(1) init by (simp add: sys_sem_open_def Let_def del: upt_rec_numeral)
  then show ?thesis
    using o i by (intro exI [of _ i] exI [of _ ?w]) (simp add: sys_sem_wait_def sys_sem_post_def upd_sem_def)
qed

section \<open>Waiting and posting\<close>

lemma sem_loops_hang:
  "sem_head (ksem w i) = None \<Longrightarrow> sem_v (ksem w i) < 0 \<Longrightarrow> sem_wait_loop f i w = Inl Hang"
  "sem_head (ksem w i) = None \<Longrightarrow> sem_v (ksem w i) \<le> 0 \<Longrightarrow> sem_post_loop f i w = Inl Hang"
  by (induction f) (simp_all add: sleep_on_head_def wake_up_head_def)

text \<open>
  C37: when the operations on a semaphore in use return.  Waiting on a positive value takes one
  from it and posting on one from 0 to below the largest \<open>int\<close> adds one.  Every other call never
  returns, whatever bound is put on its loop (with interrupts off it calls \<open>sleep_on\<close> or \<open>wake_up\<close>
  on a null pointer for ever), except one: waiting at the smallest \<open>int\<close> wraps to the largest
  and returns.  Posting at the largest \<open>int\<close> wraps to the smallest, and does not.
\<close>

theorem sem_wait_post_behaviour:
  assumes ok: "sem_ok w" and i: "i < MAX_SEM_NUM" and used: "sem_use (ksem w i)"
    and v: "sem_v (ksem w i) = v" "- 2147483648 \<le> v" "v \<le> 2147483647"
  shows "(if 0 < v \<or> v = - 2147483648
          then sys_sem_wait (Suc f) noret (int i) w =
                 Inr (noret, (upd_sem i (\<lambda>k. k\<lparr>sem_v := if 0 < v then v - 1 else 2147483647\<rparr>) w)\<lparr>if_flag := True\<rparr>)
          else sys_sem_wait f noret (int i) w = Inl Hang) \<and>
         (if 0 \<le> v \<and> v < 2147483647
          then sys_sem_post (Suc f) noret (int i) w =
                 Inr (noret, (upd_sem i (\<lambda>k. k\<lparr>sem_v := v + 1\<rparr>) w)\<lparr>if_flag := True\<rparr>)
          else sys_sem_post f noret (int i) w = Inl Hang)"
proof -
  have h: "sem_head (ksem w i) = None" using ok i by (simp add: sem_ok_def)
  note L = sem_loops_hang [of "upd_sem i g (w\<lparr>if_flag := False\<rparr>)" i for g]
  have ends: "wrap32 (- 2147483649) = 2147483647" "wrap32 2147483648 = - 2147483648" by (simp_all add: wrap32_def)
  then have lo: "wrap32 (v - 1) = (if v = - 2147483648 then 2147483647 else v - 1)"
    and hi: "wrap32 (v + 1) = (if v = 2147483647 then - 2147483648 else v + 1)" using v by auto
  have u: "sem_v_update (\<lambda>v. wrap32 (v - 1)) (ksem w i) = (ksem w i)\<lparr>sem_v := wrap32 (v - 1)\<rparr>"
    "sem_v_update (\<lambda>v. wrap32 (v + 1)) (ksem w i) = (ksem w i)\<lparr>sem_v := wrap32 (v + 1)\<rparr>"
    using v(1) by (cases "ksem w i", simp)+
  have "if 0 < v \<or> v = - 2147483648
          then sys_sem_wait (Suc f) noret (int i) w =
                 Inr (noret, (upd_sem i (\<lambda>k. k\<lparr>sem_v := if 0 < v then v - 1 else 2147483647\<rparr>) w)\<lparr>if_flag := True\<rparr>)
          else sys_sem_wait f noret (int i) w = Inl Hang"
    using h i used v L by (auto simp: sys_sem_wait_def upd_sem_def lo u ends)
  moreover have "if 0 \<le> v \<and> v < 2147483647
          then sys_sem_post (Suc f) noret (int i) w =
                 Inr (noret, (upd_sem i (\<lambda>k. k\<lparr>sem_v := v + 1\<rparr>) w)\<lparr>if_flag := True\<rparr>)
          else sys_sem_post f noret (int i) w = Inl Hang"
    using h i used v L by (auto simp: sys_sem_post_def upd_sem_def hi u ends)
  ultimately show ?thesis by blast
qed

definition demo_sem :: semw where
  "demo_sem = \<lparr>ksem = (\<lambda>_. \<lparr>sem_name = replicate 10 0, sem_head = None, sem_use = False, sem_v = 0\<rparr>),
     sem_init = False, if_flag = True, sem_sched = demo_sched\<rparr>"

theorem sem_open_returns_no_handle_witness:
  "\<exists>w'. sys_sem_open 0 (Some [65]) 1 demo_sem = Inr (10, w') \<and> sys_sem_wait 5 0 10 w' = Inr (- 1, w')"
proof -
  have "sem_ok demo_sem" by (simp add: sem_ok_def demo_sem_def)
  moreover have "\<forall>i < MAX_SEM_NUM. name_is (sem_name (ksem (init_sems demo_sem) i)) [65] = Inr False"
    and free: "\<not> sem_use (ksem (init_sems demo_sem) 0)"
    using replicate_Suc [of 9 "0 :: u8"] by (simp_all add: init_sems_def demo_sem_def)
  moreover have "\<exists>i < MAX_SEM_NUM. \<not> sem_use (ksem (init_sems demo_sem) i)"
    by (rule exI [of _ 0]) (simp add: free)
  ultimately show ?thesis
    using sem_open_returns_no_handle [of demo_sem "[65]" 1 0 5 0 0] by auto
qed

theorem sem_wait_post_behaviour_witness:
  "sys_sem_wait 1000 0 3 (demo_sem\<lparr>ksem := (\<lambda>_. \<lparr>sem_name = replicate 10 65, sem_head = None, sem_use = True, sem_v = 0\<rparr>)\<rparr>) = Inl Hang"
  using sem_wait_post_behaviour [of "demo_sem\<lparr>ksem := (\<lambda>_. \<lparr>sem_name = replicate 10 65, sem_head = None, sem_use = True, sem_v = 0\<rparr>)\<rparr>" 3 0 1000 0]
  by (simp add: sem_ok_def)

end
