(* ===== verification/Shm.thy ===== *)
theory Shm
  imports Memory
begin

text \<open>
  The shared memory the repository adds, \<open>mm/shm.c\<close>.  The field \<open>shareMemoryNum\<close> that the code
  uses of the current task is not in \<open>struct task_struct\<close>; it is kept per task slot here.
\<close>

section \<open>mm/shm.c\<close>

abbreviation (input) MAX_SHARE_MEMORY_SIZE :: nat where "MAX_SHARE_MEMORY_SIZE \<equiv> 100"

record ShareMemory =
  shm_key :: int
  shm_shmid :: int
  shm_virutalAddress :: u32
  shm_page :: u32
  shm_pid :: int

record shmw =
  shareMemoryArr :: "nat \<Rightarrow> ShareMemory"
  shm_init :: bool
  shareMemoryNum :: "nat \<Rightarrow> u32"
  shm_mm :: mm
  shm_sched :: sched

definition get_base :: "desc_struct \<Rightarrow> u32" where
  "get_base d =
     (desc_b d AND 0xff000000) OR push_bit 16 (desc_b d AND 0xff) OR drop_bit 16 (desc_a d)"

definition get_shmid :: "int \<Rightarrow> shmw \<Rightarrow> int" where
  "get_shmid key w =
     (case find (\<lambda>i. shm_shmid (shareMemoryArr w i) \<noteq> - 1 \<and> shm_key (shareMemoryArr w i) = key)
             [0..<MAX_SHARE_MEMORY_SIZE] of
        None \<Rightarrow> - 1 | Some i \<Rightarrow> int i)"

definition getFreeShm :: "shmw \<Rightarrow> int" where
  "getFreeShm w =
     (case find (\<lambda>i. shm_shmid (shareMemoryArr w i) = - 1) [0..<MAX_SHARE_MEMORY_SIZE] of
        None \<Rightarrow> - 1 | Some i \<Rightarrow> int i)"

definition init_key_arr_if_not :: "shmw \<Rightarrow> shmw" where
  "init_key_arr_if_not w =
     (if shm_init w then w
      else w\<lparr>shareMemoryArr := (\<lambda>i. if i < MAX_SHARE_MEMORY_SIZE
                                    then (shareMemoryArr w i)\<lparr>shm_shmid := - 1\<rparr> else shareMemoryArr w i),
             shm_init := True, shm_mm := printk_mm ''Start init share memory'' [] (shm_mm w)\<rparr>)"

definition shm_printk :: "string \<Rightarrow> u32 list \<Rightarrow> shmw \<Rightarrow> shmw" where
  "shm_printk s as w = w\<lparr>shm_mm := printk_mm s as (shm_mm w)\<rparr>"

text \<open>Where the page is to come from: the entry of the key, or a fresh page and a free entry.\<close>

definition shm_source :: "int \<Rightarrow> task_struct \<Rightarrow> shmw \<Rightarrow> (int + (u32 \<times> nat)) \<times> shmw" where
  "shm_source key t w =
     (let shmIndex = get_shmid key w
      in if shmIndex \<noteq> - 1 then
           let e = shareMemoryArr w (nat shmIndex)
           in if shm_pid e = t_pid t then (Inl (shm_shmid e), shm_printk ''sys_shmget: exist key'' [] w)
              else (Inr (shm_page e, nat shmIndex), w)
         else
           let (page, m) = get_free_page (shm_mm w); w = w\<lparr>shm_mm := m\<rparr>
           in if page = 0 then (Inl (- ENOMEM), shm_printk ''sys_shmget: no free page'' [] w)
              else if getFreeShm w = - 1 then (Inl (- ENOMEM), w)
              else (Inr (page, nat (getFreeShm w)), w))"

definition sys_shmget :: "int \<Rightarrow> u32 \<Rightarrow> shmw \<Rightarrow> (int \<times> shmw) kres" where
  "sys_shmget key sz w =
     (let w = init_key_arr_if_not w
      in if sz > 4096 then Inr (- EINVAL, shm_printk ''sys_shmget: size > PAGE_SIZE'' [] w)
         else case cur (shm_sched w) of
           None \<Rightarrow> Inl Fault
         | Some t \<Rightarrow>
             (case shm_source key t w of
                (Inl r, w) \<Rightarrow> Inr (r, w)
              | (Inr (page, i), w) \<Rightarrow>
                  let dataBase = get_base (t_ldt t 2); c = current (shm_sched w);
                      virtualAddress = t_end_data t + shareMemoryNum w c * 4096;
                      linearAddress = dataBase + virtualAddress;
                      w = shm_printk ''dataBase is %08x, linearAddress is %08x'' [dataBase, linearAddress] w
                  in bindE (put_page page linearAddress (shm_mm w)) (\<lambda>(r, m).
                       let w = w\<lparr>shm_mm := m\<rparr>
                       in if r = 0 then Inr (- ENOMEM, shm_printk ''can't put page'' [] w)
                          else
                            let w = w\<lparr>shareMemoryNum := (shareMemoryNum w)(c := shareMemoryNum w c + 1)\<rparr>;
                                w = shm_printk ''available shm index is %d, key is %d, virtualAddress is %08x, shareNum = %d''
                                      [of_nat i, of_int key, virtualAddress, shareMemoryNum w c] w
                            in Inr (int i, w\<lparr>shareMemoryArr := (shareMemoryArr w)(i :=
                                 \<lparr>shm_key = key, shm_shmid = int i, shm_virutalAddress = virtualAddress,
                                  shm_page = page, shm_pid = t_pid t\<rparr>)\<rparr>))))"

definition sys_shmat :: "int \<Rightarrow> shmw \<Rightarrow> u32 \<times> shmw" where
  "sys_shmat shmid w =
     (let w = init_key_arr_if_not w
      in if shmid < 0 \<or> int MAX_SHARE_MEMORY_SIZE \<le> shmid then (of_int (- EINVAL), w)
         else case find (\<lambda>i. shm_shmid (shareMemoryArr w i) = shmid) [0..<MAX_SHARE_MEMORY_SIZE] of
                None \<Rightarrow> (of_int (- EINVAL), w)
              | Some i \<Rightarrow> (shm_virutalAddress (shareMemoryArr w i),
                           shm_printk ''Get share memory address is %08x'' [shm_virutalAddress (shareMemoryArr w i)] w))"

section \<open>Two tasks, one key\<close>

text \<open>Entries carry their own index.\<close>

definition shm_ok :: "shmw \<Rightarrow> bool" where
  "shm_ok w \<longleftrightarrow>
     (\<forall>i < MAX_SHARE_MEMORY_SIZE. shm_shmid (shareMemoryArr w i) = - 1 \<or> shm_shmid (shareMemoryArr w i) = int i)"

lemma shmat_after:
  assumes "shm_ok w" "shm_init w" "i < MAX_SHARE_MEMORY_SIZE" "shm_shmid (shareMemoryArr w i) = int i"
  shows "fst (sys_shmat (int i) w) = shm_virutalAddress (shareMemoryArr w i)"
proof -
  have "find (\<lambda>j. shm_shmid (shareMemoryArr w j) = int i) [0..<MAX_SHARE_MEMORY_SIZE] = Some i"
  proof -
    have "shm_shmid (shareMemoryArr w j) \<noteq> int i" if "j < i" for j
      using assms(1,3) that by (force simp: shm_ok_def dest: spec [of _ j])
    then show ?thesis unfolding find_upt_Some using assms(3,4) by blast
  qed
  then show ?thesis using assms by (simp add: sys_shmat_def init_key_arr_if_not_def del: upt_rec_numeral)
qed

text \<open>
  C38: a second task that asks for an existing key gets the same page mapped into its own address
  space, but the page is not counted twice: one reference is recorded for the two mappings, so
  when either task gives its page back the page is free while the other still has it mapped.
  The entry is overwritten, too: from then on \<open>shmat\<close> answers the first task with the address
  in the second.
\<close>

theorem shmget_shares_uncounted:
  assumes ok: "shm_ok w" and init: "shm_init w" and t: "cur (shm_sched w) = Some t" and sz: "sz \<le> 4096"
    and i: "i < MAX_SHARE_MEMORY_SIZE" "get_shmid key w = int i" "shm_shmid (shareMemoryArr w i) = int i"
    and other: "shm_pid (shareMemoryArr w i) \<noteq> t_pid t"
    and p: "p < PAGING_PAGES" "shm_page (shareMemoryArr w i) = page_addr p" "mem_map (shm_mm w) p = 1"
    and v: "v = t_end_data t + shareMemoryNum w (current (shm_sched w)) * 4096"
    and a: "a = get_base (t_ldt t 2) + v"
    and present: "rd (drop_bit 20 a AND 0xffc) (shm_mm w) AND 1 \<noteq> 0"
    and high: "page_addr p < HIGH_MEMORY (shm_mm w)"
  shows "\<exists>w' m. sys_shmget key sz w = Inr (int i, w') \<and>
    rd ((0xfffff000 AND rd (drop_bit 20 a AND 0xffc) (shm_mm w)) + 4 * (drop_bit 12 a AND 0x3ff)) (shm_mm w') = page_addr p OR 7 \<and>
    mem_map (shm_mm w') = mem_map (shm_mm w) \<and>
    free_page (page_addr p) (shm_mm w') = Inr m \<and> mem_map m p = 0 \<and>
    fst (sys_shmat (int i) w') = v"
proof -
  let ?pt = "0xfffff000 AND rd (drop_bit 20 a AND 0xffc) (shm_mm w)"
  have nr: "MAP_NR (page_addr p) = p" "LOW_MEM \<le> page_addr p" "page_addr p \<noteq> 0"
    using p(1) by (simp_all add: MAP_NR_page_addr page_addr_low page_addr_nonzero)
  have src: "shm_source key t w = (Inr (page_addr p, i), w)"
    using i other p(2) by (simp add: shm_source_def Let_def)
  have put: "put_page (page_addr p) a (printk_mm s as (shm_mm w)) =
      Inr (page_addr p, wr (?pt + 4 * (drop_bit 12 a AND 0x3ff)) (page_addr p OR 7) (printk_mm s as (shm_mm w)))" for s as
    using nr p present high by (simp add: put_page_def Let_def printk_mm_def rd_def)
  define w' where "w' = (snd (case sys_shmget key sz w of Inr x \<Rightarrow> x | Inl _ \<Rightarrow> (0, w)))"
  have get: "sys_shmget key sz w = Inr (int i, w')" "shm_init w'"
    "shareMemoryArr w' = (shareMemoryArr w)(i := \<lparr>shm_key = key, shm_shmid = int i, shm_virutalAddress = v,
       shm_page = page_addr p, shm_pid = t_pid t\<rparr>)"
    "phys (shm_mm w') = (phys (shm_mm w))(?pt + 4 * (drop_bit 12 a AND 0x3ff) := page_addr p OR 7)"
    "mem_map (shm_mm w') = mem_map (shm_mm w)" "HIGH_MEMORY (shm_mm w') = HIGH_MEMORY (shm_mm w)"
    using init t sz src put nr(3)
    by (simp_all add: w'_def sys_shmget_def init_key_arr_if_not_def Let_def shm_printk_def v [symmetric] a [symmetric]
        not_less [symmetric] wr_def) (simp_all add: printk_mm_def)
  have ok': "shm_ok w'" using ok i by (auto simp: shm_ok_def get(3))
  have at: "fst (sys_shmat (int i) w') = v"
    using shmat_after [OF ok' get(2) i(1)] by (simp add: get(3))
  have "free_page (page_addr p) (shm_mm w') = Inr (set_map p 0 (shm_mm w'))"
    using nr p high get(5,6) by (simp add: free_page_def not_le not_less)
  then show ?thesis
    using get at by (simp add: rd_def set_map_def)
qed

definition demo_shm :: shmw where
  "demo_shm =
     \<lparr>shareMemoryArr = (\<lambda>i. \<lparr>shm_key = (if i = 0 then 42 else 0), shm_shmid = (if i = 0 then 0 else - 1),
                              shm_virutalAddress = 0x5000, shm_page = page_addr 7, shm_pid = 9\<rparr>),
      shm_init = True, shareMemoryNum = (\<lambda>_. 0), shm_mm = demo_mm\<lparr>phys := (\<lambda>_. 0x3007)\<rparr>, shm_sched = demo_sched\<rparr>"

theorem shmget_shares_uncounted_witness:
  "\<exists>w' m. sys_shmget 42 100 demo_shm = Inr (0, w') \<and> mem_map (shm_mm w') 7 = 1 \<and>
     free_page (page_addr 7) (shm_mm w') = Inr m \<and> mem_map m 7 = 0"
proof -
  have "find (\<lambda>i. shm_shmid (shareMemoryArr demo_shm i) \<noteq> - 1 \<and> shm_key (shareMemoryArr demo_shm i) = 42)
      [0..<MAX_SHARE_MEMORY_SIZE] = Some 0"
    unfolding find_upt_Some by (simp add: demo_shm_def)
  then have "get_shmid 42 demo_shm = int 0" by (simp add: get_shmid_def del: upt_rec_numeral)
  moreover have "shm_ok demo_shm" "page_addr 7 < HIGH_MEMORY (shm_mm demo_shm)"
    by (simp_all add: shm_ok_def demo_shm_def page_addr_def demo_mm_def)
  moreover obtain t where "cur (shm_sched demo_shm) = Some t" "t_pid t = 1"
    by (simp add: demo_shm_def cur_def demo_sched_def)
  ultimately show ?thesis
    using shmget_shares_uncounted [of demo_shm t 100 0 42 7, OF _ _ _ _ _ _ _ _ _ _ _ refl refl]
    by (auto simp: demo_shm_def demo_mm_def rd_def)
qed

end
