(* ===== verification/Vsprintf.thy ===== *)
theory Vsprintf
  imports Kernel_Prelude
begin

text \<open>
  Formatted output, \<open>kernel/vsprintf.c\<close>.  The format and the output are strings; the arguments
  are the 32-bit words on the stack, and \<open>strs\<close> gives the string at an address.  The flag bits of
  a conversion are the fields of a record.  The stores of \<open>%n\<close> are listed in the result.  Taking
  an argument that is not there is a \<open>Fault\<close>.
\<close>

section \<open>skip_atoi\<close>

definition is_digit :: "char \<Rightarrow> bool" where
  "is_digit c \<longleftrightarrow> 48 \<le> (of_char c :: nat) \<and> (of_char c :: nat) \<le> 57"

fun skip_atoi_loop :: "u32 \<Rightarrow> string \<Rightarrow> u32 \<times> string" where
  "skip_atoi_loop i [] = (i, [])"
| "skip_atoi_loop i (c # s) =
     (if is_digit c then skip_atoi_loop (i * 10 + of_nat (of_char c) - 48) s else (i, c # s))"

definition skip_atoi :: "string \<Rightarrow> u32 \<times> string" where
  "skip_atoi s = skip_atoi_loop 0 s"

section \<open>number\<close>

record nflags =
  ZEROPAD :: bool
  SIGN :: bool
  PLUS :: bool
  SPACE :: bool
  LEFT_JUST :: bool
  SPECIAL :: bool
  SMALL :: bool

definition no_flags :: nflags where
  "no_flags = \<lparr>ZEROPAD = False, SIGN = False, PLUS = False, SPACE = False, LEFT_JUST = False,
               SPECIAL = False, SMALL = False\<rparr>"

definition digit_chars :: "bool \<Rightarrow> string" where
  "digit_chars small =
     (if small then ''0123456789abcdefghijklmnopqrstuvwxyz'' else ''0123456789ABCDEFGHIJKLMNOPQRSTUVWXYZ'')"

text \<open>The digits of \<open>tmp\<close>, the last one first; \<open>do_div\<close> divides without sign.\<close>

fun tmp_digits :: "nat \<Rightarrow> nat \<Rightarrow> nat list" where
  "tmp_digits base n = (if n = 0 \<or> base < 2 then [] else n mod base # tmp_digits base (n div base))"

declare tmp_digits.simps [simp del]

text \<open>\<open>while (size-- > 0)\<close>: how many characters it writes, and the value \<open>size\<close> has after it.\<close>

definition pad :: "int \<Rightarrow> char \<Rightarrow> string" where
  "pad n c = replicate (nat n) c"

definition after_pad :: "int \<Rightarrow> int" where
  "after_pad n = (if n > 0 then - 1 else n - 1)"

text \<open>
  The output of \<open>number\<close>: blanks on the left, sign, prefix, the fill character, the zeros of the
  precision, the digits, blanks on the right.
\<close>

definition layout :: "nflags \<Rightarrow> int \<Rightarrow> string \<Rightarrow> string \<Rightarrow> int \<Rightarrow> string \<Rightarrow> string" where
  "layout ty sz sign prefix zeros ds =
     (let c = (if ZEROPAD ty then CHR ''0'' else CHR '' '');
          (lead, sz) = (if \<not> (ZEROPAD ty \<or> LEFT_JUST ty) then (pad sz CHR '' '', after_pad sz) else ([], sz));
          (fill, sz) = (if \<not> LEFT_JUST ty then (pad sz c, after_pad sz) else ([], sz))
      in lead @ sign @ prefix @ fill @ pad zeros CHR ''0'' @ ds @ pad sz CHR '' '')"

definition number :: "u32 \<Rightarrow> nat \<Rightarrow> int \<Rightarrow> int \<Rightarrow> nflags \<Rightarrow> string option" where
  "number num base sz precision ty =
     (let ty = (if LEFT_JUST ty then ty\<lparr>ZEROPAD := False\<rparr> else ty)
      in if base < 2 \<or> base > 36 then None
         else
           let digits = digit_chars (SMALL ty);
               neg = (SIGN ty \<and> sint num < 0);
               sign = (if neg then ''-'' else if PLUS ty then ''+'' else if SPACE ty then '' '' else []);
               num = (if neg then - num else num);
               sz = sz - int (length sign);
               sz = (if SPECIAL ty then if base = 16 then sz - 2 else if base = 8 then sz - 1 else sz else sz);
               tmp = (if num = 0 then [0] else tmp_digits base (unat num));
               i = int (length tmp);
               precision = (if i > precision then i else precision);
               sz = sz - precision;
               prefix = (if SPECIAL ty then
                           if base = 8 then ''0'' else if base = 16 then [CHR ''0'', digits ! 33] else []
                         else [])
           in Some (layout ty sz sign prefix (precision - i) (rev (map (\<lambda>d. digits ! d) tmp))))"

section \<open>vsprintf\<close>

record spec =
  sp_flags :: nflags
  sp_width :: int
  sp_precision :: int

fun parse_flags :: "nflags \<Rightarrow> string \<Rightarrow> nflags \<times> string" where
  "parse_flags fl [] = (fl, [])"
| "parse_flags fl (c # s) =
     (if c = CHR ''-'' then parse_flags (fl\<lparr>LEFT_JUST := True\<rparr>) s
      else if c = CHR ''+'' then parse_flags (fl\<lparr>PLUS := True\<rparr>) s
      else if c = CHR '' '' then parse_flags (fl\<lparr>SPACE := True\<rparr>) s
      else if c = CHR ''#'' then parse_flags (fl\<lparr>SPECIAL := True\<rparr>) s
      else if c = CHR ''0'' then parse_flags (fl\<lparr>ZEROPAD := True\<rparr>) s
      else (fl, c # s))"

definition at_digit :: "string \<Rightarrow> bool" where
  "at_digit s \<longleftrightarrow> s \<noteq> [] \<and> is_digit (hd s)"

definition at_char :: "char \<Rightarrow> string \<Rightarrow> bool" where
  "at_char c s \<longleftrightarrow> s \<noteq> [] \<and> hd s = c"

text \<open>\<open>va_arg\<close>.\<close>

definition va_arg :: "u32 list \<Rightarrow> (u32 \<times> u32 list) kres" where
  "va_arg args = (case args of [] \<Rightarrow> Inl Fault | a # as \<Rightarrow> Inr (a, as))"

definition parse_width :: "nflags \<Rightarrow> string \<Rightarrow> u32 list \<Rightarrow> (nflags \<times> int \<times> string \<times> u32 list) kres" where
  "parse_width fl s args =
     (if at_digit s then let (n, s) = skip_atoi s in Inr (fl, sint n, s, args)
      else if at_char CHR ''*'' s then
        bindE (va_arg args) (\<lambda>(a, args).
          Inr (if sint a < 0 then (fl\<lparr>LEFT_JUST := True\<rparr>, sint (- a), s, args) else (fl, sint a, s, args)))
      else Inr (fl, - 1, s, args))"

definition parse_precision :: "string \<Rightarrow> u32 list \<Rightarrow> (int \<times> string \<times> u32 list) kres" where
  "parse_precision s args =
     (if at_char CHR ''.'' s then
        let s = tl s
        in bindE (if at_digit s then let (n, s) = skip_atoi s in Inr (sint n, s, args)
                  else if at_char CHR ''*'' s
                  then bindE (va_arg args) (\<lambda>(a, args). Inr (sint a, s, args))
                  else Inr (- 1, s, args))
             (\<lambda>(p, s, args). Inr (if p < 0 then 0 else p, s, args))
      else Inr (- 1, s, args))"

definition skip_qualifier :: "string \<Rightarrow> string" where
  "skip_qualifier s =
     (if at_char CHR ''h'' s \<or> at_char CHR ''l'' s \<or> at_char CHR ''L'' s then tl s else s)"

definition parse_spec :: "string \<Rightarrow> u32 list \<Rightarrow> (spec \<times> string \<times> u32 list) kres" where
  "parse_spec s args =
     (let (fl, s) = parse_flags no_flags s
      in bindE (parse_width fl s args) (\<lambda>(fl, w, s, args).
         bindE (parse_precision s args) (\<lambda>(p, s, args).
           Inr (\<lparr>sp_flags = fl, sp_width = w, sp_precision = p\<rparr>, skip_qualifier s, args))))"

text \<open>A conversion that prints a number.\<close>

definition put_number :: "spec \<Rightarrow> nat \<Rightarrow> u32 list \<Rightarrow> (string \<times> u32 list) kres" where
  "put_number sp base args =
     bindE (va_arg args) (\<lambda>(a, args).
       case number a base (sp_width sp) (sp_precision sp) (sp_flags sp) of
         None \<Rightarrow> Inl Fault | Some out \<Rightarrow> Inr (out, args))"

definition put_char :: "spec \<Rightarrow> u32 list \<Rightarrow> (string \<times> u32 list) kres" where
  "put_char sp args =
     (let n = sp_width sp - 1
      in bindE (va_arg args) (\<lambda>(a, args).
           Inr (if LEFT_JUST (sp_flags sp) then [char_of (unat a)] @ pad n CHR '' '' else pad n CHR '' '' @ [char_of (unat a)], args)))"

definition put_string :: "(u32 \<Rightarrow> string) \<Rightarrow> spec \<Rightarrow> u32 list \<Rightarrow> (string \<times> u32 list) kres" where
  "put_string strs sp args =
     bindE (va_arg args) (\<lambda>(a, args).
       let s = strs a;
           len = int (length s);
           len = (if sp_precision sp < 0 then len else if len > sp_precision sp then sp_precision sp else len);
           sps = pad (sp_width sp - len) CHR '' ''
       in Inr (if LEFT_JUST (sp_flags sp) then take (nat len) s @ sps else sps @ take (nat len) s, args))"

text \<open>
  The character that ends the conversion; the result is the output, the arguments left and the
  address \<open>%n\<close> stores to.
\<close>

definition convert ::
  "(u32 \<Rightarrow> string) \<Rightarrow> spec \<Rightarrow> string \<Rightarrow> u32 list \<Rightarrow> (string \<times> u32 list \<times> u32 option) kres" where
  "convert strs sp s args =
     (let num = (\<lambda>sp base. bindE (put_number sp base args) (\<lambda>(out, args). Inr (out, args, None)));
          fl = sp_flags sp
      in case s of
           [] \<Rightarrow> Inr (''%'', args, None)
         | c # _ \<Rightarrow>
             if c = CHR ''c'' then bindE (put_char sp args) (\<lambda>(out, args). Inr (out, args, None))
             else if c = CHR ''s'' then bindE (put_string strs sp args) (\<lambda>(out, args). Inr (out, args, None))
             else if c = CHR ''o'' then num sp 8
             else if c = CHR ''p'' then
               num (if sp_width sp = - 1 then sp\<lparr>sp_width := 8, sp_flags := fl\<lparr>ZEROPAD := True\<rparr>\<rparr> else sp) 16
             else if c = CHR ''x'' then num (sp\<lparr>sp_flags := fl\<lparr>SMALL := True\<rparr>\<rparr>) 16
             else if c = CHR ''X'' then num sp 16
             else if c = CHR ''d'' \<or> c = CHR ''i'' then num (sp\<lparr>sp_flags := fl\<lparr>SIGN := True\<rparr>\<rparr>) 10
             else if c = CHR ''u'' then num sp 10
             else if c = CHR ''n'' then bindE (va_arg args) (\<lambda>(ip, args). Inr ([], args, Some ip))
             else Inr (if c = CHR ''%'' then ''%'' else [CHR ''%'', c], args, None))"

lemma parse_flags_length: "length (snd (parse_flags fl s)) \<le> length s"
  by (induction fl s rule: parse_flags.induct) auto

lemma skip_atoi_length: "length (snd (skip_atoi s)) \<le> length s"
proof -
  have "length (snd (skip_atoi_loop i s)) \<le> length s" for i
    by (induction i s rule: skip_atoi_loop.induct) auto
  then show ?thesis by (simp add: skip_atoi_def)
qed

lemma parse_spec_length:
  assumes "parse_spec s args = Inr (sp, s', args')"
  shows "length s' \<le> length s"
proof -
  obtain fl s1 where 1: "parse_flags no_flags s = (fl, s1)" by fastforce
  then obtain fl2 w s2 a2 p s3 where 2: "parse_width fl s1 args = Inr (fl2, w, s2, a2)"
    "parse_precision s2 a2 = Inr (p, s3, args')" "s' = skip_qualifier s3"
    using assms by (auto simp: parse_spec_def)
  have "length s1 \<le> length s" using parse_flags_length [of no_flags s] 1 by simp
  moreover have "length s2 \<le> length s1"
    using 2(1) skip_atoi_length [of s1]
    by (auto simp: parse_width_def split: if_splits prod.splits)
  moreover have "length s3 \<le> length s2"
    using 2(2) skip_atoi_length [of "tl s2"]
    by (auto simp: parse_precision_def Let_def split: if_splits prod.splits)
  moreover have "length s' \<le> length s3" by (simp add: 2(3) skip_qualifier_def)
  ultimately show ?thesis by linarith
qed

text \<open>The loop over the format; \<open>n\<close> is the number of characters written so far.\<close>

function vsprintf_loop ::
  "(u32 \<Rightarrow> string) \<Rightarrow> nat \<Rightarrow> string \<Rightarrow> u32 list \<Rightarrow> (string \<times> (u32 \<times> nat) list) kres" where
  "vsprintf_loop strs n [] args = Inr ([], [])"
| "vsprintf_loop strs n (c # fmt) args =
     (if c \<noteq> CHR ''%'' then
        bindE (vsprintf_loop strs (n + 1) fmt args) (\<lambda>(out, ps). Inr (c # out, ps))
      else
        bindE (parse_spec fmt args) (\<lambda>(sp, s, args).
        bindE (convert strs sp s args) (\<lambda>(o1, args, ip).
        bindE (vsprintf_loop strs (n + length o1) (tl s) args) (\<lambda>(out, ps).
          Inr (o1 @ out, (case ip of None \<Rightarrow> ps | Some a \<Rightarrow> (a, n) # ps))))))"
  by pat_completeness auto
termination
proof (relation "measure (\<lambda>(_, _, fmt, _). length fmt)", goal_cases)
  case (3 strs n c fmt args a x y xa ya xb xc yb)
  then have "length x' \<le> length fmt" if "parse_spec fmt args = Inr (sp, x', b)" for sp x' b
    using parse_spec_length that by blast
  then show ?case using 3 by (fastforce intro: le_less_trans)
qed simp_all

definition vsprintf :: "(u32 \<Rightarrow> string) \<Rightarrow> string \<Rightarrow> u32 list \<Rightarrow> (string \<times> (u32 \<times> nat) list) kres" where
  "vsprintf strs fmt args = vsprintf_loop strs 0 fmt args"

section \<open>Digits\<close>

lemma tmp_digits_0 [simp]: "tmp_digits base 0 = []"
  by (simp add: tmp_digits.simps)

lemma tmp_digits_less: "2 \<le> base \<Longrightarrow> d \<in> set (tmp_digits base n) \<Longrightarrow> d < base"
proof (induction base n rule: tmp_digits.induct)
  case (1 base n)
  then show ?case by (cases "n = 0") (auto simp: tmp_digits.simps [of base n] split: if_splits)
qed

lemma tmp_digits_value:
  "2 \<le> base \<Longrightarrow> foldr (\<lambda>d v. v * base + d) (tmp_digits base n) 0 = n"
proof (induction base n rule: tmp_digits.induct)
  case (1 base n)
  then show ?case by (cases "n = 0") (auto simp: tmp_digits.simps [of base n])
qed

lemma tmp_digits_length: "2 \<le> base \<Longrightarrow> n < 2 ^ k \<Longrightarrow> length (tmp_digits base n) \<le> k"
proof (induction k arbitrary: n)
  case 0
  then show ?case by (simp add: tmp_digits.simps)
next
  case (Suc k)
  have "n div base \<le> n div 2" using Suc.prems(1) by (simp add: div_le_mono2)
  then have "n div base < 2 ^ k" using Suc.prems(2) by (simp add: less_mult_imp_div_less le_less_trans)
  from Suc.IH [OF Suc.prems(1) this] show ?case by (simp add: tmp_digits.simps [of base n])
qed

lemma digit_chars_digit:
  "d < 10 \<Longrightarrow> is_digit (digit_chars b ! d) \<and> (of_char (digit_chars b ! d) :: nat) = 48 + d"
proof -
  have "list_all (\<lambda>d. is_digit (digit_chars True ! d) \<and> (of_char (digit_chars True ! d) :: nat) = 48 + d) [0..<10]"
    "list_all (\<lambda>d. is_digit (digit_chars False ! d) \<and> (of_char (digit_chars False ! d) :: nat) = 48 + d) [0..<10]"
    by code_simp+
  moreover assume "d < 10"
  ultimately show ?thesis unfolding list_all_iff by (cases b) auto
qed

lemma skip_atoi_digits:
  "\<forall>d \<in> set ds. d < 10 \<Longrightarrow> \<not> at_digit rest \<Longrightarrow>
   skip_atoi_loop i (map (\<lambda>d. digit_chars b ! d) ds @ rest) = (fold (\<lambda>d i. i * 10 + of_nat d) ds i, rest)"
proof (induction ds arbitrary: i)
  case Nil
  then show ?case by (cases rest) (auto simp: at_digit_def)
next
  case (Cons d ds)
  have d: "is_digit (digit_chars b ! d)" "(of_char (digit_chars b ! d) :: nat) = 48 + d"
    using digit_chars_digit [of d b] Cons.prems(1) by auto
  then show ?case using Cons by (simp add: algebra_simps)
qed

lemma fold_digits: "fold (\<lambda>d i. i * 10 + of_nat d) (rev ds) (0 :: u32) = of_nat (foldr (\<lambda>d v. v * 10 + d) ds 0)"
  by (induction ds) (simp_all add: fold_append)

lemma skip_atoi_tmp:
  "skip_atoi (rev (map (\<lambda>d. digit_chars b ! d) (if num = 0 then [0] else tmp_digits 10 (unat num)))) = (num, [])"
proof -
  let ?ds = "if num = 0 then [0] else tmp_digits 10 (unat num)"
  have "\<forall>d \<in> set (rev ?ds). d < 10" using tmp_digits_less [of 10] by auto
  from skip_atoi_digits [OF this, of "[]" 0 b]
  have "skip_atoi (map (\<lambda>d. digit_chars b ! d) (rev ?ds)) = (fold (\<lambda>d i. i * 10 + of_nat d) (rev ?ds) 0, [])"
    by (simp only: skip_atoi_def at_digit_def append_Nil2) simp
  also have "fold (\<lambda>d i. i * 10 + of_nat d) (rev ?ds) (0 :: u32) = num"
    unfolding fold_digits using tmp_digits_value [of 10 "unat num"] by simp
  finally show ?thesis by (simp only: rev_map)
qed

section \<open>Properties\<close>

text \<open>
  the number parser of the file reads back what its number printer writes: \<open>%u\<close> prints a word
  as the digits from which \<open>skip_atoi\<close> computes that word, and \<open>%d\<close> prints a minus sign exactly
  for negative numbers, followed by the digits of the absolute value (of the word itself for the
  smallest number, whose negation wraps around).
\<close>

theorem vsprintf_skip_atoi_roundtrip:
  "(\<exists>out. vsprintf strs ''%u'' [num] = Inr (out, []) \<and> skip_atoi out = (num, [])) \<and>
   (\<exists>out. vsprintf strs ''%d'' [num] = Inr ((if sint num < 0 then ''-'' else []) @ out, []) \<and>
     skip_atoi out = (if sint num < 0 then - num else num, []))"
proof -
  have n: "number n 10 (- 1) (- 1) no_flags =
      Some (rev (map (\<lambda>d. digit_chars False ! d) (if n = 0 then [0] else tmp_digits 10 (unat n))))" for n
    by (simp add: number_def layout_def no_flags_def Let_def pad_def after_pad_def)
  have d: "number n 10 (- 1) (- 1) (no_flags\<lparr>SIGN := True\<rparr>) =
      Some ((if sint n < 0 then ''-'' else []) @
        rev (map (\<lambda>d. digit_chars False ! d)
          (if (if sint n < 0 then - n else n) = 0 then [0] else tmp_digits 10 (unat (if sint n < 0 then - n else n)))))" for n
    by (simp add: number_def layout_def no_flags_def Let_def pad_def after_pad_def)
  have sp: "parse_spec ''u'' [num] = Inr (\<lparr>sp_flags = no_flags, sp_width = - 1, sp_precision = - 1\<rparr>, ''u'', [num])"
    "parse_spec ''d'' [num] = Inr (\<lparr>sp_flags = no_flags, sp_width = - 1, sp_precision = - 1\<rparr>, ''d'', [num])"
    by (simp_all add: parse_spec_def parse_width_def parse_precision_def at_digit_def at_char_def is_digit_def
        skip_qualifier_def)
  show ?thesis
    by (simp only: vsprintf_def vsprintf_loop.simps sp bindE_simps case_prod_conv convert_def put_number_def Let_def va_arg_def
        n d list.case option.case list.sel spec.simps)
      (simp add: skip_atoi_tmp n d put_number_def va_arg_def)
qed

lemma length_layout:
  "\<not> (LEFT_JUST ty \<and> ZEROPAD ty) \<Longrightarrow> int (length (layout ty sz sign prefix zeros ds)) =
     max sz 0 + int (length sign) + int (length prefix) + max zeros 0 + int (length ds)"
  by (cases "LEFT_JUST ty"; cases "ZEROPAD ty") (auto simp: layout_def pad_def after_pad_def)

lemma layout_width:
  assumes "\<not> (LEFT_JUST ty \<and> ZEROPAD ty)" and "int (length prefix) = pl"
    and "p = (if int t > precision then int t else precision)" and "length ds = t"
  shows "int (length (layout ty (sz - int (length sign) - pl - p) sign prefix (p - int t) ds)) =
    max sz (int (length sign) + pl + max precision (int t))"
  unfolding length_layout [OF assms(1)] assms(2,4) using assms(3) by (simp add: max_def)

text \<open>
  \<open>number\<close> needs at most 32 of the 36 places of its buffer, and its output is exactly as wide
  as the field, or as wide as sign, prefix and digits (at least as many as the precision) where
  these do not fit the field; left and right justification and zero padding do not change that.
\<close>

theorem number_width:
  assumes base: "2 \<le> base" "base \<le> 36"
  shows "length (tmp_digits base (unat num)) \<le> 32 \<and>
    (\<exists>out. number num base sz precision ty = Some out \<and>
      int (length out) = max sz
        ((if SIGN ty \<and> sint num < 0 \<or> PLUS ty \<or> SPACE ty then 1 else 0) +
         (if SPECIAL ty then if base = 16 then 2 else if base = 8 then 1 else 0 else 0) +
         max precision (if num = 0 then 1
           else int (length (tmp_digits base (unat (if SIGN ty \<and> sint num < 0 then - num else num)))))))"
proof -
  have "unat num < 2 ^ 32" by simp
  then have "length (tmp_digits base (unat num)) \<le> 32" by (rule tmp_digits_length [OF base(1)])
  moreover have "\<exists>out. number num base sz precision ty = Some out \<and>
      int (length out) = max sz
        ((if SIGN ty \<and> sint num < 0 \<or> PLUS ty \<or> SPACE ty then 1 else 0) +
         (if SPECIAL ty then if base = 16 then 2 else if base = 8 then 1 else 0 else 0) +
         max precision (if num = 0 then 1
           else int (length (tmp_digits base (unat (if SIGN ty \<and> sint num < 0 then - num else num))))))"
  proof -
    let ?ty = "if LEFT_JUST ty then ty\<lparr>ZEROPAD := False\<rparr> else ty"
    let ?neg = "SIGN ty \<and> sint num < 0"
    let ?sign = "if ?neg then ''-'' else if PLUS ty then ''+'' else if SPACE ty then '' '' else []"
    let ?n = "if ?neg then - num else num"
    let ?tmp = "if ?n = 0 then [0] else tmp_digits base (unat ?n)"
    let ?p = "if int (length ?tmp) > precision then int (length ?tmp) else precision"
    let ?pl = "if SPECIAL ty then if base = 16 then 2 else if base = 8 then 1 else 0 else 0 :: int"
    let ?prefix = "if SPECIAL ty then
        if base = 8 then ''0'' else if base = 16 then [CHR ''0'', digit_chars (SMALL ty) ! 33] else [] else []"
    have f: "SIGN ?ty = SIGN ty" "PLUS ?ty = PLUS ty" "SPACE ?ty = SPACE ty" "SPECIAL ?ty = SPECIAL ty"
      "SMALL ?ty = SMALL ty" by simp_all
    have sz: "(if SPECIAL ty then if base = 16 then k - 2 else if base = 8 then k - 1 else k else k) = k - ?pl" for k
      by simp
    have "number num base sz precision ty = Some (layout ?ty (sz - int (length ?sign) - ?pl - ?p)
        ?sign ?prefix (?p - int (length ?tmp)) (rev (map (\<lambda>d. digit_chars (SMALL ty) ! d) ?tmp)))"
      using base unfolding number_def Let_def f sz by simp
    moreover have "int (length (layout ?ty (sz - int (length ?sign) - ?pl - ?p)
        ?sign ?prefix (?p - int (length ?tmp)) (rev (map (\<lambda>d. digit_chars (SMALL ty) ! d) ?tmp)))) =
      max sz (int (length ?sign) + ?pl + max precision (int (length ?tmp)))"
      by (rule layout_width) simp_all
    moreover have "int (length ?sign) = (if ?neg \<or> PLUS ty \<or> SPACE ty then 1 else 0)" by simp
    moreover have "int (length ?tmp) = (if num = 0 then 1 else int (length (tmp_digits base (unat ?n))))" by simp
    ultimately show ?thesis by (intro exI conjI) (assumption, simp only:)
  qed
  ultimately show ?thesis by blast
qed

theorem number_width_witness:
  "\<exists>out. number 255 16 (- 1) (- 1) (no_flags\<lparr>SPECIAL := True\<rparr>) = Some out \<and> length out = 4"
  using number_width [of 16 255 "- 1" "- 1" "no_flags\<lparr>SPECIAL := True\<rparr>"]
  by (auto simp: no_flags_def tmp_digits.simps)

text \<open>
  a field width given as an argument does not work: the star is not skipped, so the
  conversion ends there, the argument is consumed and the format is printed as it stands.
\<close>

theorem vsprintf_star_not_skipped:
  "vsprintf strs ''%*d'' (w # v # args) = Inr (''%*d'', [])"
  by (simp add: vsprintf_def parse_spec_def parse_width_def parse_precision_def at_digit_def at_char_def is_digit_def
      skip_qualifier_def va_arg_def convert_def)

end
