(* ===== verification/Printk.thy ===== *)
theory Printk
  imports Vsprintf Tty
begin

text \<open>
  \<open>kernel/printk.c\<close>: format into a static buffer and write it to the first terminal, with \<open>fs\<close>
  pointing to the kernel's own segment for the time of the call.
\<close>

definition printk ::
  "(nat \<Rightarrow> ttyw \<Rightarrow> ttyw) \<Rightarrow> (ttyw \<Rightarrow> ttyw) \<Rightarrow> nat \<Rightarrow> (u32 \<Rightarrow> string) \<Rightarrow> fsmem \<Rightarrow> u32 \<Rightarrow> string \<Rightarrow> u32 list \<Rightarrow>
   ttyw \<Rightarrow> (int \<times> ttyw) kres" where
  "printk isleep switch f strs kmem buf fmt args w =
     bindE (vsprintf strs fmt args) (\<lambda>(out, ps).
       let i = length out; bytes = map (\<lambda>c. of_nat (of_char c)) out @ [0]
       in if i \<ge> 1024 then Inl Fault
          else bindE (tty_write isleep switch f 0 buf (int i) (w\<lparr>w_fs := put_fs_bytes bytes buf kmem\<rparr>))
                 (\<lambda>(r, w'). Inr (int i, w'\<lparr>w_fs := w_fs w\<rparr>)))"

lemma printk_overflow:
  "vsprintf strs fmt args = Inr (out, ps) \<Longrightarrow> 1024 \<le> length out \<Longrightarrow>
   printk isleep switch f strs kmem buf fmt args w = Inl Fault"
  by (simp add: printk_def Let_def)

end
