(* ===== verification/Fs_State.thy ===== *)
theory Fs_State
  imports Memory Segment
begin

text \<open>
  The types and the state of the block layer and the file system, from \<open>include/linux/fs.h\<close> and
  \<open>kernel/blk_drv/blk.h\<close>.  Buffer heads are an array; a pointer to one is its index.
\<close>

section \<open>State\<close>

abbreviation (input) NR_HASH :: nat where "NR_HASH \<equiv> 307"
abbreviation (input) BLOCK_SIZE :: nat where "BLOCK_SIZE \<equiv> 1024"

type_synonym block = "nat \<Rightarrow> u8"

record buffer_head =
  b_data :: block
  b_blocknr :: u32
  b_dev :: u16
  b_uptodate :: bool
  b_dirt :: bool
  b_count :: u8
  b_lock :: bool
  b_wait :: "nat option"
  b_prev :: "nat option"
  b_next :: "nat option"
  b_prev_free :: nat
  b_next_free :: nat

text \<open>
  The commands of \<open>include/linux/fs.h\<close>, and from \<open>kernel/blk_drv/blk.h\<close> the entries of the
  request array and of the table of block devices.  The buffer of a request is in the data of a
  buffer head: its index and the offset there.  \<open>request_fn\<close> names the routine of the driver.
\<close>

datatype rw = READ | WRITE | READA | WRITEA

record request =
  r_dev :: int
  r_cmd :: rw
  r_errors :: int
  r_sector :: u32
  r_nr_sectors :: u32
  r_buffer :: nat
  r_offset :: nat
  r_waiting :: "nat option"
  r_bh :: "nat option"
  r_next :: "nat option"

datatype driver = Do_rd_request | Do_fd_request | Do_hd_request

record blk_dev_struct =
  request_fn :: "driver option"
  current_request :: "nat option"

text \<open>
  From \<open>include/linux/fs.h\<close>: the i-nodes on the disk and in memory, the open files and the super
  blocks.  A pointer to an entry of one of the tables is its index.
\<close>

record d_inode =
  d_mode :: u16
  d_uid :: u16
  d_size :: u32
  d_time :: u32
  d_gid :: u8
  d_nlinks :: u8
  d_zone :: "nat \<Rightarrow> u16"

record m_inode =
  i_mode :: u16
  i_uid :: u16
  i_size :: u32
  i_mtime :: u32
  i_gid :: u8
  i_nlinks :: u8
  i_zone :: "nat \<Rightarrow> u16"
  i_wait :: "nat option"
  i_atime :: u32
  i_ctime :: u32
  i_dev :: u16
  i_num :: u16
  i_count :: u16
  i_lock :: bool
  i_dirt :: bool
  i_pipe :: bool
  i_mount :: bool
  i_seek :: bool
  i_update :: bool

record file_struct =
  f_mode :: u16
  f_flags :: u16
  f_count :: u16
  f_inode :: "nat option"
  f_pos :: u32

record super_block =
  s_ninodes :: u16
  s_nzones :: u16
  s_imap_blocks :: u16
  s_zmap_blocks :: u16
  s_firstdatazone :: u16
  s_log_zone_size :: u16
  s_max_size :: u32
  s_magic :: u16
  s_imap :: "nat \<Rightarrow> nat option"
  s_zmap :: "nat \<Rightarrow> nat option"
  s_dev :: u16
  s_isup :: "nat option"
  s_imount :: "nat option"
  s_time :: u32
  s_wait :: "nat option"
  s_lock :: bool
  s_rd_only :: bool
  s_dirt :: bool

abbreviation (input) NR_INODE :: nat where "NR_INODE \<equiv> 32"
abbreviation (input) NR_FILE :: nat where "NR_FILE \<equiv> 64"
abbreviation (input) NR_OPEN :: nat where "NR_OPEN \<equiv> 20"
abbreviation (input) NR_SUPER :: nat where "NR_SUPER \<equiv> 8"
abbreviation (input) ROOT_INO :: u16 where "ROOT_INO \<equiv> 1"

text \<open>
  The state of the block layer and of the file system: the buffer cache, the request queues of
  \<open>kernel/blk_drv/ll_rw_blk.c\<close>, the RAM disk, the tables of \<open>fs\<close>, the page allocator, the user
  segment of the calling task and the tasks.  \<open>null_prev\<close> is the memory a store to \<open>b_prev\<close> of
  a null pointer goes to; \<open>pmem\<close> is the physical memory by bytes, in which the RAM disk and the
  pages of pipes lie.
\<close>

record bufw =
  bhs :: "nat \<Rightarrow> buffer_head"
  NR_BUFFERS :: nat
  hash_table :: "nat \<Rightarrow> nat option"
  free_list :: nat
  buffer_wait :: "nat option"
  null_prev :: "nat option"
  request :: "nat \<Rightarrow> request"
  blk_dev :: "nat \<Rightarrow> blk_dev_struct"
  wait_for_request :: "nat option"
  rd_start :: u32
  rd_length :: u32
  pmem :: "u32 \<Rightarrow> u8"
  inode_table :: "nat \<Rightarrow> m_inode"
  last_inode :: nat
  super_block :: "nat \<Rightarrow> super_block"
  file_table :: "nat \<Rightarrow> file_struct"
  ROOT_DEV :: u16
  bw_mm :: mm
  bw_fs :: fsmem
  bw_sched :: sched

text \<open>
  What happens outside the modelled code: the transfer of a block (\<open>ll_rw_block\<close>), what a task
  finds when it has slept for a locked buffer, i-node or super block, for a free buffer or on a
  pipe, \<open>floppy_change\<close>, and \<open>sync_inodes\<close> as the buffer cache calls it.  \<open>e_fuel\<close> bounds how often a routine
  starts again after it slept.
\<close>

record benv =
  e_fuel :: nat
  e_rw :: "rw \<Rightarrow> nat \<Rightarrow> bufw \<Rightarrow> bufw kres"
  e_wait :: "nat \<Rightarrow> bufw \<Rightarrow> bufw"
  e_sleep :: "bufw \<Rightarrow> bufw"
  e_iwait :: "nat \<Rightarrow> bufw \<Rightarrow> bufw"
  e_swait :: "nat \<Rightarrow> bufw \<Rightarrow> bufw"
  e_psleep :: "nat \<Rightarrow> bufw \<Rightarrow> bufw"
  e_floppy :: "u16 \<Rightarrow> bufw \<Rightarrow> bool \<times> bufw"
  e_sync_inodes :: "bufw \<Rightarrow> bufw kres"

text \<open>An entry whose bytes are all zero, as \<open>memset\<close> and the loader leave it.\<close>

definition zero_inode :: m_inode where
  "zero_inode = \<lparr>i_mode = 0, i_uid = 0, i_size = 0, i_mtime = 0, i_gid = 0, i_nlinks = 0, i_zone = (\<lambda>_. 0),
     i_wait = None, i_atime = 0, i_ctime = 0, i_dev = 0, i_num = 0, i_count = 0, i_lock = False, i_dirt = False,
     i_pipe = False, i_mount = False, i_seek = False, i_update = False\<rparr>"

definition zero_file :: file_struct where
  "zero_file = \<lparr>f_mode = 0, f_flags = 0, f_count = 0, f_inode = None, f_pos = 0\<rparr>"

definition zero_super :: super_block where
  "zero_super = \<lparr>s_ninodes = 0, s_nzones = 0, s_imap_blocks = 0, s_zmap_blocks = 0, s_firstdatazone = 0,
     s_log_zone_size = 0, s_max_size = 0, s_magic = 0, s_imap = (\<lambda>_. None), s_zmap = (\<lambda>_. None), s_dev = 0,
     s_isup = None, s_imount = None, s_time = 0, s_wait = None, s_lock = False, s_rd_only = False, s_dirt = False\<rparr>"

definition upd_inode :: "nat \<Rightarrow> (m_inode \<Rightarrow> m_inode) \<Rightarrow> bufw \<Rightarrow> bufw" where
  "upd_inode n f s = s\<lparr>inode_table := (inode_table s)(n := f (inode_table s n))\<rparr>"

definition upd_super :: "nat \<Rightarrow> (super_block \<Rightarrow> super_block) \<Rightarrow> bufw \<Rightarrow> bufw" where
  "upd_super n f s = s\<lparr>super_block := (super_block s)(n := f (super_block s n))\<rparr>"

definition upd_file :: "nat \<Rightarrow> (file_struct \<Rightarrow> file_struct) \<Rightarrow> bufw \<Rightarrow> bufw" where
  "upd_file n f s = s\<lparr>file_table := (file_table s)(n := f (file_table s n))\<rparr>"

text \<open>\<open>current\<close> is the entry of the calling task; it is never null.\<close>

definition curr :: "bufw \<Rightarrow> task_struct" where
  "curr s = (case cur (bw_sched s) of Some t \<Rightarrow> t | None \<Rightarrow> INIT_TASK)"

definition upd_curr :: "(task_struct \<Rightarrow> task_struct) \<Rightarrow> bufw \<Rightarrow> bufw" where
  "upd_curr f s = s\<lparr>bw_sched := upd_task (current (bw_sched s)) f (bw_sched s)\<rparr>"

definition CURRENT_TIME :: "bufw \<Rightarrow> u32" where
  "CURRENT_TIME s = word_of_int (startup_time (bw_sched s) + jiffies (bw_sched s) sdiv 100)"

definition suser :: "bufw \<Rightarrow> bool" where
  "suser s \<longleftrightarrow> t_euid (curr s) = 0"

text \<open>What is done on the way out of a system call, and its result.\<close>

definition finish :: "(bufw \<Rightarrow> bufw kres) list \<Rightarrow> 'a \<Rightarrow> bufw \<Rightarrow> ('a \<times> bufw) kres" where
  "finish acts v s = bindE (foldE (\<lambda>a s. a s) acts s) (\<lambda>s. Inr (v, s))"

text \<open>Little-endian half words in a block.\<close>

definition le16 :: "block \<Rightarrow> nat \<Rightarrow> u16" where
  "le16 b k = ucast (b k) OR push_bit 8 (ucast (b (k + 1)))"

definition put16 :: "nat \<Rightarrow> u16 \<Rightarrow> block \<Rightarrow> block" where
  "put16 k v b = b(k := ucast v, k + 1 := ucast (drop_bit 8 v))"

definition le32 :: "block \<Rightarrow> nat \<Rightarrow> u32" where
  "le32 b k =
     ucast (b k) OR push_bit 8 (ucast (b (k + 1))) OR push_bit 16 (ucast (b (k + 2))) OR push_bit 24 (ucast (b (k + 3)))"

definition put32 :: "nat \<Rightarrow> u32 \<Rightarrow> block \<Rightarrow> block" where
  "put32 k v b =
     b(k := ucast v, k + 1 := ucast (drop_bit 8 v), k + 2 := ucast (drop_bit 16 v), k + 3 := ucast (drop_bit 24 v))"

lemma upd_inode_simps [simp]:
  "inode_table (upd_inode n f s) j = (if j = n then f (inode_table s n) else inode_table s j)"
  "bhs (upd_inode n f s) = bhs s" "NR_BUFFERS (upd_inode n f s) = NR_BUFFERS s"
  "super_block (upd_inode n f s) = super_block s" "file_table (upd_inode n f s) = file_table s"
  "bw_sched (upd_inode n f s) = bw_sched s" "bw_fs (upd_inode n f s) = bw_fs s" "pmem (upd_inode n f s) = pmem s"
  by (simp_all add: upd_inode_def)

end
