(* ===== verification/Buffer.thy ===== *)
theory Buffer
  imports Fs_State
begin

text \<open>
  The buffer cache, \<open>fs/buffer.c\<close>, on the state of \<open>Fs_State\<close>.  A buffer is on the ring of all
  buffers in the order of their use (\<open>b_next_free\<close>, \<open>b_prev_free\<close>, starting at \<open>free_list\<close>)
  and, when it belongs to a device, on the chain of its hash value (\<open>b_next\<close>, \<open>b_prev\<close>).
\<close>

definition upd_bh :: "nat \<Rightarrow> (buffer_head \<Rightarrow> buffer_head) \<Rightarrow> bufw \<Rightarrow> bufw" where
  "upd_bh i f s = s\<lparr>bhs := (bhs s)(i := f (bhs s i))\<rparr>"

text \<open>\<open>while (bh->b_lock) sleep_on (...)\<close>.\<close>

definition wait_on_buffer :: "benv \<Rightarrow> nat \<Rightarrow> bufw \<Rightarrow> bufw" where
  "wait_on_buffer e i s = (if b_lock (bhs s i) then e_wait e i s else s)"

section \<open>Writing back\<close>

definition sync_buffers :: "benv \<Rightarrow> u16 \<Rightarrow> bufw \<Rightarrow> bufw kres" where
  "sync_buffers e dev s =
     foldE (\<lambda>i s.
       if b_dev (bhs s i) \<noteq> dev then Inr s
       else
         let s = wait_on_buffer e i s
         in if b_dev (bhs s i) = dev \<and> b_dirt (bhs s i) then e_rw e WRITE i s else Inr s)
       [0..<NR_BUFFERS s] s"

definition sync_dev :: "benv \<Rightarrow> u16 \<Rightarrow> bufw \<Rightarrow> bufw kres" where
  "sync_dev e dev s =
     bindE (sync_buffers e dev s) (\<lambda>s. bindE (e_sync_inodes e s) (sync_buffers e dev))"

definition sys_sync :: "benv \<Rightarrow> bufw \<Rightarrow> (int \<times> bufw) kres" where
  "sys_sync e s =
     bindE (e_sync_inodes e s) (\<lambda>s.
       bindE (foldE (\<lambda>i s.
         let s = wait_on_buffer e i s in if b_dirt (bhs s i) then e_rw e WRITE i s else Inr s)
         [0..<NR_BUFFERS s] s) (\<lambda>s. Inr (0, s)))"

definition invalidate_buffers :: "benv \<Rightarrow> u16 \<Rightarrow> bufw \<Rightarrow> bufw" where
  "invalidate_buffers e dev s =
     fold (\<lambda>i s.
       if b_dev (bhs s i) \<noteq> dev then s
       else
         let s = wait_on_buffer e i s
         in if b_dev (bhs s i) = dev then upd_bh i (\<lambda>b. b\<lparr>b_uptodate := False, b_dirt := False\<rparr>) s else s)
       [0..<NR_BUFFERS s] s"

text \<open>\<open>put_super\<close> and \<open>invalidate_inodes\<close>, which are defined later, are parameters here.\<close>

definition check_disk_change ::
  "benv \<Rightarrow> (u16 \<Rightarrow> bufw \<Rightarrow> bufw kres) \<Rightarrow> (u16 \<Rightarrow> bufw \<Rightarrow> bufw) \<Rightarrow> u16 \<Rightarrow> bufw \<Rightarrow> bufw kres" where
  "check_disk_change e put_super invalidate_inodes dev s =
     (if drop_bit 8 dev \<noteq> 2 then Inr s
      else
        let (changed, s) = e_floppy e (dev AND 3) s
        in if \<not> changed then Inr s
           else
             bindE (foldE (\<lambda>i s. if s_dev (super_block s i) = dev then put_super (s_dev (super_block s i)) s else Inr s)
                      [0..<NR_SUPER] s)
               (\<lambda>s. Inr (invalidate_buffers e dev (invalidate_inodes dev s))))"

section \<open>The queues\<close>

definition hashfn :: "u16 \<Rightarrow> u32 \<Rightarrow> nat" where
  "hashfn dev block = unat (ucast dev XOR block) mod NR_HASH"

definition hash_bh :: "bufw \<Rightarrow> nat \<Rightarrow> nat" where
  "hash_bh s i = hashfn (b_dev (bhs s i)) (b_blocknr (bhs s i))"

definition set_b_prev :: "nat option \<Rightarrow> nat option \<Rightarrow> bufw \<Rightarrow> bufw" where
  "set_b_prev p v s =
     (case p of None \<Rightarrow> s\<lparr>null_prev := v\<rparr> | Some i \<Rightarrow> upd_bh i (\<lambda>b. b\<lparr>b_prev := v\<rparr>) s)"

definition remove_from_hash :: "nat \<Rightarrow> bufw \<Rightarrow> bufw" where
  "remove_from_hash i s =
     (let nx = b_next (bhs s i); pv = b_prev (bhs s i); h = hash_bh s i;
          s = (case nx of None \<Rightarrow> s | Some n \<Rightarrow> upd_bh n (\<lambda>b. b\<lparr>b_prev := pv\<rparr>) s);
          s = (case pv of None \<Rightarrow> s | Some p \<Rightarrow> upd_bh p (\<lambda>b. b\<lparr>b_next := nx\<rparr>) s)
      in if hash_table s h = Some i then s\<lparr>hash_table := (hash_table s)(h := nx)\<rparr> else s)"

text \<open>The neighbours on the ring are never null in this model: they are indices.\<close>

definition remove_from_ring :: "nat \<Rightarrow> bufw \<Rightarrow> bufw" where
  "remove_from_ring i s =
     (let s = upd_bh (b_prev_free (bhs s i)) (\<lambda>b. b\<lparr>b_next_free := b_next_free (bhs s i)\<rparr>) s;
          s = upd_bh (b_next_free (bhs s i)) (\<lambda>b. b\<lparr>b_prev_free := b_prev_free (bhs s i)\<rparr>) s
      in if free_list s = i then s\<lparr>free_list := b_next_free (bhs s i)\<rparr> else s)"

definition remove_from_queues :: "nat \<Rightarrow> bufw \<Rightarrow> bufw" where
  "remove_from_queues i s = remove_from_ring i (remove_from_hash i s)"

definition insert_into_ring :: "nat \<Rightarrow> bufw \<Rightarrow> bufw" where
  "insert_into_ring i s =
     (let f = free_list s;
          s = upd_bh i (\<lambda>b. b\<lparr>b_next_free := f\<rparr>) s;
          s = upd_bh i (\<lambda>b. b\<lparr>b_prev_free := b_prev_free (bhs s f)\<rparr>) s;
          s = upd_bh (b_prev_free (bhs s f)) (\<lambda>b. b\<lparr>b_next_free := i\<rparr>) s
      in upd_bh f (\<lambda>b. b\<lparr>b_prev_free := i\<rparr>) s)"

definition insert_into_hash :: "nat \<Rightarrow> bufw \<Rightarrow> bufw" where
  "insert_into_hash i s =
     (let s = upd_bh i (\<lambda>b. b\<lparr>b_prev := None, b_next := None\<rparr>) s
      in if b_dev (bhs s i) = 0 then s
         else
           let h = hash_bh s i;
               s = upd_bh i (\<lambda>b. b\<lparr>b_next := hash_table s h\<rparr>) s;
               s = s\<lparr>hash_table := (hash_table s)(h := Some i)\<rparr>
           in set_b_prev (b_next (bhs s i)) (Some i) s)"

definition insert_into_queues :: "nat \<Rightarrow> bufw \<Rightarrow> bufw" where
  "insert_into_queues i s = insert_into_hash i (insert_into_ring i s)"

primrec find_loop :: "nat \<Rightarrow> u16 \<Rightarrow> u32 \<Rightarrow> nat option \<Rightarrow> bufw \<Rightarrow> nat option kres" where
  "find_loop 0 dev block tmp s = Inl Hang"
| "find_loop (Suc n) dev block tmp s =
     (case tmp of
        None \<Rightarrow> Inr None
      | Some i \<Rightarrow>
          if b_dev (bhs s i) = dev \<and> b_blocknr (bhs s i) = block then Inr (Some i)
          else find_loop n dev block (b_next (bhs s i)) s)"

definition find_buffer :: "u16 \<Rightarrow> u32 \<Rightarrow> bufw \<Rightarrow> nat option kres" where
  "find_buffer dev block s =
     find_loop (Suc (NR_BUFFERS s)) dev block (hash_table s (hashfn dev block)) s"

primrec get_hash_table :: "nat \<Rightarrow> benv \<Rightarrow> u16 \<Rightarrow> u32 \<Rightarrow> bufw \<Rightarrow> (nat option \<times> bufw) kres" where
  "get_hash_table 0 e dev block s = Inl Hang"
| "get_hash_table (Suc f) e dev block s =
     bindE (find_buffer dev block s) (\<lambda>r.
       case r of
         None \<Rightarrow> Inr (None, s)
       | Some i \<Rightarrow>
           let s = wait_on_buffer e i (upd_bh i (\<lambda>b. b\<lparr>b_count := b_count b + 1\<rparr>) s)
           in if b_dev (bhs s i) = dev \<and> b_blocknr (bhs s i) = block then Inr (Some i, s)
              else get_hash_table f e dev block (upd_bh i (\<lambda>b. b\<lparr>b_count := b_count b - 1\<rparr>) s))"

section \<open>Getting and releasing buffers\<close>

definition BADNESS :: "buffer_head \<Rightarrow> nat" where
  "BADNESS b = (if b_dirt b then 2 else 0) + (if b_lock b then 1 else 0)"

text \<open>The search of the ring from \<open>tmp\<close>: the first of the best buffers nobody uses.\<close>

primrec scan_ring :: "nat \<Rightarrow> nat \<Rightarrow> nat option \<Rightarrow> bufw \<Rightarrow> nat option kres" where
  "scan_ring 0 tmp bh s = Inl Hang"
| "scan_ring (Suc n) tmp bh s =
     (let b = bhs s tmp;
          better = (b_count b = 0 \<and> (case bh of None \<Rightarrow> True | Some i \<Rightarrow> BADNESS b < BADNESS (bhs s i)));
          bh = (if better then Some tmp else bh)
      in if better \<and> BADNESS b = 0 then Inr bh
         else if b_next_free b = free_list s then Inr bh
         else scan_ring n (b_next_free b) bh s)"

text \<open>Waiting until the buffer is clean; \<open>False\<close> when somebody else has taken it.\<close>

primrec clean_loop :: "nat \<Rightarrow> benv \<Rightarrow> nat \<Rightarrow> bufw \<Rightarrow> (bool \<times> bufw) kres" where
  "clean_loop 0 e i s = Inl Hang"
| "clean_loop (Suc f) e i s =
     (if \<not> b_dirt (bhs s i) then Inr (True, s)
      else bindE (sync_dev e (b_dev (bhs s i)) s) (\<lambda>s.
        let s = wait_on_buffer e i s
        in if b_count (bhs s i) \<noteq> 0 then Inr (False, s) else clean_loop f e i s))"

definition take_buffer :: "nat \<Rightarrow> u16 \<Rightarrow> u32 \<Rightarrow> bufw \<Rightarrow> bufw" where
  "take_buffer i dev block s =
     (let s = upd_bh i (\<lambda>b. b\<lparr>b_count := 1, b_dirt := False, b_uptodate := False\<rparr>) s;
          s = remove_from_queues i s;
          s = upd_bh i (\<lambda>b. b\<lparr>b_dev := dev, b_blocknr := block\<rparr>) s
      in insert_into_queues i s)"

primrec getblk :: "nat \<Rightarrow> benv \<Rightarrow> u16 \<Rightarrow> u32 \<Rightarrow> bufw \<Rightarrow> (nat \<times> bufw) kres" where
  "getblk 0 e dev block s = Inl Hang"
| "getblk (Suc f) e dev block s =
     bindE (get_hash_table (Suc f) e dev block s) (\<lambda>(r, s).
       case r of
         Some i \<Rightarrow> Inr (i, s)
       | None \<Rightarrow>
           bindE (scan_ring (NR_BUFFERS s) (free_list s) None s) (\<lambda>r.
             case r of
               None \<Rightarrow> getblk f e dev block (e_sleep e s)
             | Some i \<Rightarrow>
                 let s = wait_on_buffer e i s
                 in if b_count (bhs s i) \<noteq> 0 then getblk f e dev block s
                    else bindE (clean_loop (Suc f) e i s) (\<lambda>(ok, s).
                      if \<not> ok then getblk f e dev block s
                      else bindE (find_buffer dev block s) (\<lambda>r.
                        if r \<noteq> None then getblk f e dev block s
                        else Inr (i, take_buffer i dev block s)))))"

definition brelse :: "benv \<Rightarrow> nat option \<Rightarrow> bufw \<Rightarrow> bufw kres" where
  "brelse e buf s =
     (case buf of
        None \<Rightarrow> Inr s
      | Some i \<Rightarrow>
          let s = wait_on_buffer e i s
          in if b_count (bhs s i) = 0 then Inl (Panic ''Trying to free free buffer'')
             else
               let s = upd_bh i (\<lambda>b. b\<lparr>b_count := b_count b - 1\<rparr>) s;
                   (p, sc) = wake_up (buffer_wait s) (bw_sched s)
               in Inr (s\<lparr>buffer_wait := p, bw_sched := sc\<rparr>))"

definition bread :: "nat \<Rightarrow> benv \<Rightarrow> u16 \<Rightarrow> u32 \<Rightarrow> bufw \<Rightarrow> (nat option \<times> bufw) kres" where
  "bread f e dev block s =
     bindE (getblk f e dev block s) (\<lambda>(i, s).
       if b_uptodate (bhs s i) then Inr (Some i, s)
       else bindE (e_rw e READ i s) (\<lambda>s.
         let s = wait_on_buffer e i s
         in if b_uptodate (bhs s i) then Inr (Some i, s)
            else bindE (brelse e (Some i) s) (\<lambda>s. Inr (None, s))))"

text \<open>\<open>COPYBLK\<close> to an address of the memory.\<close>

definition copyblk :: "block \<Rightarrow> u32 \<Rightarrow> (u32 \<Rightarrow> u8) \<Rightarrow> u32 \<Rightarrow> u8" where
  "copyblk b to m a = (if unat (a - to) < BLOCK_SIZE then b (unat (a - to)) else m a)"

primrec bread_page_get :: "nat \<Rightarrow> benv \<Rightarrow> u16 \<Rightarrow> u32 list \<Rightarrow> bufw \<Rightarrow> (nat option list \<times> bufw) kres" where
  "bread_page_get f e dev [] s = Inr ([], s)"
| "bread_page_get f e dev (b # bs) s =
     bindE (if b \<noteq> 0
            then bindE (getblk f e dev b s) (\<lambda>(i, s).
                   bindE (if \<not> b_uptodate (bhs s i) then e_rw e READ i s else Inr s) (\<lambda>s. Inr (Some i, s)))
            else Inr (None, s))
       (\<lambda>(r, s). bindE (bread_page_get f e dev bs s) (\<lambda>(rs, s). Inr (r # rs, s)))"

primrec bread_page_put ::
  "benv \<Rightarrow> nat option list \<Rightarrow> u32 \<Rightarrow> (u32 \<Rightarrow> u8) \<Rightarrow> bufw \<Rightarrow> ((u32 \<Rightarrow> u8) \<times> bufw) kres" where
  "bread_page_put e [] address m s = Inr (m, s)"
| "bread_page_put e (r # rs) address m s =
     (case r of
        None \<Rightarrow> bread_page_put e rs (address + 1024) m s
      | Some i \<Rightarrow>
          let s = wait_on_buffer e i s;
              m = (if b_uptodate (bhs s i) then copyblk (b_data (bhs s i)) address m else m)
          in bindE (brelse e (Some i) s) (\<lambda>s. bread_page_put e rs (address + 1024) m s))"

definition bread_page ::
  "nat \<Rightarrow> benv \<Rightarrow> u32 \<Rightarrow> u16 \<Rightarrow> u32 list \<Rightarrow> (u32 \<Rightarrow> u8) \<Rightarrow> bufw \<Rightarrow> ((u32 \<Rightarrow> u8) \<times> bufw) kres" where
  "bread_page f e address dev bs m s =
     bindE (bread_page_get f e dev bs s) (\<lambda>(rs, s). bread_page_put e rs address m s)"

text \<open>
  The read-ahead loop of \<open>breada\<close>: for a block that is not up to date it is the first buffer, not
  the one of that block, that is passed to the driver.
\<close>

primrec breada_loop :: "nat \<Rightarrow> benv \<Rightarrow> u16 \<Rightarrow> nat \<Rightarrow> u32 list \<Rightarrow> bufw \<Rightarrow> bufw kres" where
  "breada_loop f e dev bh [] s = Inr s"
| "breada_loop f e dev bh (b # bs) s =
     bindE (getblk f e dev b s) (\<lambda>(i, s).
       bindE (if \<not> b_uptodate (bhs s i) then e_rw e READA bh s else Inr s) (\<lambda>s.
         breada_loop f e dev bh bs (upd_bh i (\<lambda>b. b\<lparr>b_count := b_count b - 1\<rparr>) s)))"

definition breada :: "nat \<Rightarrow> benv \<Rightarrow> u16 \<Rightarrow> u32 \<Rightarrow> u32 list \<Rightarrow> bufw \<Rightarrow> (nat option \<times> bufw) kres" where
  "breada f e dev first rest s =
     bindE (getblk f e dev first s) (\<lambda>(i, s).
       bindE (if \<not> b_uptodate (bhs s i) then e_rw e READ i s else Inr s) (\<lambda>s.
         bindE (breada_loop f e dev i rest s) (\<lambda>s.
           let s = wait_on_buffer e i s
           in if b_uptodate (bhs s i) then Inr (Some i, s)
              else bindE (brelse e (Some i) s) (\<lambda>s. Inr (None, s)))))"

section \<open>buffer_init\<close>

text \<open>
  How many buffers fit between the heads, of 36 bytes each, that grow from \<open>start\<close> and the data
  blocks that grow down from \<open>b\<close>, skipping the display memory below one megabyte.
\<close>

function count_buffers :: "int \<Rightarrow> int \<Rightarrow> nat \<Rightarrow> nat" where
  "count_buffers start b n =
     (let b' = b - 1024
      in if 0 \<le> start \<and> start + 36 * (int n + 1) \<le> b'
         then count_buffers start (if b' = 0x100000 then 0xA0000 else b') (Suc n)
         else n)"
  by pat_completeness auto
termination
  by (relation "measure (\<lambda>(start, b, n). nat b)") (auto simp: Let_def)

declare count_buffers.simps [simp del]

definition init_head :: "nat \<Rightarrow> nat \<Rightarrow> buffer_head \<Rightarrow> buffer_head" where
  "init_head n i b =
     b\<lparr>b_dev := 0, b_dirt := False, b_count := 0, b_lock := False, b_uptodate := False, b_wait := None,
       b_next := None, b_prev := None,
       b_prev_free := (if i = 0 then n - 1 else i - 1), b_next_free := (if i + 1 = n then 0 else i + 1)\<rparr>"

definition buffer_init :: "int \<Rightarrow> int \<Rightarrow> bufw \<Rightarrow> bufw" where
  "buffer_init start buffer_end s =
     (let b = (if buffer_end = 0x100000 then 640 * 1024 else buffer_end);
          n = count_buffers start b 0
      in s\<lparr>bhs := (\<lambda>i. if i < n then init_head n i (bhs s i) else bhs s i), NR_BUFFERS := n, free_list := 0,
           hash_table := (\<lambda>h. if h < NR_HASH then None else hash_table s h)\<rparr>)"

end
