(* ===== verification/Linked_Lists.thy ===== *)
theory Linked_Lists
  imports Kernel_Prelude
begin

text \<open>
  Doubly linked structures as lists: the ring of the buffer cache and its hash chains.  The
  pointers are functions from the index of an element to its neighbour; the predicates say that
  following them visits exactly the elements of a list, and the lemmas say what the assignments
  that unlink and link an element do to that list.
\<close>

section \<open>Rings\<close>

text \<open>From \<open>a\<close> the forward pointers lead through \<open>xs\<close> to \<open>z\<close>, and the backward ones back.\<close>

primrec seg :: "(nat \<Rightarrow> nat) \<Rightarrow> (nat \<Rightarrow> nat) \<Rightarrow> nat \<Rightarrow> nat list \<Rightarrow> nat \<Rightarrow> bool" where
  "seg nx pv a [] z \<longleftrightarrow> nx a = z \<and> pv z = a"
| "seg nx pv a (x # xs) z \<longleftrightarrow> nx a = x \<and> pv x = a \<and> seg nx pv x xs z"

definition ring :: "(nat \<Rightarrow> nat) \<Rightarrow> (nat \<Rightarrow> nat) \<Rightarrow> nat list \<Rightarrow> bool" where
  "ring nx pv xs \<longleftrightarrow> xs \<noteq> [] \<and> distinct xs \<and> seg nx pv (hd xs) (tl xs) (hd xs)"

lemma seg_append: "seg nx pv a (xs @ y # ys) z \<longleftrightarrow> seg nx pv a xs y \<and> seg nx pv y ys z"
  by (induction xs arbitrary: a) auto

lemma seg_cong:
  "(\<And>i. i = a \<or> i \<in> set xs \<Longrightarrow> nx' i = nx i) \<Longrightarrow> (\<And>i. i = z \<or> i \<in> set xs \<Longrightarrow> pv' i = pv i) \<Longrightarrow>
   seg nx' pv' a xs z = seg nx pv a xs z"
  by (induction xs arbitrary: a) auto

lemma seg_ends: "seg nx pv a xs z \<Longrightarrow> pv z = last (a # xs) \<and> nx a = hd (xs @ [z])"
  by (induction xs arbitrary: a) auto

lemma ring_rotate: "ring nx pv (x # xs) \<Longrightarrow> ring nx pv (xs @ [x])"
proof (cases xs)
  case (Cons y ys)
  assume "ring nx pv (x # xs)"
  then show ?thesis using Cons seg_append [of nx pv y ys x "[]" y] by (simp add: ring_def)
qed simp

lemma ring_rotates: "ring nx pv (us @ vs) \<Longrightarrow> ring nx pv (vs @ us)"
proof (induction us arbitrary: vs)
  case (Cons u us)
  then have "ring nx pv (us @ (vs @ [u]))" using ring_rotate [of nx pv u "us @ vs"] by simp
  from Cons.IH [OF this] show ?case by simp
qed simp

text \<open>Unlinking the first element of a ring of at least two.\<close>

lemma ring_unlink_hd:
  assumes "ring nx pv (y # x # xs)" and nx': "nx' = nx(pv y := nx y)" and pv': "pv' = pv(nx y := pv y)"
  shows "ring nx' pv' (x # xs)"
proof -
  have d: "distinct (y # x # xs)" and s: "nx y = x" "pv x = y" "seg nx pv x xs y"
    using assms(1) by (auto simp: ring_def)
  show ?thesis
  proof (cases xs rule: rev_cases)
    case Nil
    then have "pv y = x" using s(3) by simp
    then show ?thesis using Nil s by (simp add: ring_def nx' pv')
  next
    case (snoc us z)
    then have z: "seg nx pv x us z" "nx z = y" "pv y = z"
      using s(3) seg_append [of nx pv x us z "[]" y] by auto
    have dd: "distinct (x # us @ [z])" "y \<notin> set (x # us @ [z])" using d snoc by auto
    have "seg nx' pv' x us z = seg nx pv x us z"
      by (rule seg_cong) (use dd z s in \<open>auto simp: nx' pv'\<close>)
    moreover have "nx' z = x" "pv' x = z" by (simp_all add: nx' pv' z s(1))
    ultimately have "seg nx' pv' x (us @ [z]) x"
      using z(1) seg_append [of nx' pv' x us z "[]" x] by simp
    then show ?thesis using d snoc by (simp add: ring_def)
  qed
qed

lemma ring_unlink:
  assumes r: "ring nx pv xs" and "y \<in> set xs" and "2 \<le> length xs"
    and nx': "nx' = nx(pv y := nx y)" and pv': "pv' = pv(nx y := pv y)"
  shows "ring nx' pv' (remove1 y xs)" and "hd xs = y \<Longrightarrow> hd (remove1 y xs) = nx y"
    and "hd xs \<noteq> y \<Longrightarrow> hd (remove1 y xs) = hd xs"
proof -
  obtain us vs where xs: "xs = us @ y # vs" "y \<notin> set us" using split_list_first [OF assms(2)] by blast
  have "ring nx pv (y # vs @ us)" using ring_rotates [of nx pv us "y # vs"] r xs by simp
  moreover have "vs @ us \<noteq> []" using assms(3) xs by (cases us) auto
  then obtain x zs where vu: "vs @ us = x # zs" by (cases "vs @ us") auto
  ultimately have "ring nx' pv' (vs @ us)" using ring_unlink_hd [OF _ nx' pv'] by simp
  moreover have rm: "remove1 y xs = us @ vs" using xs by (simp add: remove1_append)
  ultimately show "ring nx' pv' (remove1 y xs)" using ring_rotates by metis
  have n: "nx y = x" using \<open>ring nx pv (y # vs @ us)\<close> vu by (simp add: ring_def)
  show "hd (remove1 y xs) = nx y" if "hd xs = y"
    using that xs vu n rm by (cases us) auto
  show "hd (remove1 y xs) = hd xs" if "hd xs \<noteq> y"
    using that xs rm by (cases us) auto
qed

text \<open>Linking an element in before the head, which is at the end of the list.\<close>

lemma ring_link:
  assumes r: "ring nx pv xs" and y: "y \<notin> set xs" and h: "h = hd xs"
    and nx': "nx' = nx(y := h, pv h := y)" and pv': "pv' = pv(y := pv h, h := y)"
  shows "ring nx' pv' (xs @ [y])"
proof -
  obtain ys where xs: "xs = h # ys" using r h by (cases xs) (auto simp: ring_def)
  have d: "distinct (h # ys)" and s: "seg nx pv h ys h" using r xs by (auto simp: ring_def)
  have l: "pv h = last (h # ys)" using seg_ends [OF s] by simp
  have "seg nx' pv' h (ys @ [y]) h"
  proof (cases ys rule: rev_cases)
    case Nil
    then show ?thesis using l y xs by (auto simp: nx' pv')
  next
    case (snoc us z)
    have z: "pv h = z" using l snoc by simp
    have "seg nx pv h us z" using s snoc seg_append [of nx pv h us z "[]" h] by simp
    moreover have "seg nx' pv' h us z = seg nx pv h us z"
      by (rule seg_cong) (use d y xs snoc z in \<open>auto simp: nx' pv'\<close>)
    moreover have "seg nx' pv' z [y] h" using z y xs snoc by (auto simp: nx' pv')
    ultimately show ?thesis using snoc seg_append [of nx' pv' h us z "[y]" h] by simp
  qed
  then show ?thesis using d y xs by (simp add: ring_def)
qed

section \<open>Chains\<close>

text \<open>From \<open>p\<close> the forward pointers lead through the list to a null pointer.\<close>

primrec nlist ::
  "(nat \<Rightarrow> nat option) \<Rightarrow> (nat \<Rightarrow> nat option) \<Rightarrow> nat option \<Rightarrow> nat option \<Rightarrow> nat list \<Rightarrow> bool" where
  "nlist nx pv prev p [] \<longleftrightarrow> p = None"
| "nlist nx pv prev p (x # xs) \<longleftrightarrow> p = Some x \<and> pv x = prev \<and> nlist nx pv (Some x) (nx x) xs"

lemma nlist_cong:
  "(\<And>i. i \<in> set xs \<Longrightarrow> nx' i = nx i) \<Longrightarrow> (\<And>i. i \<in> set xs \<Longrightarrow> pv' i = pv i) \<Longrightarrow>
   nlist nx' pv' prev p xs = nlist nx pv prev p xs"
  by (induction xs arbitrary: prev p) auto

lemma nlist_push:
  assumes "nlist nx pv None p xs" and "y \<notin> set xs" and "distinct xs"
  shows "nlist (nx(y := p)) ((pv(y := None))(case p of None \<Rightarrow> y | Some q \<Rightarrow> q := case p of None \<Rightarrow> None | Some q \<Rightarrow> Some y))
    None (Some y) (y # xs)"
proof (cases xs)
  case Nil
  then show ?thesis using assms by simp
next
  case (Cons x zs)
  have "nlist (nx(y := p)) (pv(y := None, x := Some y)) (Some x) (nx x) zs = nlist nx pv (Some x) (nx x) zs"
    by (rule nlist_cong) (use assms Cons in auto)
  then show ?thesis using assms Cons by auto
qed

text \<open>Unlinking an element of a chain.\<close>

definition unlink_nx :: "nat \<Rightarrow> (nat \<Rightarrow> nat option) \<Rightarrow> (nat \<Rightarrow> nat option) \<Rightarrow> nat \<Rightarrow> nat option" where
  "unlink_nx y nx pv = (case pv y of None \<Rightarrow> nx | Some p \<Rightarrow> nx(p := nx y))"

definition unlink_pv :: "nat \<Rightarrow> (nat \<Rightarrow> nat option) \<Rightarrow> (nat \<Rightarrow> nat option) \<Rightarrow> nat \<Rightarrow> nat option" where
  "unlink_pv y nx pv = (case nx y of None \<Rightarrow> pv | Some n \<Rightarrow> pv(n := pv y))"

lemma nlist_links:
  assumes "nlist nx pv prev p (us @ y # vs)"
  shows "pv y = (if us = [] then prev else Some (last us))"
    and "nx y = (if vs = [] then None else Some (hd vs))"
proof -
  show "pv y = (if us = [] then prev else Some (last us))"
    using assms by (induction us arbitrary: prev p) auto
  show "nx y = (if vs = [] then None else Some (hd vs))"
    using assms by (induction us arbitrary: prev p) (auto, (cases vs, auto)+)
qed

lemma nlist_split:
  assumes "distinct (us @ vs)" and "us \<noteq> []"
  shows "nlist nx pv prev p (us @ vs) \<longleftrightarrow>
    nlist (nx(last us := None)) pv prev p us \<and> nlist nx pv (Some (last us)) (nx (last us)) vs"
  using assms
proof (induction us arbitrary: prev p)
  case (Cons u us)
  show ?case
  proof (cases "us = []")
    case False
    then have l: "last us \<noteq> u" using Cons.prems by auto
    then show ?thesis using False Cons.IH [of "Some u" "nx u"] Cons.prems(1) by auto
  qed simp
qed simp

lemma nlist_unlink:
  assumes c: "nlist nx pv None p xs" and y: "y \<in> set xs" and d: "distinct xs"
  shows "nlist (unlink_nx y nx pv) (unlink_pv y nx pv) None (if p = Some y then nx y else p) (remove1 y xs)"
proof -
  obtain us vs where xs: "xs = us @ y # vs" "y \<notin> set us" using split_list_first [OF y] by blast
  note L = nlist_links [OF c [unfolded xs]]
  let ?nx = "unlink_nx y nx pv" and ?pv = "unlink_pv y nx pv"
  have rm: "remove1 y xs = us @ vs" using xs by (simp add: remove1_append)
  have pv: "?pv = (if vs = [] then pv else pv(hd vs := pv y))"
    using L(2) by (simp add: unlink_pv_def)
  have lv: "last us \<notin> set vs" if "us \<noteq> []"
    using last_in_set [OF that] d xs(1) by fastforce
  have tail: "nlist ?nx ?pv (pv y) (nx y) vs" if "nlist nx pv (Some y) (nx y) vs"
  proof (cases vs)
    case (Cons v vs')
    have "nlist ?nx ?pv (Some v) (nx v) vs' = nlist nx pv (Some v) (nx v) vs'"
    proof (rule nlist_cong)
      show "?nx i = nx i" if "i \<in> set vs'" for i
        using that L(1) lv Cons by (cases "us = []") (auto simp: unlink_nx_def)
      show "?pv i = pv i" if "i \<in> set vs'" for i
        using that d xs Cons by (auto simp: pv)
    qed
    moreover have "?nx v = nx v" using L(1) lv Cons by (cases "us = []") (auto simp: unlink_nx_def)
    ultimately show ?thesis using that Cons by (simp add: pv)
  qed (use that in simp)
  show ?thesis
  proof (cases "us = []")
    case True
    then have "p = Some y" "pv y = None" "nlist nx pv (Some y) (nx y) vs" using c xs by auto
    then show ?thesis using tail True rm by simp
  next
    case False
    have p: "p \<noteq> Some y" using c xs False by (cases us) auto
    have s: "nlist (nx(last us := None)) pv None p us" "nlist nx pv (Some (last us)) (nx (last us)) (y # vs)"
      using nlist_split [of us "y # vs" nx pv None p] c xs d False by auto
    have nx: "?nx = nx(last us := nx y)" using L(1) False by (simp add: unlink_nx_def)
    have "nlist (?nx(last us := None)) ?pv None p us = nlist (nx(last us := None)) pv None p us"
      by (rule nlist_cong) (use d xs pv in \<open>auto simp: nx\<close>)
    moreover have "nlist ?nx ?pv (Some (last us)) (?nx (last us)) vs"
      using tail s(2) L(1) False by (simp add: nx)
    ultimately have "nlist ?nx ?pv None p (us @ vs)"
      using s(1) nlist_split [of us vs ?nx ?pv None p] d xs False by simp
    then show ?thesis using p rm by simp
  qed
qed

end
