(* ===== verification/Buffer_Cache.thy ===== *)
theory Buffer_Cache
  imports Buffer Linked_Lists
begin

text \<open>
  The invariant of the buffer cache and what \<open>getblk\<close> does to it: the ring is a list of all
  buffers, least recently taken first; each hash chain is a list of exactly the buffers whose
  block has that hash value; no block is in two buffers.
\<close>

section \<open>The invariant\<close>

definition NF :: "bufw \<Rightarrow> nat \<Rightarrow> nat" where "NF s i = b_next_free (bhs s i)"
definition PF :: "bufw \<Rightarrow> nat \<Rightarrow> nat" where "PF s i = b_prev_free (bhs s i)"
definition NH :: "bufw \<Rightarrow> nat \<Rightarrow> nat option" where "NH s i = b_next (bhs s i)"
definition PH :: "bufw \<Rightarrow> nat \<Rightarrow> nat option" where "PH s i = b_prev (bhs s i)"

text \<open>The buffers that belong on chain \<open>h\<close>, those of \<open>X\<close> left out.\<close>

definition on_chain :: "bufw \<Rightarrow> nat set \<Rightarrow> nat \<Rightarrow> nat set" where
  "on_chain s X h = {i. i < NR_BUFFERS s \<and> i \<notin> X \<and> b_dev (bhs s i) \<noteq> 0 \<and> hash_bh s i = h}"

definition ring_inv :: "bufw \<Rightarrow> nat list \<Rightarrow> nat set \<Rightarrow> bool" where
  "ring_inv s fl X \<longleftrightarrow>
     ring (NF s) (PF s) fl \<and> hd fl = free_list s \<and> set fl = {..<NR_BUFFERS s} - X"

definition hash_inv :: "bufw \<Rightarrow> (nat \<Rightarrow> nat list) \<Rightarrow> nat set \<Rightarrow> bool" where
  "hash_inv s hl X \<longleftrightarrow>
     (\<forall>h < NR_HASH. distinct (hl h) \<and> nlist (NH s) (PH s) None (hash_table s h) (hl h) \<and>
        set (hl h) = on_chain s X h) \<and>
     (\<forall>i < NR_BUFFERS s. i \<notin> X \<longrightarrow> b_dev (bhs s i) = 0 \<longrightarrow> NH s i = None \<and> PH s i = None)"

definition unique_blocks :: "bufw \<Rightarrow> bool" where
  "unique_blocks s \<longleftrightarrow>
     (\<forall>i < NR_BUFFERS s. \<forall>j < NR_BUFFERS s. b_dev (bhs s i) \<noteq> 0 \<longrightarrow>
        b_dev (bhs s i) = b_dev (bhs s j) \<longrightarrow> b_blocknr (bhs s i) = b_blocknr (bhs s j) \<longrightarrow> i = j)"

definition buf_inv :: "bufw \<Rightarrow> nat list \<Rightarrow> bool" where
  "buf_inv s fl \<longleftrightarrow>
     2 \<le> NR_BUFFERS s \<and> ring_inv s fl {} \<and> (\<exists>hl. hash_inv s hl {}) \<and> unique_blocks s"

lemma hashfn_less: "hashfn dev block < NR_HASH"
  by (simp add: hashfn_def)

lemma upd_bh_simps [simp]:
  "NR_BUFFERS (upd_bh i f s) = NR_BUFFERS s" "hash_table (upd_bh i f s) = hash_table s"
  "free_list (upd_bh i f s) = free_list s" "bhs (upd_bh i f s) j = (if j = i then f (bhs s i) else bhs s j)"
  by (simp_all add: upd_bh_def)

section \<open>Unlinking\<close>

lemma remove_from_hash_links:
  "NH (remove_from_hash i s) = unlink_nx i (NH s) (PH s)"
  "PH (remove_from_hash i s) = unlink_pv i (NH s) (PH s)"
  "NF (remove_from_hash i s) = NF s" "PF (remove_from_hash i s) = PF s"
  "NR_BUFFERS (remove_from_hash i s) = NR_BUFFERS s" "free_list (remove_from_hash i s) = free_list s"
  "hash_table (remove_from_hash i s) =
     (if hash_table s (hash_bh s i) = Some i then (hash_table s)(hash_bh s i := NH s i) else hash_table s)"
  "b_dev (bhs (remove_from_hash i s) j) = b_dev (bhs s j)"
  "b_blocknr (bhs (remove_from_hash i s) j) = b_blocknr (bhs s j)"
  by (auto simp: remove_from_hash_def Let_def NH_def PH_def NF_def PF_def unlink_nx_def unlink_pv_def fun_eq_iff
      split: option.splits)

lemma remove_from_hash_inv:
  assumes inv: "hash_inv s hl {}" and i: "i < NR_BUFFERS s"
  shows "\<exists>hl'. hash_inv (remove_from_hash i s) hl' {i}"
proof (cases "b_dev (bhs s i) = 0")
  case True
  note L = remove_from_hash_links [of i s]
  have n: "NH s i = None" "PH s i = None" using inv i True by (auto simp: hash_inv_def)
  have t: "hash_table s (hash_bh s i) \<noteq> Some i"
  proof
    let ?h = "hash_bh s i"
    assume "hash_table s ?h = Some i"
    moreover have "nlist (NH s) (PH s) None (hash_table s ?h) (hl ?h)" "set (hl ?h) = on_chain s {} ?h"
      using inv hashfn_less by (simp_all add: hash_inv_def hash_bh_def)
    ultimately have "i \<in> on_chain s {} ?h" by (cases "hl ?h") auto
    then show False using True by (simp add: on_chain_def)
  qed
  have "on_chain (remove_from_hash i s) {i} h = on_chain s {} h" for h
    using True by (auto simp: on_chain_def hash_bh_def L)
  then have "hash_inv (remove_from_hash i s) hl {i}"
    using inv n t by (simp add: hash_inv_def L unlink_nx_def unlink_pv_def)
  then show ?thesis by blast
next
  case False
  note L = remove_from_hash_links [of i s]
  let ?h = "hash_bh s i" and ?s = "remove_from_hash i s"
  let ?hl = "hl(?h := remove1 i (hl ?h))"
  have h: "?h < NR_HASH" by (simp add: hash_bh_def hashfn_less)
  have c: "distinct (hl h)" "nlist (NH s) (PH s) None (hash_table s h) (hl h)" "set (hl h) = on_chain s {} h"
    if "h < NR_HASH" for h
    using inv that by (simp_all add: hash_inv_def)
  have ih: "i \<in> set (hl ?h)" using c(3) [OF h] i False by (simp add: on_chain_def)
  obtain us vs where us: "hl ?h = us @ i # vs" using split_list [OF ih] by blast
  note lk = nlist_links [OF c(2) [OF h, unfolded us]]
  have nb: "NH s i = Some q \<Longrightarrow> q \<in> set (hl ?h)" "PH s i = Some q \<Longrightarrow> q \<in> set (hl ?h)" for q
    using lk by (auto simp: us split: if_splits)
  have dev: "b_dev (bhs s q) \<noteq> 0 \<and> hash_bh s q = ?h" if "q \<in> set (hl ?h)" for q
    using that c(3) [OF h] by (simp add: on_chain_def)
  have oc: "on_chain ?s {i} h = on_chain s {} h - {i}" for h
    by (auto simp: on_chain_def hash_bh_def L)
  have "hash_inv ?s ?hl {i}"
    unfolding hash_inv_def
  proof (intro conjI allI impI)
    fix h assume h': "h < NR_HASH"
    show "distinct (?hl h)" using c(1) [OF h] c(1) [OF h'] by (simp add: distinct_remove1)
    show "set (?hl h) = on_chain ?s {i} h"
    proof (cases "h = ?h")
      case True
      then show ?thesis using c(1,3) [OF h] by (simp add: oc)
    next
      case ne: False
      then have "i \<notin> on_chain s {} h" by (simp add: on_chain_def)
      then show ?thesis using ne c(3) [OF h'] by (simp add: oc)
    qed
    show "nlist (NH ?s) (PH ?s) None (hash_table ?s h) (?hl h)"
    proof (cases "h = ?h")
      case True
      then show ?thesis
        using nlist_unlink [OF c(2) [OF h] ih c(1) [OF h]] by (simp add: L split: if_splits)
    next
      case ne: False
      have "nlist (NH ?s) (PH ?s) None (hash_table s h) (hl h) = nlist (NH s) (PH s) None (hash_table s h) (hl h)"
      proof (rule nlist_cong)
        fix j assume "j \<in> set (hl h)"
        then have j: "j \<notin> set (hl ?h)" using c(3) [OF h'] dev ne by (auto simp: on_chain_def)
        show "NH ?s j = NH s j" using j nb(2) by (auto simp: L unlink_nx_def split: option.split)
        show "PH ?s j = PH s j" using j nb(1) by (auto simp: L unlink_pv_def split: option.split)
      qed
      then show ?thesis using ne c(2) [OF h'] by (simp add: L)
    qed
  next
    fix j assume "j < NR_BUFFERS ?s" "j \<notin> {i}" "b_dev (bhs ?s j) = 0"
    then have j0: "j < NR_BUFFERS s" "b_dev (bhs s j) = 0" by (simp_all add: L)
    have j: "NH s j = None" "PH s j = None" using inv j0 by (simp_all add: hash_inv_def)
    have jn: "j \<notin> set (hl ?h)" using dev [of j] j0(2) by blast
    show "NH ?s j = None" using j jn nb(2) by (auto simp: L unlink_nx_def split: option.split)
    show "PH ?s j = None" using j jn nb(1) by (auto simp: L unlink_pv_def split: option.split)
  qed
  then show ?thesis by blast
qed

lemma remove_from_ring_links:
  assumes "PF s i \<noteq> i"
  shows "NF (remove_from_ring i s) = (NF s)(PF s i := NF s i)"
    "PF (remove_from_ring i s) = (PF s)(NF s i := PF s i)"
    "free_list (remove_from_ring i s) = (if free_list s = i then NF s i else free_list s)"
  using assms by (auto simp: remove_from_ring_def Let_def NF_def PF_def fun_eq_iff)

lemma remove_from_ring_other:
  "NH (remove_from_ring i s) = NH s" "PH (remove_from_ring i s) = PH s"
  "NR_BUFFERS (remove_from_ring i s) = NR_BUFFERS s" "hash_table (remove_from_ring i s) = hash_table s"
  "b_dev (bhs (remove_from_ring i s) j) = b_dev (bhs s j)"
  "b_blocknr (bhs (remove_from_ring i s) j) = b_blocknr (bhs s j)"
  by (auto simp: remove_from_ring_def Let_def NH_def PH_def fun_eq_iff)

lemma ring_neighbour:
  assumes "ring nx pv xs" and "i \<in> set xs" and "2 \<le> length xs"
  shows "pv i \<noteq> i"
proof -
  obtain us vs where xs: "xs = us @ i # vs" using split_list [OF assms(2)] by blast
  have r: "ring nx pv (i # vs @ us)" using ring_rotates [of nx pv us "i # vs"] assms(1) xs by simp
  have "pv i = last (i # vs @ us)" using r seg_ends by (fastforce simp: ring_def)
  moreover have "vs @ us \<noteq> []" using assms(3) xs by (cases us) auto
  ultimately have "pv i \<in> set (vs @ us)" using last_in_set [of "vs @ us"] by simp
  then show ?thesis using r by (auto simp: ring_def)
qed

lemma remove_from_ring_inv:
  assumes inv: "ring_inv s fl {}" and i: "i < NR_BUFFERS s" and n: "2 \<le> NR_BUFFERS s"
  shows "ring_inv (remove_from_ring i s) (remove1 i fl) {i}"
proof -
  have r: "ring (NF s) (PF s) fl" "hd fl = free_list s" "set fl = {..<NR_BUFFERS s}"
    using inv by (auto simp: ring_inv_def)
  have d: "distinct fl" using r(1) by (simp add: ring_def)
  have len: "length fl = NR_BUFFERS s" using distinct_card [OF d] r(3) by simp
  have ii: "i \<in> set fl" "2 \<le> length fl" using r(3) i n len by auto
  note L = remove_from_ring_links [OF ring_neighbour [OF r(1) ii]]
  show ?thesis
    using ring_unlink [OF r(1) ii refl refl] r(2,3) d
    by (auto simp: ring_inv_def L remove_from_ring_other set_remove1_eq)
qed

section \<open>Linking\<close>

lemma insert_into_ring_links:
  assumes "f = free_list s" and "i \<noteq> f" and "PF s f \<noteq> i"
  shows "NF (insert_into_ring i s) = (NF s)(i := f, PF s f := i)"
    "PF (insert_into_ring i s) = (PF s)(i := PF s f, f := i)"
  using assms by (auto simp: insert_into_ring_def Let_def NF_def PF_def fun_eq_iff)

lemma insert_into_ring_other:
  "NH (insert_into_ring i s) = NH s" "PH (insert_into_ring i s) = PH s"
  "NR_BUFFERS (insert_into_ring i s) = NR_BUFFERS s" "hash_table (insert_into_ring i s) = hash_table s"
  "free_list (insert_into_ring i s) = free_list s"
  "b_dev (bhs (insert_into_ring i s) j) = b_dev (bhs s j)"
  "b_blocknr (bhs (insert_into_ring i s) j) = b_blocknr (bhs s j)"
  by (auto simp: insert_into_ring_def Let_def NH_def PH_def fun_eq_iff)

lemma insert_into_ring_inv:
  assumes inv: "ring_inv s fl {i}" and i: "i < NR_BUFFERS s"
  shows "ring_inv (insert_into_ring i s) (fl @ [i]) {}"
proof -
  have r: "ring (NF s) (PF s) fl" "hd fl = free_list s" "set fl = {..<NR_BUFFERS s} - {i}"
    using inv by (auto simp: ring_inv_def)
  have ne: "fl \<noteq> []" using r(1) by (simp add: ring_def)
  have f: "free_list s \<in> set fl" using r(2) ne by (metis list.set_sel(1))
  have "PF s (free_list s) = last fl"
    using r(1,2) seg_ends [of "NF s" "PF s" "hd fl" "tl fl" "hd fl"] by (cases fl) (simp_all add: ring_def)
  then have p: "PF s (free_list s) \<noteq> i" "i \<noteq> free_list s" "i \<notin> set fl"
    using r(3) f ne last_in_set [of fl] by auto
  note L = insert_into_ring_links [OF refl p(2,1)]
  show ?thesis
    using ring_link [OF r(1) p(3) r(2) [symmetric] refl refl] ne r(2,3) i
    by (auto simp: ring_inv_def L insert_into_ring_other)
qed

lemma insert_into_hash_links:
  "NR_BUFFERS (insert_into_hash i s) = NR_BUFFERS s" "free_list (insert_into_hash i s) = free_list s"
  "NF (insert_into_hash i s) = NF s" "PF (insert_into_hash i s) = PF s"
  "b_dev (bhs (insert_into_hash i s) j) = b_dev (bhs s j)"
  "b_blocknr (bhs (insert_into_hash i s) j) = b_blocknr (bhs s j)"
  by (auto simp: insert_into_hash_def set_b_prev_def Let_def NF_def PF_def fun_eq_iff split: option.split)

lemma insert_into_hash_pointers:
  assumes "b_dev (bhs s i) \<noteq> 0" and h: "h = hash_bh s i" and ne: "hash_table s h \<noteq> Some i"
  shows "NH (insert_into_hash i s) = (NH s)(i := hash_table s h)"
    "PH (insert_into_hash i s) =
       (case hash_table s h of None \<Rightarrow> (PH s)(i := None) | Some q \<Rightarrow> (PH s)(i := None, q := Some i))"
    "hash_table (insert_into_hash i s) = (hash_table s)(h := Some i)"
  using assms
  by (auto simp: insert_into_hash_def set_b_prev_def Let_def NH_def PH_def hash_bh_def fun_eq_iff split: option.split)

lemma insert_into_hash_inv:
  assumes inv: "hash_inv s hl {i}" and i: "i < NR_BUFFERS s" and dev: "b_dev (bhs s i) \<noteq> 0"
  shows "\<exists>hl'. hash_inv (insert_into_hash i s) hl' {}"
proof -
  let ?h = "hash_bh s i" and ?s = "insert_into_hash i s"
  let ?hl = "hl(?h := i # hl ?h)"
  have h: "?h < NR_HASH" by (simp add: hash_bh_def hashfn_less)
  have c: "distinct (hl h)" "nlist (NH s) (PH s) None (hash_table s h) (hl h)" "set (hl h) = on_chain s {i} h"
    if "h < NR_HASH" for h
    using inv that by (simp_all add: hash_inv_def)
  have ni: "i \<notin> set (hl h)" if "h < NR_HASH" for h using c(3) [OF that] by (simp add: on_chain_def)
  have t: "hash_table s ?h \<noteq> Some i" using c(2) [OF h] ni [OF h] by (cases "hl ?h") auto
  note L = insert_into_hash_links [of i s] and P = insert_into_hash_pointers [OF dev refl t]
  have q: "q \<in> set (hl ?h)" if "hash_table s ?h = Some q" for q
    using c(2) [OF h] that by (cases "hl ?h") auto
  have oc: "on_chain ?s {} h = (if h = ?h then insert i (on_chain s {i} h) else on_chain s {i} h)" for h
    using i dev by (auto simp: on_chain_def hash_bh_def L)
  have "hash_inv ?s ?hl {}"
    unfolding hash_inv_def
  proof (intro conjI allI impI)
    fix h assume h': "h < NR_HASH"
    show "distinct (?hl h)" using c(1) [OF h'] ni [OF h] by auto
    show "set (?hl h) = on_chain ?s {} h" using c(3) [OF h'] oc by auto
    show "nlist (NH ?s) (PH ?s) None (hash_table ?s h) (?hl h)"
    proof (cases "h = ?h")
      case True
      have "nlist (NH ?s) (PH ?s) None (Some i) (i # hl ?h)"
        using nlist_push [OF c(2) [OF h] ni [OF h] c(1) [OF h]]
        by (cases "hash_table s ?h") (simp_all add: P)
      then show ?thesis using True by (simp add: P)
    next
      case ne: False
      have "nlist (NH ?s) (PH ?s) None (hash_table s h) (hl h) = nlist (NH s) (PH s) None (hash_table s h) (hl h)"
      proof (rule nlist_cong)
        fix j assume j: "j \<in> set (hl h)"
        then have "j \<noteq> i" "j \<notin> set (hl ?h)"
          using ni [OF h'] c(3) [OF h'] c(3) [OF h] ne by (auto simp: on_chain_def)
        then show "NH ?s j = NH s j" "PH ?s j = PH s j"
          using q by (auto simp: P split: option.split)
      qed
      then show ?thesis using ne c(2) [OF h'] by (simp add: P)
    qed
  next
    fix j assume j: "j < NR_BUFFERS ?s" "b_dev (bhs ?s j) = 0"
    then have ne: "j \<noteq> i" using dev by (auto simp: L)
    have n: "NH s j = None" "PH s j = None" using inv j ne by (auto simp: hash_inv_def L)
    have "j \<notin> set (hl ?h)" using c(3) [OF h] j(2) by (auto simp: on_chain_def L)
    then show "NH ?s j = None" "PH ?s j = None" using n ne q by (auto simp: P split: option.split)
  qed
  then show ?thesis by blast
qed

section \<open>Taking a buffer for a block\<close>

lemma hash_inv_cong:
  assumes "NH s' = NH s" "PH s' = PH s" "hash_table s' = hash_table s" "NR_BUFFERS s' = NR_BUFFERS s"
    and "\<And>j. j \<notin> X \<Longrightarrow> b_dev (bhs s' j) = b_dev (bhs s j) \<and> b_blocknr (bhs s' j) = b_blocknr (bhs s j)"
  shows "hash_inv s' hl X = hash_inv s hl X"
proof -
  have "on_chain s' X h = on_chain s X h" for h
    using assms(4,5) by (auto simp: on_chain_def hash_bh_def)
  then show ?thesis using assms by (simp add: hash_inv_def)
qed

lemma ring_inv_cong:
  assumes "NF s' = NF s" "PF s' = PF s" "free_list s' = free_list s" "NR_BUFFERS s' = NR_BUFFERS s"
  shows "ring_inv s' fl X = ring_inv s fl X"
  using assms by (simp add: ring_inv_def)

lemma upd_bh_links:
  "(\<And>b. b_next (f b) = b_next b) \<Longrightarrow> NH (upd_bh i f s) = NH s"
  "(\<And>b. b_prev (f b) = b_prev b) \<Longrightarrow> PH (upd_bh i f s) = PH s"
  "(\<And>b. b_next_free (f b) = b_next_free b) \<Longrightarrow> NF (upd_bh i f s) = NF s"
  "(\<And>b. b_prev_free (f b) = b_prev_free b) \<Longrightarrow> PF (upd_bh i f s) = PF s"
  by (auto simp: NH_def PH_def NF_def PF_def fun_eq_iff)

text \<open>The invariant speaks of the blocks and the links only.\<close>

definition same_cache :: "bufw \<Rightarrow> bufw \<Rightarrow> bool" where
  "same_cache s' s \<longleftrightarrow>
     NR_BUFFERS s' = NR_BUFFERS s \<and> hash_table s' = hash_table s \<and> free_list s' = free_list s \<and>
     (\<forall>i. b_dev (bhs s' i) = b_dev (bhs s i) \<and> b_blocknr (bhs s' i) = b_blocknr (bhs s i) \<and>
        b_next (bhs s' i) = b_next (bhs s i) \<and> b_prev (bhs s' i) = b_prev (bhs s i) \<and>
        b_next_free (bhs s' i) = b_next_free (bhs s i) \<and> b_prev_free (bhs s' i) = b_prev_free (bhs s i))"

lemma same_cache_refl [simp]: "same_cache s s"
  by (simp add: same_cache_def)

lemma same_cache_trans [trans]: "same_cache s'' s' \<Longrightarrow> same_cache s' s \<Longrightarrow> same_cache s'' s"
  by (simp add: same_cache_def)

lemma same_cache_upd_bh:
  assumes "\<And>b. b_next (f b) = b_next b \<and> b_prev (f b) = b_prev b \<and> b_next_free (f b) = b_next_free b \<and>
    b_prev_free (f b) = b_prev_free b \<and> b_dev (f b) = b_dev b \<and> b_blocknr (f b) = b_blocknr b"
  shows "same_cache (upd_bh i f s) s"
  using assms by (simp add: same_cache_def)

lemma same_cache_inv:
  assumes c: "same_cache s' s" and inv: "buf_inv s fl"
  shows "buf_inv s' fl"
proof -
  have "hash_inv s' hl {} = hash_inv s hl {}" for hl
    by (rule hash_inv_cong) (use c in \<open>simp_all add: same_cache_def NH_def PH_def fun_eq_iff\<close>)
  moreover have "ring_inv s' fl {} = ring_inv s fl {}"
    by (rule ring_inv_cong) (use c in \<open>simp_all add: same_cache_def NF_def PF_def fun_eq_iff\<close>)
  moreover have "unique_blocks s' = unique_blocks s" using c by (simp add: unique_blocks_def same_cache_def)
  ultimately show ?thesis using inv c by (simp add: buf_inv_def same_cache_def)
qed

lemmas buf_inv_upd_bh = same_cache_inv [OF same_cache_upd_bh]

lemma take_buffer_fields:
  "b_dev (bhs (take_buffer i dev block s) j) = (if j = i then dev else b_dev (bhs s j))"
  "b_blocknr (bhs (take_buffer i dev block s) j) = (if j = i then block else b_blocknr (bhs s j))"
  "NR_BUFFERS (take_buffer i dev block s) = NR_BUFFERS s"
  by (simp_all add: take_buffer_def Let_def insert_into_queues_def insert_into_hash_links insert_into_ring_other
      remove_from_queues_def remove_from_ring_other remove_from_hash_links)

lemma hash_inv_ring:
  "hash_inv (remove_from_ring i s) hl X = hash_inv s hl X"
  "hash_inv (insert_into_ring i s) hl X = hash_inv s hl X"
  by (rule hash_inv_cong; simp add: remove_from_ring_other insert_into_ring_other)+

lemma ring_inv_hash:
  "ring_inv (remove_from_hash i s) fl X = ring_inv s fl X"
  "ring_inv (insert_into_hash i s) fl X = ring_inv s fl X"
  by (rule ring_inv_cong; simp add: remove_from_hash_links insert_into_hash_links)+

lemma take_buffer_inv:
  assumes inv: "buf_inv s fl" and i: "i < NR_BUFFERS s" and dev: "dev \<noteq> 0"
    and new: "\<And>j. j < NR_BUFFERS s \<Longrightarrow> \<not> (b_dev (bhs s j) = dev \<and> b_blocknr (bhs s j) = block)"
  shows "buf_inv (take_buffer i dev block s) (remove1 i fl @ [i])"
proof -
  let ?s1 = "upd_bh i (\<lambda>b. b\<lparr>b_count := 1, b_dirt := False, b_uptodate := False\<rparr>) s"
  let ?s2 = "remove_from_queues i ?s1"
  let ?s3 = "upd_bh i (\<lambda>b. b\<lparr>b_dev := dev, b_blocknr := block\<rparr>) ?s2"
  have i1: "buf_inv ?s1 fl" by (rule buf_inv_upd_bh [OF _ inv]) simp
  then obtain hl where h1: "hash_inv ?s1 hl {}" and r1: "ring_inv ?s1 fl {}" and n: "2 \<le> NR_BUFFERS s"
    by (auto simp: buf_inv_def)
  obtain hl2 where "hash_inv (remove_from_hash i ?s1) hl2 {i}"
    using remove_from_hash_inv [OF h1] i by auto
  then have h2: "hash_inv ?s2 hl2 {i}" by (simp add: remove_from_queues_def hash_inv_ring)
  have r2: "ring_inv ?s2 (remove1 i fl) {i}"
    unfolding remove_from_queues_def
    by (rule remove_from_ring_inv) (use r1 i n in \<open>simp_all add: ring_inv_hash remove_from_hash_links\<close>)
  have h3: "hash_inv ?s3 hl2 {i} = hash_inv ?s2 hl2 {i}"
    by (rule hash_inv_cong) (simp_all add: upd_bh_links)
  have r3: "ring_inv ?s3 (remove1 i fl) {i} = ring_inv ?s2 (remove1 i fl) {i}"
    by (rule ring_inv_cong) (simp_all add: upd_bh_links)
  have i3: "i < NR_BUFFERS ?s3" using i
    by (simp add: remove_from_queues_def remove_from_ring_other remove_from_hash_links)
  have r4: "ring_inv (insert_into_ring i ?s3) (remove1 i fl @ [i]) {}"
    by (rule insert_into_ring_inv) (use r3 r2 i3 in simp_all)
  have h4: "\<exists>hl'. hash_inv (insert_into_hash i (insert_into_ring i ?s3)) hl' {}"
    by (rule insert_into_hash_inv [of _ hl2])
      (use h3 h2 i3 dev in \<open>simp_all add: hash_inv_ring insert_into_ring_other\<close>)
  have t: "take_buffer i dev block s = insert_into_hash i (insert_into_ring i ?s3)"
    by (simp add: take_buffer_def Let_def insert_into_queues_def)
  have "unique_blocks (take_buffer i dev block s)"
    using inv new i by (auto simp: buf_inv_def unique_blocks_def take_buffer_fields)
  then show ?thesis using r4 h4 n by (simp add: buf_inv_def t [symmetric] ring_inv_hash(2) [symmetric] take_buffer_fields) (simp add: t ring_inv_hash)
qed

section \<open>Finding a block\<close>

definition holds :: "u16 \<Rightarrow> u32 \<Rightarrow> bufw \<Rightarrow> nat \<Rightarrow> bool" where
  "holds dev block s i \<longleftrightarrow> b_dev (bhs s i) = dev \<and> b_blocknr (bhs s i) = block"

lemma find_loop_chain:
  "nlist (NH s) pv prev p xs \<Longrightarrow> length xs < n \<Longrightarrow>
   find_loop n dev block p s = Inr (find (holds dev block s) xs)"
proof (induction xs arbitrary: n prev p)
  case Nil
  then show ?case by (cases n) simp_all
next
  case (Cons x xs)
  then show ?case by (cases n) (auto simp: holds_def NH_def)
qed

lemma find_buffer_spec:
  assumes inv: "buf_inv s fl" and dev: "dev \<noteq> 0"
  shows "\<exists>r. find_buffer dev block s = Inr r \<and> (\<forall>i. r = Some i \<longleftrightarrow> i < NR_BUFFERS s \<and> holds dev block s i)"
proof -
  obtain hl where h: "hash_inv s hl {}" and u: "unique_blocks s" using inv by (auto simp: buf_inv_def)
  let ?h = "hashfn dev block"
  have c: "distinct (hl ?h)" "nlist (NH s) (PH s) None (hash_table s ?h) (hl ?h)" "set (hl ?h) = on_chain s {} ?h"
    using h hashfn_less by (simp_all add: hash_inv_def)
  have "set (hl ?h) \<subseteq> {..<NR_BUFFERS s}" by (auto simp: c(3) on_chain_def)
  then have "length (hl ?h) \<le> NR_BUFFERS s"
    using card_mono [of "{..<NR_BUFFERS s}" "set (hl ?h)"] distinct_card [OF c(1)] by simp
  then have f: "find_buffer dev block s = Inr (find (holds dev block s) (hl ?h))"
    unfolding find_buffer_def by (intro find_loop_chain [OF c(2)]) simp
  have m: "i \<in> set (hl ?h) \<longleftrightarrow> i < NR_BUFFERS s" if "holds dev block s i" for i
    using that dev by (auto simp: c(3) on_chain_def hash_bh_def holds_def)
  have "(find (holds dev block s) (hl ?h) = Some i) = (i < NR_BUFFERS s \<and> holds dev block s i)" for i
  proof
    assume "find (holds dev block s) (hl ?h) = Some i"
    then have "i \<in> set (hl ?h)" "holds dev block s i" by (auto simp: find_Some_iff)
    then show "i < NR_BUFFERS s \<and> holds dev block s i" using m by blast
  next
    assume i: "i < NR_BUFFERS s \<and> holds dev block s i"
    then obtain j where j: "find (holds dev block s) (hl ?h) = Some j"
      using m find_None_iff [of "holds dev block s" "hl ?h"] by (cases "find (holds dev block s) (hl ?h)") blast+
    then have "j \<in> set (hl ?h)" "holds dev block s j" by (auto simp: find_Some_iff)
    then have "j < NR_BUFFERS s" "holds dev block s j" using m by blast+
    then show "find (holds dev block s) (hl ?h) = Some i"
      using u i j dev by (simp add: unique_blocks_def holds_def)
  qed
  then show ?thesis using f by blast
qed

lemma find_buffer_Some:
  "buf_inv s fl \<Longrightarrow> dev \<noteq> 0 \<Longrightarrow> i < NR_BUFFERS s \<Longrightarrow> holds dev block s i \<Longrightarrow>
   find_buffer dev block s = Inr (Some i)"
  using find_buffer_spec by metis

lemma find_buffer_None:
  "buf_inv s fl \<Longrightarrow> dev \<noteq> 0 \<Longrightarrow> (\<And>i. i < NR_BUFFERS s \<Longrightarrow> \<not> holds dev block s i) \<Longrightarrow>
   find_buffer dev block s = Inr None"
  using find_buffer_spec [of s fl dev block] by (metis option.exhaust)

section \<open>Searching the ring\<close>

definition unused :: "bufw \<Rightarrow> nat \<Rightarrow> bool" where
  "unused s i \<longleftrightarrow> b_count (bhs s i) = 0"

text \<open>One step of the search, and what it is for: the first of the best unused buffers.\<close>

definition pick_buffer :: "bufw \<Rightarrow> nat \<Rightarrow> nat option \<Rightarrow> nat option" where
  "pick_buffer s i bh =
     (if unused s i \<and> (case bh of None \<Rightarrow> True | Some j \<Rightarrow> BADNESS (bhs s i) < BADNESS (bhs s j))
      then Some i else bh)"

definition first_best :: "bufw \<Rightarrow> nat list \<Rightarrow> nat option \<Rightarrow> bool" where
  "first_best s xs r \<longleftrightarrow>
     (case r of
        None \<Rightarrow> \<forall>j \<in> set xs. \<not> unused s j
      | Some i \<Rightarrow> \<exists>us vs. xs = us @ i # vs \<and> unused s i \<and>
          (\<forall>j \<in> set us. unused s j \<longrightarrow> BADNESS (bhs s i) < BADNESS (bhs s j)) \<and>
          (\<forall>j \<in> set vs. unused s j \<longrightarrow> BADNESS (bhs s i) \<le> BADNESS (bhs s j)))"

lemma pick_best: "BADNESS (bhs s i) = 0 \<Longrightarrow> fold (pick_buffer s) xs (Some i) = Some i"
  by (induction xs) (simp_all add: pick_buffer_def)

lemma scan_ring_step:
  "scan_ring (Suc n) x bh s =
     (if pick_buffer s x bh = Some x \<and> unused s x \<and> bh \<noteq> Some x \<and> BADNESS (bhs s x) = 0 then Inr (Some x)
      else if NF s x = free_list s then Inr (pick_buffer s x bh) else scan_ring n (NF s x) (pick_buffer s x bh) s)"
  by (auto simp: pick_buffer_def unused_def NF_def Let_def split: option.split)

lemma scan_ring_fold:
  "seg (NF s) pv x xs (free_list s) \<Longrightarrow> free_list s \<notin> set xs \<Longrightarrow> length xs < n \<Longrightarrow>
   scan_ring n x bh s = Inr (fold (pick_buffer s) (x # xs) bh)"
proof (induction xs arbitrary: n x bh)
  case Nil
  then show ?case by (cases n) (auto simp: scan_ring_step simp del: scan_ring.simps(2))
next
  case (Cons y ys)
  obtain m where n: "n = Suc m" using Cons.prems(3) by (cases n) auto
  have nx: "NF s x = y" "y \<noteq> free_list s" using Cons.prems by auto
  have IH: "scan_ring m y bh' s = Inr (fold (pick_buffer s) (y # ys) bh')" for bh'
    using Cons.IH [of y m bh'] Cons.prems n by simp
  show ?case
    using IH pick_best [of s x "y # ys"]
    by (simp add: n nx scan_ring_step del: scan_ring.simps(2))
qed

lemma first_best_None: "first_best s xs None \<longleftrightarrow> (\<forall>j \<in> set xs. \<not> unused s j)"
  by (simp add: first_best_def)

lemma first_best_SomeI:
  "xs = us @ i # vs \<Longrightarrow> unused s i \<Longrightarrow>
   (\<And>j. j \<in> set us \<Longrightarrow> unused s j \<Longrightarrow> BADNESS (bhs s i) < BADNESS (bhs s j)) \<Longrightarrow>
   (\<And>j. j \<in> set vs \<Longrightarrow> unused s j \<Longrightarrow> BADNESS (bhs s i) \<le> BADNESS (bhs s j)) \<Longrightarrow> first_best s xs (Some i)"
  unfolding first_best_def by auto

lemma first_best_SomeE:
  assumes "first_best s xs (Some i)"
  obtains us vs where "xs = us @ i # vs" "unused s i"
    "\<And>j. j \<in> set us \<Longrightarrow> unused s j \<Longrightarrow> BADNESS (bhs s i) < BADNESS (bhs s j)"
    "\<And>j. j \<in> set vs \<Longrightarrow> unused s j \<Longrightarrow> BADNESS (bhs s i) \<le> BADNESS (bhs s j)"
  using assms unfolding first_best_def by auto

lemma first_best_pick:
  assumes "first_best s xs r"
  shows "first_best s (xs @ [x]) (pick_buffer s x r)"
proof (cases r)
  case None
  then have n: "\<forall>j \<in> set xs. \<not> unused s j" using assms by (simp add: first_best_None)
  show ?thesis
  proof (cases "unused s x")
    case True
    have "first_best s (xs @ [x]) (Some x)" by (rule first_best_SomeI [of _ xs _ "[]"]) (use n True in auto)
    then show ?thesis using True None by (simp add: pick_buffer_def)
  qed (use n None in \<open>simp add: pick_buffer_def first_best_None\<close>)
next
  case (Some i)
  then obtain us vs where d: "xs = us @ i # vs" "unused s i"
    "\<And>j. j \<in> set us \<Longrightarrow> unused s j \<Longrightarrow> BADNESS (bhs s i) < BADNESS (bhs s j)"
    "\<And>j. j \<in> set vs \<Longrightarrow> unused s j \<Longrightarrow> BADNESS (bhs s i) \<le> BADNESS (bhs s j)"
    using assms by (auto elim: first_best_SomeE)
  show ?thesis
  proof (cases "unused s x \<and> BADNESS (bhs s x) < BADNESS (bhs s i)")
    case True
    have "first_best s (xs @ [x]) (Some x)"
      by (rule first_best_SomeI [of _ xs _ "[]"]) (use True d in fastforce)+
    then show ?thesis using True Some by (simp add: pick_buffer_def)
  next
    case False
    have "first_best s (xs @ [x]) (Some i)"
      by (rule first_best_SomeI [of _ us _ "vs @ [x]"]) (use False d in auto)
    then show ?thesis using False Some by (auto simp: pick_buffer_def)
  qed
qed

lemma first_best_fold: "first_best s xs (fold (pick_buffer s) xs None)"
  by (induction xs rule: rev_induct) (simp_all add: first_best_None first_best_pick)

lemma scan_ring_spec:
  assumes "buf_inv s fl"
  shows "\<exists>r. scan_ring (NR_BUFFERS s) (free_list s) None s = Inr r \<and> first_best s fl r"
proof -
  have r: "ring (NF s) (PF s) fl" "hd fl = free_list s" "set fl = {..<NR_BUFFERS s}"
    using assms by (auto simp: buf_inv_def ring_inv_def)
  obtain xs where fl: "fl = free_list s # xs" using r by (cases fl) (auto simp: ring_def)
  have d: "distinct fl" using r(1) by (simp add: ring_def)
  have "length fl = NR_BUFFERS s" using distinct_card [OF d] r(3) by simp
  then have "scan_ring (NR_BUFFERS s) (free_list s) None s = Inr (fold (pick_buffer s) fl None)"
    using scan_ring_fold [of s "PF s" "free_list s" xs "NR_BUFFERS s" None] r(1) d fl by (simp add: ring_def)
  then show ?thesis using first_best_fold by blast
qed

text \<open>Free for use at once: nobody holds it, and it needs no wait and no write.\<close>

definition idle :: "bufw \<Rightarrow> nat \<Rightarrow> bool" where
  "idle s i \<longleftrightarrow> unused s i \<and> \<not> b_dirt (bhs s i) \<and> \<not> b_lock (bhs s i)"

lemma idle_BADNESS: "idle s i \<longleftrightarrow> unused s i \<and> BADNESS (bhs s i) = 0"
  by (auto simp: idle_def BADNESS_def)

lemma first_best_idle:
  assumes b: "first_best s (us @ i # vs) r" and i: "idle s i" and us: "\<forall>j \<in> set us. \<not> idle s j"
  shows "r = Some i"
proof (cases r)
  case None
  then show ?thesis using b i by (auto simp: first_best_None idle_def)
next
  case (Some k)
  then obtain xs ys where k: "us @ i # vs = xs @ k # ys" "unused s k"
    "\<And>j. j \<in> set xs \<Longrightarrow> unused s j \<Longrightarrow> BADNESS (bhs s k) < BADNESS (bhs s j)"
    "\<And>j. j \<in> set ys \<Longrightarrow> unused s j \<Longrightarrow> BADNESS (bhs s k) \<le> BADNESS (bhs s j)"
    using b by (auto elim: first_best_SomeE)
  have ix: "i \<notin> set xs" using k(3) [of i] i by (auto simp: idle_BADNESS)
  have "i \<in> set (xs @ k # ys)" by (simp add: k(1) [symmetric])
  then have "idle s k" using k(2) k(4) [of i] i ix by (auto simp: idle_BADNESS)
  then have ku: "k \<notin> set us" using us by blast
  have "\<not> length us < length xs" using ix k(1) by (metis nth_append nth_append_length nth_mem)
  moreover have "\<not> length xs < length us" using ku k(1) by (metis nth_append nth_append_length nth_mem)
  ultimately have "length us = length xs" by simp
  then show ?thesis using k(1) Some by simp
qed

section \<open>getblk\<close>

lemma wait_unlocked [simp]: "\<not> b_lock (bhs s i) \<Longrightarrow> wait_on_buffer e i s = s"
  by (simp add: wait_on_buffer_def)

lemma getblk_cached:
  assumes inv: "buf_inv s fl" and dev: "dev \<noteq> 0" and i: "i < NR_BUFFERS s" "holds dev block s i"
    and lock: "\<not> b_lock (bhs s i)"
  shows "getblk (Suc f) e dev block s = Inr (i, upd_bh i (\<lambda>b. b\<lparr>b_count := b_count b + 1\<rparr>) s)"
  using find_buffer_Some [OF inv dev i] i lock by (simp add: holds_def)

lemma getblk_not_cached:
  assumes inv: "buf_inv s (us @ i # vs)" and dev: "dev \<noteq> 0"
    and new: "\<And>j. j < NR_BUFFERS s \<Longrightarrow> \<not> holds dev block s j"
    and i: "idle s i" and us: "\<forall>j \<in> set us. \<not> idle s j"
  shows "getblk (Suc f) e dev block s = Inr (i, take_buffer i dev block s)"
proof -
  note find = find_buffer_None [OF inv dev new]
  obtain r where r: "scan_ring (NR_BUFFERS s) (free_list s) None s = Inr r" "first_best s (us @ i # vs) r"
    using scan_ring_spec [OF inv] by blast
  then have "r = Some i" using first_best_idle i us by blast
  then show ?thesis using find r(1) i by (simp add: idle_def unused_def)
qed

text \<open>What a head holds beside its block and its links, and the rest of the block layer.\<close>

definition payload :: "buffer_head \<Rightarrow> block \<times> bool \<times> u8 \<times> bool \<times> bool \<times> nat option" where
  "payload b = (b_data b, b_lock b, b_count b, b_dirt b, b_uptodate b, b_wait b)"

definition devices :: "bufw \<Rightarrow> (nat \<Rightarrow> request) \<times> (nat \<Rightarrow> blk_dev_struct) \<times> nat option \<times> u32 \<times> u32 \<times> (u32 \<Rightarrow> u8)" where
  "devices s = (request s, blk_dev s, wait_for_request s, rd_start s, rd_length s, pmem s)"

definition fs_part :: "bufw \<Rightarrow> (nat \<Rightarrow> m_inode) \<times> nat \<times> (nat \<Rightarrow> super_block) \<times> (nat \<Rightarrow> file_struct) \<times> u16 \<times> mm \<times> fsmem" where
  "fs_part s = (inode_table s, last_inode s, super_block s, file_table s, ROOT_DEV s, bw_mm s, bw_fs s)"

lemma fs_partD:
  assumes "fs_part s' = fs_part s"
  shows "inode_table s' = inode_table s" "last_inode s' = last_inode s" "super_block s' = super_block s"
    "file_table s' = file_table s" "ROOT_DEV s' = ROOT_DEV s" "bw_mm s' = bw_mm s" "bw_fs s' = bw_fs s"
  using assms by (simp_all add: fs_part_def)

lemma payload_queues:
  "payload (bhs (remove_from_hash i s) j) = payload (bhs s j)"
  "payload (bhs (remove_from_ring i s) j) = payload (bhs s j)"
  "payload (bhs (insert_into_ring i s) j) = payload (bhs s j)"
  "payload (bhs (insert_into_hash i s) j) = payload (bhs s j)"
  subgoal by (simp add: payload_def remove_from_hash_def Let_def split: option.split)
  subgoal by (simp add: payload_def remove_from_ring_def Let_def)
  subgoal by (simp add: payload_def insert_into_ring_def Let_def)
  subgoal by (simp add: payload_def insert_into_hash_def set_b_prev_def Let_def split: option.split)
  done

lemma devices_queues:
  "devices (upd_bh i f s) = devices s"
  "devices (remove_from_hash i s) = devices s" "devices (remove_from_ring i s) = devices s"
  "devices (insert_into_ring i s) = devices s" "devices (insert_into_hash i s) = devices s"
  subgoal by (simp add: devices_def upd_bh_def)
  subgoal by (simp add: devices_def remove_from_hash_def upd_bh_def Let_def split: option.split)
  subgoal by (simp add: devices_def remove_from_ring_def upd_bh_def Let_def)
  subgoal by (simp add: devices_def insert_into_ring_def upd_bh_def Let_def)
  subgoal by (simp add: devices_def insert_into_hash_def set_b_prev_def upd_bh_def Let_def split: option.split)
  done

lemma fs_part_queues:
  "fs_part (upd_bh i f s) = fs_part s"
  "fs_part (remove_from_hash i s) = fs_part s" "fs_part (remove_from_ring i s) = fs_part s"
  "fs_part (insert_into_ring i s) = fs_part s" "fs_part (insert_into_hash i s) = fs_part s"
  subgoal by (simp add: fs_part_def upd_bh_def)
  subgoal by (simp add: fs_part_def remove_from_hash_def upd_bh_def Let_def split: option.split)
  subgoal by (simp add: fs_part_def remove_from_ring_def upd_bh_def Let_def)
  subgoal by (simp add: fs_part_def insert_into_ring_def upd_bh_def Let_def)
  subgoal by (simp add: fs_part_def insert_into_hash_def set_b_prev_def upd_bh_def Let_def split: option.split)
  done

lemma take_buffer_payload:
  "payload (bhs (take_buffer i dev block s) j) =
     payload (if j = i then (bhs s i)\<lparr>b_count := 1, b_dirt := False, b_uptodate := False\<rparr> else bhs s j)"
proof -
  have "payload (b\<lparr>b_dev := dev, b_blocknr := block\<rparr>) = payload b" for b by (simp add: payload_def)
  then show ?thesis
    by (simp add: take_buffer_def Let_def insert_into_queues_def remove_from_queues_def payload_queues)
qed

lemma take_buffer_devices: "devices (take_buffer i dev block s) = devices s"
  by (simp add: take_buffer_def Let_def insert_into_queues_def remove_from_queues_def devices_queues)

lemma take_buffer_fs_part: "fs_part (take_buffer i dev block s) = fs_part s"
  by (simp add: take_buffer_def Let_def insert_into_queues_def remove_from_queues_def fs_part_queues)

section \<open>The initial cache\<close>

lemma count_buffers_fits:
  "0 \<le> start \<Longrightarrow> n < count_buffers start b n \<Longrightarrow>
   start + 36 * int (count_buffers start b n) + 1024 * (int (count_buffers start b n) - int n) \<le> b"
proof (induction start b n rule: count_buffers.induct)
  case (1 start b n)
  define b' where "b' = b - 1024"
  define b'' where "b'' = (if b' = 0x100000 then 0xA0000 else b')"
  have unf: "count_buffers start b n =
    (if start + 36 * (int n + 1) \<le> b' then count_buffers start b'' (Suc n) else n)"
    using 1(2) count_buffers.simps [of start b n] by (simp add: b'_def b''_def Let_def)
  then have c: "start + 36 * (int n + 1) \<le> b'" and e: "count_buffers start b n = count_buffers start b'' (Suc n)"
    using 1(3) by (auto split: if_splits)
  have "b'' \<le> b - 1024" by (simp add: b''_def b'_def)
  moreover have "Suc n < count_buffers start b'' (Suc n) \<Longrightarrow>
    start + 36 * int (count_buffers start b'' (Suc n)) +
      1024 * (int (count_buffers start b'' (Suc n)) - int (Suc n)) \<le> b''"
    using 1(1) [OF b'_def _ 1(2)] c 1(2) by (simp add: b''_def)
  ultimately show ?case using 1(3) c b'_def unfolding e
    by (cases "Suc n < count_buffers start b'' (Suc n)") (auto simp: algebra_simps)
qed

lemma seg_init:
  assumes "\<And>i. Suc i < n \<Longrightarrow> nx i = Suc i \<and> pv (Suc i) = i" and "nx (n - 1) = 0" "pv 0 = n - 1"
  shows "k < n \<Longrightarrow> seg nx pv k [Suc k..<n] 0"
proof (induction "n - k" arbitrary: k)
  case (Suc m)
  show ?case
  proof (cases "Suc k < n")
    case True
    then have "seg nx pv (Suc k) [Suc (Suc k)..<n] 0" using Suc by (intro Suc.hyps) simp_all
    then show ?thesis using True assms(1) [OF True] by (simp add: upt_conv_Cons)
  next
    case False
    then have "n = Suc k" using Suc.prems by simp
    then show ?thesis using assms(2,3) by simp
  qed
qed simp

definition init_count :: "int \<Rightarrow> int \<Rightarrow> nat" where
  "init_count start buffer_end = count_buffers start (if buffer_end = 0x100000 then 640 * 1024 else buffer_end) 0"

lemma buffer_init_fields:
  assumes "n = init_count start buffer_end" and "s' = buffer_init start buffer_end s"
  shows "NR_BUFFERS s' = n" "free_list s' = 0" "h < NR_HASH \<Longrightarrow> hash_table s' h = None"
    "i < n \<Longrightarrow> bhs s' i = init_head n i (bhs s i)"
  using assms by (simp_all add: buffer_init_def init_count_def Let_def)

lemma init_buf_inv:
  assumes n: "n = init_count start buffer_end" "2 \<le> n"
  shows "buf_inv (buffer_init start buffer_end s) [0..<n]"
proof -
  let ?s = "buffer_init start buffer_end s"
  note I = buffer_init_fields [OF n(1) refl]
  have "seg (NF ?s) (PF ?s) 0 [Suc 0..<n] 0"
    by (rule seg_init) (use n(2) in \<open>simp_all add: NF_def PF_def I(4) init_head_def\<close>)
  then have "ring_inv ?s [0..<n] {}"
    using n(2) by (auto simp: ring_inv_def ring_def upt_conv_Cons I(1,2))
  moreover have "hash_inv ?s (\<lambda>h. []) {}"
    by (auto simp: hash_inv_def on_chain_def NH_def PH_def I(1,3,4) init_head_def)
  moreover have "unique_blocks ?s" by (simp add: unique_blocks_def I(1,4) init_head_def)
  ultimately show ?thesis using n(2) by (auto simp: buf_inv_def I(1))
qed

lemma init_buf_idle: "i < init_count start buffer_end \<Longrightarrow> idle (buffer_init start buffer_end s) i"
  by (simp add: idle_def unused_def buffer_init_fields [OF refl refl] init_head_def)

text \<open>
  C24: After \<open>buffer_init\<close> the cache satisfies its invariant with the buffers on the ring in the
  order of their addresses, every buffer is free for use, and the heads and the blocks fit side by
  side between the end of the kernel and \<open>buffer_end\<close>.
\<close>

theorem buffer_init_inv:
  assumes "n = init_count start buffer_end" "2 \<le> n" and "0 \<le> start"
  shows "buf_inv (buffer_init start buffer_end s) [0..<n] \<and>
    (\<forall>i < n. idle (buffer_init start buffer_end s) i) \<and> start + (36 + 1024) * int n \<le> buffer_end"
proof (intro conjI)
  show "buf_inv (buffer_init start buffer_end s) [0..<n]" using assms by (intro init_buf_inv)
  show "\<forall>i < n. idle (buffer_init start buffer_end s) i" using init_buf_idle assms by blast
  show "start + (36 + 1024) * int n \<le> buffer_end"
    using count_buffers_fits [OF assms(3), of 0 "if buffer_end = 0x100000 then 640 * 1024 else buffer_end"] assms
    by (simp add: init_count_def split: if_splits)
qed

text \<open>A cache of three buffers.\<close>

definition demo_head :: buffer_head where
  "demo_head = \<lparr>b_data = (\<lambda>_. 0), b_blocknr = 0, b_dev = 0, b_uptodate = False, b_dirt = False, b_count = 0,
     b_lock = False, b_wait = None, b_prev = None, b_next = None, b_prev_free = 0, b_next_free = 0\<rparr>"

definition demo_request :: request where
  "demo_request = \<lparr>r_dev = -1, r_cmd = READ, r_errors = 0, r_sector = 0, r_nr_sectors = 0, r_buffer = 0,
     r_offset = 0, r_waiting = None, r_bh = None, r_next = None\<rparr>"

definition boot_buf :: bufw where
  "boot_buf = \<lparr>bhs = (\<lambda>_. demo_head), NR_BUFFERS = 0, hash_table = (\<lambda>_. None), free_list = 0, buffer_wait = None,
     null_prev = None, request = (\<lambda>_. demo_request), blk_dev = (\<lambda>_. \<lparr>request_fn = None, current_request = None\<rparr>),
     wait_for_request = None, rd_start = 0, rd_length = 0, pmem = (\<lambda>_. 0),
     inode_table = (\<lambda>_. zero_inode), last_inode = 0, super_block = (\<lambda>_. zero_super), file_table = (\<lambda>_. zero_file),
     ROOT_DEV = 0, bw_mm = demo_mm, bw_fs = (\<lambda>_. 0), bw_sched = demo_sched\<rparr>"

definition demo_buf :: bufw where
  "demo_buf = buffer_init 0 4096 boot_buf"

lemma demo_count: "init_count 0 4096 = 3"
  by (simp add: init_count_def count_buffers.simps Let_def)

theorem buffer_init_inv_witness:
  "buf_inv (buffer_init 0 4096 boot_buf) [0..<3] \<and> idle (buffer_init 0 4096 boot_buf) 1"
  using buffer_init_inv [of 3 0 4096 boot_buf] demo_count by simp

lemma demo_buf_inv: "buf_inv demo_buf [0..<3]" and demo_buf_idle: "i < 3 \<Longrightarrow> idle demo_buf i"
  using init_buf_inv [of 3 0 4096 boot_buf] init_buf_idle [of i 0 4096 boot_buf]
  by (simp_all add: demo_buf_def demo_count)

section \<open>What getblk guarantees\<close>

text \<open>
  For a block that is in the cache \<open>getblk\<close> returns its buffer with one more user; the search
  of the hash chain finds it and nothing else of the cache changes.
\<close>

theorem getblk_hit:
  assumes "buf_inv s fl" "dev \<noteq> 0" "i < NR_BUFFERS s" "holds dev block s i" "\<not> b_lock (bhs s i)"
  shows "getblk (Suc f) e dev block s = Inr (i, upd_bh i (\<lambda>b. b\<lparr>b_count := b_count b + 1\<rparr>) s) \<and>
    buf_inv (upd_bh i (\<lambda>b. b\<lparr>b_count := b_count b + 1\<rparr>) s) fl"
  using getblk_cached [OF assms] by (simp add: buf_inv_upd_bh [OF _ assms(1)])

text \<open>
  C10: For a block that is not in the cache \<open>getblk\<close> takes the least recently taken buffer that is
  free for use.  The buffer is then the only one of the block, has one user, is clean and not up
  to date, and is the last on the ring; the invariant holds, and the other buffers keep their
  blocks and contents.
\<close>

theorem getblk_takes_lru:
  assumes "buf_inv s (us @ i # vs)" "dev \<noteq> 0" "\<And>j. j < NR_BUFFERS s \<Longrightarrow> \<not> holds dev block s j"
    and "idle s i" "\<forall>j \<in> set us. \<not> idle s j"
  shows "\<exists>s'. getblk (Suc f) e dev block s = Inr (i, s') \<and> buf_inv s' (us @ vs @ [i]) \<and>
    holds dev block s' i \<and> b_count (bhs s' i) = 1 \<and> \<not> b_dirt (bhs s' i) \<and> \<not> b_uptodate (bhs s' i) \<and>
    (\<forall>j. j \<noteq> i \<longrightarrow> b_dev (bhs s' j) = b_dev (bhs s j) \<and> b_blocknr (bhs s' j) = b_blocknr (bhs s j) \<and>
       payload (bhs s' j) = payload (bhs s j)) \<and> devices s' = devices s"
proof (intro exI conjI)
  let ?s = "take_buffer i dev block s"
  show "getblk (Suc f) e dev block s = Inr (i, ?s)" using assms by (intro getblk_not_cached) auto
  have fl: "set (us @ i # vs) = {..<NR_BUFFERS s}" "distinct (us @ i # vs)"
    using assms(1) by (auto simp: buf_inv_def ring_inv_def ring_def)
  then have i: "i < NR_BUFFERS s" "i \<notin> set us" by auto
  have "buf_inv ?s (remove1 i (us @ i # vs) @ [i])"
    using take_buffer_inv [OF assms(1) i(1) assms(2)] assms(3) by (simp add: holds_def)
  then show "buf_inv ?s (us @ vs @ [i])" using i(2) by (simp add: remove1_append)
  show "holds dev block ?s i" by (simp add: holds_def take_buffer_fields)
  show "b_count (bhs ?s i) = 1" "\<not> b_dirt (bhs ?s i)" "\<not> b_uptodate (bhs ?s i)"
    using take_buffer_payload [of i dev block s i] by (simp_all add: payload_def)
  show "\<forall>j. j \<noteq> i \<longrightarrow> b_dev (bhs ?s j) = b_dev (bhs s j) \<and> b_blocknr (bhs ?s j) = b_blocknr (bhs s j) \<and>
       payload (bhs ?s j) = payload (bhs s j)"
    by (simp add: take_buffer_fields take_buffer_payload)
  show "devices ?s = devices s" by (rule take_buffer_devices)
qed

definition demo_env :: benv where
  "demo_env = \<lparr>e_fuel = 10, e_rw = (\<lambda>_ _. Inr), e_wait = (\<lambda>_ s. s), e_sleep = (\<lambda>s. s), e_iwait = (\<lambda>_ s. s),
     e_swait = (\<lambda>_ s. s), e_psleep = (\<lambda>_ s. s), e_floppy = (\<lambda>_ s. (False, s)), e_sync_inodes = Inr\<rparr>"

lemma demo_buf_new: "j < NR_BUFFERS demo_buf \<Longrightarrow> dev \<noteq> 0 \<Longrightarrow> \<not> holds dev block demo_buf j"
  using demo_count by (simp add: demo_buf_def holds_def buffer_init_fields [OF refl refl] init_head_def)

theorem getblk_takes_lru_witness:
  "\<exists>s'. getblk 1 demo_env 0x301 7 demo_buf = Inr (0, s') \<and> buf_inv s' [1, 2, 0] \<and> holds 0x301 7 s' 0"
proof -
  have fl: "[0..<3] = [] @ 0 # [1, 2]" by (simp add: upt_rec)
  show ?thesis
    using getblk_takes_lru [where s = demo_buf and us = "[]" and i = 0 and vs = "[1, 2]" and dev = "0x301" and block = 7 and f = 0 and e = demo_env]
      demo_buf_inv [unfolded fl] demo_buf_new demo_buf_idle [of 0]
    by auto
qed

theorem getblk_hit_witness:
  "\<exists>s s'. getblk 1 demo_env 0x301 7 demo_buf = Inr (0, s) \<and> getblk 1 demo_env 0x301 7 s = Inr (0, s') \<and>
     b_count (bhs s' 0) = 2 \<and> buf_inv s' [1, 2, 0]"
proof -
  let ?s = "take_buffer 0 0x301 7 demo_buf"
  have n: "NR_BUFFERS demo_buf = 3" using demo_count by (simp add: demo_buf_def buffer_init_fields [OF refl refl])
  have fl: "[0..<3] = [] @ 0 # [1, 2]" by (simp add: upt_rec)
  have g: "getblk 1 demo_env 0x301 7 demo_buf = Inr (0, ?s)"
    using getblk_not_cached [where s = demo_buf and us = "[]" and i = 0 and vs = "[1, 2]" and dev = "0x301" and block = 7 and f = 0 and e = demo_env]
      demo_buf_inv [unfolded fl] demo_buf_new demo_buf_idle [of 0]
    by simp
  have "buf_inv ?s (remove1 0 [0..<3] @ [0])"
    using demo_buf_new [of _ "0x301" 7] by (intro take_buffer_inv [OF demo_buf_inv]) (auto simp: n holds_def)
  then have inv: "buf_inv ?s [1, 2, 0]" by (simp add: upt_rec numeral_2_eq_2)
  have p: "payload (bhs ?s 0) = payload ((bhs demo_buf 0)\<lparr>b_count := 1, b_dirt := False, b_uptodate := False\<rparr>)"
    by (simp add: take_buffer_payload)
  then have c: "b_count (bhs ?s 0) = 1" "\<not> b_lock (bhs ?s 0)"
    using demo_buf_idle [of 0] by (simp_all add: payload_def idle_def)
  have h: "holds 0x301 7 ?s 0" by (simp add: holds_def take_buffer_fields)
  have "0 < NR_BUFFERS ?s" by (simp add: take_buffer_fields n)
  from getblk_hit [OF inv _ this h c(2), of 0 demo_env] show ?thesis
    using g c(1) by auto
qed

end
