(* ===== verification/Bitmap.thy ===== *)
theory Bitmap
  imports Buffer_Cache
begin

text \<open>
  The bitmaps of free zones and i-nodes, \<open>fs/bitmap.c\<close>, with \<open>get_super\<close> and the locks of
  \<open>fs/super.c\<close> they call.  \<open>new_inode\<close> is with the i-nodes in \<open>Inode\<close>.
\<close>

section \<open>Super blocks\<close>

text \<open>\<open>while (sb->s_lock) sleep_on (...)\<close>.\<close>

definition wait_on_super :: "benv \<Rightarrow> nat \<Rightarrow> bufw \<Rightarrow> bufw" where
  "wait_on_super e n s = (if s_lock (super_block s n) then e_swait e n s else s)"

definition lock_super :: "benv \<Rightarrow> nat \<Rightarrow> bufw \<Rightarrow> bufw" where
  "lock_super e n s = upd_super n (\<lambda>b. b\<lparr>s_lock := True\<rparr>) (wait_on_super e n s)"

definition free_super :: "nat \<Rightarrow> bufw \<Rightarrow> bufw" where
  "free_super n s =
     (let (p, sc) = wake_up (s_wait (super_block s n)) (bw_sched s)
      in (upd_super n (\<lambda>b. b\<lparr>s_lock := False, s_wait := p\<rparr>) s)\<lparr>bw_sched := sc\<rparr>)"

primrec get_super_loop :: "nat \<Rightarrow> benv \<Rightarrow> u16 \<Rightarrow> bufw \<Rightarrow> (nat option \<times> bufw) kres" where
  "get_super_loop 0 e dev s = Inl Hang"
| "get_super_loop (Suc f) e dev s =
     (case find (\<lambda>n. s_dev (super_block s n) = dev) [0..<NR_SUPER] of
        None \<Rightarrow> Inr (None, s)
      | Some n \<Rightarrow>
          let s = wait_on_super e n s
          in if s_dev (super_block s n) = dev then Inr (Some n, s) else get_super_loop f e dev s)"

definition get_super :: "benv \<Rightarrow> u16 \<Rightarrow> bufw \<Rightarrow> (nat option \<times> bufw) kres" where
  "get_super e dev s = (if dev = 0 then Inr (None, s) else get_super_loop (e_fuel e) e dev s)"

section \<open>Bits of a block\<close>

definition clear_block :: block where
  "clear_block = (\<lambda>k. 0)"

definition bm_bit :: "block \<Rightarrow> nat \<Rightarrow> bool" where
  "bm_bit b nr = bit (b (nr div 8)) (nr mod 8)"

text \<open>Both return the block and what the macro returns: whether the bit was set, or was clear.\<close>

definition set_bit_at :: "nat \<Rightarrow> block \<Rightarrow> bool \<times> block" where
  "set_bit_at nr b = (bm_bit b nr, b(nr div 8 := Bit_Operations.set_bit (nr mod 8) (b (nr div 8))))"

definition clear_bit_at :: "nat \<Rightarrow> block \<Rightarrow> bool \<times> block" where
  "clear_bit_at nr b = (\<not> bm_bit b nr, b(nr div 8 := unset_bit (nr mod 8) (b (nr div 8))))"

text \<open>The instruction \<open>bsfl\<close>: the lowest bit that is set, if any is.\<close>

definition bsf :: "u32 \<Rightarrow> nat option" where
  "bsf w = find (\<lambda>n. bit w n) [0..<32]"

primrec ffz_loop :: "nat \<Rightarrow> nat \<Rightarrow> block \<Rightarrow> nat" where
  "ffz_loop 0 ecx b = ecx"
| "ffz_loop (Suc n) ecx b =
     (case bsf (NOT (le32 b (ecx div 8))) of
        Some edx \<Rightarrow> ecx + edx
      | None \<Rightarrow> if ecx + 32 < 8192 then ffz_loop n (ecx + 32) b else ecx + 32)"

definition find_first_zero :: "block \<Rightarrow> nat" where
  "find_first_zero b = ffz_loop 256 0 b"

section \<open>Zones\<close>

text \<open>The end of \<open>free_block\<close>, when the block is not in use by anybody.\<close>

definition free_zone_bit :: "nat \<Rightarrow> int \<Rightarrow> bufw \<Rightarrow> bufw kres" where
  "free_zone_bit n block s =
     (let sb = super_block s n;
          block = block - (uint (s_firstdatazone sb) - 1);
          i = nat (block div 8192)
      in if 8 \<le> i then Inl Fault
         else case s_zmap sb i of
                None \<Rightarrow> Inl Fault
              | Some z \<Rightarrow>
                  let (cleared, d) = clear_bit_at (nat (block mod 8192)) (b_data (bhs s z))
                  in if cleared then Inl (Panic ''free_block: bit already cleared'')
                     else Inr (upd_bh z (\<lambda>b. b\<lparr>b_data := d, b_dirt := True\<rparr>) s))"

definition free_block :: "benv \<Rightarrow> u16 \<Rightarrow> int \<Rightarrow> bufw \<Rightarrow> bufw kres" where
  "free_block e dev block s =
     bindE (get_super e dev s) (\<lambda>(sb, s).
       case sb of
         None \<Rightarrow> Inl (Panic ''trying to free block on nonexistent device'')
       | Some n \<Rightarrow>
           if block < uint (s_firstdatazone (super_block s n)) \<or> uint (s_nzones (super_block s n)) \<le> block
           then Inl (Panic ''trying to free block not in datazone'')
           else bindE (get_hash_table (e_fuel e) e dev (word_of_int block) s) (\<lambda>(r, s).
             case r of
               None \<Rightarrow> free_zone_bit n block s
             | Some i \<Rightarrow>
                 if b_count (bhs s i) \<noteq> 1 then Inr s
                 else bindE (brelse e (Some i) (upd_bh i (\<lambda>b. b\<lparr>b_dirt := False, b_uptodate := False\<rparr>) s))
                        (free_zone_bit n block)))"

text \<open>
  The search of the maps for a free bit: the map where the loop stopped (8 when it ran through),
  the last buffer it looked at and the last result.
\<close>

primrec scan_maps ::
  "(nat \<Rightarrow> nat option) \<Rightarrow> bufw \<Rightarrow> nat list \<Rightarrow> nat option \<Rightarrow> nat \<Rightarrow> nat \<times> nat option \<times> nat" where
  "scan_maps mp s [] bh j = (8, bh, j)"
| "scan_maps mp s (i # is) bh j =
     (case mp i of
        None \<Rightarrow> scan_maps mp s is None j
      | Some b \<Rightarrow>
          let j = find_first_zero (b_data (bhs s b))
          in if j < 8192 then (i, Some b, j) else scan_maps mp s is (Some b) j)"

definition new_block :: "benv \<Rightarrow> u16 \<Rightarrow> bufw \<Rightarrow> (int \<times> bufw) kres" where
  "new_block e dev s =
     bindE (get_super e dev s) (\<lambda>(sb, s).
       case sb of
         None \<Rightarrow> Inl (Panic ''trying to get new block from nonexistant device'')
       | Some n \<Rightarrow>
           let (i, bh, j) = scan_maps (s_zmap (super_block s n)) s [0..<8] None 8192
           in case bh of
                None \<Rightarrow> Inr (0, s)
              | Some z \<Rightarrow>
                  if 8 \<le> i \<or> 8192 \<le> j then Inr (0, s)
                  else
                    let (was, d) = set_bit_at j (b_data (bhs s z))
                    in if was then Inl (Panic ''new_block: bit already set'')
                       else
                         let s = upd_bh z (\<lambda>b. b\<lparr>b_data := d, b_dirt := True\<rparr>) s;
                             nr = int j + int i * 8192 + uint (s_firstdatazone (super_block s n)) - 1
                         in if uint (s_nzones (super_block s n)) \<le> nr then Inr (0, s)
                            else bindE (getblk (e_fuel e) e dev (word_of_int nr) s) (\<lambda>(k, s).
                              if b_count (bhs s k) \<noteq> 1 then Inl (Panic ''new block: count is != 1'')
                              else
                                let s = upd_bh k (\<lambda>b. b\<lparr>b_data := clear_block, b_uptodate := True, b_dirt := True\<rparr>) s
                                in bindE (brelse e (Some k) s) (\<lambda>s. Inr (nr, s))))"

definition free_inode :: "benv \<Rightarrow> nat option \<Rightarrow> bufw \<Rightarrow> bufw kres" where
  "free_inode e inode s =
     (case inode of
        None \<Rightarrow> Inr s
      | Some n \<Rightarrow>
          let ip = inode_table s n
          in if i_dev ip = 0 then Inr (upd_inode n (\<lambda>_. zero_inode) s)
             else if 1 < i_count ip then Inl (Panic ''free_inode'')
             else if i_nlinks ip \<noteq> 0 then Inl (Panic ''trying to free inode with links'')
             else bindE (get_super e (i_dev ip) s) (\<lambda>(sb, s).
               let ip = inode_table s n
               in case sb of
                    None \<Rightarrow> Inl (Panic ''trying to free inode on nonexistent device'')
                  | Some m \<Rightarrow>
                      if i_num ip < 1 \<or> s_ninodes (super_block s m) < i_num ip
                      then Inl (Panic ''trying to free inode 0 or nonexistant inode'')
                      else
                        (case s_imap (super_block s m) (unat (i_num ip) div 8192) of
                           None \<Rightarrow> Inl (Panic ''nonexistent imap in superblock'')
                         | Some z \<Rightarrow>
                             let d = snd (clear_bit_at (unat (i_num ip) mod 8192) (b_data (bhs s z)))
                             in Inr (upd_inode n (\<lambda>_. zero_inode)
                                  (upd_bh z (\<lambda>b. b\<lparr>b_data := d, b_dirt := True\<rparr>) s)))))"

section \<open>The search for a free bit\<close>

lemma bm_bit_set: "bm_bit (snd (set_bit_at nr b)) k = (k = nr \<or> bm_bit b k)"
proof -
  have "nr mod 8 < 8" by simp
  then show ?thesis
    by (auto simp: bm_bit_def set_bit_at_def bit_set_bit_iff fun_upd_apply) (metis div_mult_mod_eq)+
qed

lemma bm_bit_clear: "bm_bit (snd (clear_bit_at nr b)) k = (k \<noteq> nr \<and> bm_bit b k)"
proof -
  have "nr mod 8 < 8" by simp
  then show ?thesis
    by (auto simp: bm_bit_def clear_bit_at_def bit_unset_bit_iff fun_upd_apply) (metis div_mult_mod_eq)+
qed

lemma bit_u8_high: "8 \<le> n \<Longrightarrow> \<not> bit (w :: u8) n"
  using bit_imp_le_length [of w n] by auto

lemma bit_le32:
  assumes "n < 32"
  shows "bit (le32 b k) n = bit (b (k + n div 8)) (n mod 8)"
proof -
  consider "n < 8" | m where "m < 8" "n = m + 8" | m where "m < 8" "n = m + 16" | m where "m < 8" "n = m + 24"
    using assms that(2) [of "n - 8"] that(3) [of "n - 16"] that(4) [of "n - 24"] by linarith
  moreover have "(m + 8) div 8 = 1" "(m + 16) div 8 = 2" "(m + 24) div 8 = 3"
    "(m + 8) mod 8 = m" "(m + 16) mod 8 = m" "(m + 24) mod 8 = m" if "m < 8" for m :: nat
    using that by presburger+
  ultimately show ?thesis
    by cases (simp_all add: le32_def bit_or_iff bit_push_bit_iff bit_unsigned_iff bit_u8_high)
qed

lemma bm_bit_word:
  assumes "m < 32" and "32 dvd ecx"
  shows "bm_bit b (ecx + m) = bit (le32 b (ecx div 8)) m"
proof -
  obtain q where q: "ecx = 8 * (4 * q)" using assms(2) by (auto simp: dvd_def)
  have "(8 * (4 * q) + m) div 8 = 4 * q + m div 8" "(8 * (4 * q) + m) mod 8 = m mod 8" by presburger+
  then show ?thesis unfolding q bm_bit_def using bit_le32 [OF assms(1), of b "4 * q"] by simp
qed

lemma bsf_not:
  assumes "32 dvd ecx"
  shows "bsf (NOT (le32 b (ecx div 8))) = find (\<lambda>m. \<not> bm_bit b (ecx + m)) [0..<32]"
  unfolding bsf_def by (rule find_cong) (simp_all add: bm_bit_word [OF _ assms] bit_not_iff)

lemma ffz_loop_step:
  assumes "32 dvd ecx" and "ecx + 32 * Suc n = 8192"
  shows "ffz_loop (Suc n) ecx b =
    (case find (\<lambda>m. \<not> bm_bit b (ecx + m)) [0..<32] of Some m \<Rightarrow> ecx + m | None \<Rightarrow> ffz_loop n (ecx + 32) b)"
  using assms(2) unfolding ffz_loop.simps bsf_not [OF assms(1)]
  by (cases n) (simp_all del: upt_rec_numeral split: option.split)

lemma ffz_loop_spec:
  "32 dvd ecx \<Longrightarrow> ecx + 32 * n = 8192 \<Longrightarrow>
   ffz_loop n ecx b \<le> 8192 \<and> (\<forall>k. ecx \<le> k \<longrightarrow> k < ffz_loop n ecx b \<longrightarrow> bm_bit b k) \<and>
   (ffz_loop n ecx b < 8192 \<longrightarrow> \<not> bm_bit b (ffz_loop n ecx b))"
proof (induction n arbitrary: ecx)
  case (Suc n)
  note L = ffz_loop_step [OF Suc.prems]
  show ?case
  proof (cases "find (\<lambda>m. \<not> bm_bit b (ecx + m)) [0..<32]")
    case None
    then have w: "bm_bit b (ecx + m)" if "m < 32" for m using that unfolding find_upt_None by auto
    have l: "ffz_loop (Suc n) ecx b = ffz_loop n (ecx + 32) b" unfolding L None by simp
    have IH: "ffz_loop n (ecx + 32) b \<le> 8192" "\<And>k. ecx + 32 \<le> k \<Longrightarrow> k < ffz_loop n (ecx + 32) b \<Longrightarrow> bm_bit b k"
      "ffz_loop n (ecx + 32) b < 8192 \<Longrightarrow> \<not> bm_bit b (ffz_loop n (ecx + 32) b)"
      using Suc.IH [of "ecx + 32"] Suc.prems by simp_all
    have "bm_bit b k" if "ecx \<le> k" "k < ffz_loop n (ecx + 32) b" for k
      using IH(2) [of k] w [of "k - ecx"] that by (cases "ecx + 32 \<le> k") auto
    then show ?thesis using IH(1,3) unfolding l by blast
  next
    case (Some m)
    then have m: "m < 32" "\<not> bm_bit b (ecx + m)" "\<And>j. j < m \<Longrightarrow> bm_bit b (ecx + j)"
      unfolding find_upt_Some by auto
    have l: "ffz_loop (Suc n) ecx b = ecx + m" unfolding L Some by simp
    have "bm_bit b k" if "ecx \<le> k" "k < ecx + m" for k using m(3) [of "k - ecx"] that by simp
    then show ?thesis using m Suc.prems(2) unfolding l by auto
  qed
qed simp

text \<open>
  C30: \<open>find_first_zero\<close>, which looks at the bitmap in words of 32 bits, returns the number of the
  first bit of the block that is clear, and 8192 when all are set.
\<close>

theorem find_first_zero_correct:
  "find_first_zero b = (case find (\<lambda>k. \<not> bm_bit b k) [0..<8192] of Some k \<Rightarrow> k | None \<Rightarrow> 8192)"
proof -
  let ?r = "find_first_zero b"
  have r: "?r \<le> 8192" "\<And>k. k < ?r \<Longrightarrow> bm_bit b k" "?r < 8192 \<Longrightarrow> \<not> bm_bit b ?r"
    using ffz_loop_spec [of 0 256 b] by (simp_all add: find_first_zero_def del: ffz_loop.simps)
  show ?thesis
  proof (cases "?r < 8192")
    case True
    then have "find (\<lambda>k. \<not> bm_bit b k) [0..<8192] = Some ?r" using r by (simp add: find_upt_Some del: upt_rec_numeral)
    then show ?thesis by simp
  next
    case False
    then have e: "?r = 8192" using r(1) by simp
    then have "find (\<lambda>k. \<not> bm_bit b k) [0..<8192] = None" using r(2) by (simp add: find_upt_None del: upt_rec_numeral)
    then show ?thesis using e by simp
  qed
qed

end
