(* ===== verification/Inode.thy ===== *)
theory Inode
  imports Bitmap
begin

text \<open>
  The table of i-nodes in memory, \<open>fs/inode.c\<close>, with \<open>fs/truncate.c\<close>, which \<open>iput\<close> calls, and
  \<open>new_inode\<close> of \<open>fs/bitmap.c\<close>.  An i-node pointer is the index of its entry.
\<close>

section \<open>Modes and locks\<close>

abbreviation (input) S_IFMT :: u16 where "S_IFMT \<equiv> 0xF000"

definition S_ISREG :: "u16 \<Rightarrow> bool" where "S_ISREG m \<longleftrightarrow> m AND S_IFMT = 0x8000"
definition S_ISDIR :: "u16 \<Rightarrow> bool" where "S_ISDIR m \<longleftrightarrow> m AND S_IFMT = 0x4000"
definition S_ISCHR :: "u16 \<Rightarrow> bool" where "S_ISCHR m \<longleftrightarrow> m AND S_IFMT = 0x2000"
definition S_ISBLK :: "u16 \<Rightarrow> bool" where "S_ISBLK m \<longleftrightarrow> m AND S_IFMT = 0x6000"

text \<open>\<open>while (inode->i_lock) sleep_on (...)\<close>.\<close>

definition wait_on_inode :: "benv \<Rightarrow> nat \<Rightarrow> bufw \<Rightarrow> bufw" where
  "wait_on_inode e n s = (if i_lock (inode_table s n) then e_iwait e n s else s)"

definition lock_inode :: "benv \<Rightarrow> nat \<Rightarrow> bufw \<Rightarrow> bufw" where
  "lock_inode e n s = upd_inode n (\<lambda>i. i\<lparr>i_lock := True\<rparr>) (wait_on_inode e n s)"

definition wake_inode :: "nat \<Rightarrow> bufw \<Rightarrow> bufw" where
  "wake_inode n s =
     (let (p, sc) = wake_up (i_wait (inode_table s n)) (bw_sched s)
      in (upd_inode n (\<lambda>i. i\<lparr>i_wait := p\<rparr>) s)\<lparr>bw_sched := sc\<rparr>)"

definition unlock_inode :: "nat \<Rightarrow> bufw \<Rightarrow> bufw" where
  "unlock_inode n s = wake_inode n (upd_inode n (\<lambda>i. i\<lparr>i_lock := False\<rparr>) s)"

section \<open>truncate.c\<close>

definition free_ind :: "benv \<Rightarrow> u16 \<Rightarrow> u16 \<Rightarrow> bufw \<Rightarrow> bufw kres" where
  "free_ind e dev block s =
     (if block = 0 then Inr s
      else bindE (bread (e_fuel e) e dev (ucast block) s) (\<lambda>(r, s).
        bindE (case r of
                 None \<Rightarrow> Inr s
               | Some i \<Rightarrow>
                   bindE (foldE (\<lambda>k s. let z = le16 (b_data (bhs s i)) (2 * k)
                                         in if z \<noteq> 0 then free_block e dev (uint z) s else Inr s) [0..<512] s)
                     (brelse e (Some i)))
          (free_block e dev (uint block))))"

definition free_dind :: "benv \<Rightarrow> u16 \<Rightarrow> u16 \<Rightarrow> bufw \<Rightarrow> bufw kres" where
  "free_dind e dev block s =
     (if block = 0 then Inr s
      else bindE (bread (e_fuel e) e dev (ucast block) s) (\<lambda>(r, s).
        bindE (case r of
                 None \<Rightarrow> Inr s
               | Some i \<Rightarrow>
                   bindE (foldE (\<lambda>k s. let z = le16 (b_data (bhs s i)) (2 * k)
                                         in if z \<noteq> 0 then free_ind e dev z s else Inr s) [0..<512] s)
                     (brelse e (Some i)))
          (free_block e dev (uint block))))"

definition set_zone :: "nat \<Rightarrow> u16 \<Rightarrow> m_inode \<Rightarrow> m_inode" where
  "set_zone k v i = i\<lparr>i_zone := (i_zone i)(k := v)\<rparr>"

definition truncate_inode :: "benv \<Rightarrow> nat \<Rightarrow> bufw \<Rightarrow> bufw kres" where
  "truncate_inode e n s =
     (if \<not> (S_ISREG (i_mode (inode_table s n)) \<or> S_ISDIR (i_mode (inode_table s n))) then Inr s
      else
        bindE (foldE (\<lambda>k s.
            if i_zone (inode_table s n) k \<noteq> 0
            then bindE (free_block e (i_dev (inode_table s n)) (uint (i_zone (inode_table s n) k)) s)
                   (\<lambda>s. Inr (upd_inode n (set_zone k 0) s))
            else Inr s) [0..<7] s) (\<lambda>s.
        bindE (free_ind e (i_dev (inode_table s n)) (i_zone (inode_table s n) 7) s) (\<lambda>s.
        bindE (free_dind e (i_dev (inode_table s n)) (i_zone (inode_table s n) 8) s) (\<lambda>s.
          Inr (upd_inode n (\<lambda>i. (set_zone 7 0 (set_zone 8 0 i))
                 \<lparr>i_size := 0, i_dirt := True, i_mtime := CURRENT_TIME s, i_ctime := CURRENT_TIME s\<rparr>) s)))))"

section \<open>I-nodes on the disk\<close>

text \<open>The entry \<open>k\<close> of a block of i-nodes, and storing one.\<close>

definition d_inode_at :: "block \<Rightarrow> nat \<Rightarrow> d_inode" where
  "d_inode_at b k =
     \<lparr>d_mode = le16 b (32 * k), d_uid = le16 b (32 * k + 2), d_size = le32 b (32 * k + 4), d_time = le32 b (32 * k + 8),
      d_gid = b (32 * k + 12), d_nlinks = b (32 * k + 13),
      d_zone = (\<lambda>z. if z < 9 then le16 b (32 * k + 14 + 2 * z) else 0)\<rparr>"

definition put_d_inode :: "nat \<Rightarrow> d_inode \<Rightarrow> block \<Rightarrow> block" where
  "put_d_inode k d b =
     (let b = put16 (32 * k) (d_mode d) b;
          b = put16 (32 * k + 2) (d_uid d) b;
          b = put32 (32 * k + 4) (d_size d) b;
          b = put32 (32 * k + 8) (d_time d) b;
          b = b(32 * k + 12 := d_gid d, 32 * k + 13 := d_nlinks d)
      in fold (\<lambda>z b. put16 (32 * k + 14 + 2 * z) (d_zone d z) b) [0..<9] b)"

text \<open>The part of an i-node in memory that is on the disk.\<close>

definition disk_part :: "m_inode \<Rightarrow> d_inode" where
  "disk_part i =
     \<lparr>d_mode = i_mode i, d_uid = i_uid i, d_size = i_size i, d_time = i_mtime i, d_gid = i_gid i,
      d_nlinks = i_nlinks i, d_zone = (\<lambda>z. if z < 9 then i_zone i z else 0)\<rparr>"

definition set_disk_part :: "d_inode \<Rightarrow> m_inode \<Rightarrow> m_inode" where
  "set_disk_part d i =
     i\<lparr>i_mode := d_mode d, i_uid := d_uid d, i_size := d_size d, i_mtime := d_time d, i_gid := d_gid d,
       i_nlinks := d_nlinks d, i_zone := (\<lambda>z. if z < 9 then d_zone d z else i_zone i z)\<rparr>"

text \<open>The block and the entry of the i-node; 32 of them fill a block.\<close>

definition inode_block :: "super_block \<Rightarrow> u16 \<Rightarrow> u32" where
  "inode_block sb num = 2 + ucast (s_imap_blocks sb) + ucast (s_zmap_blocks sb) + (ucast num - 1) div 32"

definition inode_slot :: "u16 \<Rightarrow> nat" where
  "inode_slot num = unat ((ucast num - 1 :: u32) mod 32)"

definition read_inode :: "benv \<Rightarrow> nat \<Rightarrow> bufw \<Rightarrow> bufw kres" where
  "read_inode e n s =
     (let s = lock_inode e n s
      in bindE (get_super e (i_dev (inode_table s n)) s) (\<lambda>(sb, s).
           case sb of
             None \<Rightarrow> Inl (Panic ''trying to read inode without dev'')
           | Some m \<Rightarrow>
               bindE (bread (e_fuel e) e (i_dev (inode_table s n))
                        (inode_block (super_block s m) (i_num (inode_table s n))) s) (\<lambda>(r, s).
                 case r of
                   None \<Rightarrow> Inl (Panic ''unable to read i-node block'')
                 | Some i \<Rightarrow>
                     let s = upd_inode n (set_disk_part (d_inode_at (b_data (bhs s i)) (inode_slot (i_num (inode_table s n))))) s
                     in bindE (brelse e (Some i) s) (\<lambda>s. Inr (unlock_inode n s)))))"

definition write_inode :: "benv \<Rightarrow> nat \<Rightarrow> bufw \<Rightarrow> bufw kres" where
  "write_inode e n s =
     (let s = lock_inode e n s
      in if \<not> i_dirt (inode_table s n) \<or> i_dev (inode_table s n) = 0 then Inr (unlock_inode n s)
         else bindE (get_super e (i_dev (inode_table s n)) s) (\<lambda>(sb, s).
           case sb of
             None \<Rightarrow> Inl (Panic ''trying to write inode without device'')
           | Some m \<Rightarrow>
               bindE (bread (e_fuel e) e (i_dev (inode_table s n))
                        (inode_block (super_block s m) (i_num (inode_table s n))) s) (\<lambda>(r, s).
                 case r of
                   None \<Rightarrow> Inl (Panic ''unable to read i-node block'')
                 | Some i \<Rightarrow>
                     let ip = inode_table s n;
                         s = upd_bh i (\<lambda>b. b\<lparr>b_data := put_d_inode (inode_slot (i_num ip)) (disk_part ip) (b_data b),
                                             b_dirt := True\<rparr>) s;
                         s = upd_inode n (\<lambda>i. i\<lparr>i_dirt := False\<rparr>) s
                     in bindE (brelse e (Some i) s) (\<lambda>s. Inr (unlock_inode n s)))))"

definition invalidate_inodes :: "benv \<Rightarrow> u16 \<Rightarrow> bufw \<Rightarrow> bufw" where
  "invalidate_inodes e dev s =
     fold (\<lambda>n s.
       let s = wait_on_inode e n s
       in if i_dev (inode_table s n) = dev then upd_inode n (\<lambda>i. i\<lparr>i_dev := 0, i_dirt := False\<rparr>) s else s)
       [0..<NR_INODE] s"

definition sync_inodes :: "benv \<Rightarrow> bufw \<Rightarrow> bufw kres" where
  "sync_inodes e s =
     foldE (\<lambda>n s.
       let s = wait_on_inode e n s
       in if i_dirt (inode_table s n) \<and> \<not> i_pipe (inode_table s n) then write_inode e n s else Inr s)
       [0..<NR_INODE] s"

text \<open>
  The cache writes the i-nodes back when it needs a buffer, and writing an i-node needs a buffer:
  the environment of the file system, to a depth.
\<close>

primrec fs_env :: "nat \<Rightarrow> benv \<Rightarrow> benv" where
  "fs_env 0 e = e\<lparr>e_sync_inodes := (\<lambda>s. Inl Hang)\<rparr>"
| "fs_env (Suc d) e = e\<lparr>e_sync_inodes := sync_inodes (fs_env d e)\<rparr>"

section \<open>The zones of a file\<close>

text \<open>\<open>if (create && !inode->i_zone[k]) if ((inode->i_zone[k] = new_block (...))) ...\<close>.\<close>

definition zone_of :: "benv \<Rightarrow> nat \<Rightarrow> nat \<Rightarrow> bool \<Rightarrow> bufw \<Rightarrow> bufw kres" where
  "zone_of e n k create s =
     (if create \<and> i_zone (inode_table s n) k = 0
      then bindE (new_block e (i_dev (inode_table s n)) s) (\<lambda>(nr, s).
             let s = upd_inode n (set_zone k (word_of_int nr)) s
             in Inr (if i_zone (inode_table s n) k \<noteq> 0
                     then upd_inode n (\<lambda>i. i\<lparr>i_ctime := CURRENT_TIME s, i_dirt := True\<rparr>) s else s))
      else Inr s)"

text \<open>The entry \<open>k\<close> of the block of zone numbers \<open>zone\<close>; 0 also when the block cannot be read.\<close>

definition ind_of :: "benv \<Rightarrow> nat \<Rightarrow> u32 \<Rightarrow> nat \<Rightarrow> bool \<Rightarrow> bufw \<Rightarrow> (int \<times> bufw) kres" where
  "ind_of e n zone k create s =
     bindE (bread (e_fuel e) e (i_dev (inode_table s n)) zone s) (\<lambda>(r, s).
       case r of
         None \<Rightarrow> Inr (0, s)
       | Some b \<Rightarrow>
           let i = uint (le16 (b_data (bhs s b)) (2 * k))
           in bindE (if create \<and> i = 0
                     then bindE (new_block e (i_dev (inode_table s n)) s) (\<lambda>(nr, s).
                            Inr (nr, if nr \<noteq> 0
                                     then upd_bh b (\<lambda>h. h\<lparr>b_data := put16 (2 * k) (word_of_int nr) (b_data h), b_dirt := True\<rparr>) s
                                     else s))
                     else Inr (i, s)) (\<lambda>(i, s).
                bindE (brelse e (Some b) s) (\<lambda>s. Inr (i, s))))"

definition bmap_create :: "benv \<Rightarrow> nat \<Rightarrow> int \<Rightarrow> bool \<Rightarrow> bufw \<Rightarrow> (int \<times> bufw) kres" where
  "bmap_create e n block create s =
     (if block < 0 then Inl (Panic ''_bmap: block<0'')
      else if 7 + 512 + 512 * 512 \<le> block then Inl (Panic ''_bmap: block>big'')
      else if block < 7
      then bindE (zone_of e n (nat block) create s) (\<lambda>s. Inr (uint (i_zone (inode_table s n) (nat block)), s))
      else if block - 7 < 512
      then bindE (zone_of e n 7 create s) (\<lambda>s.
             if i_zone (inode_table s n) 7 = 0 then Inr (0, s)
             else ind_of e n (ucast (i_zone (inode_table s n) 7)) (nat (block - 7)) create s)
      else bindE (zone_of e n 8 create s) (\<lambda>s.
             if i_zone (inode_table s n) 8 = 0 then Inr (0, s)
             else bindE (ind_of e n (ucast (i_zone (inode_table s n) 8)) (nat ((block - 519) div 512)) create s) (\<lambda>(i, s).
               if i = 0 then Inr (0, s)
               else ind_of e n (word_of_int i) (nat ((block - 519) mod 512)) create s)))"

definition bmap :: "benv \<Rightarrow> nat \<Rightarrow> int \<Rightarrow> bufw \<Rightarrow> (int \<times> bufw) kres" where
  "bmap e n block s = bmap_create e n block False s"

definition create_block :: "benv \<Rightarrow> nat \<Rightarrow> int \<Rightarrow> bufw \<Rightarrow> (int \<times> bufw) kres" where
  "create_block e n block s = bmap_create e n block True s"

section \<open>Getting and releasing i-nodes\<close>

definition dec_count :: "nat \<Rightarrow> bufw \<Rightarrow> bufw" where
  "dec_count n s = upd_inode n (\<lambda>i. i\<lparr>i_count := i_count i - 1\<rparr>) s"

text \<open>From the label \<open>repeat\<close> of \<open>iput\<close>.\<close>

primrec iput_loop :: "nat \<Rightarrow> benv \<Rightarrow> nat \<Rightarrow> bufw \<Rightarrow> bufw kres" where
  "iput_loop 0 e n s = Inl Hang"
| "iput_loop (Suc f) e n s =
     (if 1 < i_count (inode_table s n) then Inr (dec_count n s)
      else if i_nlinks (inode_table s n) = 0
      then bindE (truncate_inode e n s) (free_inode e (Some n))
      else if i_dirt (inode_table s n)
      then bindE (write_inode e n s) (\<lambda>s. iput_loop f e n (wait_on_inode e n s))
      else Inr (dec_count n s))"

definition iput :: "benv \<Rightarrow> nat option \<Rightarrow> bufw \<Rightarrow> bufw kres" where
  "iput e inode s =
     (case inode of
        None \<Rightarrow> Inr s
      | Some n \<Rightarrow>
          let s = wait_on_inode e n s
          in if i_count (inode_table s n) = 0 then Inl (Panic ''iput: trying to free free inode'')
             else if i_pipe (inode_table s n)
             then
               let s = dec_count n (wake_inode n s)
               in if i_count (inode_table s n) \<noteq> 0 then Inr s
                  else bindE (free_page (i_size (inode_table s n)) (bw_mm s)) (\<lambda>m.
                         Inr (upd_inode n (\<lambda>i. i\<lparr>i_count := 0, i_dirt := False, i_pipe := False\<rparr>) (s\<lparr>bw_mm := m\<rparr>)))
             else if i_dev (inode_table s n) = 0 then Inr (dec_count n s)
             else bindE (if S_ISBLK (i_mode (inode_table s n))
                         then bindE (sync_dev e (i_zone (inode_table s n) 0) s) (\<lambda>s. Inr (wait_on_inode e n s))
                         else Inr s) (iput_loop (e_fuel e) e n))"

text \<open>
  The search of the table for a free entry from \<open>last_inode\<close> on: a clean, unlocked one ends it.
\<close>

primrec scan_inodes :: "nat \<Rightarrow> nat option \<Rightarrow> nat \<Rightarrow> bufw \<Rightarrow> nat option \<times> nat" where
  "scan_inodes 0 inode li s = (inode, li)"
| "scan_inodes (Suc k) inode li s =
     (let li = (if NR_INODE \<le> Suc li then 0 else Suc li);
          ip = inode_table s li
      in if i_count ip = 0
         then if \<not> i_dirt ip \<and> \<not> i_lock ip then (Some li, li) else scan_inodes k (Some li) li s
         else scan_inodes k inode li s)"

primrec clean_inode :: "nat \<Rightarrow> benv \<Rightarrow> nat \<Rightarrow> bufw \<Rightarrow> bufw kres" where
  "clean_inode 0 e n s = Inl Hang"
| "clean_inode (Suc f) e n s =
     (if \<not> i_dirt (inode_table s n) then Inr s
      else bindE (write_inode e n s) (\<lambda>s. clean_inode f e n (wait_on_inode e n s)))"

primrec get_empty_loop :: "nat \<Rightarrow> benv \<Rightarrow> bufw \<Rightarrow> (nat \<times> bufw) kres" where
  "get_empty_loop 0 e s = Inl Hang"
| "get_empty_loop (Suc f) e s =
     (let (inode, li) = scan_inodes NR_INODE None (last_inode s) s;
          s = s\<lparr>last_inode := li\<rparr>
      in case inode of
           None \<Rightarrow> Inl (Panic ''No free inodes in mem'')
         | Some n \<Rightarrow>
             bindE (clean_inode (e_fuel e) e n (wait_on_inode e n s)) (\<lambda>s.
               if i_count (inode_table s n) \<noteq> 0 then get_empty_loop f e s
               else Inr (n, upd_inode n (\<lambda>_. zero_inode\<lparr>i_count := 1\<rparr>) s)))"

definition get_empty_inode :: "benv \<Rightarrow> bufw \<Rightarrow> (nat \<times> bufw) kres" where
  "get_empty_inode e s = get_empty_loop (e_fuel e) e s"

definition get_pipe_inode :: "benv \<Rightarrow> bufw \<Rightarrow> (nat option \<times> bufw) kres" where
  "get_pipe_inode e s =
     bindE (get_empty_inode e s) (\<lambda>(n, s).
       let (page, m) = get_free_page (bw_mm s);
           s = upd_inode n (\<lambda>i. i\<lparr>i_size := page\<rparr>) (s\<lparr>bw_mm := m\<rparr>)
       in if page = 0 then Inr (None, upd_inode n (\<lambda>i. i\<lparr>i_count := 0\<rparr>) s)
          else Inr (Some n, upd_inode n (\<lambda>i. (set_zone 0 0 (set_zone 1 0 i))\<lparr>i_count := 2, i_pipe := True\<rparr>) s))"

text \<open>The search of the table starts again when the task slept or came to a mounted i-node.\<close>

primrec iget_loop :: "nat \<Rightarrow> benv \<Rightarrow> u16 \<Rightarrow> u16 \<Rightarrow> nat \<Rightarrow> bufw \<Rightarrow> (nat \<times> bufw) kres" where
  "iget_loop 0 e dev nr empt s = Inl Hang"
| "iget_loop (Suc f) e dev nr empt s =
     (case find (\<lambda>n. i_dev (inode_table s n) = dev \<and> i_num (inode_table s n) = nr) [0..<NR_INODE] of
        None \<Rightarrow>
          bindE (read_inode e empt (upd_inode empt (\<lambda>i. i\<lparr>i_dev := dev, i_num := nr\<rparr>) s)) (\<lambda>s. Inr (empt, s))
      | Some n \<Rightarrow>
          let s = wait_on_inode e n s
          in if \<not> (i_dev (inode_table s n) = dev \<and> i_num (inode_table s n) = nr) then iget_loop f e dev nr empt s
             else
               let s = upd_inode n (\<lambda>i. i\<lparr>i_count := i_count i + 1\<rparr>) s
               in if i_mount (inode_table s n)
                  then
                    (case find (\<lambda>m. s_imount (super_block s m) = Some n) [0..<NR_SUPER] of
                       None \<Rightarrow> bindE (iput e (Some empt) s) (\<lambda>s. Inr (n, s))
                     | Some m \<Rightarrow>
                         bindE (iput e (Some n) s) (\<lambda>s. iget_loop f e (s_dev (super_block s m)) ROOT_INO empt s))
                  else bindE (iput e (Some empt) s) (\<lambda>s. Inr (n, s)))"

definition iget :: "benv \<Rightarrow> u16 \<Rightarrow> u16 \<Rightarrow> bufw \<Rightarrow> (nat \<times> bufw) kres" where
  "iget e dev nr s =
     (if dev = 0 then Inl (Panic ''iget with dev==0'')
      else bindE (get_empty_inode e s) (\<lambda>(empt, s). iget_loop (e_fuel e) e dev nr empt s))"

definition new_inode :: "benv \<Rightarrow> u16 \<Rightarrow> bufw \<Rightarrow> (nat option \<times> bufw) kres" where
  "new_inode e dev s =
     bindE (get_empty_inode e s) (\<lambda>(n, s).
     bindE (get_super e dev s) (\<lambda>(sb, s).
       case sb of
         None \<Rightarrow> Inl (Panic ''new_inode with unknown device'')
       | Some m \<Rightarrow>
           let (i, bh, j) = scan_maps (s_imap (super_block s m)) s [0..<8] None 8192;
               none = bindE (iput e (Some n) s) (\<lambda>s. Inr (None, s))
           in case bh of
                None \<Rightarrow> none
              | Some z \<Rightarrow>
                  if 8192 \<le> j \<or> unat (s_ninodes (super_block s m)) < j + i * 8192 then none
                  else
                    let (was, d) = set_bit_at j (b_data (bhs s z))
                    in if was then Inl (Panic ''new_inode: bit already set'')
                       else
                         let s = upd_bh z (\<lambda>b. b\<lparr>b_data := d, b_dirt := True\<rparr>) s;
                             t = CURRENT_TIME s
                         in Inr (Some n, upd_inode n (\<lambda>ip. ip\<lparr>i_count := 1, i_nlinks := 1, i_dev := dev,
                              i_uid := t_euid (curr s), i_gid := ucast (t_egid (curr s)), i_dirt := True,
                              i_num := word_of_nat (j + i * 8192), i_mtime := t, i_atime := t, i_ctime := t\<rparr>) s)))"

end
