(* ===== verification/File_Io.thy ===== *)
theory File_Io
  imports Inode Shm
begin

text \<open>
  Reading and writing: files (\<open>fs/file_dev.c\<close>), block devices (\<open>fs/block_dev.c\<close>), pipes
  (\<open>fs/pipe.c\<close>), character devices (\<open>fs/char_dev.c\<close>) and the system calls on top of them
  (\<open>fs/read_write.c\<close>).  The terminal routines, which work on a state of their own, are a
  parameter.
\<close>

section \<open>verify_area\<close>

primrec verify_loop :: "nat \<Rightarrow> u32 \<Rightarrow> mm \<Rightarrow> mm kres" where
  "verify_loop 0 start m = Inr m"
| "verify_loop (Suc n) start m = bindE (write_verify start m) (verify_loop n (start + 4096))"

text \<open>As many pages as \<open>size\<close> bytes from \<open>addr\<close> on touch.\<close>

definition verify_area :: "u32 \<Rightarrow> int \<Rightarrow> bufw \<Rightarrow> bufw kres" where
  "verify_area addr sz s =
     (let sz = sz + uint (addr AND 0xfff);
          start = (addr AND 0xfffff000) + get_base (t_ldt (curr s) 2)
      in bindE (verify_loop (nat ((sz + 4095) div 4096)) start (bw_mm s)) (\<lambda>m. Inr (s\<lparr>bw_mm := m\<rparr>)))"

section \<open>Files\<close>

abbreviation (input) O_APPEND :: u16 where "O_APPEND \<equiv> 0x400"

text \<open>Bytes of a block to the user, and from the user into a block.\<close>

definition to_user :: "u8 list \<Rightarrow> u32 \<Rightarrow> bufw \<Rightarrow> bufw" where
  "to_user bs buf s = s\<lparr>bw_fs := put_fs_bytes bs buf (bw_fs s)\<rparr>"

definition block_bytes :: "block \<Rightarrow> nat \<Rightarrow> nat \<Rightarrow> u8 list" where
  "block_bytes b k n = map b [k..<k + n]"

definition put_block :: "nat \<Rightarrow> u8 list \<Rightarrow> block \<Rightarrow> block" where
  "put_block k bs b = (\<lambda>j. if k \<le> j \<and> j < k + length bs then bs ! (j - k) else b j)"

text \<open>
  The loop of \<open>file_read\<close>; it returns what is left.  A negative position gives a negative block
  number, at which \<open>bmap\<close> panics, or an address below the block.
\<close>

primrec file_read_loop :: "nat \<Rightarrow> benv \<Rightarrow> nat \<Rightarrow> nat \<Rightarrow> u32 \<Rightarrow> int \<Rightarrow> bufw \<Rightarrow> (int \<times> bufw) kres" where
  "file_read_loop 0 e n f buf left s = Inl Hang"
| "file_read_loop (Suc m) e n f buf left s =
     (if left = 0 then Inr (left, s)
      else bindE (bmap e n (sint (f_pos (file_table s f)) sdiv 1024) s) (\<lambda>(nr, s).
        bindE (if nr \<noteq> 0 then bindE (bread (e_fuel e) e (i_dev (inode_table s n)) (word_of_int nr) s) (\<lambda>(r, s).
                                   Inr (r = None, r, s))
               else Inr (False, None, s)) (\<lambda>(stop, bh, s).
          if stop then Inr (left, s)
          else
            let nr = sint (f_pos (file_table s f)) smod 1024;
                chars = min (1024 - nr) left;
                s = upd_file f (\<lambda>fp. fp\<lparr>f_pos := f_pos fp + word_of_int chars\<rparr>) s;
                more = file_read_loop m e n f (buf + word_of_int chars) (left - chars)
            in case bh of
                 None \<Rightarrow> more (to_user (replicate (nat chars) 0) buf s)
               | Some b \<Rightarrow>
                   if nr < 0 then Inl Fault
                   else bindE (brelse e (Some b) (to_user (block_bytes (b_data (bhs s b)) (nat nr) (nat chars)) buf s)) more)))"

definition file_read :: "benv \<Rightarrow> nat \<Rightarrow> nat \<Rightarrow> u32 \<Rightarrow> int \<Rightarrow> bufw \<Rightarrow> (int \<times> bufw) kres" where
  "file_read e n f buf count s =
     (if count \<le> 0 then Inr (0, s)
      else bindE (file_read_loop (Suc (nat count)) e n f buf count s) (\<lambda>(left, s).
        Inr (if count - left \<noteq> 0 then count - left else - ERROR,
             upd_inode n (\<lambda>i. i\<lparr>i_atime := CURRENT_TIME s\<rparr>) s)))"

primrec file_write_loop :: "nat \<Rightarrow> benv \<Rightarrow> nat \<Rightarrow> u32 \<Rightarrow> u32 \<Rightarrow> int \<Rightarrow> int \<Rightarrow> bufw \<Rightarrow> (int \<times> u32 \<times> bufw) kres" where
  "file_write_loop 0 e n pos buf i count s = Inl Hang"
| "file_write_loop (Suc m) e n pos buf i count s =
     (if \<not> i < count then Inr (i, pos, s)
      else bindE (create_block e n (sint pos sdiv 1024) s) (\<lambda>(block, s).
        if block = 0 then Inr (i, pos, s)
        else bindE (bread (e_fuel e) e (i_dev (inode_table s n)) (word_of_int block) s) (\<lambda>(r, s).
          case r of
            None \<Rightarrow> Inr (i, pos, s)
          | Some b \<Rightarrow>
              let o1 = sint pos smod 1024;
                  c = min (1024 - o1) (count - i);
                  pos = pos + word_of_int c;
                  s = upd_bh b (\<lambda>h. h\<lparr>b_dirt := True\<rparr>) s;
                  s = (if i_size (inode_table s n) < pos
                       then upd_inode n (\<lambda>ip. ip\<lparr>i_size := pos, i_dirt := True\<rparr>) s else s)
              in if o1 < 0 then Inl Fault
                 else
                   let s = upd_bh b (\<lambda>h. h\<lparr>b_data := put_block (nat o1) (get_fs_bytes (nat c) buf (bw_fs s)) (b_data h)\<rparr>) s
                   in bindE (brelse e (Some b) s) (file_write_loop m e n pos (buf + word_of_int c) (i + c) count))))"

definition file_write :: "benv \<Rightarrow> nat \<Rightarrow> nat \<Rightarrow> u32 \<Rightarrow> int \<Rightarrow> bufw \<Rightarrow> (int \<times> bufw) kres" where
  "file_write e n f buf count s =
     (let append = (f_flags (file_table s f) AND O_APPEND \<noteq> 0);
          pos = (if append then i_size (inode_table s n) else f_pos (file_table s f))
      in bindE (file_write_loop (Suc (nat count)) e n pos buf 0 count s) (\<lambda>(i, pos, s).
           let s = upd_inode n (\<lambda>ip. ip\<lparr>i_mtime := CURRENT_TIME s\<rparr>) s;
               s = (if f_flags (file_table s f) AND O_APPEND = 0
                    then upd_inode n (\<lambda>ip. ip\<lparr>i_ctime := CURRENT_TIME s\<rparr>) (upd_file f (\<lambda>fp. fp\<lparr>f_pos := pos\<rparr>) s)
                    else s)
           in Inr (if i \<noteq> 0 then i else - 1, s)))"

section \<open>Block devices\<close>

text \<open>The blocks \<open>breada\<close> reads ahead; a negative number ends its arguments.\<close>

definition read_ahead :: "u32 \<Rightarrow> u32 list" where
  "read_ahead block = takeWhile (\<lambda>b. 0 \<le> sint b) [block + 1, block + 2]"

primrec block_write_loop ::
  "nat \<Rightarrow> benv \<Rightarrow> u16 \<Rightarrow> u32 \<Rightarrow> nat \<Rightarrow> u32 \<Rightarrow> u32 \<Rightarrow> int \<Rightarrow> int \<Rightarrow> bufw \<Rightarrow> (int \<times> u32 \<times> bufw) kres" where
  "block_write_loop 0 e dev block offset pos buf written count s = Inl Hang"
| "block_write_loop (Suc m) e dev block offset pos buf written count s =
     (if \<not> 0 < count then Inr (written, pos, s)
      else
        let chars = min (1024 - int offset) count
        in bindE (if chars = 1024 then bindE (getblk (e_fuel e) e dev block s) (\<lambda>(i, s). Inr (Some i, s))
                  else breada (e_fuel e) e dev block (read_ahead block) s) (\<lambda>(r, s).
             case r of
               None \<Rightarrow> Inr (if written \<noteq> 0 then written else - EIO, pos, s)
             | Some b \<Rightarrow>
                 let s = upd_bh b (\<lambda>h. h\<lparr>b_data := put_block offset (get_fs_bytes (nat chars) buf (bw_fs s)) (b_data h),
                                         b_dirt := True\<rparr>) s
                 in bindE (brelse e (Some b) s) (block_write_loop m e dev (block + 1) 0 (pos + word_of_int chars)
                      (buf + word_of_int chars) (written + chars) (count - chars))))"

text \<open>The result and the new position.\<close>

definition block_write :: "benv \<Rightarrow> u16 \<Rightarrow> u32 \<Rightarrow> u32 \<Rightarrow> int \<Rightarrow> bufw \<Rightarrow> (int \<times> u32 \<times> bufw) kres" where
  "block_write e dev pos buf count s =
     block_write_loop (Suc (nat count)) e dev (signed_drop_bit 10 pos) (unat (pos AND 1023)) pos buf 0 count s"

primrec block_read_loop ::
  "nat \<Rightarrow> benv \<Rightarrow> u16 \<Rightarrow> u32 \<Rightarrow> nat \<Rightarrow> u32 \<Rightarrow> u32 \<Rightarrow> int \<Rightarrow> int \<Rightarrow> bufw \<Rightarrow> (int \<times> u32 \<times> bufw) kres" where
  "block_read_loop 0 e dev block offset pos buf got count s = Inl Hang"
| "block_read_loop (Suc m) e dev block offset pos buf got count s =
     (if \<not> 0 < count then Inr (got, pos, s)
      else
        let chars = min (1024 - int offset) count
        in bindE (breada (e_fuel e) e dev block (read_ahead block) s) (\<lambda>(r, s).
             case r of
               None \<Rightarrow> Inr (if got \<noteq> 0 then got else - EIO, pos, s)
             | Some b \<Rightarrow>
                 bindE (brelse e (Some b) (to_user (block_bytes (b_data (bhs s b)) offset (nat chars)) buf s))
                   (block_read_loop m e dev (block + 1) 0 (pos + word_of_int chars) (buf + word_of_int chars)
                      (got + chars) (count - chars))))"

definition block_read :: "benv \<Rightarrow> u16 \<Rightarrow> u32 \<Rightarrow> u32 \<Rightarrow> int \<Rightarrow> bufw \<Rightarrow> (int \<times> u32 \<times> bufw) kres" where
  "block_read e dev pos buf count s =
     block_read_loop (Suc (nat count)) e dev (drop_bit 10 pos) (unat (pos AND 1023)) pos buf 0 count s"

section \<open>Pipes\<close>

abbreviation (input) SIGPIPE :: nat where "SIGPIPE \<equiv> 13"

definition PIPE_HEAD :: "m_inode \<Rightarrow> u16" where "PIPE_HEAD ip = i_zone ip 0"
definition PIPE_TAIL :: "m_inode \<Rightarrow> u16" where "PIPE_TAIL ip = i_zone ip 1"

definition PIPE_SIZE :: "m_inode \<Rightarrow> nat" where
  "PIPE_SIZE ip = nat ((uint (PIPE_HEAD ip) - uint (PIPE_TAIL ip)) mod 4096)"

text \<open>The page of a pipe is at the address \<open>i_size\<close>.\<close>

definition pipe_bytes :: "(u32 \<Rightarrow> u8) \<Rightarrow> u32 \<Rightarrow> nat \<Rightarrow> nat \<Rightarrow> u8 list" where
  "pipe_bytes m page k n = map (\<lambda>j. m (page + word_of_nat j)) [k..<k + n]"

definition put_pipe :: "u32 \<Rightarrow> nat \<Rightarrow> u8 list \<Rightarrow> (u32 \<Rightarrow> u8) \<Rightarrow> u32 \<Rightarrow> u8" where
  "put_pipe page k bs m a =
     (let j = unat (a - page) in if k \<le> j \<and> j < k + length bs then bs ! (j - k) else m a)"

primrec read_pipe_loop :: "nat \<Rightarrow> benv \<Rightarrow> nat \<Rightarrow> u32 \<Rightarrow> nat \<Rightarrow> nat \<Rightarrow> bufw \<Rightarrow> (int \<times> bufw) kres" where
  "read_pipe_loop 0 e n buf count got s = Inl Hang"
| "read_pipe_loop (Suc f) e n buf count got s =
     (let ip = inode_table s n
      in if count = 0 then Inr (int got, wake_inode n s)
         else if PIPE_SIZE ip = 0
         then
           let s = wake_inode n s
           in if i_count (inode_table s n) \<noteq> 2 then Inr (int got, s)
              else read_pipe_loop f e n buf count got (e_psleep e n s)
         else
           let tl = unat (PIPE_TAIL ip);
               chars = min (min (4096 - tl) count) (PIPE_SIZE ip);
               s = upd_inode n (set_zone 1 ((PIPE_TAIL ip + word_of_nat chars) AND 4095)) s;
               s = to_user (pipe_bytes (pmem s) (i_size ip) tl chars) buf s
           in read_pipe_loop f e n (buf + word_of_nat chars) (count - chars) (got + chars) s)"

definition read_pipe :: "benv \<Rightarrow> nat \<Rightarrow> u32 \<Rightarrow> int \<Rightarrow> bufw \<Rightarrow> (int \<times> bufw) kres" where
  "read_pipe e n buf count s = read_pipe_loop (nat count + e_fuel e) e n buf (nat count) 0 s"

primrec write_pipe_loop :: "nat \<Rightarrow> benv \<Rightarrow> nat \<Rightarrow> u32 \<Rightarrow> nat \<Rightarrow> nat \<Rightarrow> bufw \<Rightarrow> (int \<times> bufw) kres" where
  "write_pipe_loop 0 e n buf count written s = Inl Hang"
| "write_pipe_loop (Suc f) e n buf count written s =
     (let ip = inode_table s n;
          room = 4095 - PIPE_SIZE ip
      in if count = 0 then Inr (int written, wake_inode n s)
         else if room = 0
         then
           let s = wake_inode n s
           in if i_count (inode_table s n) \<noteq> 2
              then Inr (if written \<noteq> 0 then int written else - 1,
                        upd_curr (\<lambda>t. t\<lparr>t_signal := t_signal t OR push_bit (SIGPIPE - 1) 1\<rparr>) s)
              else write_pipe_loop f e n buf count written (e_psleep e n s)
         else
           let h = unat (PIPE_HEAD ip);
               chars = min (min (4096 - h) count) room;
               s = upd_inode n (set_zone 0 ((PIPE_HEAD ip + word_of_nat chars) AND 4095)) s;
               s = s\<lparr>pmem := put_pipe (i_size ip) h (get_fs_bytes chars buf (bw_fs s)) (pmem s)\<rparr>
           in write_pipe_loop f e n (buf + word_of_nat chars) (count - chars) (written + chars) s)"

definition write_pipe :: "benv \<Rightarrow> nat \<Rightarrow> u32 \<Rightarrow> int \<Rightarrow> bufw \<Rightarrow> (int \<times> bufw) kres" where
  "write_pipe e n buf count s = write_pipe_loop (nat count + e_fuel e) e n buf (nat count) 0 s"

text \<open>The first two free entries of a table, each taken before the next is looked for.\<close>

definition first_two :: "(nat \<Rightarrow> bool) \<Rightarrow> nat \<Rightarrow> nat list" where
  "first_two free n = take 2 (filter free [0..<n])"

definition set_filp :: "nat \<Rightarrow> nat option \<Rightarrow> bufw \<Rightarrow> bufw" where
  "set_filp fd f s = upd_curr (\<lambda>t. t\<lparr>t_filp := (t_filp t)(fd := f)\<rparr>) s"

definition sys_pipe :: "benv \<Rightarrow> u32 \<Rightarrow> bufw \<Rightarrow> (int \<times> bufw) kres" where
  "sys_pipe e fildes s =
     (case first_two (\<lambda>i. f_count (file_table s i) = 0) NR_FILE of
        [f0, f1] \<Rightarrow>
          let take_file = upd_file f1 (\<lambda>f. f\<lparr>f_count := f_count f + 1\<rparr>) (upd_file f0 (\<lambda>f. f\<lparr>f_count := f_count f + 1\<rparr>) s);
              drop_files = (\<lambda>s. upd_file f1 (\<lambda>f. f\<lparr>f_count := 0\<rparr>) (upd_file f0 (\<lambda>f. f\<lparr>f_count := 0\<rparr>) s));
              s = take_file
          in (case first_two (\<lambda>fd. t_filp (curr s) fd = None) NR_OPEN of
                [fd0, fd1] \<Rightarrow>
                  let s = set_filp fd1 (Some f1) (set_filp fd0 (Some f0) s)
                  in bindE (get_pipe_inode e s) (\<lambda>(r, s).
                       case r of
                         None \<Rightarrow> Inr (- 1, drop_files (set_filp fd0 None (set_filp fd1 None s)))
                       | Some n \<Rightarrow>
                           let s = upd_file f0 (\<lambda>f. f\<lparr>f_inode := Some n, f_pos := 0, f_mode := 1\<rparr>) s;
                               s = upd_file f1 (\<lambda>f. f\<lparr>f_inode := Some n, f_pos := 0, f_mode := 2\<rparr>) s
                           in Inr (0, s\<lparr>bw_fs := put_fs_long (word_of_nat fd1) (fildes + 4)
                                          (put_fs_long (word_of_nat fd0) fildes (bw_fs s))\<rparr>))
              | _ \<Rightarrow> Inr (- 1, drop_files s))
      | _ \<Rightarrow> Inr (- 1, s))"

section \<open>Character devices\<close>

text \<open>\<open>tty_rw\<close> stands for \<open>tty_read\<close> and \<open>tty_write\<close>.\<close>

type_synonym tty_rw = "rw \<Rightarrow> nat \<Rightarrow> u32 \<Rightarrow> int \<Rightarrow> bufw \<Rightarrow> (int \<times> bufw) kres"

definition rw_ttyx :: "tty_rw \<Rightarrow> rw \<Rightarrow> nat \<Rightarrow> u32 \<Rightarrow> int \<Rightarrow> u32 \<Rightarrow> bufw \<Rightarrow> (int \<times> u32 \<times> bufw) kres" where
  "rw_ttyx tty rw minor buf count pos s = bindE (tty rw minor buf count s) (\<lambda>(r, s). Inr (r, pos, s))"

definition rw_tty :: "tty_rw \<Rightarrow> rw \<Rightarrow> nat \<Rightarrow> u32 \<Rightarrow> int \<Rightarrow> u32 \<Rightarrow> bufw \<Rightarrow> (int \<times> u32 \<times> bufw) kres" where
  "rw_tty tty rw minor buf count pos s =
     (if t_tty (curr s) < 0 then Inr (- EPERM, pos, s) else rw_ttyx tty rw (nat (t_tty (curr s))) buf count pos s)"

text \<open>The loop over the ports from \<open>i\<close> on; it returns the port where it stopped.\<close>

primrec port_loop :: "nat \<Rightarrow> rw \<Rightarrow> u32 \<Rightarrow> int \<Rightarrow> bufw \<Rightarrow> int \<times> bufw" where
  "port_loop 0 rw buf i s = (i, s)"
| "port_loop (Suc count) rw buf i s =
     (if \<not> i < 65536 then (i, s)
      else port_loop count rw (buf + 1) (i + 1)
             (if rw = READ then s\<lparr>bw_fs := put_fs_byte (port_in (bw_sched s) (nat (i mod 65536))) buf (bw_fs s)\<rparr>
              else s\<lparr>bw_sched := outb (get_fs_byte buf (bw_fs s)) (nat (i mod 65536)) (bw_sched s)\<rparr>))"

definition rw_port :: "rw \<Rightarrow> u32 \<Rightarrow> int \<Rightarrow> u32 \<Rightarrow> bufw \<Rightarrow> int \<times> u32 \<times> bufw" where
  "rw_port rw buf count pos s =
     (let (i, s) = port_loop (nat count) rw buf (sint pos) s
      in (i - sint pos, word_of_int i, s))"

definition rw_memory :: "rw \<Rightarrow> nat \<Rightarrow> u32 \<Rightarrow> int \<Rightarrow> u32 \<Rightarrow> bufw \<Rightarrow> int \<times> u32 \<times> bufw" where
  "rw_memory rw minor buf count pos s =
     (if minor \<le> 2 then (- EIO, pos, s)
      else if minor = 3 then (if rw = READ then 0 else count, pos, s)
      else if minor = 4 then rw_port rw buf count pos s
      else (- EIO, pos, s))"

definition rw_char :: "tty_rw \<Rightarrow> rw \<Rightarrow> u16 \<Rightarrow> u32 \<Rightarrow> int \<Rightarrow> u32 \<Rightarrow> bufw \<Rightarrow> (int \<times> u32 \<times> bufw) kres" where
  "rw_char tty rw dev buf count pos s =
     (let major = unat (drop_bit 8 dev);
          minor = unat (dev AND 0xff)
      in if major = 1 then Inr (rw_memory rw minor buf count pos s)
         else if major = 4 then rw_ttyx tty rw minor buf count pos s
         else if major = 5 then rw_tty tty rw minor buf count pos s
         else Inr (- ENODEV, pos, s))"

section \<open>System calls\<close>

definition IS_SEEKABLE :: "nat \<Rightarrow> bool" where
  "IS_SEEKABLE x \<longleftrightarrow> 1 \<le> x \<and> x \<le> 3"

definition get_file :: "nat \<Rightarrow> bufw \<Rightarrow> nat option" where
  "get_file fd s = (if NR_OPEN \<le> fd then None else t_filp (curr s) fd)"

definition sys_lseek :: "nat \<Rightarrow> int \<Rightarrow> int \<Rightarrow> bufw \<Rightarrow> int \<times> bufw" where
  "sys_lseek fd offset origin s =
     (case get_file fd s of
        None \<Rightarrow> (- EBADF, s)
      | Some f \<Rightarrow>
          (case f_inode (file_table s f) of
             None \<Rightarrow> (- EBADF, s)
           | Some n \<Rightarrow>
               let seek = (\<lambda>pos. (pos, upd_file f (\<lambda>fp. fp\<lparr>f_pos := word_of_int pos\<rparr>) s));
                   fpos = sint (f_pos (file_table s f) + word_of_int offset);
                   epos = sint (i_size (inode_table s n) + word_of_int offset)
               in if \<not> IS_SEEKABLE (unat (drop_bit 8 (i_dev (inode_table s n)))) then (- EBADF, s)
                  else if i_pipe (inode_table s n) then (- ESPIPE, s)
                  else if origin = 0 then if offset < 0 then (- EINVAL, s) else seek offset
                  else if origin = 1 then if fpos < 0 then (- EINVAL, s) else seek fpos
                  else if origin = 2 then if epos < 0 then (- EINVAL, s) else seek epos
                  else (- EINVAL, s)))"

text \<open>Storing back the position a routine was given by address.\<close>

definition with_pos :: "nat \<Rightarrow> (u32 \<Rightarrow> bufw \<Rightarrow> (int \<times> u32 \<times> bufw) kres) \<Rightarrow> bufw \<Rightarrow> (int \<times> bufw) kres" where
  "with_pos f act s =
     bindE (act (f_pos (file_table s f)) s) (\<lambda>(r, pos, s). Inr (r, upd_file f (\<lambda>fp. fp\<lparr>f_pos := pos\<rparr>) s))"

definition sys_read :: "benv \<Rightarrow> tty_rw \<Rightarrow> nat \<Rightarrow> u32 \<Rightarrow> int \<Rightarrow> bufw \<Rightarrow> (int \<times> bufw) kres" where
  "sys_read e tty fd buf count s =
     (if count < 0 then Inr (- EINVAL, s)
      else case get_file fd s of
        None \<Rightarrow> Inr (- EINVAL, s)
      | Some f \<Rightarrow>
          if count = 0 then Inr (0, s)
          else bindE (verify_area buf count s) (\<lambda>s.
            case f_inode (file_table s f) of
              None \<Rightarrow> Inl Fault
            | Some n \<Rightarrow>
                let ip = inode_table s n; fp = file_table s f
                in if i_pipe ip then if f_mode fp AND 1 \<noteq> 0 then read_pipe e n buf count s else Inr (- EIO, s)
                   else if S_ISCHR (i_mode ip) then with_pos f (rw_char tty READ (i_zone ip 0) buf count) s
                   else if S_ISBLK (i_mode ip) then with_pos f (\<lambda>pos. block_read e (i_zone ip 0) pos buf count) s
                   else if S_ISDIR (i_mode ip) \<or> S_ISREG (i_mode ip)
                   then
                     let count = (if i_size ip < word_of_int count + f_pos fp then sint (i_size ip - f_pos fp) else count)
                     in if count \<le> 0 then Inr (0, s) else file_read e n f buf count s
                   else Inr (- EINVAL, s)))"

text \<open>The letters and digits of the buffer are replaced in the memory of the user.\<close>

definition mask_byte :: "u8 \<Rightarrow> u8" where
  "mask_byte ch =
     (if (97 \<le> ch \<and> ch \<le> 122) \<or> (65 \<le> ch \<and> ch \<le> 90) \<or> (48 \<le> ch \<and> ch \<le> 57) then 42 else ch)"

definition mask_buffer :: "u32 \<Rightarrow> nat \<Rightarrow> fsmem \<Rightarrow> fsmem" where
  "mask_buffer buf count fs =
     fold (\<lambda>i fs. put_fs_byte (mask_byte (get_fs_byte (buf + word_of_nat i) fs)) (buf + word_of_nat i) fs) [0..<count] fs"

definition sys_write :: "benv \<Rightarrow> tty_rw \<Rightarrow> bool \<Rightarrow> nat \<Rightarrow> u32 \<Rightarrow> int \<Rightarrow> bufw \<Rightarrow> (int \<times> bufw) kres" where
  "sys_write e tty mask_display fd buf count s =
     (let s = (if mask_display then s\<lparr>bw_fs := mask_buffer buf (nat count) (bw_fs s)\<rparr> else s)
      in if count < 0 then Inr (- EINVAL, s)
         else case get_file fd s of
           None \<Rightarrow> Inr (- EINVAL, s)
         | Some f \<Rightarrow>
             if count = 0 then Inr (0, s)
             else
               (case f_inode (file_table s f) of
                  None \<Rightarrow> Inl Fault
                | Some n \<Rightarrow>
                    let ip = inode_table s n; fp = file_table s f
                    in if i_pipe ip then if f_mode fp AND 2 \<noteq> 0 then write_pipe e n buf count s else Inr (- EIO, s)
                       else if S_ISCHR (i_mode ip) then with_pos f (rw_char tty WRITE (i_zone ip 0) buf count) s
                       else if S_ISBLK (i_mode ip) then with_pos f (\<lambda>pos. block_write e (i_zone ip 0) pos buf count) s
                       else if S_ISREG (i_mode ip) then file_write e n f buf count s
                       else Inr (- EINVAL, s)))"

end
