(* ===== verification/Ll_rw_blk.thy ===== *)
theory Ll_rw_blk
  imports Buffer_Cache
begin

text \<open>
  The request queues of the block devices, \<open>kernel/blk_drv/ll_rw_blk.c\<close>.  Requests are the
  entries of an array; each device has a queue of them, linked by \<open>r_next\<close>, whose first entry is
  the request the driver works on.  The record \<open>denv\<close> holds what happens outside the file: what
  a task finds when it has slept for a locked buffer or for a free request, and the request
  routines of the drivers.  The messages of \<open>printk\<close> are left out.
\<close>

section \<open>Operations\<close>

abbreviation (input) NR_REQUEST :: nat where "NR_REQUEST \<equiv> 32"
abbreviation (input) NR_BLK_DEV :: nat where "NR_BLK_DEV \<equiv> 7"

record denv =
  d_wait :: "nat \<Rightarrow> bufw \<Rightarrow> bufw"
  d_sleep :: "bufw \<Rightarrow> bufw"
  d_fn :: "driver \<Rightarrow> bufw \<Rightarrow> bufw kres"

definition upd_req :: "nat \<Rightarrow> (request \<Rightarrow> request) \<Rightarrow> bufw \<Rightarrow> bufw" where
  "upd_req r f s = s\<lparr>request := (request s)(r := f (request s r))\<rparr>"

definition lock_buffer :: "denv \<Rightarrow> nat \<Rightarrow> bufw \<Rightarrow> bufw" where
  "lock_buffer d i s =
     upd_bh i (\<lambda>b. b\<lparr>b_lock := True\<rparr>) (if b_lock (bhs s i) then d_wait d i s else s)"

definition unlock_buffer :: "nat \<Rightarrow> bufw \<Rightarrow> bufw" where
  "unlock_buffer i s =
     (let (p, sc) = wake_up (b_wait (bhs s i)) (bw_sched s)
      in (upd_bh i (\<lambda>b. b\<lparr>b_lock := False, b_wait := p\<rparr>) s)\<lparr>bw_sched := sc\<rparr>)"

primrec cmd_nr :: "rw \<Rightarrow> nat" where
  "cmd_nr READ = 0"
| "cmd_nr WRITE = 1"
| "cmd_nr READA = 2"
| "cmd_nr WRITEA = 3"

definition IN_ORDER :: "request \<Rightarrow> request \<Rightarrow> bool" where
  "IN_ORDER s1 s2 \<longleftrightarrow>
     cmd_nr (r_cmd s1) < cmd_nr (r_cmd s2) \<or>
     (cmd_nr (r_cmd s1) = cmd_nr (r_cmd s2) \<and>
      (r_dev s1 < r_dev s2 \<or> (r_dev s1 = r_dev s2 \<and> r_sector s1 < r_sector s2)))"

text \<open>The search for the place of the request \<open>req\<close> in the queue.\<close>

primrec elevator :: "nat \<Rightarrow> nat \<Rightarrow> nat \<Rightarrow> bufw \<Rightarrow> nat kres" where
  "elevator 0 tmp req s = Inl Hang"
| "elevator (Suc n) tmp req s =
     (case r_next (request s tmp) of
        None \<Rightarrow> Inr tmp
      | Some nx \<Rightarrow>
          if (IN_ORDER (request s tmp) (request s req) \<or> \<not> IN_ORDER (request s tmp) (request s nx)) \<and>
             IN_ORDER (request s req) (request s nx)
          then Inr tmp else elevator n nx req s)"

definition add_request :: "denv \<Rightarrow> nat \<Rightarrow> nat \<Rightarrow> bufw \<Rightarrow> bufw kres" where
  "add_request d major req s =
     (let s = upd_req req (\<lambda>r. r\<lparr>r_next := None\<rparr>) s;
          s = (case r_bh (request s req) of None \<Rightarrow> s | Some i \<Rightarrow> upd_bh i (\<lambda>b. b\<lparr>b_dirt := False\<rparr>) s)
      in case current_request (blk_dev s major) of
           None \<Rightarrow>
             let s = s\<lparr>blk_dev := (blk_dev s)(major := (blk_dev s major)\<lparr>current_request := Some req\<rparr>)\<rparr>
             in (case request_fn (blk_dev s major) of None \<Rightarrow> Inl Fault | Some fn \<Rightarrow> d_fn d fn s)
         | Some tmp \<Rightarrow>
             bindE (elevator NR_REQUEST tmp req s) (\<lambda>tmp.
               let nx = r_next (request s tmp);
                   s = upd_req req (\<lambda>r. r\<lparr>r_next := nx\<rparr>) s
               in Inr (upd_req tmp (\<lambda>r. r\<lparr>r_next := Some req\<rparr>) s)))"

text \<open>The last free entry below \<open>n\<close>.\<close>

primrec free_request :: "nat \<Rightarrow> bufw \<Rightarrow> nat option" where
  "free_request 0 s = None"
| "free_request (Suc n) s = (if r_dev (request s n) < 0 then Some n else free_request n s)"

definition fill_request :: "nat \<Rightarrow> rw \<Rightarrow> nat \<Rightarrow> bufw \<Rightarrow> bufw" where
  "fill_request req rw i s =
     (let b = bhs s i
      in upd_req req (\<lambda>r. r\<lparr>r_dev := uint (b_dev b), r_cmd := rw, r_errors := 0, r_sector := push_bit 1 (b_blocknr b),
           r_nr_sectors := 2, r_buffer := i, r_offset := 0, r_waiting := None, r_bh := Some i, r_next := None\<rparr>) s)"

text \<open>From the label \<open>repeat\<close>: writes leave the last third of the entries to reads.\<close>

primrec queue_request :: "nat \<Rightarrow> denv \<Rightarrow> nat \<Rightarrow> rw \<Rightarrow> bool \<Rightarrow> nat \<Rightarrow> bufw \<Rightarrow> bufw kres" where
  "queue_request 0 d major rw rw_ahead i s = Inl Hang"
| "queue_request (Suc f) d major rw rw_ahead i s =
     (case free_request (if rw = READ then NR_REQUEST else NR_REQUEST * 2 div 3) s of
        None \<Rightarrow>
          if rw_ahead then Inr (unlock_buffer i s)
          else queue_request f d major rw rw_ahead i (d_sleep d s)
      | Some req \<Rightarrow> add_request d major req (fill_request req rw i s))"

definition make_request :: "nat \<Rightarrow> denv \<Rightarrow> nat \<Rightarrow> rw \<Rightarrow> nat \<Rightarrow> bufw \<Rightarrow> bufw kres" where
  "make_request f d major rw i s =
     (let rw_ahead = (rw = READA \<or> rw = WRITEA)
      in if rw_ahead \<and> b_lock (bhs s i) then Inr s
         else
           let rw = (if rw = READA then READ else if rw = WRITEA then WRITE else rw);
               s = lock_buffer d i s
           in if (rw = WRITE \<and> \<not> b_dirt (bhs s i)) \<or> (rw = READ \<and> b_uptodate (bhs s i))
              then Inr (unlock_buffer i s)
              else queue_request f d major rw rw_ahead i s)"

definition ll_rw_block :: "nat \<Rightarrow> denv \<Rightarrow> rw \<Rightarrow> nat \<Rightarrow> bufw \<Rightarrow> bufw kres" where
  "ll_rw_block f d rw i s =
     (let major = unat (drop_bit 8 (b_dev (bhs s i)))
      in if NR_BLK_DEV \<le> major then Inr s
         else if request_fn (blk_dev s major) = None then Inr s
         else make_request f d major rw i s)"

definition blk_dev_init :: "bufw \<Rightarrow> bufw" where
  "blk_dev_init s =
     s\<lparr>request := (\<lambda>i. if i < NR_REQUEST then (request s i)\<lparr>r_dev := - 1, r_next := None\<rparr> else request s i)\<rparr>"

section \<open>The elevator\<close>

text \<open>The queue as a list, and the order of two sweeps of the disk arm.\<close>

primrec rq :: "(nat \<Rightarrow> request) \<Rightarrow> nat option \<Rightarrow> nat list \<Rightarrow> bool" where
  "rq rs p [] \<longleftrightarrow> p = None"
| "rq rs p (x # xs) \<longleftrightarrow> p = Some x \<and> rq rs (r_next (rs x)) xs"

definition two_sweeps :: "('a \<Rightarrow> 'a \<Rightarrow> bool) \<Rightarrow> 'a list \<Rightarrow> bool" where
  "two_sweeps lt xs \<longleftrightarrow> (\<exists>us vs. xs = us @ vs \<and> sorted_wrt lt us \<and> sorted_wrt lt vs)"

text \<open>The same search on lists.\<close>

fun elevator_list :: "('a \<Rightarrow> 'a \<Rightarrow> bool) \<Rightarrow> 'a \<Rightarrow> 'a list \<Rightarrow> 'a list" where
  "elevator_list lt r (x # y # ys) =
     (if (lt x r \<or> \<not> lt x y) \<and> lt r y then x # r # y # ys else x # elevator_list lt r (y # ys))"
| "elevator_list lt r [x] = [x, r]"
| "elevator_list lt r [] = [r]"

text \<open>The old entries keep their order, and the first stays the first.\<close>

lemma elevator_list_split: "xs \<noteq> [] \<Longrightarrow> \<exists>us vs. elevator_list lt r xs = us @ r # vs \<and> xs = us @ vs \<and> us \<noteq> []"
proof (induction lt r xs rule: elevator_list.induct)
  case (1 lt r x y ys)
  show ?case
  proof (cases "(lt x r \<or> \<not> lt x y) \<and> lt r y")
    case True
    then show ?thesis by (intro exI [of _ "[x]"] exI [of _ "y # ys"]) simp
  next
    case False
    then obtain us vs where e: "elevator_list lt r (y # ys) = us @ r # vs" "y # ys = us @ vs" using 1 by auto
    have "elevator_list lt r (x # y # ys) = (x # us) @ r # vs" using False e(1) by auto
    moreover have "x # y # ys = (x # us) @ vs" using e(2) by simp
    ultimately show ?thesis by blast
  qed
next
  case (2 lt r x)
  show ?case by (intro exI [of _ "[x]"] exI [of _ "[]"]) simp
qed simp

lemma elevator_list_Cons: "\<exists>zs. elevator_list lt r (y # ys) = y # zs"
  by (cases ys) auto

text \<open>\<open>lt\<close> orders the queue and the new request strictly.\<close>

definition queue_order :: "('a \<Rightarrow> 'a \<Rightarrow> bool) \<Rightarrow> 'a \<Rightarrow> 'a list \<Rightarrow> bool" where
  "queue_order lt r xs \<longleftrightarrow>
     transp lt \<and> (\<forall>x. \<not> lt x x) \<and> (\<forall>x \<in> set xs. lt x r \<or> lt r x)"

lemma queue_order_tl: "queue_order lt r (x # xs) \<Longrightarrow> queue_order lt r xs"
  by (simp add: queue_order_def)

lemma sorted_wrt_Cons2: "transp lt \<Longrightarrow> sorted_wrt lt (x # y # ys) \<longleftrightarrow> lt x y \<and> sorted_wrt lt (y # ys)"
  by (auto dest: transpD)

lemma two_sweeps_sorted: "sorted_wrt lt xs \<Longrightarrow> two_sweeps lt xs"
  unfolding two_sweeps_def by (metis append_Nil2 sorted_wrt.simps(1))

lemma two_sweeps_Cons2:
  assumes "transp lt"
  shows "two_sweeps lt (x # y # ys) \<longleftrightarrow> sorted_wrt lt (y # ys) \<or> (lt x y \<and> two_sweeps lt (y # ys))"
proof
  assume "two_sweeps lt (x # y # ys)"
  then obtain us vs where u: "x # y # ys = us @ vs" "sorted_wrt lt us" "sorted_wrt lt vs"
    by (auto simp: two_sweeps_def)
  consider "us = []" | "us = [x]" | us' where "us = x # y # us'" "ys = us' @ vs"
    using u(1) by (cases us rule: remdups_adj.cases) auto
  then show "sorted_wrt lt (y # ys) \<or> (lt x y \<and> two_sweeps lt (y # ys))"
  proof cases
    case 3
    then have "y # ys = (y # us') @ vs" "lt x y" "sorted_wrt lt (y # us')" using u by auto
    then show ?thesis using u(3) unfolding two_sweeps_def by blast
  qed (use u in auto)
next
  assume "sorted_wrt lt (y # ys) \<or> (lt x y \<and> two_sweeps lt (y # ys))"
  then show "two_sweeps lt (x # y # ys)"
  proof (elim disjE conjE)
    assume "sorted_wrt lt (y # ys)"
    then show ?thesis unfolding two_sweeps_def by (intro exI [of _ "[x]"] exI [of _ "y # ys"]) simp
  next
    assume l: "lt x y" and "two_sweeps lt (y # ys)"
    then obtain us vs where u: "y # ys = us @ vs" "sorted_wrt lt us" "sorted_wrt lt vs"
      by (auto simp: two_sweeps_def)
    show ?thesis
    proof (cases us)
      case Nil
      then show ?thesis using u unfolding two_sweeps_def by (intro exI [of _ "[x]"] exI [of _ "y # ys"]) simp
    next
      case (Cons u' us')
      then have "sorted_wrt lt (x # us)" using u l sorted_wrt_Cons2 [OF assms, of x y us'] by simp
      then show ?thesis using u unfolding two_sweeps_def by (intro exI [of _ "x # us"] exI [of _ vs]) simp
    qed
  qed
qed

lemma sorted_elevator_list:
  "queue_order lt r (y # ys) \<Longrightarrow> sorted_wrt lt (y # ys) \<Longrightarrow> lt y r \<Longrightarrow> sorted_wrt lt (elevator_list lt r (y # ys))"
proof (induction ys arbitrary: y)
  case Nil
  then show ?case by simp
next
  case (Cons z zs)
  have t: "transp lt" using Cons.prems by (simp add: queue_order_def)
  show ?case
  proof (cases "lt r z")
    case True
    then show ?thesis using Cons.prems by (simp add: sorted_wrt_Cons2 [OF t] del: sorted_wrt.simps)
  next
    case False
    then have "lt z r" using Cons.prems by (auto simp: queue_order_def)
    then have "sorted_wrt lt (elevator_list lt r (z # zs))"
      using Cons.IH [of z] Cons.prems queue_order_tl [OF Cons.prems(1)]
      by (simp add: sorted_wrt_Cons2 [OF t] del: sorted_wrt.simps)
    moreover obtain ws where "elevator_list lt r (z # zs) = z # ws" using elevator_list_Cons by metis
    ultimately show ?thesis using False Cons.prems by (simp add: sorted_wrt_Cons2 [OF t] del: sorted_wrt.simps)
  qed
qed

lemma two_sweeps_elevator_list:
  "queue_order lt r xs \<Longrightarrow> two_sweeps lt xs \<Longrightarrow> two_sweeps lt (elevator_list lt r xs)"
proof (induction lt r xs rule: elevator_list.induct)
  case (1 lt r x y ys)
  have t: "transp lt" using 1(2) by (simp add: queue_order_def)
  note S = two_sweeps_Cons2 [OF t] and W = sorted_wrt_Cons2 [OF t]
  have q: "queue_order lt r (y # ys)" using 1(2) by (rule queue_order_tl)
  show ?case
  proof (cases "(lt x r \<or> \<not> lt x y) \<and> lt r y")
    case True
    then show ?thesis using 1(3) by (auto simp: S W simp del: sorted_wrt.simps)
  next
    case False
    have "two_sweeps lt (y # ys)" using 1(3) two_sweeps_sorted [of lt "y # ys"] by (auto simp: S simp del: sorted_wrt.simps)
    then have IH: "two_sweeps lt (elevator_list lt r (y # ys))" using 1(1) [OF False q] by simp
    obtain ws where e: "elevator_list lt r (y # ys) = y # ws" using elevator_list_Cons by metis
    have "sorted_wrt lt (y # ws)" if "\<not> lt x y"
    proof -
      have "lt y r" using that False q by (auto simp: queue_order_def)
      then show ?thesis using that 1(3) sorted_elevator_list [OF q] e by (simp add: S del: sorted_wrt.simps)
    qed
    then show ?thesis using False IH e by (auto simp: S simp del: sorted_wrt.simps)
  qed
next
  case (2 lt r x)
  then show ?case by (auto simp: two_sweeps_Cons2 queue_order_def)
qed (simp add: two_sweeps_sorted)

section \<open>Adding a request\<close>

definition before :: "(nat \<Rightarrow> request) \<Rightarrow> nat \<Rightarrow> nat \<Rightarrow> bool" where
  "before rs x y \<longleftrightarrow> IN_ORDER (rs x) (rs y)"

lemma before_order: "transp (before rs)" "\<not> before rs x x"
  by (auto simp: before_def IN_ORDER_def intro!: transpI)

lemma before_cong:
  "(\<And>x. r_cmd (rs' x) = r_cmd (rs x) \<and> r_dev (rs' x) = r_dev (rs x) \<and> r_sector (rs' x) = r_sector (rs x)) \<Longrightarrow>
   before rs' = before rs"
  by (simp add: before_def IN_ORDER_def fun_eq_iff)

lemma rq_cong: "(\<And>x. x \<in> set xs \<Longrightarrow> r_next (rs' x) = r_next (rs x)) \<Longrightarrow> rq rs' p xs = rq rs p xs"
  by (induction xs arbitrary: p) auto

definition link_after :: "nat \<Rightarrow> nat \<Rightarrow> (nat \<Rightarrow> request) \<Rightarrow> nat \<Rightarrow> request" where
  "link_after tmp req rs =
     rs(req := (rs req)\<lparr>r_next := r_next (rs tmp)\<rparr>, tmp := (rs tmp)\<lparr>r_next := Some req\<rparr>)"

lemma elevator_rq:
  "rq (request s) (Some x) (x # xs) \<Longrightarrow> distinct (x # xs) \<Longrightarrow> req \<notin> set (x # xs) \<Longrightarrow> length xs < n \<Longrightarrow>
   \<exists>tmp \<in> set (x # xs). elevator n x req s = Inr tmp \<and>
     rq (link_after tmp req (request s)) (Some x) (elevator_list (before (request s)) req (x # xs))"
proof (induction xs arbitrary: x n)
  case Nil
  then show ?case by (cases n) (auto simp: link_after_def)
next
  case (Cons y ys)
  obtain m where n: "n = Suc m" using Cons.prems(4) by (cases n) auto
  have nx: "r_next (request s x) = Some y" using Cons.prems(1) by simp
  let ?in = "(before (request s) x req \<or> \<not> before (request s) x y) \<and> before (request s) req y"
  show ?case
  proof (cases ?in)
    case True
    have "rq (link_after x req (request s)) (r_next (request s y)) ys = rq (request s) (r_next (request s y)) ys"
      by (rule rq_cong) (use Cons.prems in \<open>auto simp: link_after_def\<close>)
    then have "rq (link_after x req (request s)) (Some x) (x # req # y # ys)"
      using Cons.prems nx by (auto simp: link_after_def)
    then show ?thesis using True nx by (auto simp: n before_def)
  next
    case False
    obtain tmp where tmp: "tmp \<in> set (y # ys)" "elevator m y req s = Inr tmp"
      "rq (link_after tmp req (request s)) (Some y) (elevator_list (before (request s)) req (y # ys))"
      using Cons.IH [of y m] Cons.prems n by auto
    have "r_next (link_after tmp req (request s) x) = Some y"
      using tmp(1) Cons.prems nx by (auto simp: link_after_def)
    moreover have "elevator n x req s = Inr tmp" using False nx tmp(2) by (auto simp: n before_def)
    ultimately show ?thesis using False tmp by auto
  qed
qed

text \<open>
  C21: A request for a busy device goes to the place the elevator on lists gives it: somewhere
  behind the one in service, the others keep their order.  The queue stays an elevator: if it
  was at most two upward sweeps over commands, devices and sectors, it still is, for a new
  request that no queued request equals.
\<close>

theorem add_request_elevator:
  assumes cur: "current_request (blk_dev s major) = Some c" and q: "rq (request s) (Some c) (c # q)"
    and d: "distinct (req # c # q)" "length q < NR_REQUEST"
    and sweeps: "two_sweeps (before (request s)) (c # q)"
    and new: "\<forall>x \<in> set (c # q). before (request s) x req \<or> before (request s) req x"
  shows "\<exists>s' us vs. add_request e major req s = Inr s' \<and> current_request (blk_dev s' major) = Some c \<and>
    rq (request s') (Some c) (c # us @ req # vs) \<and> q = us @ vs \<and>
    c # us @ req # vs = elevator_list (before (request s)) req (c # q) \<and>
    two_sweeps (before (request s')) (c # us @ req # vs)"
proof -
  define s1 where "s1 = upd_req req (\<lambda>r. r\<lparr>r_next := None\<rparr>) s"
  define s2 where "s2 = (case r_bh (request s1 req) of None \<Rightarrow> s1 | Some i \<Rightarrow> upd_bh i (\<lambda>b. b\<lparr>b_dirt := False\<rparr>) s1)"
  have r2: "request s2 = (request s)(req := (request s req)\<lparr>r_next := None\<rparr>)" "blk_dev s2 = blk_dev s"
    by (auto simp: s2_def s1_def upd_req_def upd_bh_def split: option.split)
  have b2: "before (request s2) = before (request s)" by (rule before_cong) (simp add: r2)
  have "rq (request s2) (Some c) (c # q) = rq (request s) (Some c) (c # q)"
    by (rule rq_cong) (use d in \<open>auto simp: r2\<close>)
  then obtain tmp where t: "tmp \<in> set (c # q)" "elevator NR_REQUEST c req s2 = Inr tmp"
    "rq (link_after tmp req (request s2)) (Some c) (elevator_list (before (request s2)) req (c # q))"
    using elevator_rq [of s2 c q req NR_REQUEST] q d by auto
  obtain us vs where q': "elevator_list (before (request s2)) req (c # q) = c # us @ req # vs" "q = us @ vs"
    using elevator_list_split [of "c # q" "before (request s2)" req] by (auto simp: Cons_eq_append_conv)
  let ?s = "s2\<lparr>request := link_after tmp req (request s2)\<rparr>"
  have add: "add_request e major req s = Inr ?s"
    unfolding add_request_def Let_def s1_def [symmetric] s2_def [symmetric]
    using t(1,2) d cur by (auto simp: r2 upd_req_def link_after_def)
  have bs: "before (request ?s) = before (request s)"
    unfolding b2 [symmetric] by (rule before_cong) (simp add: link_after_def)
  have "two_sweeps (before (request s)) (c # us @ req # vs)"
    using two_sweeps_elevator_list [of "before (request s)" req "c # q"] sweeps new q' b2
    by (simp add: queue_order_def before_order)
  moreover have "current_request (blk_dev ?s major) = Some c" using cur by (simp add: r2)
  ultimately show ?thesis using add t(3) q' bs b2 by (intro exI [of _ ?s] exI [of _ us] exI [of _ vs]) simp
qed

text \<open>A busy device whose arm is at sector 6, with a request for sector 10 waiting.\<close>

definition demo_queue :: bufw where
  "demo_queue = demo_buf\<lparr>
     request := (\<lambda>_. demo_request)
       (0 := demo_request\<lparr>r_dev := 0x301, r_sector := 6, r_next := Some 1\<rparr>,
        1 := demo_request\<lparr>r_dev := 0x301, r_sector := 10\<rparr>,
        2 := demo_request\<lparr>r_dev := 0x301, r_sector := 8\<rparr>),
     blk_dev := (\<lambda>_. \<lparr>request_fn = Some Do_hd_request, current_request = Some 0\<rparr>)\<rparr>"

definition demo_denv :: denv where
  "demo_denv = \<lparr>d_wait = (\<lambda>_ s. s), d_sleep = (\<lambda>s. s), d_fn = (\<lambda>_. Inr)\<rparr>"

theorem add_request_elevator_witness:
  "\<exists>s'. add_request demo_denv 3 2 demo_queue = Inr s' \<and> rq (request s') (Some 0) [0, 2, 1]"
proof -
  have b: "before (request demo_queue) 0 1" "before (request demo_queue) 0 2" "before (request demo_queue) 2 1"
    by (simp_all add: before_def IN_ORDER_def demo_queue_def demo_request_def)
  then have sw: "two_sweeps (before (request demo_queue)) (0 # [1])" by (intro two_sweeps_sorted) simp
  have q: "rq (request demo_queue) (Some 0) (0 # [1])" by (simp add: demo_queue_def demo_request_def)
  have c: "current_request (blk_dev demo_queue 3) = Some 0" by (simp add: demo_queue_def)
  have d: "distinct [2, 0, 1 :: nat]" "length [1 :: nat] < NR_REQUEST" by simp_all
  have n: "\<forall>x \<in> set [0, 1]. before (request demo_queue) x 2 \<or> before (request demo_queue) 2 x" using b by simp
  obtain s' us vs where "add_request demo_denv 3 2 demo_queue = Inr s'"
    "rq (request s') (Some 0) (0 # us @ 2 # vs)" "0 # us @ 2 # vs = elevator_list (before (request demo_queue)) 2 [0, 1]"
    using add_request_elevator [OF c q d sw n, of demo_denv] by blast
  then show ?thesis using b by (intro exI [of _ s']) simp
qed

end
