(* ===== verification/Block_Device.thy ===== *)
theory Block_Device
  imports Buffer_Cache
begin

text \<open>
  The contract between the buffer cache and a block driver, as a locale, and what the cache makes
  of it: through \<open>bread\<close> a reader sees one array of blocks, \<open>content\<close>, whether a block is in
  a buffer or only on the device, and reading does not change it.  A driver is assumed to finish
  a request before \<open>ll_rw_block\<close> returns, as the RAM disk does.
\<close>

section \<open>What a reader sees\<close>

text \<open>\<open>blocks\<close> is what is on the device.\<close>

definition content :: "u16 \<Rightarrow> (bufw \<Rightarrow> u32 \<Rightarrow> block) \<Rightarrow> bufw \<Rightarrow> u32 \<Rightarrow> block" where
  "content dev blocks s nr =
     (case find (\<lambda>i. holds dev nr s i \<and> b_uptodate (bhs s i)) [0..<NR_BUFFERS s] of
        Some i \<Rightarrow> b_data (bhs s i)
      | None \<Rightarrow> blocks s nr)"

definition same_block :: "block \<Rightarrow> block \<Rightarrow> bool" where
  "same_block a b \<longleftrightarrow> (\<forall>k < BLOCK_SIZE. a k = b k)"

lemma same_block_refl [simp]: "same_block a a"
  by (simp add: same_block_def)

lemma same_block_sym: "same_block a b \<Longrightarrow> same_block b a"
  by (simp add: same_block_def)

lemma same_block_trans [trans]: "same_block a b \<Longrightarrow> same_block b c \<Longrightarrow> same_block a c"
  by (simp add: same_block_def)

text \<open>
  No buffer is locked, a clean buffer that is up to date agrees with the device, and a dirty one
  is up to date.
\<close>

definition coherent :: "u16 \<Rightarrow> (bufw \<Rightarrow> u32 \<Rightarrow> block) \<Rightarrow> bufw \<Rightarrow> bool" where
  "coherent dev blocks s \<longleftrightarrow>
     (\<forall>i < NR_BUFFERS s. \<not> b_lock (bhs s i) \<and> (b_dirt (bhs s i) \<longrightarrow> b_uptodate (bhs s i)) \<and>
        (b_dev (bhs s i) = dev \<longrightarrow> b_uptodate (bhs s i) \<longrightarrow> \<not> b_dirt (bhs s i) \<longrightarrow>
           same_block (b_data (bhs s i)) (blocks s (b_blocknr (bhs s i)))))"

lemma content_cached:
  assumes "buf_inv s fl" "dev \<noteq> 0" "i < NR_BUFFERS s" "holds dev nr s i" "b_uptodate (bhs s i)"
  shows "content dev blocks s nr = b_data (bhs s i)"
proof -
  let ?P = "\<lambda>i. holds dev nr s i \<and> b_uptodate (bhs s i)"
  have "find ?P [0..<NR_BUFFERS s] \<noteq> None" using assms(3-5) by (auto simp: find_upt_None)
  then obtain j where j: "find ?P [0..<NR_BUFFERS s] = Some j" by blast
  then have "j < NR_BUFFERS s" "holds dev nr s j" by (auto simp: find_upt_Some)
  then have "j = i" using assms by (auto simp: buf_inv_def unique_blocks_def holds_def)
  then show ?thesis using j by (simp add: content_def)
qed

lemma content_device:
  assumes "\<And>i. i < NR_BUFFERS s \<Longrightarrow> \<not> (holds dev nr s i \<and> b_uptodate (bhs s i))"
  shows "content dev blocks s nr = blocks s nr"
proof -
  have "find (\<lambda>i. holds dev nr s i \<and> b_uptodate (bhs s i)) [0..<NR_BUFFERS s] = None"
    using assms by (simp add: find_upt_None)
  then show ?thesis by (simp add: content_def)
qed

lemma content_cong:
  assumes "NR_BUFFERS s' = NR_BUFFERS s"
    and "\<And>i. i < NR_BUFFERS s \<Longrightarrow> holds dev nr s' i = holds dev nr s i"
    and "\<And>i. i < NR_BUFFERS s \<Longrightarrow> holds dev nr s i \<Longrightarrow>
      b_uptodate (bhs s' i) = b_uptodate (bhs s i) \<and> b_data (bhs s' i) = b_data (bhs s i)"
    and "blocks s' nr = blocks s nr"
  shows "content dev blocks s' nr = content dev blocks s nr"
proof -
  let ?P = "\<lambda>i. holds dev nr s i \<and> b_uptodate (bhs s i)"
  have "find (\<lambda>i. holds dev nr s' i \<and> b_uptodate (bhs s' i)) [0..<NR_BUFFERS s'] = find ?P [0..<NR_BUFFERS s]"
    unfolding assms(1) by (rule find_cong) (use assms(2,3) in auto)
  moreover have "b_data (bhs s' i) = b_data (bhs s i)" if "find ?P [0..<NR_BUFFERS s] = Some i" for i
    using that assms(3) by (simp add: find_upt_Some)
  ultimately show ?thesis using assms(4) by (simp add: content_def split: option.split)
qed

section \<open>The contract\<close>

text \<open>A driver leaves everything alone but the head \<open>i\<close> and its own state.\<close>

definition io_done :: "nat \<Rightarrow> (buffer_head \<Rightarrow> buffer_head) \<Rightarrow> bufw \<Rightarrow> bufw \<Rightarrow> bool" where
  "io_done i f s s' \<longleftrightarrow>
     bhs s' = (bhs s)(i := f (bhs s i)) \<and> NR_BUFFERS s' = NR_BUFFERS s \<and> hash_table s' = hash_table s \<and>
     free_list s' = free_list s \<and> buffer_wait s' = buffer_wait s \<and> bw_sched s' = bw_sched s \<and>
     fs_part s' = fs_part s"

lemma io_done_same_cache:
  assumes "io_done i f s s'"
    and "\<And>b. b_next (f b) = b_next b \<and> b_prev (f b) = b_prev b \<and> b_next_free (f b) = b_next_free b \<and>
      b_prev_free (f b) = b_prev_free b \<and> b_dev (f b) = b_dev b \<and> b_blocknr (f b) = b_blocknr b"
  shows "same_cache s' s"
  using assms by (simp add: io_done_def same_cache_def)

text \<open>
  What holds between two operations of a file system on the device, and what they keep: the
  buffers other than \<open>i\<close> and what a reader sees.
\<close>

definition cache_ok :: "u16 \<Rightarrow> (bufw \<Rightarrow> u32 \<Rightarrow> block) \<Rightarrow> (bufw \<Rightarrow> bool) \<Rightarrow> bufw \<Rightarrow> nat list \<Rightarrow> bool" where
  "cache_ok dev blocks quiet s fl \<longleftrightarrow> buf_inv s fl \<and> quiet s \<and> coherent dev blocks s"

definition others_kept :: "nat \<Rightarrow> bufw \<Rightarrow> bufw \<Rightarrow> bool" where
  "others_kept i s s' \<longleftrightarrow>
     NR_BUFFERS s' = NR_BUFFERS s \<and>
     (\<forall>j. j \<noteq> i \<longrightarrow> b_dev (bhs s' j) = b_dev (bhs s j) \<and> b_blocknr (bhs s' j) = b_blocknr (bhs s j) \<and>
        payload (bhs s' j) = payload (bhs s j))"

lemma others_kept_trans: "others_kept i s s' \<Longrightarrow> others_kept i s' s'' \<Longrightarrow> others_kept i s s''"
  by (simp add: others_kept_def)

text \<open>The state \<open>s'\<close> comes from \<open>s\<close> by writing dirty buffers back.\<close>

definition synced ::
  "u16 \<Rightarrow> (bufw \<Rightarrow> u32 \<Rightarrow> block) \<Rightarrow> (bufw \<Rightarrow> u32 \<Rightarrow> bool) \<Rightarrow> (bufw \<Rightarrow> bool) \<Rightarrow> nat list \<Rightarrow> bufw \<Rightarrow> bufw \<Rightarrow> bool" where
  "synced dev blocks valid quiet fl s s' \<longleftrightarrow>
     cache_ok dev blocks quiet s' fl \<and> NR_BUFFERS s' = NR_BUFFERS s \<and> valid s' = valid s \<and> fs_part s' = fs_part s \<and>
     (\<forall>i. b_dev (bhs s' i) = b_dev (bhs s i) \<and> b_blocknr (bhs s' i) = b_blocknr (bhs s i) \<and>
        b_data (bhs s' i) = b_data (bhs s i) \<and> b_uptodate (bhs s' i) = b_uptodate (bhs s i) \<and>
        b_count (bhs s' i) = b_count (bhs s i)) \<and>
     (\<forall>i < NR_BUFFERS s. b_dev (bhs s i) = dev \<longrightarrow> valid s (b_blocknr (bhs s i))) \<and>
     (\<forall>m. valid s m \<longrightarrow> same_block (content dev blocks s' m) (content dev blocks s m))"

locale block_device =
  fixes e :: benv and dev :: u16 and blocks :: "bufw \<Rightarrow> u32 \<Rightarrow> block"
    and valid :: "bufw \<Rightarrow> u32 \<Rightarrow> bool" and quiet :: "bufw \<Rightarrow> bool"
  assumes dev_nonzero: "dev \<noteq> 0"
    and quiet_heads: "devices s' = devices s \<Longrightarrow> (\<And>i. b_wait (bhs s' i) = b_wait (bhs s i)) \<Longrightarrow> quiet s \<Longrightarrow> quiet s'"
    and blocks_devices: "devices s' = devices s \<Longrightarrow> blocks s' = blocks s"
    and valid_devices: "devices s' = devices s \<Longrightarrow> valid s' = valid s"
    and read_block:
      "quiet s \<Longrightarrow> b_dev (bhs s i) = dev \<Longrightarrow> valid s (b_blocknr (bhs s i)) \<Longrightarrow> \<not> b_lock (bhs s i) \<Longrightarrow>
       \<not> b_uptodate (bhs s i) \<Longrightarrow>
       \<exists>s' data. e_rw e READ i s = Inr s' \<and>
         io_done i (\<lambda>b. b\<lparr>b_data := data, b_uptodate := True, b_dirt := False\<rparr>) s s' \<and>
         same_block data (blocks s (b_blocknr (bhs s i))) \<and> quiet s' \<and> blocks s' = blocks s \<and> valid s' = valid s"
    and write_block:
      "quiet s \<Longrightarrow> b_dev (bhs s i) = dev \<Longrightarrow> valid s (b_blocknr (bhs s i)) \<Longrightarrow> \<not> b_lock (bhs s i) \<Longrightarrow>
       b_dirt (bhs s i) \<Longrightarrow>
       \<exists>s'. e_rw e WRITE i s = Inr s' \<and>
         io_done i (\<lambda>b. b\<lparr>b_uptodate := True, b_dirt := False\<rparr>) s s' \<and>
         same_block (blocks s' (b_blocknr (bhs s i))) (b_data (bhs s i)) \<and>
         (\<forall>nr. valid s nr \<longrightarrow> nr \<noteq> b_blocknr (bhs s i) \<longrightarrow> same_block (blocks s' nr) (blocks s nr)) \<and>
         quiet s' \<and> valid s' = valid s"
begin

lemma coherent_taken:
  assumes "coherent dev blocks s" and "idle s i"
  shows "coherent dev blocks (take_buffer i dev nr s)"
proof -
  have "blocks (take_buffer i dev nr s) = blocks s" by (rule blocks_devices) (rule take_buffer_devices)
  then show ?thesis
    using assms take_buffer_payload [of i dev nr s]
    by (auto simp: coherent_def take_buffer_fields payload_def idle_def)
qed

text \<open>The buffer that is given away loses nothing: it was clean.\<close>

lemma content_taken:
  assumes inv: "buf_inv s fl" and co: "coherent dev blocks s" and i: "i < NR_BUFFERS s" "idle s i"
    and new: "\<And>j. j < NR_BUFFERS s \<Longrightarrow> \<not> holds dev nr s j"
  shows "same_block (content dev blocks (take_buffer i dev nr s) m) (content dev blocks s m)"
proof -
  let ?s = "take_buffer i dev nr s"
  have b: "blocks ?s = blocks s" by (rule blocks_devices) (rule take_buffer_devices)
  have inv': "buf_inv ?s (remove1 i fl @ [i])"
    using take_buffer_inv [OF inv i(1) dev_nonzero] new by (simp add: holds_def)
  have F: "holds dev m ?s j = (if j = i then m = nr else holds dev m s j)"
    "b_uptodate (bhs ?s j) = (j \<noteq> i \<and> b_uptodate (bhs s j))" "j \<noteq> i \<Longrightarrow> b_data (bhs ?s j) = b_data (bhs s j)" for j
    using take_buffer_payload [of i dev nr s j] by (auto simp: holds_def take_buffer_fields payload_def)
  show ?thesis
  proof (cases "\<exists>j < NR_BUFFERS s. j \<noteq> i \<and> holds dev m s j \<and> b_uptodate (bhs s j)")
    case True
    then obtain j where j: "j < NR_BUFFERS s" "j \<noteq> i" "holds dev m s j" "b_uptodate (bhs s j)" by blast
    then have "content dev blocks ?s m = b_data (bhs ?s j)"
      by (intro content_cached [OF inv' dev_nonzero]) (simp_all add: F take_buffer_fields)
    moreover have "content dev blocks s m = b_data (bhs s j)" by (rule content_cached [OF inv dev_nonzero j(1,3,4)])
    ultimately show ?thesis using F(3) [OF j(2)] by simp
  next
    case False
    then have c: "content dev blocks ?s m = blocks s m"
      by (subst content_device) (auto simp: F take_buffer_fields b)
    show ?thesis
    proof (cases "holds dev m s i \<and> b_uptodate (bhs s i)")
      case True
      then have "content dev blocks s m = b_data (bhs s i)" using content_cached [OF inv dev_nonzero i(1)] by blast
      moreover have "same_block (b_data (bhs s i)) (blocks s m)"
        using True co i by (auto simp: coherent_def idle_def holds_def)
      ultimately show ?thesis using c by (simp add: same_block_sym)
    next
      case noti: False
      have "content dev blocks s m = blocks s m" by (rule content_device) (use False noti in blast)
      then show ?thesis using c by simp
    qed
  qed
qed

lemma getblk_content:
  assumes ok: "cache_ok dev blocks quiet s fl"
    and room: "(\<exists>i < NR_BUFFERS s. holds dev nr s i) \<or> (\<exists>i < NR_BUFFERS s. idle s i)"
  shows "\<exists>i s' fl'. getblk (Suc f) e dev nr s = Inr (i, s') \<and> cache_ok dev blocks quiet s' fl' \<and>
    i < NR_BUFFERS s \<and> holds dev nr s' i \<and> b_count (bhs s' i) = b_count (bhs s i) + 1 \<and>
    b_dirt (bhs s' i) = b_dirt (bhs s i) \<and> others_kept i s s' \<and> devices s' = devices s \<and> fs_part s' = fs_part s \<and>
    (\<forall>m. same_block (content dev blocks s' m) (content dev blocks s m))"
proof -
  have inv: "buf_inv s fl" and q: "quiet s" and co: "coherent dev blocks s" using ok by (auto simp: cache_ok_def)
  show ?thesis
  proof (cases "\<exists>i < NR_BUFFERS s. holds dev nr s i")
    case True
    then obtain i where i: "i < NR_BUFFERS s" "holds dev nr s i" by blast
    let ?s = "upd_bh i (\<lambda>b. b\<lparr>b_count := b_count b + 1\<rparr>) s"
    have lock: "\<not> b_lock (bhs s i)" using co i(1) by (simp add: coherent_def)
    have d: "devices ?s = devices s" by (rule devices_queues)
    have "quiet ?s" by (rule quiet_heads [OF d _ q]) simp
    moreover have "buf_inv ?s fl" by (rule buf_inv_upd_bh [OF _ inv]) simp
    moreover have "coherent dev blocks ?s" using co blocks_devices [OF d] by (simp add: coherent_def)
    moreover have "content dev blocks ?s m = content dev blocks s m" for m
      by (rule content_cong) (simp_all add: blocks_devices [OF d] holds_def)
    ultimately show ?thesis
      using getblk_cached [OF inv dev_nonzero i lock, of f e] i d
      by (intro exI [of _ i] exI [of _ ?s] exI [of _ fl]) (simp add: cache_ok_def others_kept_def holds_def fs_part_queues del: getblk.simps)
  next
    case False
    have set_fl: "set fl = {..<NR_BUFFERS s}" using inv by (simp add: buf_inv_def ring_inv_def)
    then have "\<exists>i \<in> set fl. idle s i" using room False by auto
    then obtain us i vs where fl: "fl = us @ i # vs" "idle s i" "\<forall>j \<in> set us. \<not> idle s j"
      using split_list_first_prop [of fl "idle s"] by blast
    let ?s = "take_buffer i dev nr s"
    have i: "i < NR_BUFFERS s" using set_fl fl(1) by auto
    have new: "\<And>j. j < NR_BUFFERS s \<Longrightarrow> \<not> holds dev nr s j" using False by blast
    have g: "getblk (Suc f) e dev nr s = Inr (i, ?s)"
      by (rule getblk_not_cached [OF inv [unfolded fl(1)] dev_nonzero new fl(2,3)])
    have inv': "buf_inv ?s (remove1 i fl @ [i])"
      using take_buffer_inv [OF inv i dev_nonzero] new by (simp add: holds_def)
    have P: "payload (bhs ?s j) = payload (if j = i then (bhs s i)\<lparr>b_count := 1, b_dirt := False, b_uptodate := False\<rparr> else bhs s j)" for j
      by (rule take_buffer_payload)
    have "b_wait (bhs ?s j) = b_wait (bhs s j)" for j using P [of j] by (simp add: payload_def split: if_splits)
    then have "quiet ?s" using quiet_heads [OF take_buffer_devices _ q] by blast
    moreover have kept: "others_kept i s ?s" using P by (simp add: others_kept_def take_buffer_fields)
    moreover have h: "holds dev nr ?s i" by (simp add: holds_def take_buffer_fields)
    moreover have "b_count (bhs ?s i) = b_count (bhs s i) + 1" "b_dirt (bhs ?s i) = b_dirt (bhs s i)"
      using P [of i] fl(2) by (simp_all add: payload_def idle_def unused_def)
    ultimately show ?thesis
      using g i inv' coherent_taken [OF co fl(2), of nr] content_taken [OF inv co i fl(2) new] kept h
      by (intro exI [of _ i] exI [of _ ?s] exI [of _ "remove1 i fl @ [i]"])
        (simp add: cache_ok_def take_buffer_devices take_buffer_fs_part del: getblk.simps)
  qed
qed

lemma io_content:
  assumes io: "io_done i f s s'" and h: "holds dev nr s i" and m: "m \<noteq> nr"
    and f: "\<And>b. b_dev (f b) = b_dev b \<and> b_blocknr (f b) = b_blocknr b" and "blocks s' m = blocks s m"
  shows "content dev blocks s' m = content dev blocks s m"
  using assms by (intro content_cong) (auto simp: io_done_def holds_def)

lemma fill_content:
  assumes ok: "cache_ok dev blocks quiet s fl" and i: "i < NR_BUFFERS s" "holds dev nr s i" "\<not> b_uptodate (bhs s i)"
    and v: "valid s nr"
  shows "\<exists>s'. e_rw e READ i s = Inr s' \<and> cache_ok dev blocks quiet s' fl \<and> holds dev nr s' i \<and>
    b_uptodate (bhs s' i) \<and> b_count (bhs s' i) = b_count (bhs s i) \<and> b_dirt (bhs s' i) = b_dirt (bhs s i) \<and>
    others_kept i s s' \<and> valid s' = valid s \<and> fs_part s' = fs_part s \<and>
    (\<forall>m. same_block (content dev blocks s' m) (content dev blocks s m))"
proof -
  have inv: "buf_inv s fl" and q: "quiet s" and co: "coherent dev blocks s" using ok by (auto simp: cache_ok_def)
  have h: "b_dev (bhs s i) = dev" "b_blocknr (bhs s i) = nr" using i(2) by (auto simp: holds_def)
  have lock: "\<not> b_lock (bhs s i)" using co i(1) by (simp add: coherent_def)
  obtain s' data where r: "e_rw e READ i s = Inr s'"
    "io_done i (\<lambda>b. b\<lparr>b_data := data, b_uptodate := True, b_dirt := False\<rparr>) s s'"
    "same_block data (blocks s nr)" "quiet s'" "blocks s' = blocks s" "valid s' = valid s"
    using read_block [OF q h(1) _ lock i(3)] v h(2) by auto
  have bh: "bhs s' = (bhs s)(i := (bhs s i)\<lparr>b_data := data, b_uptodate := True, b_dirt := False\<rparr>)"
    and n: "NR_BUFFERS s' = NR_BUFFERS s" and fs: "fs_part s' = fs_part s" using r(2) by (simp_all add: io_done_def)
  have dirt: "\<not> b_dirt (bhs s i)" using co i(1,3) by (auto simp: coherent_def)
  have inv': "buf_inv s' fl" by (rule same_cache_inv [OF io_done_same_cache [OF r(2)] inv]) simp
  have "coherent dev blocks s'" using co r(3,5) h by (auto simp: coherent_def bh n)
  moreover have "same_block (content dev blocks s' m) (content dev blocks s m)" for m
  proof (cases "m = nr")
    case True
    have "content dev blocks s' nr = data"
      using content_cached [OF inv' dev_nonzero, of i nr] i(1) h by (simp add: n bh holds_def)
    moreover have "content dev blocks s nr = blocks s nr"
      by (rule content_device) (use i inv dev_nonzero in \<open>auto simp: buf_inv_def unique_blocks_def holds_def\<close>)
    ultimately show ?thesis using r(3) True by simp
  qed (use io_content [OF r(2) i(2)] r(5) in simp)
  ultimately show ?thesis
    using r inv' h dirt fs by (intro exI [of _ s']) (simp add: cache_ok_def bh n others_kept_def holds_def)
qed

lemma bread_content:
  assumes ok: "cache_ok dev blocks quiet s fl" and v: "valid s nr"
    and room: "(\<exists>i < NR_BUFFERS s. holds dev nr s i) \<or> (\<exists>i < NR_BUFFERS s. idle s i)"
  shows "\<exists>i s' fl'. bread (Suc f) e dev nr s = Inr (Some i, s') \<and> cache_ok dev blocks quiet s' fl' \<and>
    i < NR_BUFFERS s \<and> holds dev nr s' i \<and> b_uptodate (bhs s' i) \<and> b_count (bhs s' i) = b_count (bhs s i) + 1 \<and>
    same_block (b_data (bhs s' i)) (content dev blocks s nr) \<and> others_kept i s s' \<and> valid s' = valid s \<and>
    b_dirt (bhs s' i) = b_dirt (bhs s i) \<and> fs_part s' = fs_part s \<and>
    (\<forall>m. same_block (content dev blocks s' m) (content dev blocks s m))"
proof -
  obtain i s1 fl1 where g: "getblk (Suc f) e dev nr s = Inr (i, s1)" and ok1: "cache_ok dev blocks quiet s1 fl1"
    and i: "i < NR_BUFFERS s" "holds dev nr s1 i" "b_count (bhs s1 i) = b_count (bhs s i) + 1" "others_kept i s s1"
    and d: "devices s1 = devices s" and c: "\<And>m. same_block (content dev blocks s1 m) (content dev blocks s m)"
    and p: "b_dirt (bhs s1 i) = b_dirt (bhs s i)" "fs_part s1 = fs_part s"
    using getblk_content [OF ok room] by blast
  have n: "NR_BUFFERS s1 = NR_BUFFERS s" using i(4) by (simp add: others_kept_def)
  have cached: "content dev blocks s' nr = b_data (bhs s' i)"
    if "cache_ok dev blocks quiet s' fl'" "i < NR_BUFFERS s'" "holds dev nr s' i" "b_uptodate (bhs s' i)" for s' fl'
    using content_cached [OF _ dev_nonzero that(2-4)] that(1) by (auto simp: cache_ok_def)
  show ?thesis
  proof (cases "b_uptodate (bhs s1 i)")
    case True
    then have "content dev blocks s1 nr = b_data (bhs s1 i)" using cached ok1 i n by simp
    then have "same_block (b_data (bhs s1 i)) (content dev blocks s nr)" using c [of nr] by simp
    then show ?thesis using True g ok1 i c p valid_devices [OF d]
      by (intro exI [of _ i] exI [of _ s1] exI [of _ fl1]) (simp add: bread_def del: getblk.simps)
  next
    case False
    have "valid s1 nr" using v valid_devices [OF d] by simp
    then obtain s2 where s2: "e_rw e READ i s1 = Inr s2" "cache_ok dev blocks quiet s2 fl1" "holds dev nr s2 i"
      "b_uptodate (bhs s2 i)" "b_count (bhs s2 i) = b_count (bhs s1 i)" "others_kept i s1 s2" "valid s2 = valid s1"
      "\<And>m. same_block (content dev blocks s2 m) (content dev blocks s1 m)"
      "b_dirt (bhs s2 i) = b_dirt (bhs s1 i)" "fs_part s2 = fs_part s1"
      using fill_content [OF ok1 _ i(2) False] i(1) n by auto
    have n2: "NR_BUFFERS s2 = NR_BUFFERS s" using s2(6) n by (simp add: others_kept_def)
    then have lock: "\<not> b_lock (bhs s2 i)" using s2(2) i(1) by (simp add: cache_ok_def coherent_def)
    have c2: "same_block (content dev blocks s2 m) (content dev blocks s m)" for m
      using same_block_trans [OF s2(8) c] .
    have "content dev blocks s2 nr = b_data (bhs s2 i)" using cached s2 i(1) n2 by simp
    then have "same_block (b_data (bhs s2 i)) (content dev blocks s nr)" using c2 [of nr] by simp
    then show ?thesis
      using False g s2 lock i p others_kept_trans [OF i(4) s2(6)] c2 valid_devices [OF d]
      by (intro exI [of _ i] exI [of _ s2] exI [of _ fl1]) (simp add: bread_def del: getblk.simps)
  qed
qed

text \<open>Changing a block through its buffer, which is then dirty, changes that block only.\<close>

lemma store_content:
  assumes ok: "cache_ok dev blocks quiet s fl" and i: "i < NR_BUFFERS s" "holds dev nr s i" "b_uptodate (bhs s i)"
    and s': "s' = upd_bh i (\<lambda>b. b\<lparr>b_data := data, b_dirt := True\<rparr>) s"
  shows "cache_ok dev blocks quiet s' fl \<and> content dev blocks s' = (content dev blocks s)(nr := data)"
proof
  have inv: "buf_inv s fl" and q: "quiet s" and co: "coherent dev blocks s" using ok by (auto simp: cache_ok_def)
  have d: "devices s' = devices s" by (simp add: s' devices_queues)
  have "quiet s'" by (rule quiet_heads [OF d _ q]) (simp add: s')
  moreover have inv': "buf_inv s' fl" unfolding s' by (rule buf_inv_upd_bh [OF _ inv]) simp
  moreover have "coherent dev blocks s'" using co i(3) blocks_devices [OF d] by (simp add: s' coherent_def)
  ultimately show "cache_ok dev blocks quiet s' fl" by (simp add: cache_ok_def)
  have "content dev blocks s' m = content dev blocks s m" if "m \<noteq> nr" for m
    using that i blocks_devices [OF d] by (intro content_cong) (auto simp: s' holds_def)
  moreover have "content dev blocks s' nr = data"
    using content_cached [OF inv' dev_nonzero, of i nr] i by (simp add: s' holds_def)
  ultimately show "content dev blocks s' = (content dev blocks s)(nr := data)" by (auto simp: fun_eq_iff)
qed

lemma brelse_content:
  assumes ok: "cache_ok dev blocks quiet s fl" and i: "i < NR_BUFFERS s" "b_count (bhs s i) \<noteq> 0"
  shows "\<exists>s'. brelse e (Some i) s = Inr s' \<and> cache_ok dev blocks quiet s' fl \<and>
    bhs s' = (bhs s)(i := (bhs s i)\<lparr>b_count := b_count (bhs s i) - 1\<rparr>) \<and> NR_BUFFERS s' = NR_BUFFERS s \<and>
    content dev blocks s' = content dev blocks s \<and> valid s' = valid s \<and> fs_part s' = fs_part s"
proof -
  have inv: "buf_inv s fl" and q: "quiet s" and co: "coherent dev blocks s" using ok by (auto simp: cache_ok_def)
  have lock: "\<not> b_lock (bhs s i)" using co i(1) by (simp add: coherent_def)
  obtain p sc where w: "wake_up (buffer_wait s) (bw_sched s) = (p, sc)" by fastforce
  define s' where "s' = (upd_bh i (\<lambda>b. b\<lparr>b_count := b_count b - 1\<rparr>) s)\<lparr>buffer_wait := p, bw_sched := sc\<rparr>"
  have r: "brelse e (Some i) s = Inr s'" using lock i(2) w by (simp add: brelse_def s'_def Let_def upd_bh_def)
  have bh: "bhs s' = (bhs s)(i := (bhs s i)\<lparr>b_count := b_count (bhs s i) - 1\<rparr>)" "NR_BUFFERS s' = NR_BUFFERS s"
    by (simp_all add: s'_def upd_bh_def)
  have d: "devices s' = devices s" "fs_part s' = fs_part s" by (simp_all add: s'_def devices_def fs_part_def upd_bh_def)
  have "same_cache s' s" by (simp add: s'_def same_cache_def)
  then have "buf_inv s' fl" using same_cache_inv inv by blast
  moreover have "quiet s'" by (rule quiet_heads [OF d(1) _ q]) (simp add: bh)
  moreover have "coherent dev blocks s'" using co blocks_devices [OF d(1)] by (simp add: coherent_def bh)
  moreover have "content dev blocks s' m = content dev blocks s m" for m
    using blocks_devices [OF d(1)] by (intro content_cong) (simp_all add: bh holds_def)
  ultimately show ?thesis using r bh d(2) valid_devices [OF d(1)] by (auto simp: cache_ok_def fun_eq_iff)
qed

text \<open>Writing back: the buffers stay as they are, only clean, and so does what a reader sees.\<close>

lemma write_content:
  assumes st: "synced dev blocks valid quiet fl s0 s" and i: "i < NR_BUFFERS s0" "b_dev (bhs s i) = dev" "b_dirt (bhs s i)"
  shows "\<exists>s'. e_rw e WRITE i s = Inr s' \<and> synced dev blocks valid quiet fl s0 s' \<and> \<not> b_dirt (bhs s' i) \<and>
    (\<forall>j. b_dirt (bhs s' j) \<longrightarrow> b_dirt (bhs s j))"
proof -
  let ?nr = "b_blocknr (bhs s i)"
  have inv: "buf_inv s fl" and q: "quiet s" and co: "coherent dev blocks s" and n: "NR_BUFFERS s = NR_BUFFERS s0"
    and vs: "valid s = valid s0" and v: "valid s ?nr"
    using st i by (auto simp: cache_ok_def synced_def)
  have lock: "\<not> b_lock (bhs s i)" and up: "b_uptodate (bhs s i)" using co i n by (simp_all add: coherent_def)
  obtain s' where w: "e_rw e WRITE i s = Inr s'" "io_done i (\<lambda>b. b\<lparr>b_uptodate := True, b_dirt := False\<rparr>) s s'"
    "same_block (blocks s' ?nr) (b_data (bhs s i))"
    "\<And>m. valid s m \<Longrightarrow> m \<noteq> ?nr \<Longrightarrow> same_block (blocks s' m) (blocks s m)" "quiet s'" "valid s' = valid s"
    using write_block [OF q i(2) v lock i(3)] by blast
  have bh: "bhs s' = (bhs s)(i := (bhs s i)\<lparr>b_uptodate := True, b_dirt := False\<rparr>)"
    and n': "NR_BUFFERS s' = NR_BUFFERS s" using w(2) by (simp_all add: io_done_def)
  have inv': "buf_inv s' fl" by (rule same_cache_inv [OF io_done_same_cache [OF w(2)] inv]) simp
  have only: "b_blocknr (bhs s j) \<noteq> ?nr" if "j < NR_BUFFERS s" "j \<noteq> i" "b_dev (bhs s j) = dev" for j
    using inv that i dev_nonzero n by (metis buf_inv_def unique_blocks_def)
  have co': "coherent dev blocks s'"
    unfolding coherent_def
  proof (intro allI impI conjI)
    fix j assume j: "j < NR_BUFFERS s'"
    show "\<not> b_lock (bhs s' j)" "b_dirt (bhs s' j) \<Longrightarrow> b_uptodate (bhs s' j)"
      using co j n' by (auto simp: coherent_def bh)
    assume d: "b_dev (bhs s' j) = dev" "b_uptodate (bhs s' j)" "\<not> b_dirt (bhs s' j)"
    show "same_block (b_data (bhs s' j)) (blocks s' (b_blocknr (bhs s' j)))"
    proof (cases "j = i")
      case True
      then show ?thesis using w(3) by (simp add: bh same_block_sym)
    next
      case False
      then have dj: "b_dev (bhs s j) = dev" "b_uptodate (bhs s j)" "\<not> b_dirt (bhs s j)" "j < NR_BUFFERS s"
        using d j n' by (simp_all add: bh)
      then have "same_block (b_data (bhs s j)) (blocks s (b_blocknr (bhs s j)))" using co by (simp add: coherent_def)
      moreover have "same_block (blocks s' (b_blocknr (bhs s j))) (blocks s (b_blocknr (bhs s j)))"
        using w(4) only [OF dj(4) False dj(1)] st dj n by (simp add: synced_def)
      ultimately have "same_block (b_data (bhs s j)) (blocks s' (b_blocknr (bhs s j)))"
        by (rule same_block_trans [OF _ same_block_sym])
      then show ?thesis using False by (simp add: bh)
    qed
  qed
  have c: "same_block (content dev blocks s' m) (content dev blocks s m)" if m: "valid s m" for m
  proof (cases "\<exists>j < NR_BUFFERS s. holds dev m s j \<and> b_uptodate (bhs s j)")
    case True
    then obtain j where j: "j < NR_BUFFERS s" "holds dev m s j" "b_uptodate (bhs s j)" by blast
    then have "content dev blocks s' m = b_data (bhs s' j)"
      using n' by (intro content_cached [OF inv' dev_nonzero]) (auto simp: bh holds_def)
    then show ?thesis using content_cached [OF inv dev_nonzero j] by (simp add: bh)
  next
    case False
    have nm: "m \<noteq> ?nr" using False i n up by (auto simp: holds_def)
    have "content dev blocks s' m = blocks s' m"
      by (rule content_device) (use False n' nm i(2) in \<open>auto simp: bh holds_def split: if_splits\<close>)
    moreover have "content dev blocks s m = blocks s m" by (rule content_device) (use False in blast)
    ultimately show ?thesis using w(4) [OF m nm] by simp
  qed
  have "same_block (content dev blocks s' m) (content dev blocks s0 m)" if m: "valid s0 m" for m
    using same_block_trans [OF c] st m vs by (simp add: synced_def)
  then have "synced dev blocks valid quiet fl s0 s'"
    using st w(2,5,6) inv' co' n n' up by (auto simp: synced_def cache_ok_def bh io_done_def)
  then show ?thesis using w(1) by (intro exI [of _ s']) (simp add: bh)
qed

lemma sync_buffers_content:
  assumes ok: "cache_ok dev blocks quiet s fl"
    and v: "\<And>i. i < NR_BUFFERS s \<Longrightarrow> b_dev (bhs s i) = dev \<Longrightarrow> valid s (b_blocknr (bhs s i))"
  shows "\<exists>s'. sync_buffers e dev s = Inr s' \<and> synced dev blocks valid quiet fl s s' \<and>
    (\<forall>i < NR_BUFFERS s. b_dev (bhs s i) = dev \<longrightarrow> \<not> b_dirt (bhs s' i)) \<and> (\<forall>j. b_dirt (bhs s' j) \<longrightarrow> b_dirt (bhs s j))"
proof -
  let ?body = "\<lambda>i s. if b_dev (bhs s i) \<noteq> dev then Inr s
       else let s = wait_on_buffer e i s
            in if b_dev (bhs s i) = dev \<and> b_dirt (bhs s i) then e_rw e WRITE i s else Inr s"
  have loop: "\<exists>s'. foldE ?body xs s1 = Inr s' \<and> synced dev blocks valid quiet fl s s' \<and>
      (\<forall>i \<in> set xs. b_dev (bhs s i) = dev \<longrightarrow> \<not> b_dirt (bhs s' i)) \<and> (\<forall>j. b_dirt (bhs s' j) \<longrightarrow> b_dirt (bhs s1 j))"
    if "synced dev blocks valid quiet fl s s1" "set xs \<subseteq> {..<NR_BUFFERS s}" for xs s1
    using that
  proof (induction xs arbitrary: s1)
    case (Cons x xs)
    have x: "x < NR_BUFFERS s" "x < NR_BUFFERS s1" "b_dev (bhs s1 x) = b_dev (bhs s x)"
      using Cons.prems by (auto simp: synced_def)
    have lock: "\<not> b_lock (bhs s1 x)" using Cons.prems(1) x(2) by (simp add: synced_def cache_ok_def coherent_def)
    obtain s2 where s2: "?body x s1 = Inr s2" "synced dev blocks valid quiet fl s s2"
      "b_dev (bhs s x) = dev \<Longrightarrow> \<not> b_dirt (bhs s2 x)" "\<And>j. b_dirt (bhs s2 j) \<Longrightarrow> b_dirt (bhs s1 j)"
    proof (cases "b_dev (bhs s1 x) = dev \<and> b_dirt (bhs s1 x)")
      case True
      then show ?thesis using that write_content [OF Cons.prems(1) x(1)] lock by auto
    next
      case False
      then have "?body x s1 = Inr s1" using lock by auto
      then show ?thesis using that [of s1] Cons.prems(1) False x(3) by blast
    qed
    obtain s3 where s3: "foldE ?body xs s2 = Inr s3" "synced dev blocks valid quiet fl s s3"
      "\<forall>i \<in> set xs. b_dev (bhs s i) = dev \<longrightarrow> \<not> b_dirt (bhs s3 i)" "\<forall>j. b_dirt (bhs s3 j) \<longrightarrow> b_dirt (bhs s2 j)"
      using Cons.IH [OF s2(2)] Cons.prems(2) by auto
    have "foldE ?body (x # xs) s1 = Inr s3" using s2(1) s3(1) by simp
    then show ?case using s2 s3 by auto
  qed simp
  have "synced dev blocks valid quiet fl s s" using ok v by (simp add: synced_def)
  from loop [OF this, of "[0..<NR_BUFFERS s]"]
  obtain s' where "foldE ?body [0..<NR_BUFFERS s] s = Inr s'" "synced dev blocks valid quiet fl s s'"
    "\<forall>i \<in> set [0..<NR_BUFFERS s]. b_dev (bhs s i) = dev \<longrightarrow> \<not> b_dirt (bhs s' i)" "\<forall>j. b_dirt (bhs s' j) \<longrightarrow> b_dirt (bhs s j)"
    by (auto simp: atLeast0LessThan)
  then show ?thesis unfolding sync_buffers_def by auto
qed

text \<open>After it the device itself holds what a reader saw before.\<close>

lemma synced_device:
  assumes st: "synced dev blocks valid quiet fl s s'" and m: "valid s m"
    and clean: "\<forall>i < NR_BUFFERS s. b_dev (bhs s i) = dev \<longrightarrow> \<not> b_dirt (bhs s' i)"
  shows "same_block (blocks s' m) (content dev blocks s m)"
proof -
  have ok: "buf_inv s' fl" "coherent dev blocks s'" and n: "NR_BUFFERS s' = NR_BUFFERS s"
    and c: "same_block (content dev blocks s' m) (content dev blocks s m)"
    using st m by (auto simp: synced_def cache_ok_def)
  have "same_block (blocks s' m) (content dev blocks s' m)"
  proof (cases "\<exists>j < NR_BUFFERS s'. holds dev m s' j \<and> b_uptodate (bhs s' j)")
    case True
    then obtain j where j: "j < NR_BUFFERS s'" "holds dev m s' j" "b_uptodate (bhs s' j)" by blast
    then have "\<not> b_dirt (bhs s' j)" using clean st n by (auto simp: synced_def holds_def)
    then have "same_block (b_data (bhs s' j)) (blocks s' m)" using ok(2) j by (auto simp: coherent_def holds_def)
    then show ?thesis using content_cached [OF ok(1) dev_nonzero j] by (simp add: same_block_sym)
  next
    case False
    then have "content dev blocks s' m = blocks s' m" by (intro content_device) blast
    then show ?thesis by simp
  qed
  then show ?thesis using c same_block_trans by blast
qed

end

end
