(* ===== verification/Ramdisk.thy ===== *)
theory Ramdisk
  imports Ll_rw_blk Block_Device
begin

text \<open>
  The RAM disk, \<open>kernel/blk_drv/ramdisk.c\<close>, with the part of \<open>kernel/blk_drv/blk.h\<close> it is built
  from.  The disk is a piece of the physical memory \<open>pmem\<close>; a request is served by copying, so
  that the driver fulfils the contract of \<open>Block_Device\<close> and what the buffer cache guarantees
  holds of \<open>bread\<close> and \<open>sync_dev\<close> on it.
\<close>

section \<open>Operations\<close>

definition CURRENT :: "nat \<Rightarrow> bufw \<Rightarrow> nat option" where
  "CURRENT major s = current_request (blk_dev s major)"

definition MAJOR :: "int \<Rightarrow> nat" where
  "MAJOR a = unat (word_of_int a :: u32) div 256"

definition MINOR :: "int \<Rightarrow> int" where
  "MINOR a = a AND 255"

definition end_request :: "nat \<Rightarrow> bool \<Rightarrow> bufw \<Rightarrow> bufw kres" where
  "end_request major uptodate s =
     (case CURRENT major s of
        None \<Rightarrow> Inl Fault
      | Some c \<Rightarrow>
          let bh = r_bh (request s c);
              s = (case bh of
                     None \<Rightarrow> s
                   | Some i \<Rightarrow> unlock_buffer i (upd_bh i (\<lambda>b. b\<lparr>b_uptodate := uptodate\<rparr>) s))
          in if \<not> uptodate \<and> bh = None then Inl Fault
             else
               let (p, sc) = wake_up (r_waiting (request s c)) (bw_sched s);
                   s = (upd_req c (\<lambda>r. r\<lparr>r_waiting := p\<rparr>) s)\<lparr>bw_sched := sc\<rparr>;
                   (p, sc) = wake_up (wait_for_request s) (bw_sched s);
                   s = upd_req c (\<lambda>r. r\<lparr>r_dev := - 1\<rparr>) (s\<lparr>wait_for_request := p, bw_sched := sc\<rparr>)
               in Inr (s\<lparr>blk_dev := (blk_dev s)(major := (blk_dev s major)
                           \<lparr>current_request := r_next (request s c)\<rparr>)\<rparr>))"

text \<open>\<open>INIT_REQUEST\<close>: the checks before a request is served; \<open>None\<close> when the queue is empty.\<close>

definition INIT_REQUEST :: "nat \<Rightarrow> string \<Rightarrow> bufw \<Rightarrow> nat option kres" where
  "INIT_REQUEST major name s =
     (case CURRENT major s of
        None \<Rightarrow> Inr None
      | Some c \<Rightarrow>
          if MAJOR (r_dev (request s c)) \<noteq> major then Inl (Panic (name @ '': request list destroyed''))
          else
            (case r_bh (request s c) of
               None \<Rightarrow> Inr (Some c)
             | Some i \<Rightarrow>
                 if \<not> b_lock (bhs s i) then Inl (Panic (name @ '': block not locked'')) else Inr (Some c)))"

primrec do_rd_request :: "nat \<Rightarrow> bufw \<Rightarrow> bufw kres" where
  "do_rd_request 0 s = Inl Hang"
| "do_rd_request (Suc n) s =
     bindE (INIT_REQUEST 1 ''ramdisk'' s) (\<lambda>r.
       case r of
         None \<Rightarrow> Inr s
       | Some c \<Rightarrow>
           let rq = request s c;
               addr = rd_start s + push_bit 9 (r_sector rq);
               len = push_bit 9 (r_nr_sectors rq);
               b = r_buffer rq;
               o1 = r_offset rq
           in if MINOR (r_dev rq) \<noteq> 1 \<or> rd_start s + rd_length s < addr + len
              then bindE (end_request 1 False s) (do_rd_request n)
              else
                (case r_cmd rq of
                   WRITE \<Rightarrow>
                     let s = s\<lparr>pmem := (\<lambda>a. if a - addr < len then b_data (bhs s b) (o1 + unat (a - addr)) else pmem s a)\<rparr>
                     in bindE (end_request 1 True s) (do_rd_request n)
                 | READ \<Rightarrow>
                     let s = upd_bh b (\<lambda>h. h\<lparr>b_data := (\<lambda>k. if o1 \<le> k \<and> k < o1 + unat len
                                                              then pmem s (addr + word_of_nat (k - o1)) else b_data h k)\<rparr>) s
                     in bindE (end_request 1 True s) (do_rd_request n)
                 | _ \<Rightarrow> Inl (Panic ''unknown ramdisk-command'')))"

definition rd_init :: "u32 \<Rightarrow> u32 \<Rightarrow> bufw \<Rightarrow> u32 \<times> bufw" where
  "rd_init mem_start len s =
     (len, s\<lparr>blk_dev := (blk_dev s)(1 := (blk_dev s 1)\<lparr>request_fn := Some Do_rd_request\<rparr>),
             rd_start := mem_start, rd_length := len,
             pmem := (\<lambda>a. if 0 \<le> sint len \<and> a - mem_start < len then 0 else pmem s a)\<rparr>)"

abbreviation (input) SUPER_MAGIC :: u16 where "SUPER_MAGIC \<equiv> 0x137F"

primrec rd_load_loop :: "nat \<Rightarrow> nat \<Rightarrow> benv \<Rightarrow> u16 \<Rightarrow> u32 \<Rightarrow> u32 \<Rightarrow> bufw \<Rightarrow> (bool \<times> bufw) kres" where
  "rd_load_loop f 0 e dev block cp s = Inr (True, s)"
| "rd_load_loop f (Suc nblocks) e dev block cp s =
     bindE (if 2 < sint (word_of_nat (Suc nblocks) :: u32) then breada f e dev block [block + 1, block + 2] s
            else bread f e dev block s) (\<lambda>(r, s).
       case r of
         None \<Rightarrow> Inr (False, s)
       | Some i \<Rightarrow>
           let s = s\<lparr>pmem := copyblk (b_data (bhs s i)) cp (pmem s)\<rparr>
           in bindE (brelse e (Some i) s) (\<lambda>s.
                rd_load_loop f nblocks e dev (block + 1) (cp + 1024) s))"

text \<open>The result is the new \<open>ROOT_DEV\<close>.\<close>

definition rd_load :: "nat \<Rightarrow> benv \<Rightarrow> u16 \<Rightarrow> bufw \<Rightarrow> (u16 \<times> bufw) kres" where
  "rd_load f e root s =
     (if rd_length s = 0 \<or> drop_bit 8 root \<noteq> 2 then Inr (root, s)
      else bindE (breada f e root 257 [256, 258] s) (\<lambda>(r, s).
        case r of
          None \<Rightarrow> Inr (root, s)
        | Some i \<Rightarrow>
            let d = b_data (bhs s i)
            in bindE (brelse e (Some i) s) (\<lambda>s.
                 if le16 d 16 \<noteq> SUPER_MAGIC then Inr (root, s)
                 else
                   let nblocks = push_bit (unat (le16 d 10) mod 32) (ucast (le16 d 2)) :: u32
                   in if signed_drop_bit 10 (rd_length s) <s nblocks then Inr (root, s)
                      else bindE (rd_load_loop f (unat nblocks) e root 256 (rd_start s) s) (\<lambda>(ok, s).
                             Inr (if ok then 0x0101 else root, s)))))"

section \<open>The RAM disk as a block device\<close>

definition rd_denv ::
  "(nat \<Rightarrow> bufw \<Rightarrow> bufw) \<Rightarrow> (bufw \<Rightarrow> bufw) \<Rightarrow> (bufw \<Rightarrow> bufw kres) \<Rightarrow> (bufw \<Rightarrow> bufw kres) \<Rightarrow> denv" where
  "rd_denv w sl fd hdd =
     \<lparr>d_wait = w, d_sleep = sl, d_fn = (\<lambda>d. case d of Do_rd_request \<Rightarrow> do_rd_request (Suc NR_REQUEST)
                                                | Do_fd_request \<Rightarrow> fd | Do_hd_request \<Rightarrow> hdd)\<rparr>"

definition rd_env :: "benv \<Rightarrow> (bufw \<Rightarrow> bufw) \<Rightarrow> (bufw \<Rightarrow> bufw kres) \<Rightarrow> (bufw \<Rightarrow> bufw kres) \<Rightarrow> benv" where
  "rd_env e0 sl fd hdd = e0\<lparr>e_rw := ll_rw_block 1 (rd_denv (e_wait e0) sl fd hdd)\<rparr>"

definition rd_block :: "bufw \<Rightarrow> u32 \<Rightarrow> block" where
  "rd_block s nr k = pmem s (rd_start s + (1024 * nr + word_of_nat k))"

definition rd_valid :: "bufw \<Rightarrow> u32 \<Rightarrow> bool" where
  "rd_valid s nr \<longleftrightarrow> 1024 * (unat nr + 1) \<le> unat (rd_length s)"

definition rd_quiet :: "bufw \<Rightarrow> bool" where
  "rd_quiet s \<longleftrightarrow>
     blk_dev s 1 = \<lparr>request_fn = Some Do_rd_request, current_request = None\<rparr> \<and>
     (\<forall>r < NR_REQUEST. r_dev (request s r) < 0) \<and> wait_for_request s = None \<and>
     (\<forall>i. b_wait (bhs s i) = None) \<and> unat (rd_start s) + unat (rd_length s) < 2 ^ 32"

lemma rd_quiet_heads:
  "devices s' = devices s \<Longrightarrow> (\<And>i. b_wait (bhs s' i) = b_wait (bhs s i)) \<Longrightarrow> rd_quiet s \<Longrightarrow> rd_quiet s'"
  by (simp add: devices_def rd_quiet_def)

lemma rd_block_devices: "devices s' = devices s \<Longrightarrow> rd_block s' = rd_block s"
  by (simp add: devices_def rd_block_def fun_eq_iff)

lemma rd_valid_devices: "devices s' = devices s \<Longrightarrow> rd_valid s' = rd_valid s"
  by (simp add: devices_def rd_valid_def fun_eq_iff)

section \<open>Serving one request\<close>

lemma wake_up_None [simp]: "wake_up None sc = (None, sc)"
  by (simp add: wake_up_def wake_task_def)

lemma free_request_last: "0 < n \<Longrightarrow> r_dev (request s (n - 1)) < 0 \<Longrightarrow> free_request n s = Some (n - 1)"
  by (cases n) simp_all

lemma do_rd_request_idle: "CURRENT 1 s = None \<Longrightarrow> 0 < n \<Longrightarrow> do_rd_request n s = Inr s"
  by (cases n) (simp_all add: INIT_REQUEST_def)

text \<open>The state after the only request of the queue, of which nobody waits, is finished.\<close>

definition finished :: "nat \<Rightarrow> nat \<Rightarrow> bool \<Rightarrow> bufw \<Rightarrow> bufw" where
  "finished c i u s =
     s\<lparr>bhs := (bhs s)(i := (bhs s i)\<lparr>b_uptodate := u, b_lock := False\<rparr>),
       request := (request s)(c := (request s c)\<lparr>r_dev := - 1\<rparr>),
       blk_dev := (blk_dev s)(1 := (blk_dev s 1)\<lparr>current_request := None\<rparr>)\<rparr>"

lemma end_request_finished:
  assumes "CURRENT 1 s = Some c" "r_bh (request s c) = Some i" "r_waiting (request s c) = None"
    "r_next (request s c) = None" "wait_for_request s = None" "b_wait (bhs s i) = None"
  shows "end_request 1 u s = Inr (finished c i u s)"
  using assms
  by (simp add: end_request_def unlock_buffer_def upd_bh_def upd_req_def finished_def Let_def fun_upd_def fun_eq_iff)

definition queued :: "nat \<Rightarrow> nat \<Rightarrow> rw \<Rightarrow> bufw \<Rightarrow> bufw" where
  "queued c i rw s =
     s\<lparr>request := (request s)(c := (request s c)\<lparr>r_dev := uint (b_dev (bhs s i)), r_cmd := rw, r_errors := 0,
         r_sector := push_bit 1 (b_blocknr (bhs s i)), r_nr_sectors := 2, r_buffer := i, r_offset := 0, r_waiting := None,
         r_bh := Some i, r_next := None\<rparr>),
       bhs := (bhs s)(i := (bhs s i)\<lparr>b_lock := True, b_dirt := False\<rparr>),
       blk_dev := (blk_dev s)(1 := \<lparr>request_fn = Some Do_rd_request, current_request = Some c\<rparr>)\<rparr>"

lemma ll_rw_block_queued:
  assumes q: "rd_quiet s" and b: "b_dev (bhs s i) = 0x101" "\<not> b_lock (bhs s i)"
    and rw: "rw = READ \<and> \<not> b_uptodate (bhs s i) \<and> c = 31 \<or> rw = WRITE \<and> b_dirt (bhs s i) \<and> c = 20"
  shows "ll_rw_block 1 (rd_denv w sl fd hdd) rw i s = do_rd_request (Suc NR_REQUEST) (queued c i rw s)"
proof -
  have m: "unat (drop_bit 8 (b_dev (bhs s i))) = 1" by (simp add: b(1))
  have k: "blk_dev s 1 = \<lparr>request_fn = Some Do_rd_request, current_request = None\<rparr>" using q by (simp add: rd_quiet_def)
  let ?s1 = "upd_bh i (\<lambda>b. b\<lparr>b_lock := True\<rparr>) s"
  have r1: "request ?s1 = request s" "blk_dev ?s1 = blk_dev s" by (simp_all add: upd_bh_def)
  have free: "free_request (if rw = READ then NR_REQUEST else NR_REQUEST * 2 div 3) ?s1 = Some c"
    using rw q free_request_last [of 32 ?s1] free_request_last [of 21 ?s1] by (auto simp: rd_quiet_def r1)
  have add: "add_request d 1 c (fill_request c rw i ?s1) =
    d_fn d Do_rd_request (queued c i rw s)" for d
    using k by (simp add: add_request_def fill_request_def queued_def upd_req_def upd_bh_def Let_def fun_upd_def
        fun_eq_iff cong: if_cong)
  have "make_request 1 d 1 rw i s = d_fn d Do_rd_request (queued c i rw s)" for d
    using rw b(2) free add by (auto simp: make_request_def lock_buffer_def Let_def)
  then show ?thesis using m k by (simp add: ll_rw_block_def rd_denv_def)
qed

lemma rd_range:
  assumes "rd_quiet s" "rd_valid s nr"
  shows "\<not> rd_start s + rd_length s < rd_start s + push_bit 9 (push_bit 1 nr) + push_bit 9 2"
proof -
  have g: "unat (rd_start s) + unat (rd_length s) < 4294967296" "1024 * (unat nr + 1) \<le> unat (rd_length s)"
    using assms by (simp_all add: rd_quiet_def rd_valid_def)
  have n: "unat (1024 * nr) = 1024 * unat nr" using g by (subst unat_mult_no_wrap) simp_all
  have a: "unat (rd_start s + 1024 * nr) = unat (rd_start s) + 1024 * unat nr"
    using g n by (subst unat_add_no_wrap) simp_all
  have "unat (rd_start s + 1024 * nr + 1024) = unat (rd_start s) + 1024 * unat nr + 1024"
    using g a by (subst unat_add_no_wrap) simp_all
  moreover have "unat (rd_start s + rd_length s) = unat (rd_start s) + unat (rd_length s)"
    using g by (subst unat_add_no_wrap) simp_all
  moreover have "push_bit 9 (push_bit 1 nr) = 1024 * nr" "push_bit 9 (2::u32) = 1024"
    by (simp_all add: push_bit_eq_mult mult.commute)
  ultimately show ?thesis using g(2) by (simp add: word_less_nat_alt)
qed

lemma serve_request:
  assumes q: "rd_quiet s" and b: "b_dev (bhs s i) = 0x101" and v: "rd_valid s (b_blocknr (bhs s i))"
  shows "do_rd_request (Suc (Suc n)) (queued c i READ s) =
      Inr (finished c i True (upd_bh i (\<lambda>h. h\<lparr>b_data := (\<lambda>k. if k < 1024 then rd_block s (b_blocknr (bhs s i)) k
        else b_data h k)\<rparr>) (queued c i READ s)))" (is "?rdt")
    and "do_rd_request (Suc (Suc n)) (queued c i WRITE s) =
      Inr (finished c i True ((queued c i WRITE s)\<lparr>pmem := (\<lambda>a.
        if a - (rd_start s + 1024 * b_blocknr (bhs s i)) < 1024
        then b_data (bhs s i) (unat (a - (rd_start s + 1024 * b_blocknr (bhs s i)))) else pmem s a)\<rparr>))" (is "?wrt")
proof -
  let ?nr = "b_blocknr (bhs s i)"
  have init: "INIT_REQUEST 1 ''ramdisk'' (queued c i rw s) = Inr (Some c)" for rw
    by (simp add: INIT_REQUEST_def CURRENT_def queued_def MAJOR_def b)
  have Q: "request (queued c i rw s) c = (request s c)\<lparr>r_dev := 0x101, r_cmd := rw, r_errors := 0,
      r_sector := push_bit 1 ?nr, r_nr_sectors := 2, r_buffer := i, r_offset := 0, r_waiting := None, r_bh := Some i, r_next := None\<rparr>"
    "rd_start (queued c i rw s) = rd_start s" "rd_length (queued c i rw s) = rd_length s"
    "pmem (queued c i rw s) = pmem s" "CURRENT 1 (queued c i rw s) = Some c"
    "wait_for_request (queued c i rw s) = None" "b_wait (bhs (queued c i rw s) i) = None"
    "b_data (bhs (queued c i rw s) i) = b_data (bhs s i)" for rw
    using q by (simp_all add: queued_def CURRENT_def b rd_quiet_def)
  have p: "push_bit 9 (push_bit 1 ?nr) = 1024 * ?nr" "push_bit 9 (2::u32) = 1024"
    by (simp_all add: push_bit_eq_mult mult.commute)
  have R: "push_bit 9 (r_sector (request (queued c i rw s) c)) = 1024 * ?nr"
    "push_bit 9 (r_nr_sectors (request (queued c i rw s) c)) = 1024" "r_dev (request (queued c i rw s) c) = 0x101"
    "r_cmd (request (queued c i rw s) c) = rw" "r_buffer (request (queued c i rw s) c) = i" "r_offset (request (queued c i rw s) c) = 0" for rw
    using p by (simp_all only: Q(1)) simp_all
  have rdb: "rd_block s ?nr k = pmem s (rd_start s + 1024 * ?nr + word_of_nat k)" for k
    by (simp add: rd_block_def add.assoc)
  have minor: "MINOR 0x101 = 1" by (simp add: MINOR_def)
  have idle: "CURRENT 1 (finished c i True s') = None" for s' by (simp add: CURRENT_def finished_def)
  note range = rd_range [OF q v, unfolded p]
  have E: "end_request 1 True s' = Inr (finished c i True s')"
    if "request s' = request (queued c i rw s)" "blk_dev s' = blk_dev (queued c i rw s)"
      "wait_for_request s' = None" "b_wait (bhs s' i) = None" for s' rw
    using that Q(5) [of rw] by (intro end_request_finished) (simp_all add: Q CURRENT_def)
  let ?sr = "upd_bh i (\<lambda>h. h\<lparr>b_data := (\<lambda>k. if k < 1024 then rd_block s ?nr k else b_data h k)\<rparr>) (queued c i READ s)"
  have "do_rd_request (Suc (Suc n)) (queued c i READ s) = bindE (end_request 1 True ?sr) (do_rd_request (Suc n))"
    unfolding do_rd_request.simps(2) [of "Suc n"] init bindE_simps
    by (simp add: R Q(2-) minor range rdb Let_def del: One_nat_def cong: if_cong)
  also have "\<dots> = Inr (finished c i True ?sr)"
    by (subst E [of _ READ]) (simp_all add: Q upd_bh_def do_rd_request_idle [OF idle] del: do_rd_request.simps)
  finally show ?rdt .
  let ?sw = "(queued c i WRITE s)\<lparr>pmem := (\<lambda>a. if a - (rd_start s + 1024 * ?nr) < 1024
        then b_data (bhs s i) (unat (a - (rd_start s + 1024 * ?nr))) else pmem s a)\<rparr>"
  have "do_rd_request (Suc (Suc n)) (queued c i WRITE s) = bindE (end_request 1 True ?sw) (do_rd_request (Suc n))"
    unfolding do_rd_request.simps(2) [of "Suc n"] init bindE_simps
    by (simp add: R Q(2-) minor range Let_def del: One_nat_def cong: if_cong)
  also have "\<dots> = Inr (finished c i True ?sw)"
    by (subst E [of _ WRITE]) (simp_all add: Q do_rd_request_idle [OF idle] del: do_rd_request.simps)
  finally show ?wrt .
qed

section \<open>The contract holds\<close>

lemma finished_queued:
  assumes "rd_quiet s" "\<not> b_lock (bhs s i)"
  shows "rd_quiet (finished c i True (queued c i rw s))"
    "bhs (finished c i True (queued c i rw s)) = (bhs s)(i := (bhs s i)\<lparr>b_uptodate := True, b_dirt := False\<rparr>)"
  using assms by (auto simp: rd_quiet_def finished_def queued_def fun_eq_iff)

lemma rd_read_block:
  assumes q: "rd_quiet s" and b: "b_dev (bhs s i) = 0x101" and v: "rd_valid s (b_blocknr (bhs s i))"
    and "\<not> b_lock (bhs s i)" "\<not> b_uptodate (bhs s i)"
  shows "\<exists>s' data. ll_rw_block 1 (rd_denv w sl fd hdd) READ i s = Inr s' \<and>
    io_done i (\<lambda>b. b\<lparr>b_data := data, b_uptodate := True, b_dirt := False\<rparr>) s s' \<and>
    same_block data (rd_block s (b_blocknr (bhs s i))) \<and> rd_quiet s' \<and> rd_block s' = rd_block s \<and> rd_valid s' = rd_valid s"
proof -
  let ?data = "\<lambda>k. if k < 1024 then rd_block s (b_blocknr (bhs s i)) k else b_data (bhs s i) k"
  let ?s = "finished 31 i True (upd_bh i (\<lambda>h. h\<lparr>b_data := (\<lambda>k. if k < 1024 then rd_block s (b_blocknr (bhs s i)) k
        else b_data h k)\<rparr>) (queued 31 i READ s))"
  have r: "ll_rw_block 1 (rd_denv w sl fd hdd) READ i s = Inr ?s"
    using ll_rw_block_queued [OF q b, of READ 31] serve_request(1) [OF q b v, of 31 31] assms
    by (simp add: eval_nat_numeral del: do_rd_request.simps)
  have "rd_quiet ?s" using q by (auto simp: rd_quiet_def finished_def queued_def upd_bh_def)
  moreover have "io_done i (\<lambda>b. b\<lparr>b_data := ?data, b_uptodate := True, b_dirt := False\<rparr>) s ?s"
    using assms(4) by (simp add: io_done_def fs_part_def finished_def queued_def upd_bh_def fun_eq_iff)
  moreover have "rd_block ?s = rd_block s" "rd_valid ?s = rd_valid s"
    by (simp_all add: rd_block_def rd_valid_def finished_def queued_def upd_bh_def fun_eq_iff)
  moreover have "same_block ?data (rd_block s (b_blocknr (bhs s i)))" by (simp add: same_block_def)
  ultimately show ?thesis using r by blast
qed

text \<open>Bytes of two blocks of the disk do not overlap.\<close>

lemma unat_small_nat: "k < 4294967296 \<Longrightarrow> unat (word_of_nat k :: u32) = k"
  by (simp add: unsigned_of_nat take_bit_nat_eq_self)

lemma rd_offset:
  assumes "unat (nr :: u32) < 4194303" "k < 1024"
  shows "unat (1024 * nr + word_of_nat k) = 1024 * unat nr + k"
proof -
  have n: "unat (1024 * nr) = 1024 * unat nr" using assms(1) by (subst unat_mult_no_wrap) simp_all
  have k: "unat (word_of_nat k :: u32) = k" using assms(2) by (simp add: unat_small_nat)
  show ?thesis using n k assms by (subst unat_add_no_wrap) simp_all
qed

lemma rd_valid_less: "rd_valid s nr \<Longrightarrow> unat nr < 4194303"
  using unat_u32_less [of "rd_length s"] by (simp add: rd_valid_def del: unat_u32_less)

lemma rd_other_block:
  assumes v: "rd_valid s nr" "rd_valid s m" "m \<noteq> nr" and k: "k < 1024"
  shows "\<not> (1024 * m + word_of_nat k) - 1024 * nr < (1024 :: u32)"
proof
  let ?x = "1024 * m + word_of_nat k :: u32" and ?y = "1024 * nr :: u32"
  assume "?x - ?y < 1024"
  then have l: "unat (?x - ?y) < 1024" by (simp add: word_less_nat_alt)
  define j where "j = unat (?x - ?y)"
  have "?x - ?y = word_of_nat j" by (simp add: j_def)
  then have "?x = 1024 * nr + word_of_nat j" by (simp add: algebra_simps)
  then have "unat ?x = 1024 * unat nr + j" using rd_offset [OF rd_valid_less [OF v(1)], of j] l j_def by simp
  moreover have "unat ?x = 1024 * unat m + k" by (rule rd_offset [OF rd_valid_less [OF v(2)] k])
  ultimately have "1024 * unat m + k = 1024 * unat nr + j" by simp
  moreover have "j < 1024" using l j_def by simp
  ultimately have "unat m = unat nr"
    using k div_mult_self4 [of 1024 "unat m" k] div_mult_self4 [of 1024 "unat nr" j] by simp
  then show False using v(3) by (simp add: word_unat_eq_iff)
qed

lemma rd_write_block:
  assumes q: "rd_quiet s" and b: "b_dev (bhs s i) = 0x101" and v: "rd_valid s (b_blocknr (bhs s i))"
    and "\<not> b_lock (bhs s i)" "b_dirt (bhs s i)"
  shows "\<exists>s'. ll_rw_block 1 (rd_denv w sl fd hdd) WRITE i s = Inr s' \<and>
    io_done i (\<lambda>b. b\<lparr>b_uptodate := True, b_dirt := False\<rparr>) s s' \<and>
    same_block (rd_block s' (b_blocknr (bhs s i))) (b_data (bhs s i)) \<and>
    (\<forall>nr. rd_valid s nr \<longrightarrow> nr \<noteq> b_blocknr (bhs s i) \<longrightarrow> same_block (rd_block s' nr) (rd_block s nr)) \<and>
    rd_quiet s' \<and> rd_valid s' = rd_valid s"
proof -
  let ?nr = "b_blocknr (bhs s i)"
  let ?m = "\<lambda>a. if a - (rd_start s + 1024 * ?nr) < 1024
        then b_data (bhs s i) (unat (a - (rd_start s + 1024 * ?nr))) else pmem s a"
  let ?s = "finished 20 i True ((queued 20 i WRITE s)\<lparr>pmem := ?m\<rparr>)"
  have r: "ll_rw_block 1 (rd_denv w sl fd hdd) WRITE i s = Inr ?s"
    using ll_rw_block_queued [OF q b, of WRITE 20] serve_request(2) [OF q b v, of 31 20] assms
    by (simp add: eval_nat_numeral del: do_rd_request.simps)
  have "rd_quiet ?s" using q by (auto simp: rd_quiet_def finished_def queued_def)
  moreover have "io_done i (\<lambda>b. b\<lparr>b_uptodate := True, b_dirt := False\<rparr>) s ?s"
    using assms(4) by (simp add: io_done_def fs_part_def finished_def queued_def fun_eq_iff)
  moreover have "rd_valid ?s = rd_valid s" by (simp add: rd_valid_def finished_def queued_def fun_eq_iff)
  moreover have "rd_block ?s nr k = ?m (rd_start s + (1024 * nr + word_of_nat k))" for nr k
    by (simp add: rd_block_def finished_def queued_def)
  then have B: "rd_block ?s nr k = (if (1024 * nr + word_of_nat k) - 1024 * ?nr < 1024
      then b_data (bhs s i) (unat ((1024 * nr + word_of_nat k) - 1024 * ?nr)) else rd_block s nr k)" for nr k
    by (simp add: rd_block_def algebra_simps)
  have "same_block (rd_block ?s ?nr) (b_data (bhs s i))"
    unfolding same_block_def B by (simp add: word_less_nat_alt unat_small_nat)
  moreover have "same_block (rd_block ?s nr) (rd_block s nr)" if "rd_valid s nr" "nr \<noteq> ?nr" for nr
    using rd_other_block [OF v that] by (simp add: same_block_def B)
  ultimately show ?thesis using r by blast
qed

interpretation rd: block_device "rd_env e0 sl fd hdd" "0x101" rd_block rd_valid rd_quiet for e0 sl fd hdd
proof (unfold_locales, goal_cases)
  case 1
  then show ?case by simp
next
  case (2 s' s)
  then show ?case by (rule rd_quiet_heads)
next
  case (3 s' s)
  then show ?case by (rule rd_block_devices)
next
  case (4 s' s)
  then show ?case by (rule rd_valid_devices)
next
  case (5 s i)
  then show ?case using rd_read_block [of s i] by (simp add: rd_env_def)
next
  case (6 s i)
  then show ?case using rd_write_block [of s i] by (simp add: rd_env_def)
qed

section \<open>Reading and writing through the cache\<close>

text \<open>
  C22: Reading a block of the RAM disk through the buffer cache: \<open>bread\<close> returns a buffer of that
  block, in use and up to date, with the bytes the last writer left in a buffer or else those on
  the disk; what any reader sees of any block stays the same, and the cache stays coherent.
\<close>

theorem bread_ramdisk:
  assumes "cache_ok 0x101 rd_block rd_quiet s fl" and "rd_valid s nr"
    and "(\<exists>i < NR_BUFFERS s. holds 0x101 nr s i) \<or> (\<exists>i < NR_BUFFERS s. idle s i)"
  shows "\<exists>i s' fl'. bread (Suc f) (rd_env e0 sl fd hdd) 0x101 nr s = Inr (Some i, s') \<and>
    cache_ok 0x101 rd_block rd_quiet s' fl' \<and> holds 0x101 nr s' i \<and> b_uptodate (bhs s' i) \<and>
    b_count (bhs s' i) = b_count (bhs s i) + 1 \<and>
    same_block (b_data (bhs s' i)) (content 0x101 rd_block s nr) \<and>
    (\<forall>m. same_block (content 0x101 rd_block s' m) (content 0x101 rd_block s m))"
  using rd.bread_content [OF assms] by blast

text \<open>A RAM disk of four blocks with the cache of three buffers.\<close>

definition demo_rd :: bufw where
  "demo_rd = snd (rd_init 0x100000 4096 demo_buf)"

definition demo_rd_env :: benv where
  "demo_rd_env = rd_env demo_env (\<lambda>s. s) Inr Inr"

lemma demo_rd_ok: "cache_ok 0x101 rd_block rd_quiet demo_rd [0..<3]" "i < 3 \<Longrightarrow> idle demo_rd i"
  "NR_BUFFERS demo_rd = 3" "i < 3 \<Longrightarrow> b_dev (bhs demo_rd i) = 0" "rd_valid demo_rd 2"
proof -
  have bh: "bhs demo_rd = bhs demo_buf" by (simp add: demo_rd_def rd_init_def)
  have n: "NR_BUFFERS demo_buf = 3" using demo_count by (simp add: demo_buf_def buffer_init_fields [OF refl refl])
  then show n': "NR_BUFFERS demo_rd = 3" by (simp add: demo_rd_def rd_init_def)
  have h: "i < 3 \<Longrightarrow> bhs demo_buf i = init_head 3 i demo_head" for i
    using buffer_init_fields(4) [OF refl refl, of i 0 4096 boot_buf] demo_count by (simp add: demo_buf_def boot_buf_def)
  show "i < 3 \<Longrightarrow> idle demo_rd i" using demo_buf_idle [of i] by (simp add: idle_def unused_def bh)
  show d: "i < 3 \<Longrightarrow> b_dev (bhs demo_rd i) = 0" for i by (simp add: bh h init_head_def)
  show "rd_valid demo_rd 2" by (simp add: rd_valid_def demo_rd_def rd_init_def)
  have w: "b_wait (bhs demo_buf i) = None" for i
    using demo_count by (simp add: demo_buf_def boot_buf_def buffer_init_def init_count_def Let_def init_head_def demo_head_def)
  have "same_cache demo_rd demo_buf" by (simp add: demo_rd_def rd_init_def same_cache_def)
  then have "buf_inv demo_rd [0..<3]" using same_cache_inv demo_buf_inv by blast
  moreover have "coherent 0x101 rd_block demo_rd" by (simp add: coherent_def n' bh h init_head_def)
  moreover have "rd_quiet demo_rd"
    by (simp add: rd_quiet_def bh w)
      (simp add: demo_rd_def rd_init_def demo_buf_def buffer_init_def boot_buf_def demo_request_def Let_def)
  ultimately show "cache_ok 0x101 rd_block rd_quiet demo_rd [0..<3]" by (simp add: cache_ok_def)
qed

theorem bread_ramdisk_witness:
  "\<exists>i s'. bread 1 demo_rd_env 0x101 2 demo_rd = Inr (Some i, s') \<and> b_uptodate (bhs s' i) \<and>
     same_block (b_data (bhs s' i)) (content 0x101 rd_block demo_rd 2)"
proof -
  have "\<exists>i < NR_BUFFERS demo_rd. idle demo_rd i" using demo_rd_ok(2) [of 0] demo_rd_ok(3) by (intro exI [of _ 0]) simp
  from bread_ramdisk [OF demo_rd_ok(1,5) disjI2 [OF this], of 0 demo_env "\<lambda>s. s" Inr Inr]
  show ?thesis by (auto simp: demo_rd_env_def)
qed

end
