(* ===== verification/File_Content.thy ===== *)
theory File_Content
  imports File_Io Ramdisk
begin

text \<open>
  What reading a file gives: the bytes of the file as its i-node, its indirect blocks and the
  blocks of the device define them.  The proofs use the contract of the block device and what the
  buffer cache makes of it, and are applied to the RAM disk.
\<close>

section \<open>The bytes of a file\<close>

text \<open>\<open>C\<close> gives the blocks of the device; a zone number 0 is a hole.\<close>

definition zone_entry :: "(u32 \<Rightarrow> block) \<Rightarrow> u16 \<Rightarrow> nat \<Rightarrow> u16" where
  "zone_entry C z j = (if z = 0 then 0 else le16 (C (ucast z)) (2 * j))"

text \<open>The zones on the way to block \<open>k\<close> of a file: seven direct ones, one indirect, one doubly indirect.\<close>

definition zone_path :: "(u32 \<Rightarrow> block) \<Rightarrow> m_inode \<Rightarrow> nat \<Rightarrow> u16 list" where
  "zone_path C ip k =
     (if k < 7 then [i_zone ip k]
      else if k < 519 then [i_zone ip 7, zone_entry C (i_zone ip 7) (k - 7)]
      else
        let a = zone_entry C (i_zone ip 8) ((k - 519) div 512)
        in [i_zone ip 8, a, zone_entry C a ((k - 519) mod 512)])"

definition file_zone :: "(u32 \<Rightarrow> block) \<Rightarrow> m_inode \<Rightarrow> nat \<Rightarrow> u16" where
  "file_zone C ip k = last (zone_path C ip k)"

definition file_byte :: "(u32 \<Rightarrow> block) \<Rightarrow> m_inode \<Rightarrow> nat \<Rightarrow> u8" where
  "file_byte C ip p = (let z = file_zone C ip (p div 1024) in if z = 0 then 0 else C (ucast z) (p mod 1024))"

definition path_ok :: "(u32 \<Rightarrow> bool) \<Rightarrow> (u32 \<Rightarrow> block) \<Rightarrow> m_inode \<Rightarrow> nat \<Rightarrow> bool" where
  "path_ok v C ip k \<longleftrightarrow> list_all (\<lambda>z. z \<noteq> 0 \<longrightarrow> v (ucast z)) (zone_path C ip k)"

lemma le16_same_block: "same_block a b \<Longrightarrow> j < 512 \<Longrightarrow> le16 a (2 * j) = le16 b (2 * j)"
  by (simp add: le16_def same_block_def)

lemma sint_small: "p < 2147483648 \<Longrightarrow> sint (word_of_nat p :: u32) = int p"
  by (simp add: signed_of_nat signed_take_bit_int_eq_self)

lemma sdiv_smod_nonneg: "int p sdiv 1024 = int (p div 1024)" "int p smod 1024 = int (p mod 1024)"
  by (cases "p = 0"; simp add: signed_divide_int_def signed_modulo_int_def zdiv_int zmod_int)+

text \<open>
  A file whose first \<open>K\<close> blocks lie on the device and do not share zones: the zone of block \<open>k\<close>
  is the zone of no other block and none of the indirect blocks.
\<close>

definition own_zone :: "(u32 \<Rightarrow> block) \<Rightarrow> m_inode \<Rightarrow> nat \<Rightarrow> nat \<Rightarrow> bool" where
  "own_zone C ip K k \<longleftrightarrow>
     0 \<notin> set (zone_path C ip k) \<and>
     (\<forall>j < K. file_zone C ip k \<notin> set (butlast (zone_path C ip j)) \<and> (j \<noteq> k \<longrightarrow> file_zone C ip j \<noteq> file_zone C ip k))"

lemma zone_path_cong: "i_zone ip' = i_zone ip \<Longrightarrow> zone_path C ip' = zone_path C ip"
  by (simp add: zone_path_def fun_eq_iff)

lemma file_zone_in: "file_zone C ip k \<in> set (zone_path C ip k)"
  unfolding file_zone_def by (rule last_in_set) (simp add: zone_path_def Let_def)

lemma ucast_u16_inject: "ucast (a :: u16) = (ucast b :: u32) \<longleftrightarrow> a = b"
proof -
  have "take_bit 32 (uint x) = uint x" for x :: u16
    using uint_lt2p [of x] by (intro take_bit_int_eq_self) simp_all
  then show ?thesis by (simp add: word_uint_eq_iff unsigned_ucast_eq)
qed

text \<open>Storing to the own zone of block \<open>k\<close> moves no zone of the file and changes that block only.\<close>

lemma zone_path_store:
  assumes "z \<notin> set (butlast (zone_path C ip j))"
  shows "zone_path (C(ucast z := D)) ip j = zone_path C ip j"
proof -
  have e: "zone_entry (C(ucast z := D)) a i = zone_entry C a i" if "a \<noteq> z" for a i
    using that by (simp add: zone_entry_def ucast_u16_inject)
  show ?thesis using assms by (auto simp: zone_path_def Let_def e)
qed

lemma own_zone_store:
  assumes "own_zone C ip K k" "k < K" and C': "C' = C(ucast (file_zone C ip k) := D)"
  shows "j < K \<Longrightarrow> zone_path C' ip j = zone_path C ip j"
    and "own_zone C ip K i \<Longrightarrow> i < K \<Longrightarrow> own_zone C' ip K i"
    and "q < 1024 * K \<Longrightarrow> file_byte C' ip q = (if q div 1024 = k then D (q mod 1024) else file_byte C ip q)"
proof -
  show p: "zone_path C' ip j = zone_path C ip j" if "j < K" for j
    unfolding C' using assms(1) that by (intro zone_path_store) (simp add: own_zone_def)
  then have f: "file_zone C' ip j = file_zone C ip j" if "j < K" for j using that by (simp add: file_zone_def)
  show "own_zone C ip K i \<Longrightarrow> i < K \<Longrightarrow> own_zone C' ip K i" using p f by (simp add: own_zone_def)
  assume q: "q < 1024 * K"
  then have "q div 1024 < K" by auto
  moreover have "file_zone C ip k \<noteq> 0" using assms(1) file_zone_in [of C ip k] by (auto simp: own_zone_def)
  ultimately show "file_byte C' ip q = (if q div 1024 = k then D (q mod 1024) else file_byte C ip q)"
    using f [of "q div 1024"] assms(1) by (auto simp: file_byte_def Let_def C' own_zone_def ucast_u16_inject)
qed

text \<open>The bytes of a range that stays within a block, and how many blocks a range touches.\<close>

lemma in_block:
  assumes "p mod 1024 + c \<le> (1024 :: nat)"
  shows "p \<le> q \<and> q < p + c \<longleftrightarrow> q div 1024 = p div 1024 \<and> p mod 1024 \<le> q mod 1024 \<and> q mod 1024 < p mod 1024 + c"
    and "p \<le> q \<Longrightarrow> q < p + c \<Longrightarrow> q - p = q mod 1024 - p mod 1024"
proof -
  define a b x y where d: "a = p div 1024" "b = q div 1024" "x = p mod 1024" "y = q mod 1024"
  have pq: "p = 1024 * a + x" "q = 1024 * b + y" "x < 1024" "y < 1024" by (simp_all add: d)
  have "x + c \<le> 1024" using assms by (simp add: d)
  then have e: "1024 * a + x \<le> 1024 * b + y \<and> 1024 * b + y < 1024 * a + x + c \<longleftrightarrow> b = a \<and> x \<le> y \<and> y < x + c"
    using pq(3,4) by (cases a b rule: linorder_cases) auto
  show "p \<le> q \<and> q < p + c \<longleftrightarrow> q div 1024 = p div 1024 \<and> p mod 1024 \<le> q mod 1024 \<and> q mod 1024 < p mod 1024 + c"
    unfolding pq(1,2) using e pq(3,4) by simp
  assume "p \<le> q" "q < p + c"
  then have "b = a" using e unfolding pq(1,2) by blast
  then have "q - p = y - x" unfolding pq(1,2) by simp
  then show "q - p = q mod 1024 - p mod 1024" unfolding d .
qed

definition blocks_of :: "nat \<Rightarrow> nat \<Rightarrow> nat" where
  "blocks_of p left = (if left = 0 then 0 else Suc ((p + left - 1) div 1024 - p div 1024))"

lemma blocks_of_step:
  assumes "0 < left" and c: "c = min (1024 - p mod 1024) left"
  shows "blocks_of p left = Suc (blocks_of (p + c) (left - c))"
proof (cases "c < left")
  case True
  define a x where d: "a = p div 1024" "x = p mod 1024"
  have p: "p = 1024 * a + x" "x < 1024" by (simp_all add: d)
  have "c = 1024 - x" using True c d by simp
  then have pc: "p + c = 1024 * Suc a" using p by simp
  have e: "p + c + (left - c) - 1 = p + left - 1" using True by simp
  have "1024 * Suc a \<le> p + left - 1" using True pc by simp
  then have "Suc a \<le> (p + left - 1) div 1024" by (simp add: less_eq_div_iff_mult_less_eq mult.commute)
  then show ?thesis using True assms(1) pc by (simp add: blocks_of_def e Suc_diff_le flip: d(1))
next
  case False
  then have "c = left" "p mod 1024 + left \<le> 1024" using c by auto
  then have "(p + left - 1) div 1024 = p div 1024"
    using in_block(1) [of p left "p + left - 1"] assms(1) le_add_diff_inverse2 [of 1 left] by linarith
  then show ?thesis using assms(1) \<open>c = left\<close> by (simp add: blocks_of_def)
qed

lemma block_offset: "r < 1024 \<Longrightarrow> (1024 * q + r) div 1024 = q \<and> (1024 * q + r) mod 1024 = (r :: nat)"
  by simp

lemma file_byte_same:
  assumes same: "\<And>m. same_block (C m) (C' m)" and q: "q < 268966912"
  shows "file_byte C ip q = file_byte C' ip q"
proof -
  have e: "zone_entry C z j = zone_entry C' z j" if "j < 512" for z j
    using le16_same_block [OF same that] by (simp add: zone_entry_def)
  have "zone_path C ip (q div 1024) = zone_path C' ip (q div 1024)"
    using q by (auto simp: zone_path_def Let_def e)
  then show ?thesis using same by (simp add: file_byte_def file_zone_def same_block_def Let_def)
qed

section \<open>Reading and writing through the cache\<close>

text \<open>
  The states of a reader or writer: the cache is in order, there are \<open>k\<close> buffers to take, no
  reference count is about to wrap, the blocks \<open>v\<close> can be transferred, and block \<open>m\<close> is \<open>C m\<close>.
\<close>

definition idle_bufs :: "bufw \<Rightarrow> nat set" where
  "idle_bufs s = {i. i < NR_BUFFERS s \<and> idle s i}"

definition view ::
  "u16 \<Rightarrow> (bufw \<Rightarrow> u32 \<Rightarrow> block) \<Rightarrow> (bufw \<Rightarrow> u32 \<Rightarrow> bool) \<Rightarrow> (bufw \<Rightarrow> bool) \<Rightarrow> (u32 \<Rightarrow> block) \<Rightarrow> (u32 \<Rightarrow> bool) \<Rightarrow>
    nat \<Rightarrow> bufw \<Rightarrow> bool" where
  "view dev blocks valid quiet C v k s \<longleftrightarrow>
     (\<exists>fl. cache_ok dev blocks quiet s fl) \<and> k \<le> card (idle_bufs s) \<and> valid s = v \<and>
     (\<forall>i < NR_BUFFERS s. b_count (bhs s i) \<noteq> 255) \<and>
     (\<forall>m. same_block (content dev blocks s m) (C m))"

text \<open>Every buffer of the device holds a block that can be transferred.\<close>

definition bufs_valid :: "u16 \<Rightarrow> (u32 \<Rightarrow> bool) \<Rightarrow> bufw \<Rightarrow> bool" where
  "bufs_valid dev v s \<longleftrightarrow> (\<forall>i < NR_BUFFERS s. b_dev (bhs s i) = dev \<longrightarrow> v (b_blocknr (bhs s i)))"

lemma finite_idle_bufs [simp]: "finite (idle_bufs s)"
  by (simp add: idle_bufs_def)

lemma idle_bufs_ex: "Suc k \<le> card (idle_bufs s) \<Longrightarrow> \<exists>i < NR_BUFFERS s. idle s i"
  using card_gt_0_iff [of "idle_bufs s"] by (auto simp: idle_bufs_def)

text \<open>Steps that leave the cache and the devices alone.\<close>

definition only_fs :: "bufw \<Rightarrow> bufw \<Rightarrow> bool" where
  "only_fs s s' \<longleftrightarrow>
     bhs s' = bhs s \<and> NR_BUFFERS s' = NR_BUFFERS s \<and> hash_table s' = hash_table s \<and> free_list s' = free_list s \<and>
     devices s' = devices s"

lemma only_fs_simps [simp]:
  "only_fs s s" "only_fs s (upd_inode n g s')= only_fs s s'" "only_fs s (upd_file f h s') = only_fs s s'"
  "only_fs s (to_user bs buf s') = only_fs s s'"
  by (simp_all add: only_fs_def devices_def upd_inode_def upd_file_def to_user_def)

lemma upd_bh_inode: "upd_bh b g (upd_inode n h s) = upd_inode n h (upd_bh b g s)"
  by (rule bufw.equality) (simp_all add: upd_bh_def upd_inode_def)

lemma upd_bh_twice: "upd_bh b g (upd_bh b g' s) = upd_bh b (\<lambda>h. g (g' h)) s"
  by (simp add: upd_bh_def)

lemma dirt_data: "h\<lparr>b_dirt := x, b_data := y\<rparr> = h\<lparr>b_data := y, b_dirt := x\<rparr>"
  by (rule buffer_head.equality) simp_all

lemma fs_upd_bh [simp]: "inode_table (upd_bh b g s) = inode_table s" "bw_fs (upd_bh b g s) = bw_fs s"
  by (simp_all add: upd_bh_def)

context block_device
begin

lemma cache_ok_only_fs:
  assumes ok: "cache_ok dev blocks quiet s fl" and o1: "only_fs s s'"
  shows "cache_ok dev blocks quiet s' fl" "content dev blocks s' = content dev blocks s" "valid s' = valid s"
proof -
  have d: "devices s' = devices s" and bh: "bhs s' = bhs s" "NR_BUFFERS s' = NR_BUFFERS s" using o1 by (simp_all add: only_fs_def)
  have "same_cache s' s" using o1 by (simp add: only_fs_def same_cache_def)
  then have "buf_inv s' fl" using ok same_cache_inv by (auto simp: cache_ok_def)
  moreover have "quiet s'" using quiet_heads [OF d] ok bh by (simp add: cache_ok_def)
  moreover have "coherent dev blocks s'" using ok blocks_devices [OF d] by (simp add: cache_ok_def coherent_def bh)
  ultimately show "cache_ok dev blocks quiet s' fl" by (simp add: cache_ok_def)
  show "content dev blocks s' = content dev blocks s"
    by (rule ext, rule content_cong) (simp_all add: bh blocks_devices [OF d] holds_def)
  show "valid s' = valid s" by (rule valid_devices [OF d])
qed

lemma view_only_fs:
  assumes "view dev blocks valid quiet C v k s" "only_fs s s'"
  shows "view dev blocks valid quiet C v k s'"
proof -
  obtain fl where fl: "cache_ok dev blocks quiet s fl" using assms(1) by (auto simp: view_def)
  note k = cache_ok_only_fs [OF fl assms(2)]
  have "idle_bufs s' = idle_bufs s" "NR_BUFFERS s' = NR_BUFFERS s" "bhs s' = bhs s"
    using assms(2) by (simp_all add: only_fs_def idle_bufs_def idle_def unused_def)
  then show ?thesis using assms(1) k by (auto simp: view_def)
qed

text \<open>Releasing the only buffer that changed since the state \<open>s\<close>; it may be dirty now.\<close>

lemma brelse_view:
  assumes v: "view dev blocks valid quiet C v (Suc k) s" and i: "i < NR_BUFFERS s"
    and s2: "cache_ok dev blocks quiet s2 fl" "others_kept i s s2" "b_count (bhs s2 i) = b_count (bhs s i) + 1" "valid s2 = v"
    and c2: "\<And>m. same_block (content dev blocks s2 m) (C' m)"
  shows "\<exists>s3. brelse e (Some i) s2 = Inr s3 \<and> fs_part s3 = fs_part s2 \<and> view dev blocks valid quiet C' v k s3 \<and>
    (b_dirt (bhs s2 i) = b_dirt (bhs s i) \<longrightarrow> view dev blocks valid quiet C' v (Suc k) s3) \<and> NR_BUFFERS s3 = NR_BUFFERS s2 \<and>
    (\<forall>l. b_dev (bhs s3 l) = b_dev (bhs s2 l) \<and> b_blocknr (bhs s3 l) = b_blocknr (bhs s2 l))"
proof -
  have n2: "NR_BUFFERS s2 = NR_BUFFERS s" using s2(2) by (simp add: others_kept_def)
  have pos: "b_count (bhs s2 i) \<noteq> 0"
  proof
    assume "b_count (bhs s2 i) = 0"
    then have "b_count (bhs s i) = - 1" using s2(3) by (simp add: eq_neg_iff_add_eq_0)
    then have "b_count (bhs s i) = 255" by simp
    then show False using v i by (simp add: view_def)
  qed
  obtain s3 where s3: "brelse e (Some i) s2 = Inr s3" "cache_ok dev blocks quiet s3 fl"
    "bhs s3 = (bhs s2)(i := (bhs s2 i)\<lparr>b_count := b_count (bhs s2 i) - 1\<rparr>)" "NR_BUFFERS s3 = NR_BUFFERS s2"
    "content dev blocks s3 = content dev blocks s2" "valid s3 = valid s2" "fs_part s3 = fs_part s2"
    using brelse_content [OF s2(1) _ pos] i n2 by auto
  have same: "b_count (bhs s3 l) = b_count (bhs s l)" "l \<noteq> i \<Longrightarrow> b_dirt (bhs s3 l) = b_dirt (bhs s l)"
    "b_dirt (bhs s3 i) = b_dirt (bhs s2 i)" for l
    using s2(2,3) s3(3) by (auto simp: others_kept_def payload_def)
  have lock: "\<not> b_lock (bhs s3 l)" "\<not> b_lock (bhs s l)" if "l < NR_BUFFERS s" for l
    using s3(2,4) n2 that v by (auto simp: view_def cache_ok_def coherent_def)
  have idle: "idle s3 l = idle s l" if "l < NR_BUFFERS s" "l \<noteq> i \<or> b_dirt (bhs s2 i) = b_dirt (bhs s i)" for l
    using same(1,2) [of l] lock [OF that(1)] that(2) same(3) by (auto simp: idle_def unused_def)
  have "idle_bufs s - {i} \<subseteq> idle_bufs s3" using idle s3(4) n2 by (auto simp: idle_bufs_def)
  then have "card (idle_bufs s - {i}) \<le> card (idle_bufs s3)" by (rule card_mono [rotated]) simp
  moreover have "Suc k \<le> card (idle_bufs s)" using v by (simp add: view_def)
  then have "k \<le> card (idle_bufs s - {i})" by (cases "i \<in> idle_bufs s") simp_all
  ultimately have card: "k \<le> card (idle_bufs s3)" by simp
  have kept: "Suc k \<le> card (idle_bufs s3)" if "b_dirt (bhs s2 i) = b_dirt (bhs s i)"
  proof -
    have "idle_bufs s3 = idle_bufs s" using idle that s3(4) n2 by (auto simp: idle_bufs_def)
    then show ?thesis using v by (simp add: view_def)
  qed
  have "view dev blocks valid quiet C' v k' s3" if "k' \<le> card (idle_bufs s3)" for k'
    using that s3 c2 v s2(4) same(1) n2 by (auto simp: view_def)
  moreover have "\<forall>l. b_dev (bhs s3 l) = b_dev (bhs s2 l) \<and> b_blocknr (bhs s3 l) = b_blocknr (bhs s2 l)"
    using s3(3) by simp
  ultimately show ?thesis using s3(1,4,7) card kept by blast
qed

lemma bread_view:
  assumes v: "view dev blocks valid quiet C v (Suc k) s" and nr: "v nr" and fuel: "e_fuel e = Suc f"
  shows "\<exists>b s1 fl. bread (e_fuel e) e dev nr s = Inr (Some b, s1) \<and> fs_part s1 = fs_part s \<and>
    same_block (b_data (bhs s1 b)) (C nr) \<and> b < NR_BUFFERS s \<and> cache_ok dev blocks quiet s1 fl \<and> others_kept b s s1 \<and>
    b_count (bhs s1 b) = b_count (bhs s b) + 1 \<and> valid s1 = v \<and> b_dirt (bhs s1 b) = b_dirt (bhs s b) \<and>
    holds dev nr s1 b \<and> b_uptodate (bhs s1 b) \<and> (\<forall>m. same_block (content dev blocks s1 m) (C m))"
proof -
  obtain fl where fl: "cache_ok dev blocks quiet s fl" using v by (auto simp: view_def)
  have vs: "valid s = v" "\<And>m. same_block (content dev blocks s m) (C m)" "Suc k \<le> card (idle_bufs s)"
    using v by (simp_all add: view_def)
  have "(\<exists>i < NR_BUFFERS s. holds dev nr s i) \<or> (\<exists>i < NR_BUFFERS s. idle s i)" using idle_bufs_ex [OF vs(3)] by blast
  then obtain i s1 fl1 where r: "bread (Suc f) e dev nr s = Inr (Some i, s1)" "cache_ok dev blocks quiet s1 fl1"
    "i < NR_BUFFERS s" "holds dev nr s1 i" "b_uptodate (bhs s1 i)" "b_count (bhs s1 i) = b_count (bhs s i) + 1"
    "same_block (b_data (bhs s1 i)) (content dev blocks s nr)" "others_kept i s s1" "valid s1 = valid s"
    "b_dirt (bhs s1 i) = b_dirt (bhs s i)" "fs_part s1 = fs_part s"
    "\<forall>m. same_block (content dev blocks s1 m) (content dev blocks s m)"
    using bread_content [OF fl, of nr f] nr vs(1) by blast
  have "same_block (b_data (bhs s1 i)) (C nr)" by (rule same_block_trans [OF r(7) vs(2)])
  moreover have "same_block (content dev blocks s1 m) (C m)" for m
    by (rule same_block_trans [OF r(12) [rule_format] vs(2)])
  ultimately show ?thesis using r vs(1) fuel by (intro exI [of _ i] exI [of _ s1] exI [of _ fl1]) simp
qed

text \<open>A block that is read and released; only the memory of the user and the tables may change between.\<close>

lemma bread_brelse:
  assumes v: "view dev blocks valid quiet C v (Suc k0) s" and nr: "v nr" and fuel: "e_fuel e = Suc f"
  shows "\<exists>b s1. bread (e_fuel e) e dev nr s = Inr (Some b, s1) \<and> fs_part s1 = fs_part s \<and>
    same_block (b_data (bhs s1 b)) (C nr) \<and>
    (\<forall>s2. only_fs s1 s2 \<longrightarrow> (\<exists>s3. brelse e (Some b) s2 = Inr s3 \<and> fs_part s3 = fs_part s2 \<and>
       view dev blocks valid quiet C v (Suc k0) s3))"
proof -
  obtain b s1 fl where r: "bread (e_fuel e) e dev nr s = Inr (Some b, s1)" "fs_part s1 = fs_part s"
    "same_block (b_data (bhs s1 b)) (C nr)" "b < NR_BUFFERS s" "cache_ok dev blocks quiet s1 fl" "others_kept b s s1"
    "b_count (bhs s1 b) = b_count (bhs s b) + 1" "valid s1 = v" "b_dirt (bhs s1 b) = b_dirt (bhs s b)"
    "\<And>m. same_block (content dev blocks s1 m) (C m)"
    using bread_view [OF v nr fuel] by blast
  have "\<exists>s3. brelse e (Some b) s2 = Inr s3 \<and> fs_part s3 = fs_part s2 \<and> view dev blocks valid quiet C v (Suc k0) s3"
    if o1: "only_fs s1 s2" for s2
  proof -
    note k = cache_ok_only_fs [OF r(5) o1]
    have b2: "bhs s2 = bhs s1" "NR_BUFFERS s2 = NR_BUFFERS s1" using o1 by (simp_all add: only_fs_def)
    then have "others_kept b s s2" using r(6) by (simp add: others_kept_def)
    from brelse_view [OF v r(4) k(1) this, of C] show ?thesis using r k b2 by auto
  qed
  then show ?thesis using r(1-3) by blast
qed

lemma ind_of_read:
  assumes v: "view dev blocks valid quiet C v (Suc k0) s" and z: "z \<noteq> 0" "v (ucast z)" and fuel: "e_fuel e = Suc f"
    and d: "i_dev (inode_table s n) = dev" and k: "k < 512" and cr: "create \<Longrightarrow> zone_entry C z k \<noteq> 0"
  shows "\<exists>s'. ind_of e n (ucast z) k create s = Inr (uint (zone_entry (C) z k), s') \<and>
    fs_part s' = fs_part s \<and> view dev blocks valid quiet C v (Suc k0) s'"
proof -
  obtain b s1 where b: "bread (e_fuel e) e dev (ucast z) s = Inr (Some b, s1)" "fs_part s1 = fs_part s"
    "same_block (b_data (bhs s1 b)) (C (ucast z))"
    "\<forall>s2. only_fs s1 s2 \<longrightarrow> (\<exists>s3. brelse e (Some b) s2 = Inr s3 \<and> fs_part s3 = fs_part s2 \<and>
       view dev blocks valid quiet C v (Suc k0) s3)"
    using bread_brelse [OF v z(2) fuel] by blast
  obtain s3 where "brelse e (Some b) s1 = Inr s3" "fs_part s3 = fs_part s1" "view dev blocks valid quiet C v (Suc k0) s3"
    using b(4) [rule_format, OF only_fs_simps(1)] by blast
  moreover have "le16 (b_data (bhs s1 b)) (2 * k) = zone_entry (C) z k"
    using le16_same_block [OF b(3) k] z(1) by (simp add: zone_entry_def)
  ultimately show ?thesis using b(1,2) d cr by (cases create) (simp_all add: ind_of_def uint_0_iff)
qed

text \<open>
  The number of block \<open>k\<close> of a file, the same when a missing zone is to be made as long as none is
  missing.
\<close>

lemma bmap_create_content:
  assumes v: "view dev blocks valid quiet C v (Suc k0) s" and fuel: "e_fuel e = Suc f"
    and d: "i_dev (inode_table s n) = dev" and k: "k < 262663"
    and p: "path_ok v C (inode_table s n) k" and cr: "create \<Longrightarrow> 0 \<notin> set (zone_path C (inode_table s n) k)"
  shows "\<exists>s'. bmap_create e n (int k) create s = Inr (uint (file_zone C (inode_table s n) k), s') \<and>
    fs_part s' = fs_part s \<and> view dev blocks valid quiet C v (Suc k0) s'"
proof -
  let ?ip = "inode_table s n"
  consider "k < 7" | "7 \<le> k" "k < 519" | "519 \<le> k" by linarith
  then show ?thesis
  proof cases
    case 1
    then show ?thesis using v cr by (cases create) (simp_all add: bmap_create_def zone_of_def file_zone_def zone_path_def)
  next
    case 2
    have z: "file_zone C ?ip k = zone_entry C (i_zone ?ip 7) (k - 7)"
      and cr2: "create \<Longrightarrow> i_zone ?ip 7 \<noteq> 0 \<and> zone_entry C (i_zone ?ip 7) (k - 7) \<noteq> 0"
      using 2 cr by (auto simp: file_zone_def zone_path_def)
    have z7: "zone_of e n 7 create s = Inr s" using cr2 by (auto simp: zone_of_def)
    have n7: "nat (int k - 7) = k - 7" using 2 by simp
    show ?thesis
    proof (cases "i_zone ?ip 7 = 0")
      case True
      then show ?thesis using 2 v z z7 by (simp add: bmap_create_def zone_entry_def)
    next
      case False
      moreover have "v (ucast (i_zone ?ip 7))" using p 2 False by (simp add: path_ok_def zone_path_def)
      ultimately show ?thesis
        using ind_of_read [OF v False _ fuel d, of "k - 7" create] cr2 2 z z7 n7 by (simp add: bmap_create_def)
    qed
  next
    case 3
    define a where "a = zone_entry C (i_zone ?ip 8) ((k - 519) div 512)"
    have z: "file_zone C ?ip k = zone_entry C a ((k - 519) mod 512)"
      and cr3: "create \<Longrightarrow> i_zone ?ip 8 \<noteq> 0 \<and> a \<noteq> 0 \<and> zone_entry C a ((k - 519) mod 512) \<noteq> 0"
      using 3 cr by (auto simp: file_zone_def zone_path_def a_def Let_def)
    have z8: "zone_of e n 8 create s = Inr s" using cr3 by (auto simp: zone_of_def)
    have n8: "nat ((int k - 519) div 512) = (k - 519) div 512" "nat ((int k - 519) mod 512) = (k - 519) mod 512"
      using int_ops(6) [of k 519] 3 by (simp_all add: nat_div_distrib nat_mod_distrib nat_diff_distrib)
    have l: "(k - 519) div 512 < 512" "(k - 519) mod 512 < 512" using k by auto
    show ?thesis
    proof (cases "i_zone ?ip 8 = 0")
      case True
      then show ?thesis using 3 k v z z8 by (simp add: bmap_create_def a_def zone_entry_def)
    next
      case False
      have "v (ucast (i_zone ?ip 8))" using p 3 False by (simp add: path_ok_def zone_path_def Let_def)
      then obtain s1 where s1: "ind_of e n (ucast (i_zone ?ip 8)) ((k - 519) div 512) create s = Inr (uint a, s1)"
        "fs_part s1 = fs_part s" "view dev blocks valid quiet C v (Suc k0) s1"
        using ind_of_read [OF v False _ fuel d l(1), of create] cr3 by (auto simp: a_def)
      show ?thesis
      proof (cases "a = 0")
        case True
        then show ?thesis using 3 k s1 z z8 n8 False by (simp add: bmap_create_def zone_entry_def)
      next
        case an: False
        have va: "v (ucast a)" using p 3 an by (simp add: path_ok_def zone_path_def Let_def a_def)
        have "i_dev (inode_table s1 n) = dev" using fs_partD(1) [OF s1(2)] d by simp
        from ind_of_read [OF s1(3) an va fuel this l(2), of create]
        obtain s2 where s2: "ind_of e n (word_of_int (uint a)) ((k - 519) mod 512) create s1 =
            Inr (uint (file_zone C ?ip k), s2)" "fs_part s2 = fs_part s1" "view dev blocks valid quiet C v (Suc k0) s2"
          using cr3 unfolding z ucast_eq [of a] by blast
        have "bmap_create e n (int k) create s = Inr (uint (file_zone C ?ip k), s2)"
          using 3 k s1(1) s2(1) z8 n8 False an by (simp add: uint_0_iff bmap_create_def)
        then show ?thesis using s1(2) s2 by simp
      qed
    qed
  qed
qed

text \<open>One block of the file: at most to the end of the block, the zeros of a hole included.\<close>

lemma file_read_loop_content:
  assumes fuel: "e_fuel e = Suc fu" and dv: "i_dev ip = dev"
  shows "view dev blocks valid quiet C v (Suc k0) s \<Longrightarrow> inode_table s n = ip \<Longrightarrow>
    f_pos (file_table s f) = word_of_nat p \<Longrightarrow> p + left \<le> 268966912 \<Longrightarrow>
    (\<And>k. p div 1024 \<le> k \<Longrightarrow> 1024 * k < p + left \<Longrightarrow> path_ok (v) (C) ip k) \<Longrightarrow> left < m \<Longrightarrow>
    \<exists>s'. file_read_loop m e n f buf (int left) s = Inr (0, s') \<and> view dev blocks valid quiet C v (Suc k0) s' \<and>
      inode_table s' = inode_table s \<and>
      file_table s' = (file_table s)(f := (file_table s f)\<lparr>f_pos := word_of_nat (p + left)\<rparr>) \<and>
      bw_fs s' = put_fs_bytes (map (file_byte (C) ip) [p..<p + left]) buf (bw_fs s)"
proof (induction m arbitrary: s p left buf)
  case (Suc m)
  let ?C = C
  show ?case
  proof (cases "left = 0")
    case True
    then show ?thesis using Suc.prems(1,3) by (auto simp: fun_eq_iff)
  next
    case False
    let ?k = "p div 1024" and ?o = "p mod 1024"
    define c where "c = min (1024 - ?o) left"
    have c: "0 < c" "c \<le> left" "?o + c \<le> 1024" using False by (auto simp: c_def)
    have p31: "sint (f_pos (file_table s f)) = int p" using Suc.prems(3,4) by (simp add: sint_small)
    have kp: "?k < 262663" using Suc.prems(4) False by auto
    have path: "path_ok (v) ?C ip ?k" using Suc.prems(5) [of ?k] False by simp
    define z where "z = file_zone ?C ip ?k"
    obtain s1 where s1: "bmap e n (int ?k) s = Inr (uint z, s1)" "fs_part s1 = fs_part s" "view dev blocks valid quiet C v (Suc k0) s1"
      using bmap_create_content [OF Suc.prems(1) fuel _ kp, of n False] dv path Suc.prems(2) by (auto simp: z_def bmap_def)
    define bytes where "bytes = map (file_byte ?C ip) [p..<p + c]"
    have byte: "file_byte ?C ip (p + i) = (if z = 0 then 0 else ?C (ucast z) (?o + i))" if "i < c" for i
    proof -
      have "1024 * ?k + (?o + i) = p + i" by simp
      then have "(p + i) div 1024 = ?k" "(p + i) mod 1024 = ?o + i"
        using block_offset [of "?o + i" ?k] that c(3) by (simp_all del: div_mult_self4 mod_mult_self4)
      then show ?thesis by (simp add: file_byte_def z_def)
    qed
    have f1: "file_table s1 = file_table s" "inode_table s1 = inode_table s" "bw_fs s1 = bw_fs s"
      using fs_partD [OF s1(2)] by simp_all
    have w: "min (1024 - int ?o) (int left) = int c" by (auto simp: c_def)
    let ?adv = "upd_file f (\<lambda>fp. fp\<lparr>f_pos := f_pos fp + word_of_nat c\<rparr>)"
    obtain s2 where s2: "file_read_loop (Suc m) e n f buf (int left) s =
        file_read_loop m e n f (buf + word_of_nat c) (int left - int c) s2" "view dev blocks valid quiet C v (Suc k0) s2"
      "inode_table s2 = inode_table s" "file_table s2 = (file_table s)(f := (file_table s f)\<lparr>f_pos := word_of_nat (p + c)\<rparr>)"
      "bw_fs s2 = put_fs_bytes bytes buf (bw_fs s)"
    proof (cases "z = 0")
      case True
      have b: "replicate c 0 = bytes" using byte True by (intro nth_equalityI) (simp_all add: bytes_def)
      have "view dev blocks valid quiet C v (Suc k0) (to_user bytes buf (?adv s1))"
        by (rule view_only_fs [OF s1(3)]) simp
      then show ?thesis
        using that [of "to_user bytes buf (?adv s1)"] False s1(1) True p31 w f1 Suc.prems(3)
        by (simp add: sdiv_smod_nonneg b to_user_def upd_file_def)
    next
      case zn: False
      have "z \<in> set (zone_path ?C ip ?k)"
        unfolding z_def file_zone_def by (rule last_in_set) (simp add: zone_path_def Let_def)
      then have vz: "v (ucast z)" using path zn by (auto simp: path_ok_def list_all_iff)
      obtain b sb where b: "bread (e_fuel e) e dev (ucast z) s1 = Inr (Some b, sb)" "fs_part sb = fs_part s1"
        "same_block (b_data (bhs sb b)) (?C (ucast z))"
        "\<forall>s2. only_fs sb s2 \<longrightarrow> (\<exists>s3. brelse e (Some b) s2 = Inr s3 \<and> fs_part s3 = fs_part s2 \<and>
           view dev blocks valid quiet C v (Suc k0) s3)"
        using bread_brelse [OF s1(3) vz fuel] by blast
      have bb: "block_bytes (b_data (bhs sb b)) ?o c = bytes"
        using byte zn b(3) c(3) by (intro nth_equalityI) (simp_all add: bytes_def block_bytes_def same_block_def)
      have fb: "file_table sb = file_table s" "inode_table sb = inode_table s" "bw_fs sb = bw_fs s"
        using fs_partD [OF b(2)] f1 by simp_all
      have "only_fs sb (to_user bytes buf (?adv sb))" by simp
      then obtain s3 where s3: "brelse e (Some b) (to_user bytes buf (?adv sb)) = Inr s3"
        "fs_part s3 = fs_part (to_user bytes buf (?adv sb))" "view dev blocks valid quiet C v (Suc k0) s3"
        using b(4) by blast
      have b': "bread (e_fuel e) e dev (word_of_int (uint z)) s1 = Inr (Some b, sb)" using b(1) by (simp only: ucast_eq)
      have "uint z \<noteq> 0" using zn by (simp add: uint_0_iff)
      then have "file_read_loop (Suc m) e n f buf (int left) s =
          bindE (brelse e (Some b) (to_user (block_bytes (b_data (bhs (?adv sb) b)) ?o c) buf (?adv sb)))
            (file_read_loop m e n f (buf + word_of_nat c) (int left - int c))"
        using False s1(1) b' p31 w f1 fb Suc.prems(2,3) dv by (simp add: sdiv_smod_nonneg upd_file_def)
      moreover have "bhs (?adv sb) = bhs sb" by (simp add: upd_file_def)
      ultimately show ?thesis
        using that [of s3] bb s3 fs_partD [OF s3(2)] fb Suc.prems(3) by (simp add: to_user_def upd_file_def)
    qed
    have pc: "p + c + (left - c) = p + left" "int left - int c = int (left - c)" using c by simp_all
    have "\<exists>s'. file_read_loop m e n f (buf + word_of_nat c) (int (left - c)) s2 = Inr (0, s') \<and>
        view dev blocks valid quiet C v (Suc k0) s' \<and> inode_table s' = inode_table s2 \<and>
        file_table s' = (file_table s2)(f := (file_table s2 f)\<lparr>f_pos := word_of_nat (p + c + (left - c))\<rparr>) \<and>
        bw_fs s' = put_fs_bytes (map (file_byte ?C ip) [p + c..<p + c + (left - c)]) (buf + word_of_nat c) (bw_fs s2)"
    proof (rule Suc.IH [OF s2(2)])
      fix k assume "(p + c) div 1024 \<le> k" "1024 * k < p + c + (left - c)"
      moreover have "p div 1024 \<le> (p + c) div 1024" by (rule div_le_mono) simp
      ultimately show "path_ok (v) ?C ip k" using Suc.prems(5) [of k] pc(1) by simp
    qed (use s2 Suc.prems c in simp_all)
    then obtain s' where s': "file_read_loop m e n f (buf + word_of_nat c) (int left - int c) s2 = Inr (0, s')"
        "view dev blocks valid quiet C v (Suc k0) s'" "inode_table s' = inode_table s2"
        "file_table s' = (file_table s2)(f := (file_table s2 f)\<lparr>f_pos := word_of_nat (p + left)\<rparr>)"
        "bw_fs s' = put_fs_bytes (map (file_byte ?C ip) [p + c..<p + left]) (buf + word_of_nat c) (bw_fs s2)"
      unfolding pc by blast
    have "[p..<p + left] = [p..<p + c] @ [p + c..<p + left]" using c upt_add_eq_append [of p "p + c" "left - c"] by simp
    then have "bw_fs s' = put_fs_bytes (map (file_byte ?C ip) [p..<p + left]) buf (bw_fs s)"
      using s'(5) s2(5) by (simp add: put_fs_bytes_append bytes_def)
    moreover have "file_table s' = (file_table s)(f := (file_table s f)\<lparr>f_pos := word_of_nat (p + left)\<rparr>)"
      using s'(4) s2(4) by (simp add: fun_eq_iff)
    moreover have "file_read_loop (Suc m) e n f buf (int left) s = Inr (0, s')" unfolding s2(1) by (rule s'(1))
    moreover have "inode_table s' = inode_table s" using s'(3) s2(3) by simp
    ultimately show ?thesis using s'(2) by blast
  qed
qed simp

lemma file_read_content:
  assumes fuel: "e_fuel e = Suc fu" and v: "view dev blocks valid quiet C v (Suc k0) s" and dv: "i_dev (inode_table s n) = dev"
    and p: "f_pos (file_table s f) = word_of_nat p" "p + c \<le> 268966912" and c: "0 < c"
    and path: "\<And>k. p div 1024 \<le> k \<Longrightarrow> 1024 * k < p + c \<Longrightarrow> path_ok v C (inode_table s n) k"
  shows "\<exists>s'. file_read e n f buf (int c) s = Inr (int c, s') \<and> view dev blocks valid quiet C v (Suc k0) s' \<and>
    f_pos (file_table s' f) = word_of_nat (p + c) \<and>
    bw_fs s' = put_fs_bytes (map (file_byte C (inode_table s n)) [p..<p + c]) buf (bw_fs s)"
proof -
  obtain s' where s': "file_read_loop (Suc c) e n f buf (int c) s = Inr (0, s')" "view dev blocks valid quiet C v (Suc k0) s'"
    "file_table s' = (file_table s)(f := (file_table s f)\<lparr>f_pos := word_of_nat (p + c)\<rparr>)"
    "bw_fs s' = put_fs_bytes (map (file_byte C (inode_table s n)) [p..<p + c]) buf (bw_fs s)"
    using file_read_loop_content [OF fuel dv v refl p path, of "Suc c" buf] by blast
  define s2 where "s2 = upd_inode n (\<lambda>i. i\<lparr>i_atime := CURRENT_TIME s'\<rparr>) s'"
  have "view dev blocks valid quiet C v (Suc k0) s2" by (rule view_only_fs [OF s'(2)]) (simp add: s2_def)
  moreover have "file_read e n f buf (int c) s = Inr (int c, s2)"
    using s'(1) c by (simp add: file_read_def s2_def del: file_read_loop.simps)
  ultimately show ?thesis using s'(3,4) by (intro exI [of _ s2]) (simp add: s2_def)
qed

text \<open>
  Changing block \<open>nr\<close> through a buffer by a function \<open>g\<close> of its bytes.  When every buffer of the
  device holds a block of it, that is still so.
\<close>

lemma change_view:
  assumes v: "view dev blocks valid quiet C v (Suc k) s" and nr: "v nr" and fuel: "e_fuel e = Suc f"
    and g: "\<And>a b. same_block a b \<Longrightarrow> same_block (g a) (g b)"
  shows "\<exists>b s1. bread (e_fuel e) e dev nr s = Inr (Some b, s1) \<and> fs_part s1 = fs_part s \<and>
    (\<forall>s2. only_fs (upd_bh b (\<lambda>h. h\<lparr>b_data := g (b_data h), b_dirt := True\<rparr>) s1) s2 \<longrightarrow>
       (\<exists>s3. brelse e (Some b) s2 = Inr s3 \<and> fs_part s3 = fs_part s2 \<and> view dev blocks valid quiet (C(nr := g (C nr))) v k s3 \<and>
          (bufs_valid dev v s \<longrightarrow> bufs_valid dev v s3)))"
proof -
  obtain b s1 fl where r: "bread (e_fuel e) e dev nr s = Inr (Some b, s1)" "fs_part s1 = fs_part s"
    "same_block (b_data (bhs s1 b)) (C nr)" "b < NR_BUFFERS s" "cache_ok dev blocks quiet s1 fl" "others_kept b s s1"
    "b_count (bhs s1 b) = b_count (bhs s b) + 1" "valid s1 = v" "holds dev nr s1 b" "b_uptodate (bhs s1 b)"
    "\<And>m. same_block (content dev blocks s1 m) (C m)"
    using bread_view [OF v nr fuel] by blast
  define D where "D = g (b_data (bhs s1 b))"
  define st where "st = upd_bh b (\<lambda>h. h\<lparr>b_data := D, b_dirt := True\<rparr>) s1"
  have st': "upd_bh b (\<lambda>h. h\<lparr>b_data := g (b_data h), b_dirt := True\<rparr>) s1 = st"
    by (simp add: st_def D_def upd_bh_def)
  have n1: "NR_BUFFERS s1 = NR_BUFFERS s" using r(6) by (simp add: others_kept_def)
  have sc: "cache_ok dev blocks quiet st fl" "content dev blocks st = (content dev blocks s1)(nr := D)"
    using store_content [OF r(5) _ r(9,10) st_def] r(4) n1 by simp_all
  have vst: "valid st = v" using valid_devices [of st s1] r(8) by (simp add: st_def devices_queues)
  have "same_block D (g (C nr))" using g [OF r(3)] by (simp add: D_def)
  then have c: "same_block (content dev blocks st m) ((C(nr := g (C nr))) m)" for m
    using sc(2) r(11) by simp
  have "\<exists>s3. brelse e (Some b) s2 = Inr s3 \<and> fs_part s3 = fs_part s2 \<and> view dev blocks valid quiet (C(nr := g (C nr))) v k s3 \<and>
      (bufs_valid dev v s \<longrightarrow> bufs_valid dev v s3)" if o1: "only_fs st s2" for s2
  proof -
    note k = cache_ok_only_fs [OF sc(1) o1]
    have b2: "bhs s2 = bhs st" "NR_BUFFERS s2 = NR_BUFFERS st" using o1 by (simp_all add: only_fs_def)
    have kept: "others_kept b s s2" using r(6) b2 by (simp add: others_kept_def st_def)
    obtain s3 where s3: "brelse e (Some b) s2 = Inr s3" "fs_part s3 = fs_part s2"
      "view dev blocks valid quiet (C(nr := g (C nr))) v k s3" "NR_BUFFERS s3 = NR_BUFFERS s2"
      "\<And>l. b_dev (bhs s3 l) = b_dev (bhs s2 l) \<and> b_blocknr (bhs s3 l) = b_blocknr (bhs s2 l)"
      using brelse_view [OF v r(4) k(1) kept, of "C(nr := g (C nr))"] r(7) b2 k(2,3) c vst by (auto simp: st_def)
    have "v (b_blocknr (bhs s3 l))" if "bufs_valid dev v s" "l < NR_BUFFERS s3" "b_dev (bhs s3 l) = dev" for l
    proof (cases "l = b")
      case True
      then show ?thesis using s3(5) b2 r(9) nr by (simp add: st_def holds_def)
    next
      case False
      then show ?thesis using that s3(4,5) kept by (simp add: bufs_valid_def others_kept_def)
    qed
    then show ?thesis using s3 by (auto simp: bufs_valid_def)
  qed
  then show ?thesis using r(1,2) unfolding st' [symmetric] by blast
qed

text \<open>Storing bytes: \<open>bs\<close> goes to the bytes from \<open>o1\<close> on of block \<open>nr\<close>.\<close>

lemma store_view:
  assumes v: "view dev blocks valid quiet C v (Suc k) s" and nr: "v nr" and fuel: "e_fuel e = Suc f"
  shows "\<exists>b s1. bread (e_fuel e) e dev nr s = Inr (Some b, s1) \<and> fs_part s1 = fs_part s \<and>
    (\<forall>s2. only_fs (upd_bh b (\<lambda>h. h\<lparr>b_data := put_block o1 bs (b_data h), b_dirt := True\<rparr>) s1) s2 \<longrightarrow>
       (\<exists>s3. brelse e (Some b) s2 = Inr s3 \<and> fs_part s3 = fs_part s2 \<and>
          view dev blocks valid quiet (C(nr := put_block o1 bs (C nr))) v k s3))"
proof -
  have "same_block (put_block o1 bs a) (put_block o1 bs b)" if "same_block a b" for a b
    using that by (simp add: same_block_def put_block_def)
  from change_view [OF assms this, of "\<lambda>x. x"] show ?thesis by meson
qed

text \<open>One block of \<open>file_write\<close>, whose zone exists.\<close>

lemma file_write_step:
  assumes fuel: "e_fuel e = Suc fu" and v: "view dev blocks valid quiet C v (Suc k) s"
    and d: "i_dev (inode_table s n) = dev" and ip: "i_zone (inode_table s n) = i_zone ip"
    and kb: "p div 1024 < K" "K \<le> 262663" and own: "own_zone C ip K (p div 1024)" and path: "path_ok v C ip (p div 1024)"
    and left: "0 < left" and c: "c = min (1024 - p mod 1024) left"
  shows "\<exists>s' D. file_write_loop (Suc m) e n (word_of_nat p) buf i (i + int left) s =
      file_write_loop m e n (word_of_nat (p + c)) (buf + word_of_nat c) (i + int c) (i + int left) s' \<and>
    D = put_block (p mod 1024) (get_fs_bytes c buf (bw_fs s)) (C (ucast (file_zone C ip (p div 1024)))) \<and>
    view dev blocks valid quiet (C(ucast (file_zone C ip (p div 1024)) := D)) v k s' \<and>
    file_table s' = file_table s \<and> bw_fs s' = bw_fs s \<and> i_dev (inode_table s' n) = dev \<and>
    i_zone (inode_table s' n) = i_zone ip \<and>
    i_size (inode_table s' n) = max (i_size (inode_table s n)) (word_of_nat (p + c))"
proof -
  let ?k = "p div 1024" and ?o = "p mod 1024" and ?bs = "get_fs_bytes c buf (bw_fs s)"
  define z where "z = file_zone C ip ?k"
  have zp: "zone_path C (inode_table s n) = zone_path C ip" by (rule zone_path_cong [OF ip])
  have z': "file_zone C (inode_table s n) ?k = z" by (simp add: file_zone_def zp z_def)
  have p31: "sint (word_of_nat p :: u32) = int p" using kb by (intro sint_small) linarith
  have zn: "z \<noteq> 0" "v (ucast z)"
    using own path file_zone_in [of C ip ?k] by (auto simp: own_zone_def path_ok_def list_all_iff z_def)
  obtain s1 where s1: "create_block e n (int ?k) s = Inr (uint z, s1)" "fs_part s1 = fs_part s"
    "view dev blocks valid quiet C v (Suc k) s1"
    using bmap_create_content [OF v fuel d, of ?k True] kb own path
    by (auto simp: create_block_def z' path_ok_def own_zone_def zp)
  note f1 = fs_partD [OF s1(2)]
  obtain b s2 where b: "bread (e_fuel e) e dev (ucast z) s1 = Inr (Some b, s2)" "fs_part s2 = fs_part s1"
    "\<forall>s3. only_fs (upd_bh b (\<lambda>h. h\<lparr>b_data := put_block ?o ?bs (b_data h), b_dirt := True\<rparr>) s2) s3 \<longrightarrow>
       (\<exists>s4. brelse e (Some b) s3 = Inr s4 \<and> fs_part s4 = fs_part s3 \<and>
          view dev blocks valid quiet (C(ucast z := put_block ?o ?bs (C (ucast z)))) v k s4)"
    using store_view [OF s1(3) zn(2) fuel] by blast
  note f2 = fs_partD [OF b(2)]
  define st where "st = upd_bh b (\<lambda>h. h\<lparr>b_data := put_block ?o ?bs (b_data h), b_dirt := True\<rparr>) s2"
  define ps where "ps = (word_of_nat (p + c) :: u32)"
  define s3 where "s3 = (if i_size (inode_table s n) < ps then upd_inode n (\<lambda>ip. ip\<lparr>i_size := ps, i_dirt := True\<rparr>) st else st)"
  have o3: "only_fs st s3" by (simp add: s3_def)
  then obtain s4 where s4: "brelse e (Some b) s3 = Inr s4" "fs_part s4 = fs_part s3"
    "view dev blocks valid quiet (C(ucast z := put_block ?o ?bs (C (ucast z)))) v k s4"
    using b(3) unfolding st_def by blast
  have fs: "fs_part st = fs_part s" using b(2) s1(2) by (simp add: st_def fs_part_queues)
  note ft = fs_partD [OF fs]
  have w: "min (1024 - int ?o) (int left) = int c" by (auto simp: c)
  have b': "bread (e_fuel e) e dev (word_of_int (uint z)) s1 = Inr (Some b, s2)" using b(1) by (simp only: ucast_eq)
  have "file_write_loop (Suc m) e n (word_of_nat p) buf i (i + int left) s =
      bindE (brelse e (Some b) s3) (file_write_loop m e n (word_of_nat (p + c)) (buf + word_of_nat c) (i + int c) (i + int left))"
    using left s1(1) b' p31 zn(1) f1 f2 d w
    by (simp add: sdiv_smod_nonneg uint_0_iff Let_def s3_def st_def ps_def upd_bh_inode upd_bh_twice dirt_data)
  moreover have "inode_table s3 n = (if i_size (inode_table s n) < ps
      then (inode_table s n)\<lparr>i_size := ps, i_dirt := True\<rparr> else inode_table s n)"
    "file_table s3 = file_table s" "bw_fs s3 = bw_fs s"
    using ft by (simp_all add: s3_def)
  ultimately show ?thesis
    using s4 fs_partD [OF s4(2)] d ip by (intro exI [of _ s4]) (auto simp: z_def ps_def max_def)
qed

lemma file_write_loop_content:
  assumes fuel: "e_fuel e = Suc fu" and K: "K \<le> 262663"
  shows "view dev blocks valid quiet C v (blocks_of p left + Suc k0) s \<Longrightarrow> i_dev (inode_table s n) = dev \<Longrightarrow>
    i_zone (inode_table s n) = i_zone ip \<Longrightarrow> p + left \<le> 1024 * K \<Longrightarrow>
    (\<And>k. p div 1024 \<le> k \<Longrightarrow> 1024 * k < p + left \<Longrightarrow> own_zone C ip K k \<and> path_ok v C ip k) \<Longrightarrow> left < m \<Longrightarrow>
    \<exists>s' C'. file_write_loop m e n (word_of_nat p) buf i (i + int left) s = Inr (i + int left, word_of_nat (p + left), s') \<and>
      view dev blocks valid quiet C' v (Suc k0) s' \<and> file_table s' = file_table s \<and> bw_fs s' = bw_fs s \<and>
      i_dev (inode_table s' n) = dev \<and> i_zone (inode_table s' n) = i_zone ip \<and>
      i_size (inode_table s' n) = (if left = 0 then i_size (inode_table s n) else max (i_size (inode_table s n)) (word_of_nat (p + left))) \<and>
      (\<forall>j < K. zone_path C' ip j = zone_path C ip j) \<and>
      (\<forall>q < 1024 * K. file_byte C' ip q = (if p \<le> q \<and> q < p + left then bw_fs s (buf + word_of_nat (q - p)) else file_byte C ip q))"
proof (induction m arbitrary: C s p left buf i)
  case (Suc m)
  show ?case
  proof (cases "left = 0")
    case True
    then show ?thesis using Suc.prems(1-3) by (intro exI [of _ s] exI [of _ C]) (auto simp: blocks_of_def)
  next
    case False
    let ?k = "p div 1024" and ?o = "p mod 1024"
    define c where "c = min (1024 - ?o) left"
    have c: "0 < c" "c \<le> left" "?o + c \<le> 1024" using False by (auto simp: c_def)
    have kb: "?k < K" using Suc.prems(4) False by (metis add_less_cancel_left div_less_iff_less_mult gr0I less_le_trans mult.commute zero_less_numeral less_add_same_cancel1)
    have ok: "own_zone C ip K ?k" "path_ok v C ip ?k" using Suc.prems(5) [of ?k] False by simp_all
    have bl: "blocks_of p left = Suc (blocks_of (p + c) (left - c))" using False by (intro blocks_of_step) (simp_all add: c_def)
    have v: "view dev blocks valid quiet C v (Suc (blocks_of (p + c) (left - c) + Suc k0)) s" using Suc.prems(1) bl by simp
    obtain s1 D where s1: "file_write_loop (Suc m) e n (word_of_nat p) buf i (i + int left) s =
        file_write_loop m e n (word_of_nat (p + c)) (buf + word_of_nat c) (i + int c) (i + int left) s1"
      "D = put_block ?o (get_fs_bytes c buf (bw_fs s)) (C (ucast (file_zone C ip ?k)))"
      "view dev blocks valid quiet (C(ucast (file_zone C ip ?k) := D)) v (blocks_of (p + c) (left - c) + Suc k0) s1"
      "file_table s1 = file_table s" "bw_fs s1 = bw_fs s" "i_dev (inode_table s1 n) = dev"
      "i_zone (inode_table s1 n) = i_zone ip" "i_size (inode_table s1 n) = max (i_size (inode_table s n)) (word_of_nat (p + c))"
      using file_write_step [OF fuel v Suc.prems(2,3) kb K ok _ c_def] False by blast
    define C1 where "C1 = C(ucast (file_zone C ip ?k) := D)"
    note st = own_zone_store [OF ok(1) kb C1_def]
    have b1: "file_byte C1 ip q = (if p \<le> q \<and> q < p + c then bw_fs s (buf + word_of_nat (q - p)) else file_byte C ip q)"
      if q: "q < 1024 * K" for q
    proof (cases "p \<le> q \<and> q < p + c")
      case True
      then have i: "q div 1024 = ?k" "?o \<le> q mod 1024" "q mod 1024 < ?o + c" "q - p = q mod 1024 - ?o"
        using in_block [OF c(3), of q] by blast+
      then have "get_fs_bytes c buf (bw_fs s) ! (q mod 1024 - ?o) = bw_fs s (buf + word_of_nat (q - p))"
        by (subst get_fs_bytes_nth) (simp_all add: less_diff_conv2)
      then show ?thesis using st(3) [OF q] True i by (simp add: s1(2) put_block_def)
    next
      case False
      then have "q div 1024 = ?k \<Longrightarrow> \<not> (?o \<le> q mod 1024 \<and> q mod 1024 < ?o + c)"
        using in_block(1) [OF c(3), of q] by blast
      moreover have "file_zone C ip ?k \<noteq> 0" using ok(1) file_zone_in [of C ip ?k] by (auto simp: own_zone_def)
      ultimately show ?thesis using st(3) [OF q] False by (auto simp: s1(2) put_block_def file_byte_def)
    qed
    have pc: "p + c + (left - c) = p + left" "i + int c + int (left - c) = i + int left" using c by simp_all
    have own1: "own_zone C1 ip K k \<and> path_ok v C1 ip k"
      if "(p + c) div 1024 \<le> k" "1024 * k < p + c + (left - c)" for k
    proof -
      have "p div 1024 \<le> (p + c) div 1024" by (rule div_le_mono) simp
      then have k: "own_zone C ip K k" "path_ok v C ip k" using Suc.prems(5) [of k] that pc(1) by simp_all
      have "k < K" using that(2) pc(1) Suc.prems(4) by simp
      then show ?thesis using st(1) [of k] st(2) [of k] k by (simp add: path_ok_def)
    qed
    have left1: "p + c + (left - c) \<le> 1024 * K" "left - c < m" using Suc.prems(4,6) pc(1) c by simp_all
    obtain s' C' where s': "file_write_loop m e n (word_of_nat (p + c)) (buf + word_of_nat c) (i + int c) (i + int left) s1 =
        Inr (i + int left, word_of_nat (p + left), s')"
      "view dev blocks valid quiet C' v (Suc k0) s'" "file_table s' = file_table s1" "bw_fs s' = bw_fs s1"
      "i_dev (inode_table s' n) = dev" "i_zone (inode_table s' n) = i_zone ip"
      "i_size (inode_table s' n) = (if left - c = 0 then i_size (inode_table s1 n) else max (i_size (inode_table s1 n)) (word_of_nat (p + left)))"
      "\<And>j. j < K \<Longrightarrow> zone_path C' ip j = zone_path C1 ip j"
      "\<And>q. q < 1024 * K \<Longrightarrow> file_byte C' ip q = (if p + c \<le> q \<and> q < p + left
         then bw_fs s1 (buf + word_of_nat c + word_of_nat (q - (p + c))) else file_byte C1 ip q)"
      using Suc.IH [OF s1(3) [folded C1_def] s1(6,7) left1(1) own1 left1(2), of "buf + word_of_nat c" "i + int c"]
      unfolding pc by blast
    have "file_byte C' ip q = (if p \<le> q \<and> q < p + left then bw_fs s (buf + word_of_nat (q - p)) else file_byte C ip q)"
      if "q < 1024 * K" for q
    proof (cases "p + c \<le> q \<and> q < p + left")
      case True
      then have "word_of_nat (q - p) = (word_of_nat c + word_of_nat (q - (p + c)) :: u32)"
        by (simp add: of_nat_diff)
      then show ?thesis using True s'(9) [OF that] s1(5) by (simp add: add.assoc)
    next
      case False
      then show ?thesis using s'(9) [OF that] b1 [OF that] c(2) by auto
    qed
    moreover have "word_of_nat (p + c) \<le> (word_of_nat (p + left) :: u32)"
      using c Suc.prems(4) K by (simp add: word_le_nat_alt unat_small_nat del: of_nat_add)
    then have "i_size (inode_table s' n) = max (i_size (inode_table s n)) (word_of_nat (p + left))"
      using s'(7) s1(8) c by (cases "c = left") (auto simp: max_def)
    moreover have "zone_path C' ip j = zone_path C ip j" if "j < K" for j using s'(8) st(1) that by simp
    moreover have "file_write_loop (Suc m) e n (word_of_nat p) buf i (i + int left) s =
        Inr (i + int left, word_of_nat (p + left), s')" unfolding s1(1) by (rule s'(1))
    ultimately show ?thesis
      using s'(2-6) s1(4,5) False by (intro exI [of _ s'] exI [of _ C']) (simp del: file_write_loop.simps)
  qed
qed simp

lemma file_write_content:
  assumes fuel: "e_fuel e = Suc fu" and K: "K \<le> 262663"
    and v: "view dev blocks valid quiet C v (blocks_of p c + Suc k0) s" and dv: "i_dev (inode_table s n) = dev"
    and f: "f_pos (file_table s f) = word_of_nat p" "f_flags (file_table s f) AND O_APPEND = 0" and c: "p + c \<le> 1024 * K" "0 < c"
    and own: "\<And>k. p div 1024 \<le> k \<Longrightarrow> 1024 * k < p + c \<Longrightarrow> own_zone C (inode_table s n) K k \<and> path_ok v C (inode_table s n) k"
  shows "\<exists>s' C'. file_write e n f buf (int c) s = Inr (int c, s') \<and> view dev blocks valid quiet C' v (Suc k0) s' \<and>
    f_pos (file_table s' f) = word_of_nat (p + c) \<and> i_dev (inode_table s' n) = dev \<and> bw_fs s' = bw_fs s \<and>
    i_zone (inode_table s' n) = i_zone (inode_table s n) \<and>
    i_size (inode_table s' n) = max (i_size (inode_table s n)) (word_of_nat (p + c)) \<and>
    (\<forall>j < K. zone_path C' (inode_table s n) j = zone_path C (inode_table s n) j) \<and>
    (\<forall>q < 1024 * K. file_byte C' (inode_table s n) q =
       (if p \<le> q \<and> q < p + c then bw_fs s (buf + word_of_nat (q - p)) else file_byte C (inode_table s n) q))"
proof -
  let ?ip = "inode_table s n"
  obtain s1 C' where s1: "file_write_loop (Suc c) e n (word_of_nat p) buf 0 (0 + int c) s = Inr (0 + int c, word_of_nat (p + c), s1)"
    "view dev blocks valid quiet C' v (Suc k0) s1" "file_table s1 = file_table s" "bw_fs s1 = bw_fs s"
    "i_dev (inode_table s1 n) = dev" "i_zone (inode_table s1 n) = i_zone ?ip"
    "i_size (inode_table s1 n) = (if c = 0 then i_size ?ip else max (i_size ?ip) (word_of_nat (p + c)))"
    "\<forall>j < K. zone_path C' ?ip j = zone_path C ?ip j"
    "\<forall>q < 1024 * K. file_byte C' ?ip q =
       (if p \<le> q \<and> q < p + c then bw_fs s (buf + word_of_nat (q - p)) else file_byte C ?ip q)"
    using file_write_loop_content [OF fuel K v dv refl c(1) own, of "Suc c" buf 0] by blast
  define s2 where "s2 = upd_inode n (\<lambda>ip. ip\<lparr>i_mtime := CURRENT_TIME s1\<rparr>) s1"
  define s3 where "s3 = upd_inode n (\<lambda>ip. ip\<lparr>i_ctime := CURRENT_TIME s2\<rparr>) (upd_file f (\<lambda>fp. fp\<lparr>f_pos := word_of_nat (p + c)\<rparr>) s2)"
  have ct: "CURRENT_TIME (upd_file f g s2) = CURRENT_TIME s2" for g by (simp add: CURRENT_TIME_def upd_file_def)
  have "file_write e n f buf (int c) s = Inr (int c, s3)"
    using s1(1,3) f c(2) by (simp add: file_write_def s2_def s3_def Let_def del: file_write_loop.simps)
  moreover have "view dev blocks valid quiet C' v (Suc k0) s3" by (rule view_only_fs [OF s1(2)]) (simp add: s3_def s2_def)
  moreover have "inode_table s3 n = (inode_table s1 n)\<lparr>i_mtime := CURRENT_TIME s1, i_ctime := CURRENT_TIME s2\<rparr>"
    "f_pos (file_table s3 f) = word_of_nat (p + c)" "bw_fs s3 = bw_fs s"
    using s1(4) by (simp_all add: s3_def s2_def upd_file_def)
  ultimately show ?thesis using s1(5-) c(2) by (intro exI [of _ s3] exI [of _ C']) simp
qed

end

section \<open>Files on the RAM disk\<close>

text \<open>
  C3: Reading \<open>c\<close> bytes at position \<open>p\<close> of a file on the RAM disk: \<open>file_read\<close> returns, reports all
  \<open>c\<close> bytes, stores in the memory of the user the bytes of the file from \<open>p\<close> on, found through the
  direct, indirect and doubly indirect zones and zero in a hole, and moves the position on; no
  block of the disk changes.  The zones must lie on the disk, one buffer be free for use and the
  range below the largest block number of a file.
\<close>

theorem file_read_ramdisk:
  assumes "cache_ok 0x101 rd_block rd_quiet s fl" and "\<exists>i < NR_BUFFERS s. idle s i"
    and "\<forall>i < NR_BUFFERS s. b_count (bhs s i) \<noteq> 255" and "e_fuel e0 = Suc fu"
    and "i_dev (inode_table s n) = 0x101" and "f_pos (file_table s f) = word_of_nat p" and "p + c \<le> 268966912" and "0 < c"
    and "\<And>k. p div 1024 \<le> k \<Longrightarrow> 1024 * k < p + c \<Longrightarrow>
      path_ok (rd_valid s) (content 0x101 rd_block s) (inode_table s n) k"
  shows "\<exists>s'. file_read (rd_env e0 sl fd hdd) n f buf (int c) s = Inr (int c, s') \<and>
    bw_fs s' = put_fs_bytes (map (file_byte (content 0x101 rd_block s) (inode_table s n)) [p..<p + c]) buf (bw_fs s) \<and>
    f_pos (file_table s' f) = word_of_nat (p + c) \<and>
    (\<forall>m. same_block (content 0x101 rd_block s' m) (content 0x101 rd_block s m))"
proof -
  have "idle_bufs s \<noteq> {}" using assms(2) by (auto simp: idle_bufs_def)
  then have "Suc 0 \<le> card (idle_bufs s)" by (simp add: Suc_le_eq card_gt_0_iff)
  then have "view 0x101 rd_block rd_valid rd_quiet (content 0x101 rd_block s) (rd_valid s) (Suc 0) s"
    using assms(1,3) by (auto simp: view_def)
  moreover have "e_fuel (rd_env e0 sl fd hdd) = Suc fu" using assms(4) by (simp add: rd_env_def)
  ultimately show ?thesis
    using rd.file_read_content [OF _ _ assms(5-8), of e0 sl fd hdd fu "content 0x101 rd_block s" "rd_valid s" 0 buf] assms(9)
    by (auto simp: view_def)
qed

lemma rd_view:
  assumes "cache_ok 0x101 rd_block rd_quiet s fl" and "k \<le> card (idle_bufs s)"
    and "\<forall>i < NR_BUFFERS s. b_count (bhs s i) \<noteq> 255"
  shows "view 0x101 rd_block rd_valid rd_quiet (content 0x101 rd_block s) (rd_valid s) k s"
  using assms by (auto simp: view_def)

text \<open>
  C4: Overwriting \<open>c\<close> bytes at position \<open>p\<close> of a file on the RAM disk: \<open>file_write\<close> returns, reports
  all \<open>c\<close> bytes, and afterwards the bytes of the file in that range are those of the user's
  buffer and all others are as before; the position moves on and the size of the file grows when
  the range ends behind it.  The zones of the range exist, and no other block of the file shares
  them; there is a buffer for every block touched and one more.
\<close>

theorem file_write_ramdisk:
  assumes "cache_ok 0x101 rd_block rd_quiet s fl" and "Suc (blocks_of p c) \<le> card (idle_bufs s)"
    and "\<forall>i < NR_BUFFERS s. b_count (bhs s i) \<noteq> 255" and "e_fuel e0 = Suc fu"
    and "i_dev (inode_table s n) = 0x101" and "f_pos (file_table s f) = word_of_nat p"
    and "f_flags (file_table s f) AND O_APPEND = 0" and "K \<le> 262663" and "p + c \<le> 1024 * K" and "0 < c"
    and "\<And>k. p div 1024 \<le> k \<Longrightarrow> 1024 * k < p + c \<Longrightarrow>
      own_zone (content 0x101 rd_block s) (inode_table s n) K k \<and>
      path_ok (rd_valid s) (content 0x101 rd_block s) (inode_table s n) k"
  shows "\<exists>s'. file_write (rd_env e0 sl fd hdd) n f buf (int c) s = Inr (int c, s') \<and>
    f_pos (file_table s' f) = word_of_nat (p + c) \<and>
    i_size (inode_table s' n) = max (i_size (inode_table s n)) (word_of_nat (p + c)) \<and>
    (\<forall>q < 1024 * K. file_byte (content 0x101 rd_block s') (inode_table s' n) q =
       (if p \<le> q \<and> q < p + c then bw_fs s (buf + word_of_nat (q - p))
        else file_byte (content 0x101 rd_block s) (inode_table s n) q))"
proof -
  have v: "view 0x101 rd_block rd_valid rd_quiet (content 0x101 rd_block s) (rd_valid s) (blocks_of p c + Suc 0) s"
    using rd_view [OF assms(1) _ assms(3)] assms(2) by simp
  have fuel: "e_fuel (rd_env e0 sl fd hdd) = Suc fu" using assms(4) by (simp add: rd_env_def)
  obtain s' C' where s': "file_write (rd_env e0 sl fd hdd) n f buf (int c) s = Inr (int c, s')"
    "view 0x101 rd_block rd_valid rd_quiet C' (rd_valid s) (Suc 0) s'" "f_pos (file_table s' f) = word_of_nat (p + c)"
    "i_zone (inode_table s' n) = i_zone (inode_table s n)"
    "i_size (inode_table s' n) = max (i_size (inode_table s n)) (word_of_nat (p + c))"
    "\<forall>q < 1024 * K. file_byte C' (inode_table s n) q =
       (if p \<le> q \<and> q < p + c then bw_fs s (buf + word_of_nat (q - p))
        else file_byte (content 0x101 rd_block s) (inode_table s n) q)"
    using rd.file_write_content [OF fuel assms(8) v assms(5,6,7,9,10,11), of buf] by blast
  have "file_byte (content 0x101 rd_block s') (inode_table s' n) q = file_byte C' (inode_table s n) q" if "q < 1024 * K" for q
  proof -
    have "file_byte (content 0x101 rd_block s') (inode_table s' n) q = file_byte C' (inode_table s' n) q"
      using s'(2) that assms(8) by (intro file_byte_same) (simp_all add: view_def)
    also have "\<dots> = file_byte C' (inode_table s n) q"
      using zone_path_cong [OF s'(4)] by (simp add: file_byte_def file_zone_def)
    finally show ?thesis .
  qed
  then show ?thesis using s' by (intro exI [of _ s']) simp
qed

text \<open>
  C1: What is written to a file can be read back: when \<open>file_write\<close> has overwritten a range, \<open>file_read\<close>
  of that range, with the position set back, stores the same bytes in the memory of the user.
\<close>

theorem file_write_read_ramdisk:
  assumes "cache_ok 0x101 rd_block rd_quiet s fl" and "Suc (blocks_of p c) \<le> card (idle_bufs s)"
    and "\<forall>i < NR_BUFFERS s. b_count (bhs s i) \<noteq> 255" and "e_fuel e0 = Suc fu"
    and "i_dev (inode_table s n) = 0x101" and "f_pos (file_table s f) = word_of_nat p"
    and "f_flags (file_table s f) AND O_APPEND = 0" and "K \<le> 262663" and "p + c \<le> 1024 * K" and "0 < c"
    and "\<And>k. p div 1024 \<le> k \<Longrightarrow> 1024 * k < p + c \<Longrightarrow>
      own_zone (content 0x101 rd_block s) (inode_table s n) K k \<and>
      path_ok (rd_valid s) (content 0x101 rd_block s) (inode_table s n) k"
  shows "\<exists>s1 s2. file_write (rd_env e0 sl fd hdd) n f buf (int c) s = Inr (int c, s1) \<and>
    file_read (rd_env e0 sl fd hdd) n f buf2 (int c) (upd_file f (\<lambda>fp. fp\<lparr>f_pos := word_of_nat p\<rparr>) s1) = Inr (int c, s2) \<and>
    get_fs_bytes c buf2 (bw_fs s2) = get_fs_bytes c buf (bw_fs s)"
proof -
  let ?ip = "inode_table s n" and ?e = "rd_env e0 sl fd hdd"
  have v: "view 0x101 rd_block rd_valid rd_quiet (content 0x101 rd_block s) (rd_valid s) (blocks_of p c + Suc 0) s"
    using rd_view [OF assms(1) _ assms(3)] assms(2) by simp
  have fuel: "e_fuel ?e = Suc fu" using assms(4) by (simp add: rd_env_def)
  obtain s1 C' where s1: "file_write ?e n f buf (int c) s = Inr (int c, s1)"
    "view 0x101 rd_block rd_valid rd_quiet C' (rd_valid s) (Suc 0) s1" "i_dev (inode_table s1 n) = 0x101" "bw_fs s1 = bw_fs s"
    "i_zone (inode_table s1 n) = i_zone ?ip"
    "\<forall>j < K. zone_path C' ?ip j = zone_path (content 0x101 rd_block s) ?ip j"
    "\<forall>q < 1024 * K. file_byte C' ?ip q = (if p \<le> q \<and> q < p + c then bw_fs s (buf + word_of_nat (q - p))
        else file_byte (content 0x101 rd_block s) ?ip q)"
    using rd.file_write_content [OF fuel assms(8) v assms(5,6,7,9,10,11), of buf] by blast
  let ?s = "upd_file f (\<lambda>fp. fp\<lparr>f_pos := word_of_nat p\<rparr>) s1"
  have vs: "view 0x101 rd_block rd_valid rd_quiet C' (rd_valid s) (Suc 0) ?s"
    by (rule rd.view_only_fs [OF s1(2)]) simp
  have ips: "inode_table ?s n = inode_table s1 n" "bw_fs ?s = bw_fs s" "f_pos (file_table ?s f) = word_of_nat p"
    using s1(4) by (simp_all add: upd_file_def)
  have zp: "zone_path C' (inode_table ?s n) = zone_path C' ?ip" unfolding ips by (rule zone_path_cong [OF s1(5)])
  have path: "path_ok (rd_valid s) C' (inode_table ?s n) k" if "p div 1024 \<le> k" "1024 * k < p + c" for k
    using assms(11) [OF that] s1(6) that(2) assms(9) by (simp add: path_ok_def zp)
  obtain s2 where s2: "file_read ?e n f buf2 (int c) ?s = Inr (int c, s2)"
    "bw_fs s2 = put_fs_bytes (map (file_byte C' (inode_table ?s n)) [p..<p + c]) buf2 (bw_fs ?s)"
    using rd.file_read_content [OF fuel vs _ ips(3) _ assms(10) path, of buf2] s1(3) ips(1) assms(8,9) by auto
  have "map (file_byte C' (inode_table ?s n)) [p..<p + c] = get_fs_bytes c buf (bw_fs s)"
    using s1(7) assms(9) by (intro nth_equalityI) (simp_all add: get_fs_bytes_nth file_byte_def file_zone_def zp)
  then have "get_fs_bytes c buf2 (bw_fs s2) = get_fs_bytes c buf (bw_fs s)"
    using get_put_fs_bytes [of "get_fs_bytes c buf (bw_fs s)" buf2 "bw_fs ?s"] assms(8,9) s2(2) by simp
  then show ?thesis using s1(1) s2(1) by blast
qed

text \<open>A file of one block, the third of the disk.\<close>

definition demo_file :: bufw where
  "demo_file = demo_rd\<lparr>inode_table := (\<lambda>_. zero_inode\<lparr>i_dev := 0x101, i_zone := (\<lambda>k. if k = 0 then 2 else 0)\<rparr>),
     file_table := (\<lambda>_. zero_file)\<rparr>"

lemma demo_file_ok:
  "cache_ok 0x101 rd_block rd_quiet demo_file [0..<3]" "idle_bufs demo_file = {..<3}"
  "\<forall>i < NR_BUFFERS demo_file. b_count (bhs demo_file i) \<noteq> 255" "i_dev (inode_table demo_file 0) = 0x101"
  "f_pos (file_table demo_file 0) = word_of_nat 0" "f_flags (file_table demo_file 0) AND O_APPEND = 0"
  "k < 7 \<Longrightarrow> zone_path C (inode_table demo_file 0) k = [if k = 0 then 2 else 0]" "rd_valid demo_file 2"
proof -
  have o1: "only_fs demo_rd demo_file" by (simp add: only_fs_def demo_file_def devices_def)
  have n: "NR_BUFFERS demo_file = 3" "bhs demo_file = bhs demo_rd" using demo_rd_ok(3) by (simp_all add: demo_file_def)
  note ok = rd.cache_ok_only_fs [OF demo_rd_ok(1) o1]
  show "cache_ok 0x101 rd_block rd_quiet demo_file [0..<3]" by (rule ok(1))
  have idle: "idle demo_file i" if "i < 3" for i using demo_rd_ok(2) [OF that] n by (simp add: idle_def unused_def)
  then show "idle_bufs demo_file = {..<3}" using n(1) by (auto simp: idle_bufs_def)
  show "\<forall>i < NR_BUFFERS demo_file. b_count (bhs demo_file i) \<noteq> 255" using idle n by (auto simp: idle_def unused_def)
  show "i_dev (inode_table demo_file 0) = 0x101" "f_pos (file_table demo_file 0) = word_of_nat 0"
    "f_flags (file_table demo_file 0) AND O_APPEND = 0" by (simp_all add: demo_file_def zero_file_def)
  show "k < 7 \<Longrightarrow> zone_path C (inode_table demo_file 0) k = [if k = 0 then 2 else 0]"
    by (simp add: zone_path_def demo_file_def zero_inode_def)
  show "rd_valid demo_file 2" using ok(3) demo_rd_ok(5) by simp
qed

lemma demo_path_ok: "k < 7 \<Longrightarrow> path_ok (rd_valid demo_file) C (inode_table demo_file 0) k"
  using demo_file_ok(7) [of k C] demo_file_ok(8) by (auto simp: path_ok_def)

lemma demo_own_zone: "own_zone C (inode_table demo_file 0) 7 0"
  using demo_file_ok(7) by (simp add: own_zone_def file_zone_def)

lemma demo_fuel: "e_fuel demo_env = Suc 9"
  by (simp add: demo_env_def)

theorem file_read_ramdisk_witness:
  "\<exists>s'. file_read demo_rd_env 0 0 0x4000 1500 demo_file = Inr (1500, s') \<and>
     bw_fs s' 0x4005 = content 0x101 rd_block demo_file 2 5 \<and> bw_fs s' 0x4500 = 0"
proof -
  let ?C = "content 0x101 rd_block demo_file" and ?ip = "inode_table demo_file 0"
  have ex: "\<exists>i < NR_BUFFERS demo_file. idle demo_file i" by (rule idle_bufs_ex [of 0]) (simp add: demo_file_ok(2))
  have path: "path_ok (rd_valid demo_file) ?C ?ip k" if "1024 * k < 0 + 1500" for k
    using that by (intro demo_path_ok) simp
  obtain s' where s': "file_read demo_rd_env 0 0 0x4000 1500 demo_file = Inr (1500, s')"
    "bw_fs s' = put_fs_bytes (map (file_byte ?C ?ip) [0..<1500]) 0x4000 (bw_fs demo_file)"
    using file_read_ramdisk [OF demo_file_ok(1) ex demo_file_ok(3) demo_fuel demo_file_ok(4,5) _ _ path, of 1500 "\<lambda>s. s" Inr Inr "0x4000"]
    by (auto simp: demo_rd_env_def)
  have "bw_fs s' (0x4000 + of_nat i) = file_byte ?C ?ip i" if "i < 1500" for i
    unfolding s'(2) by (subst put_fs_bytes_in) (use that in simp_all)
  from this [of 5] this [of 1280]
  have "bw_fs s' 0x4005 = file_byte ?C ?ip 5" "bw_fs s' 0x4500 = file_byte ?C ?ip 1280" by simp_all
  then show ?thesis using s'(1) demo_file_ok(7) [of 0] demo_file_ok(7) [of 1] by (simp add: file_byte_def file_zone_def)
qed

theorem file_write_ramdisk_witness:
  "\<exists>s'. file_write demo_rd_env 0 0 0x4000 100 demo_file = Inr (100, s') \<and> i_size (inode_table s' 0) = 100 \<and>
     file_byte (content 0x101 rd_block s') (inode_table s' 0) 7 = bw_fs demo_file 0x4007"
proof -
  let ?C = "content 0x101 rd_block demo_file" and ?ip = "inode_table demo_file 0"
  have own: "own_zone ?C ?ip 7 k \<and> path_ok (rd_valid demo_file) ?C ?ip k" if "1024 * k < 0 + 100" for k
  proof -
    have "k = 0" using that by simp
    then show ?thesis using demo_own_zone demo_path_ok [of 0] by simp
  qed
  have room: "Suc (blocks_of 0 100) \<le> card (idle_bufs demo_file)" by (simp add: demo_file_ok(2) blocks_of_def)
  obtain s' where s': "file_write demo_rd_env 0 0 0x4000 100 demo_file = Inr (100, s')" "i_size (inode_table s' 0) = max 0 100"
    "\<forall>q < 1024 * 7. file_byte (content 0x101 rd_block s') (inode_table s' 0) q =
       (if 0 \<le> q \<and> q < 0 + 100 then bw_fs demo_file (0x4000 + word_of_nat (q - 0)) else file_byte ?C ?ip q)"
    using file_write_ramdisk [OF demo_file_ok(1) room demo_file_ok(3) demo_fuel demo_file_ok(4,5,6) _ _ _ own, of "\<lambda>s. s" Inr Inr "0x4000"]
    by (auto simp: demo_rd_env_def demo_file_def zero_inode_def)
  from s'(3) [rule_format, of 7] show ?thesis using s'(1,2) by simp
qed

theorem file_write_read_ramdisk_witness:
  "\<exists>s1 s2. file_write demo_rd_env 0 0 0x4000 100 demo_file = Inr (100, s1) \<and>
     file_read demo_rd_env 0 0 0x8000 100 (upd_file 0 (\<lambda>fp. fp\<lparr>f_pos := word_of_nat 0\<rparr>) s1) = Inr (100, s2) \<and>
     get_fs_bytes 100 0x8000 (bw_fs s2) = get_fs_bytes 100 0x4000 (bw_fs demo_file)"
proof -
  let ?C = "content 0x101 rd_block demo_file" and ?ip = "inode_table demo_file 0"
  have own: "own_zone ?C ?ip 7 k \<and> path_ok (rd_valid demo_file) ?C ?ip k" if "1024 * k < 0 + 100" for k
  proof -
    have "k = 0" using that by simp
    then show ?thesis using demo_own_zone demo_path_ok [of 0] by simp
  qed
  have room: "Suc (blocks_of 0 100) \<le> card (idle_bufs demo_file)" by (simp add: demo_file_ok(2) blocks_of_def)
  show ?thesis
    using file_write_read_ramdisk [OF demo_file_ok(1) room demo_file_ok(3) demo_fuel demo_file_ok(4,5,6) _ _ _ own,
        of "\<lambda>s. s" Inr Inr "0x4000" "0x8000"]
    by (simp add: demo_rd_env_def)
qed

end
