(* ===== verification/Inode_Sync.thy ===== *)
theory Inode_Sync
  imports File_Content
begin

text \<open>
  Writing the i-nodes back: \<open>write_inode\<close> and \<open>sync_inodes\<close> of \<open>fs/inode.c\<close> over the buffer cache,
  and \<open>sync_dev\<close>, which calls them between its two passes over the buffers.
\<close>

section \<open>An i-node in its block\<close>

lemma upt_9: "[0..<9] = [0, 1, 2, 3, 4, 5, 6, 7, 8]"
  by (simp add: upt_conv_Cons)

lemmas put_d_inode_bytes = put_d_inode_def put16_def put32_def Let_def upt_9

lemma put_d_inode_out: "j < 32 * k \<or> 32 * k + 32 \<le> j \<Longrightarrow> put_d_inode k d b j = b j"
  by (auto simp: put_d_inode_bytes)

lemma put_d_inode_cong: "a j = b j \<Longrightarrow> put_d_inode k d a j = put_d_inode k d b j"
  by (simp add: put_d_inode_bytes)

lemma put_d_inode_same: "same_block a b \<Longrightarrow> same_block (put_d_inode k d a) (put_d_inode k d b)"
  unfolding same_block_def by (blast intro: put_d_inode_cong)

lemma d_inode_at_cong:
  assumes "\<And>j. 32 * k \<le> j \<Longrightarrow> j < 32 * k + 32 \<Longrightarrow> a j = b j"
  shows "d_inode_at a k = d_inode_at b k"
proof -
  have w: "le16 a (32 * k + c) = le16 b (32 * k + c)" if "c < 31" for c using assms that by (simp add: le16_def)
  have l: "le32 a (32 * k + c) = le32 b (32 * k + c)" if "c < 29" for c using assms that by (simp add: le32_def)
  have "le16 a (32 * k + 14 + 2 * z) = le16 b (32 * k + 14 + 2 * z)" if "z < 9" for z
    using w [of "14 + 2 * z"] that by (simp add: add.assoc)
  then show ?thesis
    using w [of 0] w [of 2] l [of 4] l [of 8] assms [of "32 * k + 12"] assms [of "32 * k + 13"]
    by (simp add: d_inode_at_def fun_eq_iff)
qed

lemma u16_bytes: "ucast (ucast w :: u8) OR push_bit 8 (ucast (ucast (drop_bit 8 w) :: u8)) = (w :: u16)"
  by (rule bit_word_eqI) (auto simp: bit_simps)

lemma u32_bytes:
  "ucast (ucast w :: u8) OR push_bit 8 (ucast (ucast (drop_bit 8 w) :: u8)) OR
   push_bit 16 (ucast (ucast (drop_bit 16 w) :: u8)) OR push_bit 24 (ucast (ucast (drop_bit 24 w) :: u8)) = (w :: u32)"
proof (rule bit_word_eqI)
  fix n :: nat
  consider "n < 8" | m where "n = 8 + m" "m < 8" | m where "n = 16 + m" "m < 8" | m where "n = 24 + m"
  proof -
    have "n < 8 \<or> (\<exists>m. n = 8 + m \<and> m < 8) \<or> (\<exists>m. n = 16 + m \<and> m < 8) \<or> (\<exists>m. n = 24 + m)" by presburger
    then show thesis using that by blast
  qed
  then show "bit (ucast (ucast w :: u8) OR push_bit 8 (ucast (ucast (drop_bit 8 w) :: u8)) OR
   push_bit 16 (ucast (ucast (drop_bit 16 w) :: u8)) OR push_bit 24 (ucast (ucast (drop_bit 24 w) :: u8)) :: u32) n = bit w n"
    by cases (auto simp: bit_simps dest: bit_imp_le_length)
qed

lemma less_9: "z < (9 :: nat) \<Longrightarrow> z \<in> {0, 1, 2, 3, 4, 5, 6, 7, 8}"
  by auto

lemma d_inode_roundtrip: "d_inode_at (put_d_inode k (disk_part i) b) k = disk_part i"
proof -
  have z: "le16 (put_d_inode k (disk_part i) b) (32 * k + 14 + 2 * z) = i_zone i z" if "z < 9" for z
    using less_9 [OF that] by (auto simp: put_d_inode_bytes le16_def disk_part_def u16_bytes)
  have "le16 (put_d_inode k (disk_part i) b) (32 * k) = i_mode i"
    "le16 (put_d_inode k (disk_part i) b) (32 * k + 2) = i_uid i"
    by (simp_all add: put_d_inode_bytes le16_def disk_part_def u16_bytes)
  moreover have "le32 (put_d_inode k (disk_part i) b) (32 * k + 4) = i_size i"
    "le32 (put_d_inode k (disk_part i) b) (32 * k + 8) = i_mtime i"
    by (simp_all add: put_d_inode_bytes le32_def disk_part_def u32_bytes)
  moreover have "put_d_inode k (disk_part i) b (32 * k + 12) = i_gid i" "put_d_inode k (disk_part i) b (32 * k + 13) = i_nlinks i"
    by (simp_all add: put_d_inode_bytes disk_part_def)
  ultimately show ?thesis using z by (simp add: d_inode_at_def) (simp add: disk_part_def fun_eq_iff)
qed

lemma inode_slot_less: "inode_slot num < 32"
  unfolding inode_slot_def using word_mod_less_divisor [of 32 "ucast num - 1 :: u32"] by (simp add: word_less_nat_alt)

text \<open>Two numbers of i-nodes have two places.\<close>

lemma inode_place_inj:
  assumes "inode_block sb a = inode_block sb b" "inode_slot a = inode_slot b"
  shows "a = b"
proof -
  have "(ucast a - 1 :: u32) div 32 = (ucast b - 1) div 32" using assms(1) by (simp add: inode_block_def)
  moreover have "(ucast a - 1 :: u32) mod 32 = (ucast b - 1) mod 32" using assms(2) unfolding inode_slot_def by (rule word_unat_eq_iff [THEN iffD2])
  ultimately have "(ucast a - 1 :: u32) = ucast b - 1" by (metis div_mult_mod_eq)
  then have "(ucast a :: u32) = ucast b" by simp
  then show ?thesis by (simp only: ucast_u16_inject)
qed

text \<open>The blocks after the i-nodes of the list have been stored.\<close>

definition inodes_stored :: "super_block \<Rightarrow> (nat \<Rightarrow> m_inode) \<Rightarrow> nat list \<Rightarrow> (u32 \<Rightarrow> block) \<Rightarrow> u32 \<Rightarrow> block" where
  "inodes_stored sb ips ns C =
     fold (\<lambda>n C. C(inode_block sb (i_num (ips n)) :=
       put_d_inode (inode_slot (i_num (ips n))) (disk_part (ips n)) (C (inode_block sb (i_num (ips n)))))) ns C"

lemma inodes_stored_Cons:
  "inodes_stored sb ips (n # ns) C = inodes_stored sb ips ns (C(inode_block sb (i_num (ips n)) :=
     put_d_inode (inode_slot (i_num (ips n))) (disk_part (ips n)) (C (inode_block sb (i_num (ips n))))))"
  by (simp add: inodes_stored_def)

lemma inodes_stored_out:
  "(\<And>n. n \<in> set ns \<Longrightarrow> inode_block sb (i_num (ips n)) = m \<Longrightarrow> j div 32 \<noteq> inode_slot (i_num (ips n))) \<Longrightarrow>
   inodes_stored sb ips ns C m j = C m j"
proof (induction ns arbitrary: C)
  case (Cons n ns)
  have "put_d_inode k d b j = b j" if "j div 32 \<noteq> k" for k d b
  proof (rule put_d_inode_out)
    show "j < 32 * k \<or> 32 * k + 32 \<le> j" using that by (cases "j < 32 * k") (auto simp: not_less dest: le_neq_implies_less)
  qed
  then have "(C(inode_block sb (i_num (ips n)) :=
     put_d_inode (inode_slot (i_num (ips n))) (disk_part (ips n)) (C (inode_block sb (i_num (ips n)))))) m j = C m j"
    using Cons.prems [of n] by auto
  then show ?case using Cons by (simp add: inodes_stored_Cons)
qed (simp add: inodes_stored_def)

lemma inodes_stored_in:
  "distinct (map (i_num \<circ> ips) ns) \<Longrightarrow> n \<in> set ns \<Longrightarrow>
   d_inode_at (inodes_stored sb ips ns C (inode_block sb (i_num (ips n)))) (inode_slot (i_num (ips n))) = disk_part (ips n)"
proof (induction ns arbitrary: C)
  case (Cons x ns)
  show ?case
  proof (cases "x = n")
    case True
    let ?b = "inode_block sb (i_num (ips n))" and ?k = "inode_slot (i_num (ips n))"
    let ?C = "C(?b := put_d_inode ?k (disk_part (ips n)) (C ?b))"
    have "inodes_stored sb ips ns ?C ?b j = ?C ?b j" if "32 * ?k \<le> j" "j < 32 * ?k + 32" for j
    proof (rule inodes_stored_out)
      fix l assume l: "l \<in> set ns" "inode_block sb (i_num (ips l)) = ?b"
      have "i_num (ips l) \<noteq> i_num (ips n)" using Cons.prems(1) imageI [OF l(1), of "i_num \<circ> ips"] True by auto
      then have "inode_slot (i_num (ips l)) \<noteq> ?k" using l(2) inode_place_inj by blast
      moreover have "j div 32 = ?k" using that by (simp add: div_nat_eqI)
      ultimately show "j div 32 \<noteq> inode_slot (i_num (ips l))" by simp
    qed
    then have "d_inode_at (inodes_stored sb ips ns ?C ?b) ?k = d_inode_at (?C ?b) ?k" by (rule d_inode_at_cong)
    then show ?thesis using True by (simp add: inodes_stored_Cons d_inode_roundtrip)
  next
    case False
    then show ?thesis using Cons by (simp add: inodes_stored_Cons)
  qed
qed simp

section \<open>Writing back through the cache\<close>

text \<open>An i-node \<open>sync_inodes\<close> writes.\<close>

definition to_write :: "m_inode \<Rightarrow> bool" where
  "to_write i \<longleftrightarrow> i_dirt i \<and> \<not> i_pipe i"

lemma unlock_inode_simps:
  "only_fs s (unlock_inode n s)" "super_block (unlock_inode n s) = super_block s"
  "j \<noteq> n \<Longrightarrow> inode_table (unlock_inode n s) j = inode_table s j"
  "i_dirt (inode_table (unlock_inode n s) n) = i_dirt (inode_table s n)"
  by (simp_all add: unlock_inode_def wake_inode_def only_fs_def devices_def upd_inode_def Let_def split_beta)

lemma bufs_valid_only_fs: "only_fs s s' \<Longrightarrow> bufs_valid dev v s' = bufs_valid dev v s"
  by (simp add: only_fs_def bufs_valid_def)

lemma disk_part_lock: "disk_part (i\<lparr>i_lock := l\<rparr>) = disk_part i"
  by (simp add: disk_part_def cong: if_cong)

context block_device
begin

lemma write_inode_view:
  assumes v: "view dev blocks valid quiet C v (Suc k) s" and fuel: "e_fuel e = Suc f"
    and ip: "\<not> i_lock (inode_table s n)" "i_dirt (inode_table s n)" "i_dev (inode_table s n) = dev"
    and sup: "find (\<lambda>m. s_dev (super_block s m) = dev) [0..<NR_SUPER] = Some m" "\<not> s_lock (super_block s m)"
    and nr: "v (inode_block (super_block s m) (i_num (inode_table s n)))"
  shows "\<exists>s'. write_inode e n s = Inr s' \<and>
    view dev blocks valid quiet (inodes_stored (super_block s m) (inode_table s) [n] C) v k s' \<and>
    (bufs_valid dev v s \<longrightarrow> bufs_valid dev v s') \<and> super_block s' = super_block s \<and>
    (\<forall>j. j \<noteq> n \<longrightarrow> inode_table s' j = inode_table s j) \<and> \<not> i_dirt (inode_table s' n)"
proof -
  let ?ip = "inode_table s n"
  let ?nr = "inode_block (super_block s m) (i_num ?ip)" and ?g = "put_d_inode (inode_slot (i_num ?ip)) (disk_part ?ip)"
  define s1 where "s1 = upd_inode n (\<lambda>i. i\<lparr>i_lock := True\<rparr>) s"
  have o1: "only_fs s s1" by (simp add: s1_def)
  have v1: "view dev blocks valid quiet C v (Suc k) s1" by (rule view_only_fs [OF v o1])
  have ip1: "inode_table s1 n = ?ip\<lparr>i_lock := True\<rparr>" "super_block s1 = super_block s" "\<And>j. j \<noteq> n \<Longrightarrow> inode_table s1 j = inode_table s j"
    by (simp_all add: s1_def)
  have l: "lock_inode e n s = s1" using ip(1) by (simp add: lock_inode_def wait_on_inode_def s1_def)
  have sd: "s_dev (super_block s m) = dev" using sup(1) by (simp add: find_upt_Some)
  have gs: "get_super e dev s1 = Inr (Some m, s1)"
    using sup sd dev_nonzero fuel by (simp add: get_super_def wait_on_super_def ip1)
  obtain b s2 where b: "bread (e_fuel e) e dev ?nr s1 = Inr (Some b, s2)" "fs_part s2 = fs_part s1"
    "\<forall>s3. only_fs (upd_bh b (\<lambda>h. h\<lparr>b_data := ?g (b_data h), b_dirt := True\<rparr>) s2) s3 \<longrightarrow>
       (\<exists>s4. brelse e (Some b) s3 = Inr s4 \<and> fs_part s4 = fs_part s3 \<and> view dev blocks valid quiet (C(?nr := ?g (C ?nr))) v k s4 \<and>
          (bufs_valid dev v s1 \<longrightarrow> bufs_valid dev v s4))"
    using change_view [where g = ?g, OF v1 nr fuel put_d_inode_same] by blast
  note f2 = fs_partD [OF b(2)]
  define st where "st = upd_bh b (\<lambda>h. h\<lparr>b_data := ?g (b_data h), b_dirt := True\<rparr>) s2"
  define s3 where "s3 = upd_inode n (\<lambda>i. i\<lparr>i_dirt := False\<rparr>) st"
  have "only_fs st s3" by (simp add: s3_def)
  then obtain s4 where s4: "brelse e (Some b) s3 = Inr s4" "fs_part s4 = fs_part s3"
    "view dev blocks valid quiet (C(?nr := ?g (C ?nr))) v k s4" "bufs_valid dev v s1 \<Longrightarrow> bufs_valid dev v s4"
    using b(3) unfolding st_def by blast
  note f4 = fs_partD [OF s4(2)]
  have i3: "inode_table s3 j = (if j = n then ?ip\<lparr>i_lock := True, i_dirt := False\<rparr> else inode_table s j)"
    "super_block s3 = super_block s" for j
    using f2 ip1 by (simp_all add: s3_def st_def upd_bh_def)
  have "write_inode e n s = Inr (unlock_inode n s4)"
    using ip l gs b(1) s4(1) f2 ip1 dev_nonzero
    by (simp add: write_inode_def disk_part_lock s3_def [symmetric] st_def [symmetric])
  moreover have "view dev blocks valid quiet (inodes_stored (super_block s m) (inode_table s) [n] C) v k (unlock_inode n s4)"
    using view_only_fs [OF s4(3) unlock_inode_simps(1)] by (simp add: inodes_stored_def)
  moreover have "bufs_valid dev v s \<longrightarrow> bufs_valid dev v (unlock_inode n s4)"
    using s4(4) bufs_valid_only_fs [OF o1] bufs_valid_only_fs [OF unlock_inode_simps(1)] by simp
  ultimately show ?thesis using i3 f4 by (auto simp: unlock_inode_simps)
qed

text \<open>The loop of \<open>sync_inodes\<close>; \<open>ns\<close> are the i-nodes still to be looked at.\<close>

lemma sync_inodes_loop:
  assumes fuel: "e_fuel e = Suc f"
  shows "view dev blocks valid quiet C v (length (filter (\<lambda>n. to_write (inode_table s n)) ns) + k) s \<Longrightarrow> bufs_valid dev v s \<Longrightarrow>
    find (\<lambda>m. s_dev (super_block s m) = dev) [0..<NR_SUPER] = Some m \<Longrightarrow> \<not> s_lock (super_block s m) \<Longrightarrow> distinct ns \<Longrightarrow>
    (\<And>n. n \<in> set ns \<Longrightarrow> \<not> i_lock (inode_table s n)) \<Longrightarrow>
    (\<And>n. n \<in> set ns \<Longrightarrow> to_write (inode_table s n) \<Longrightarrow>
       i_dev (inode_table s n) = dev \<and> v (inode_block (super_block s m) (i_num (inode_table s n)))) \<Longrightarrow>
    \<exists>s'. foldE (\<lambda>n s.
       let s = wait_on_inode e n s
       in if i_dirt (inode_table s n) \<and> \<not> i_pipe (inode_table s n) then write_inode e n s else Inr s) ns s = Inr s' \<and>
      view dev blocks valid quiet (inodes_stored (super_block s m) (inode_table s)
        (filter (\<lambda>n. to_write (inode_table s n)) ns) C) v k s' \<and>
      bufs_valid dev v s' \<and> (\<forall>n. n \<notin> set ns \<longrightarrow> inode_table s' n = inode_table s n) \<and>
      (\<forall>n \<in> set ns. \<not> to_write (inode_table s' n))"
proof (induction ns arbitrary: s C)
  case Nil
  then show ?case by (simp add: inodes_stored_def)
next
  case (Cons x ns)
  let ?f = "\<lambda>n s. let s = wait_on_inode e n s
       in if i_dirt (inode_table s n) \<and> \<not> i_pipe (inode_table s n) then write_inode e n s else Inr s"
  let ?w = "\<lambda>n. to_write (inode_table s n)"
  have x: "\<not> i_lock (inode_table s x)" "x \<notin> set ns" using Cons.prems(5,6) by simp_all
  have wait: "wait_on_inode e x s = s" using x(1) by (simp add: wait_on_inode_def)
  show ?case
  proof (cases "?w x")
    case False
    then have "foldE ?f (x # ns) s = foldE ?f ns s" by (auto simp: wait to_write_def)
    moreover obtain s' where "foldE ?f ns s = Inr s'"
      "view dev blocks valid quiet (inodes_stored (super_block s m) (inode_table s) (filter ?w ns) C) v k s'"
      "bufs_valid dev v s'" "\<forall>n. n \<notin> set ns \<longrightarrow> inode_table s' n = inode_table s n" "\<forall>n \<in> set ns. \<not> to_write (inode_table s' n)"
      using Cons.IH [of C s] Cons.prems False by auto
    ultimately show ?thesis using False x(2) by (intro exI [of _ s']) auto
  next
    case True
    have v: "view dev blocks valid quiet C v (Suc (length (filter ?w ns) + k)) s" using Cons.prems(1) True by simp
    have d: "i_dirt (inode_table s x)" "i_dev (inode_table s x) = dev" "v (inode_block (super_block s m) (i_num (inode_table s x)))"
      using Cons.prems(7) [of x] True by (simp_all add: to_write_def)
    obtain s1 where s1: "write_inode e x s = Inr s1"
      "view dev blocks valid quiet (inodes_stored (super_block s m) (inode_table s) [x] C) v (length (filter ?w ns) + k) s1"
      "bufs_valid dev v s1" "super_block s1 = super_block s" "\<And>j. j \<noteq> x \<Longrightarrow> inode_table s1 j = inode_table s j"
      "\<not> i_dirt (inode_table s1 x)"
      using write_inode_view [OF v fuel x(1) d(1,2) Cons.prems(3,4) d(3)] Cons.prems(2) by blast
    have same: "inode_table s1 n = inode_table s n" if "n \<in> set ns" for n using s1(5) x(2) that by metis
    have fl: "filter (\<lambda>n. to_write (inode_table s1 n)) ns = filter ?w ns" by (rule filter_cong) (simp_all add: same)
    have st: "inodes_stored (super_block s m) (inode_table s1) (filter ?w ns) C' =
        inodes_stored (super_block s m) (inode_table s) (filter ?w ns) C'" for C'
      unfolding inodes_stored_def by (rule fold_cong) (auto simp: same)
    obtain s2 where s2: "foldE ?f ns s1 = Inr s2"
      "view dev blocks valid quiet (inodes_stored (super_block s m) (inode_table s) (filter ?w ns)
         (inodes_stored (super_block s m) (inode_table s) [x] C)) v k s2"
      "bufs_valid dev v s2" "\<forall>n. n \<notin> set ns \<longrightarrow> inode_table s2 n = inode_table s1 n" "\<forall>n \<in> set ns. \<not> to_write (inode_table s2 n)"
      using Cons.IH [of "inodes_stored (super_block s m) (inode_table s) [x] C" s1] s1(2-4) Cons.prems(3-7) same
      unfolding fl s1(4) st by auto
    have "foldE ?f (x # ns) s = Inr s2" using s1(1) s2(1) True by (simp add: wait to_write_def)
    moreover have "\<not> to_write (inode_table s2 x)" using s2(4) x(2) s1(6) by (simp add: to_write_def)
    ultimately show ?thesis using s2 True s1(5) by (intro exI [of _ s2]) (auto simp: inodes_stored_def)
  qed
qed

end

section \<open>Writing back the RAM disk\<close>

lemma fs_env_rd: "\<exists>e1. fs_env d (rd_env e0 sl fd hdd) = rd_env e1 sl fd hdd \<and> e_fuel e1 = e_fuel e0"
proof (cases d)
  case 0
  then show ?thesis by (intro exI [of _ "e0\<lparr>e_sync_inodes := (\<lambda>s. Inl Hang)\<rparr>"]) (simp add: rd_env_def)
next
  case (Suc n)
  then show ?thesis
    by (intro exI [of _ "e0\<lparr>e_sync_inodes := sync_inodes (fs_env n (rd_env e0 sl fd hdd))\<rparr>"]) (simp add: rd_env_def)
qed

lemma length_filter_upt: "length (filter P [0..<n]) = card {i. i < n \<and> P i}"
proof -
  have "length (filter P [0..<n]) = card (set (filter P [0..<n]))" by (rule distinct_card [symmetric]) simp
  then show ?thesis by (simp add: atLeast0LessThan lessThan_def Collect_conj_eq Int_commute)
qed

text \<open>
  C23: Writing back the RAM disk: \<open>sync_dev\<close> writes the dirty buffers, stores the dirty i-nodes in
  their blocks with \<open>sync_inodes\<close>, and writes the buffers again.  It returns with every buffer of the
  disk clean and no i-node left to write (those of pipes are never written); on the disk itself the
  entry of each dirty i-node is the i-node, and every byte outside these entries is what a reader
  of the cache saw before.  Nothing is locked, the dirty i-nodes are of this disk and have
  different numbers, and there is a free buffer for each.
\<close>

theorem sync_dev_ramdisk:
  assumes ok: "cache_ok 0x101 rd_block rd_quiet s fl" and bv: "bufs_valid 0x101 (rd_valid s) s"
    and cnt: "\<forall>i < NR_BUFFERS s. b_count (bhs s i) \<noteq> 255" and fuel: "e_fuel e0 = Suc fu"
    and sup: "find (\<lambda>m. s_dev (super_block s m) = 0x101) [0..<NR_SUPER] = Some m" "\<not> s_lock (super_block s m)"
    and lock: "\<And>n. n < NR_INODE \<Longrightarrow> \<not> i_lock (inode_table s n)"
    and w: "\<And>n. n < NR_INODE \<Longrightarrow> to_write (inode_table s n) \<Longrightarrow> i_dev (inode_table s n) = 0x101 \<and>
      rd_valid s (inode_block (super_block s m) (i_num (inode_table s n)))"
    and inj: "inj_on (\<lambda>n. i_num (inode_table s n)) {n. n < NR_INODE \<and> to_write (inode_table s n)}"
    and room: "card {n. n < NR_INODE \<and> to_write (inode_table s n)} \<le> card (idle_bufs s)"
  shows "\<exists>s' fl'. sync_dev (fs_env (Suc d) (rd_env e0 sl fd hdd)) 0x101 s = Inr s' \<and> cache_ok 0x101 rd_block rd_quiet s' fl' \<and>
    (\<forall>i < NR_BUFFERS s'. b_dev (bhs s' i) = 0x101 \<longrightarrow> \<not> b_dirt (bhs s' i)) \<and>
    (\<forall>n < NR_INODE. \<not> to_write (inode_table s' n)) \<and>
    (\<forall>n < NR_INODE. to_write (inode_table s n) \<longrightarrow>
       d_inode_at (rd_block s' (inode_block (super_block s m) (i_num (inode_table s n)))) (inode_slot (i_num (inode_table s n))) =
       disk_part (inode_table s n)) \<and>
    (\<forall>nr k. rd_valid s nr \<longrightarrow> k < BLOCK_SIZE \<longrightarrow>
       (\<forall>n < NR_INODE. to_write (inode_table s n) \<longrightarrow> inode_block (super_block s m) (i_num (inode_table s n)) = nr \<longrightarrow>
          k div 32 \<noteq> inode_slot (i_num (inode_table s n))) \<longrightarrow>
       rd_block s' nr k = content 0x101 rd_block s nr k)"
proof -
  let ?e = "fs_env (Suc d) (rd_env e0 sl fd hdd)" and ?ns = "filter (\<lambda>n. to_write (inode_table s n)) [0..<NR_INODE]"
  obtain e1 where e1: "?e = rd_env e1 sl fd hdd" using fs_env_rd by blast
  obtain e2 where e2: "fs_env d (rd_env e0 sl fd hdd) = rd_env e2 sl fd hdd" "e_fuel e2 = Suc fu" using fs_env_rd fuel by metis
  obtain s1 where s1: "sync_buffers ?e 0x101 s = Inr s1" "synced 0x101 rd_block rd_valid rd_quiet fl s s1"
    "\<And>j. b_dirt (bhs s1 j) \<Longrightarrow> b_dirt (bhs s j)"
    using rd.sync_buffers_content [OF ok, of e1 sl fd hdd] bv unfolding e1 bufs_valid_def by blast
  have t1: "cache_ok 0x101 rd_block rd_quiet s1 fl" "NR_BUFFERS s1 = NR_BUFFERS s" "rd_valid s1 = rd_valid s" "fs_part s1 = fs_part s"
    "\<And>i. b_dev (bhs s1 i) = b_dev (bhs s i) \<and> b_blocknr (bhs s1 i) = b_blocknr (bhs s i) \<and> b_count (bhs s1 i) = b_count (bhs s i)"
    "\<And>nr. rd_valid s nr \<Longrightarrow> same_block (content 0x101 rd_block s1 nr) (content 0x101 rd_block s nr)"
    using s1(2) by (simp_all add: synced_def)
  note f1 = fs_partD [OF t1(4)]
  have "idle s1 i" if "i < NR_BUFFERS s" "idle s i" for i
    using that s1(3) [of i] t1(1,2,5) by (auto simp: idle_def unused_def cache_ok_def coherent_def)
  then have "idle_bufs s \<subseteq> idle_bufs s1" using t1(2) by (auto simp: idle_bufs_def)
  then have "card (idle_bufs s) \<le> card (idle_bufs s1)" by (rule card_mono [rotated]) simp
  then have "length ?ns + 0 \<le> card (idle_bufs s1)" using room by (simp only: length_filter_upt add_0_right)
  then have v1: "view 0x101 rd_block rd_valid rd_quiet (content 0x101 rd_block s1) (rd_valid s) (length ?ns + 0) s1"
    using rd_view [OF t1(1)] cnt t1(2,3,5) by simp
  have bv1: "bufs_valid 0x101 (rd_valid s) s1" using bv t1(2,5) by (simp add: bufs_valid_def)
  define C' where "C' = inodes_stored (super_block s m) (inode_table s) ?ns (content 0x101 rd_block s1)"
  have fu2: "e_fuel (rd_env e2 sl fd hdd) = Suc fu" using e2(2) by (simp add: rd_env_def)
  have lw: "n \<in> set [0..<NR_INODE] \<Longrightarrow> \<not> i_lock (inode_table s n)"
    "n \<in> set [0..<NR_INODE] \<Longrightarrow> to_write (inode_table s n) \<Longrightarrow> i_dev (inode_table s n) = 0x101 \<and>
       rd_valid s (inode_block (super_block s m) (i_num (inode_table s n)))" for n
    using lock w by (simp_all del: upt_rec_numeral)
  obtain s2 where s2: "sync_inodes (rd_env e2 sl fd hdd) s1 = Inr s2"
    "view 0x101 rd_block rd_valid rd_quiet C' (rd_valid s) 0 s2" "bufs_valid 0x101 (rd_valid s) s2"
    "\<forall>n \<in> set [0..<NR_INODE]. \<not> to_write (inode_table s2 n)"
    using rd.sync_inodes_loop [where s = s1 and ns = "[0..<NR_INODE]" and k = 0 and m = m, OF fu2, unfolded f1(1,3),
        OF v1 bv1 sup distinct_upt lw] unfolding sync_inodes_def C'_def by blast
  obtain fl2 where t2: "cache_ok 0x101 rd_block rd_quiet s2 fl2" "rd_valid s2 = rd_valid s"
    "\<And>nr. same_block (content 0x101 rd_block s2 nr) (C' nr)" using s2(2) by (auto simp: view_def)
  obtain s3 where s3: "sync_buffers ?e 0x101 s2 = Inr s3" "synced 0x101 rd_block rd_valid rd_quiet fl2 s2 s3"
    "\<forall>i < NR_BUFFERS s2. b_dev (bhs s2 i) = 0x101 \<longrightarrow> \<not> b_dirt (bhs s3 i)"
    using rd.sync_buffers_content [OF t2(1), of e1 sl fd hdd] s2(3) unfolding e1 bufs_valid_def t2(2) by blast
  have t3: "cache_ok 0x101 rd_block rd_quiet s3 fl2" "NR_BUFFERS s3 = NR_BUFFERS s2" "inode_table s3 = inode_table s2"
    "\<And>i. b_dev (bhs s3 i) = b_dev (bhs s2 i)"
    using s3(2) fs_partD(1) [of s3 s2] by (simp_all add: synced_def)
  have disk: "same_block (rd_block s3 nr) (C' nr)" if "rd_valid s nr" for nr
    using rd.synced_device [OF s3(2) _ s3(3)] that t2(2,3) same_block_trans by metis
  have "d_inode_at (rd_block s3 (inode_block (super_block s m) (i_num (inode_table s n)))) (inode_slot (i_num (inode_table s n))) =
      disk_part (inode_table s n)" if n: "n < NR_INODE" "to_write (inode_table s n)" for n
  proof -
    let ?b = "inode_block (super_block s m) (i_num (inode_table s n))" and ?k = "inode_slot (i_num (inode_table s n))"
    have "rd_block s3 ?b j = C' ?b j" if "32 * ?k \<le> j" "j < 32 * ?k + 32" for j
      using disk [of ?b] w [OF n] that inode_slot_less [of "i_num (inode_table s n)"] by (simp add: same_block_def)
    then have "d_inode_at (rd_block s3 ?b) ?k = d_inode_at (C' ?b) ?k" by (rule d_inode_at_cong)
    moreover have "distinct (map (i_num \<circ> inode_table s) ?ns)"
      using inj by (auto simp: distinct_map inj_on_def simp del: upt_rec_numeral)
    moreover have "n \<in> set ?ns" using n by (simp del: upt_rec_numeral)
    ultimately show ?thesis using inodes_stored_in [of "inode_table s" ?ns n] unfolding C'_def by metis
  qed
  moreover have "rd_block s3 nr k = content 0x101 rd_block s nr k"
    if "rd_valid s nr" "k < BLOCK_SIZE" "\<forall>n < NR_INODE. to_write (inode_table s n) \<longrightarrow>
      inode_block (super_block s m) (i_num (inode_table s n)) = nr \<longrightarrow> k div 32 \<noteq> inode_slot (i_num (inode_table s n))" for nr k
  proof -
    have "C' nr k = content 0x101 rd_block s1 nr k"
      unfolding C'_def by (rule inodes_stored_out) (use that(3) in \<open>simp del: upt_rec_numeral\<close>)
    then show ?thesis using disk [OF that(1)] t1(6) [OF that(1)] that(2) by (simp add: same_block_def)
  qed
  moreover have "sync_dev ?e 0x101 s = Inr s3"
    using s1(1) s2(1) s3(1) by (simp add: sync_dev_def e2(1) del: fs_env.simps) (simp add: e2(1))
  ultimately show ?thesis using t3 s3(3) s2(4)
    by (intro exI [of _ s3] exI [of _ fl2]) (simp del: fs_env.simps upt_rec_numeral)
qed

text \<open>The disk of four blocks with one dirty i-node, the first of block 2, of a file of 77 bytes.\<close>

definition demo_sync :: bufw where
  "demo_sync = demo_rd\<lparr>
     inode_table := (\<lambda>n. if n = 0 then zero_inode\<lparr>i_dev := 0x101, i_num := 1, i_size := 77, i_dirt := True\<rparr> else zero_inode),
     super_block := (\<lambda>n. (super_block demo_rd n)\<lparr>s_dev := 0x101, s_lock := False, s_imap_blocks := 0, s_zmap_blocks := 0\<rparr>)\<rparr>"

lemma demo_sync_simps:
  "inode_table demo_sync n = (if n = 0 then zero_inode\<lparr>i_dev := 0x101, i_num := 1, i_size := 77, i_dirt := True\<rparr> else zero_inode)"
  "s_dev (super_block demo_sync n) = 0x101" "\<not> s_lock (super_block demo_sync n)"
  "inode_block (super_block demo_sync n) 1 = 2" "inode_slot 1 = 0" "to_write (inode_table demo_sync n) \<longleftrightarrow> n = 0"
  by (simp_all add: demo_sync_def inode_block_def inode_slot_def to_write_def zero_inode_def)

theorem sync_dev_ramdisk_witness:
  "\<exists>s'. sync_dev (fs_env 1 demo_rd_env) 0x101 demo_sync = Inr s' \<and> d_size (d_inode_at (rd_block s' 2) 0) = 77"
proof -
  have o1: "only_fs demo_rd demo_sync" by (simp add: only_fs_def demo_sync_def devices_def)
  have n: "NR_BUFFERS demo_sync = 3" "bhs demo_sync = bhs demo_rd" using demo_rd_ok(3) by (simp_all add: demo_sync_def)
  note ok = rd.cache_ok_only_fs [OF demo_rd_ok(1) o1]
  have idle: "idle demo_sync i" if "i < 3" for i using demo_rd_ok(2) [OF that] n by (simp add: idle_def unused_def)
  then have ib: "idle_bufs demo_sync = {..<3}" using n(1) by (auto simp: idle_bufs_def)
  have bv: "bufs_valid 0x101 (rd_valid demo_sync) demo_sync" using n demo_rd_ok(4) by (simp add: bufs_valid_def)
  have cnt: "\<forall>i < NR_BUFFERS demo_sync. b_count (bhs demo_sync i) \<noteq> 255" using idle n by (auto simp: idle_def unused_def)
  have sup: "find (\<lambda>m. s_dev (super_block demo_sync m) = 0x101) [0..<NR_SUPER] = Some 0"
    by (simp add: find_upt_Some demo_sync_simps del: upt_rec_numeral)
  have ws: "{n. n < NR_INODE \<and> to_write (inode_table demo_sync n)} = {0}" unfolding demo_sync_simps(6) by auto
  have v2: "rd_valid demo_sync 2" using ok(3) demo_rd_ok(5) by simp
  have w: "i_dev (inode_table demo_sync n) = 0x101 \<and>
      rd_valid demo_sync (inode_block (super_block demo_sync 0) (i_num (inode_table demo_sync n)))"
    if "n < NR_INODE" "to_write (inode_table demo_sync n)" for n
  proof -
    have "n = 0" using that(2) unfolding demo_sync_simps(6) .
    then show ?thesis using v2 by (simp add: demo_sync_simps)
  qed
  have "inj_on (\<lambda>n. i_num (inode_table demo_sync n)) {n. n < NR_INODE \<and> to_write (inode_table demo_sync n)}"
    "card {n. n < NR_INODE \<and> to_write (inode_table demo_sync n)} \<le> card (idle_bufs demo_sync)"
    unfolding ws ib by simp_all
  note sync = sync_dev_ramdisk [where d = 0, OF ok(1) bv cnt demo_fuel sup demo_sync_simps(3) _ w this, folded One_nat_def]
  have lock: "\<not> i_lock (inode_table demo_sync n)" for n by (simp add: demo_sync_simps zero_inode_def)
  obtain s' where s': "sync_dev (fs_env 1 (rd_env demo_env (\<lambda>s. s) Inr Inr)) 0x101 demo_sync = Inr s'"
    "\<And>n. n < NR_INODE \<Longrightarrow> to_write (inode_table demo_sync n) \<Longrightarrow>
       d_inode_at (rd_block s' (inode_block (super_block demo_sync 0) (i_num (inode_table demo_sync n))))
         (inode_slot (i_num (inode_table demo_sync n))) = disk_part (inode_table demo_sync n)"
    using sync [OF lock] by blast
  have "d_inode_at (rd_block s' 2) 0 = disk_part (inode_table demo_sync 0)"
    using s'(2) [of 0] unfolding demo_sync_simps(6) by (simp add: demo_sync_simps(1,4,5))
  then show ?thesis using s'(1) by (intro exI [of _ s']) (simp add: demo_rd_env_def disk_part_def demo_sync_simps(1))
qed

end
