(* ===== verification/Super.thy ===== *)
theory Super
  imports Inode
begin

text \<open>
  The table of super blocks, \<open>fs/super.c\<close>: reading the super block of a device with its bitmaps
  and giving it back.  \<open>get_super\<close> and the locks are in \<open>Bitmap\<close>, mounting in \<open>Mount\<close>.
\<close>

definition put_super :: "benv \<Rightarrow> u16 \<Rightarrow> bufw \<Rightarrow> bufw kres" where
  "put_super e dev s =
     (if dev = ROOT_DEV s then Inr s
      else bindE (get_super e dev s) (\<lambda>(sb, s).
        case sb of
          None \<Rightarrow> Inr s
        | Some n \<Rightarrow>
            if s_imount (super_block s n) \<noteq> None then Inr s
            else
              let s = upd_super n (\<lambda>b. b\<lparr>s_dev := 0\<rparr>) (lock_super e n s)
              in bindE (foldE (\<lambda>i s. brelse e (s_imap (super_block s n) i) s) [0..<8] s) (\<lambda>s.
                 bindE (foldE (\<lambda>i s. brelse e (s_zmap (super_block s n) i) s) [0..<8] s) (\<lambda>s.
                   Inr (free_super n s)))))"

definition disk_change :: "benv \<Rightarrow> u16 \<Rightarrow> bufw \<Rightarrow> bufw kres" where
  "disk_change e = check_disk_change e (put_super e) (invalidate_inodes e)"

text \<open>The fields of \<open>struct d_super_block\<close>, copied from the first bytes of the block.\<close>

definition set_d_super :: "block \<Rightarrow> super_block \<Rightarrow> super_block" where
  "set_d_super b sb =
     sb\<lparr>s_ninodes := le16 b 0, s_nzones := le16 b 2, s_imap_blocks := le16 b 4, s_zmap_blocks := le16 b 6,
        s_firstdatazone := le16 b 8, s_log_zone_size := le16 b 10, s_max_size := le32 b 12, s_magic := le16 b 16\<rparr>"

definition set_imap :: "nat \<Rightarrow> nat option \<Rightarrow> super_block \<Rightarrow> super_block" where
  "set_imap i v sb = sb\<lparr>s_imap := (s_imap sb)(i := v)\<rparr>"

definition set_zmap :: "nat \<Rightarrow> nat option \<Rightarrow> super_block \<Rightarrow> super_block" where
  "set_zmap i v sb = sb\<lparr>s_zmap := (s_zmap sb)(i := v)\<rparr>"

text \<open>
  One of the two loops that read the bitmaps; the array of a map has eight entries, whatever the
  number of blocks on the disk.
\<close>

primrec read_maps ::
  "(nat \<Rightarrow> nat option \<Rightarrow> super_block \<Rightarrow> super_block) \<Rightarrow> benv \<Rightarrow> u16 \<Rightarrow> nat \<Rightarrow> nat list \<Rightarrow> u32 \<Rightarrow> bufw \<Rightarrow> (u32 \<times> bufw) kres" where
  "read_maps st e dev n [] block s = Inr (block, s)"
| "read_maps st e dev n (i # is) block s =
     (if 8 \<le> i then Inl Fault
      else bindE (bread (e_fuel e) e dev block s) (\<lambda>(r, s).
        let s = upd_super n (st i r) s
        in case r of None \<Rightarrow> Inr (block, s) | Some _ \<Rightarrow> read_maps st e dev n is (block + 1) s))"

definition or_first_bit :: "nat option \<Rightarrow> bufw \<Rightarrow> bufw kres" where
  "or_first_bit bh s =
     (case bh of
        None \<Rightarrow> Inl Fault
      | Some i \<Rightarrow> Inr (upd_bh i (\<lambda>b. b\<lparr>b_data := (b_data b)(0 := b_data b 0 OR 1)\<rparr>) s))"

definition read_super :: "benv \<Rightarrow> u16 \<Rightarrow> bufw \<Rightarrow> (nat option \<times> bufw) kres" where
  "read_super e dev s =
     (if dev = 0 then Inr (None, s)
      else bindE (disk_change e dev s) (\<lambda>s.
      bindE (get_super e dev s) (\<lambda>(sb, s).
        case sb of
          Some n \<Rightarrow> Inr (Some n, s)
        | None \<Rightarrow>
            (case find (\<lambda>n. s_dev (super_block s n) = 0) [0..<NR_SUPER] of
               None \<Rightarrow> Inr (None, s)
             | Some n \<Rightarrow>
                 let give_up = (\<lambda>s. Inr (None, free_super n (upd_super n (\<lambda>b. b\<lparr>s_dev := 0\<rparr>) s)));
                     s = upd_super n (\<lambda>b. b\<lparr>s_dev := dev, s_isup := None, s_imount := None, s_time := 0,
                                            s_rd_only := False, s_dirt := False\<rparr>) s;
                     s = lock_super e n s
                 in bindE (bread (e_fuel e) e dev 1 s) (\<lambda>(r, s).
                      case r of
                        None \<Rightarrow> give_up s
                      | Some i \<Rightarrow>
                          let s = upd_super n (set_d_super (b_data (bhs s i))) s
                          in bindE (brelse e (Some i) s) (\<lambda>s.
                               if s_magic (super_block s n) \<noteq> 0x137F then give_up s
                               else
                                 let s = upd_super n (\<lambda>b. b\<lparr>s_imap := (\<lambda>_. None), s_zmap := (\<lambda>_. None)\<rparr>) s
                                 in bindE (read_maps set_imap e dev n [0..<unat (s_imap_blocks (super_block s n))] 2 s) (\<lambda>(block, s).
                                    bindE (read_maps set_zmap e dev n [0..<unat (s_zmap_blocks (super_block s n))] block s) (\<lambda>(block, s).
                                      if block \<noteq> 2 + ucast (s_imap_blocks (super_block s n)) + ucast (s_zmap_blocks (super_block s n))
                                      then
                                        bindE (foldE (\<lambda>i s. brelse e (s_imap (super_block s n) i) s) [0..<8] s) (\<lambda>s.
                                        bindE (foldE (\<lambda>i s. brelse e (s_zmap (super_block s n) i) s) [0..<8] s) give_up)
                                      else
                                        bindE (or_first_bit (s_imap (super_block s n) 0) s) (\<lambda>s.
                                        bindE (or_first_bit (s_zmap (super_block s n) 0) s) (\<lambda>s.
                                          Inr (Some n, free_super n s)))))))))))"

end
