(* ===== verification/Namei.thy ===== *)
theory Namei
  imports Super
begin

text \<open>
  Path names and directories, \<open>fs/namei.c\<close>.  A path name is an address of the user segment; a
  directory entry is a buffer and the number of the entry in its block.  Scans of a path and of a
  directory that grows take fuel.
\<close>

section \<open>Permissions and names\<close>

abbreviation (input) MAY_EXEC :: u32 where "MAY_EXEC \<equiv> 1"
abbreviation (input) MAY_WRITE :: u32 where "MAY_WRITE \<equiv> 2"
abbreviation (input) MAY_READ :: u32 where "MAY_READ \<equiv> 4"
abbreviation (input) NAME_LEN :: nat where "NAME_LEN \<equiv> 14"
abbreviation (input) I_REGULAR :: u16 where "I_REGULAR \<equiv> 0x8000"
abbreviation (input) I_DIRECTORY :: u16 where "I_DIRECTORY \<equiv> 0x4000"
abbreviation (input) O_ACCMODE :: u32 where "O_ACCMODE \<equiv> 3"
abbreviation (input) O_CREAT :: u32 where "O_CREAT \<equiv> 0x40"
abbreviation (input) O_EXCL :: u32 where "O_EXCL \<equiv> 0x80"
abbreviation (input) O_TRUNC :: u32 where "O_TRUNC \<equiv> 0x200"
abbreviation (input) S_ISVTX :: u16 where "S_ISVTX \<equiv> 0x200"

text \<open>The string "\<open>\004\002\006\377\<close>" indexed by the access mode; its last character is \<open>- 1\<close>.\<close>

definition ACC_MODE :: "u32 \<Rightarrow> u32" where
  "ACC_MODE x = [4, 2, 6, - 1] ! unat (x AND O_ACCMODE)"

definition permission :: "bufw \<Rightarrow> nat \<Rightarrow> u32 \<Rightarrow> bool" where
  "permission s n msk =
     (let ip = inode_table s n;
          mode = ucast (i_mode ip) :: u32
      in if i_dev ip \<noteq> 0 \<and> i_nlinks ip = 0 then False
         else
           let mode = (if t_euid (curr s) = i_uid ip then drop_bit 6 mode
                       else if t_egid (curr s) = ucast (i_gid ip) then drop_bit 3 mode else mode)
           in mode AND msk AND 7 = msk \<or> suser s)"

text \<open>The entry \<open>k\<close> of a directory block: i-node number and name.\<close>

definition de_inode :: "block \<Rightarrow> nat \<Rightarrow> u16" where
  "de_inode b k = le16 b (16 * k)"

definition de_name :: "block \<Rightarrow> nat \<Rightarrow> nat \<Rightarrow> u8" where
  "de_name b k j = b (16 * k + 2 + j)"

definition set_de_inode :: "nat \<Rightarrow> nat \<Rightarrow> u16 \<Rightarrow> bufw \<Rightarrow> bufw" where
  "set_de_inode bh k v s = upd_bh bh (\<lambda>b. b\<lparr>b_data := put16 (16 * k) v (b_data b)\<rparr>) s"

definition mark_dirt :: "nat \<Rightarrow> bufw \<Rightarrow> bufw" where
  "mark_dirt bh s = upd_bh bh (\<lambda>b. b\<lparr>b_dirt := True\<rparr>) s"

definition match :: "nat \<Rightarrow> u32 \<Rightarrow> block \<Rightarrow> nat \<Rightarrow> fsmem \<Rightarrow> bool" where
  "match len name b k fs =
     (if de_inode b k = 0 \<or> NAME_LEN < len then False
      else if len < NAME_LEN \<and> de_name b k len \<noteq> 0 then False
      else (\<forall>j < len. get_fs_byte (name + word_of_nat j) fs = de_name b k j))"

section \<open>Directories\<close>

text \<open>
  The loop of \<open>find_entry\<close>: entry \<open>i\<close> of the directory is entry \<open>k\<close> of the block in \<open>bh\<close>, which
  is null after a block of the directory could not be read.
\<close>

primrec find_entry_loop ::
  "nat \<Rightarrow> benv \<Rightarrow> nat \<Rightarrow> nat \<Rightarrow> u32 \<Rightarrow> nat \<Rightarrow> nat \<Rightarrow> nat \<Rightarrow> nat option \<Rightarrow> bufw \<Rightarrow> ((nat \<times> nat) option \<times> bufw) kres" where
  "find_entry_loop 0 e dir namelen name entries i k bh s = Inl Hang"
| "find_entry_loop (Suc f) e dir namelen name entries i k bh s =
     (if \<not> i < entries then bindE (brelse e bh s) (\<lambda>s. Inr (None, s))
      else
        let try = (\<lambda>b k s.
              if match namelen name (b_data (bhs s b)) k (bw_fs s) then Inr (Some (b, k), s)
              else find_entry_loop f e dir namelen name entries (Suc i) (Suc k) (Some b) s)
        in case bh of
             None \<Rightarrow> Inl Fault
           | Some b \<Rightarrow>
               if k < 64 then try b k s
               else bindE (brelse e (Some b) s) (\<lambda>s.
                    bindE (bmap e dir (int (i div 64)) s) (\<lambda>(block, s).
                      if block = 0 then find_entry_loop f e dir namelen name entries (i + 64) k None s
                      else bindE (bread (e_fuel e) e (i_dev (inode_table s dir)) (word_of_int block) s) (\<lambda>(r, s).
                        case r of
                          None \<Rightarrow> find_entry_loop f e dir namelen name entries (i + 64) k None s
                        | Some b \<Rightarrow> try b 0 s))))"

text \<open>The special cases of \<open>..\<close>: the length of the name and the directory to look in.\<close>

definition dot_dot :: "benv \<Rightarrow> nat \<Rightarrow> nat \<Rightarrow> bufw \<Rightarrow> (nat \<times> nat \<times> bufw) kres" where
  "dot_dot e dir namelen s =
     (if t_root (curr s) = Some dir then Inr (1, dir, s)
      else if i_num (inode_table s dir) = ROOT_INO
      then bindE (get_super e (i_dev (inode_table s dir)) s) (\<lambda>(sb, s).
             case sb of
               None \<Rightarrow> Inl Fault
             | Some m \<Rightarrow>
                 (case s_imount (super_block s m) of
                    None \<Rightarrow> Inr (namelen, dir, s)
                  | Some _ \<Rightarrow>
                      bindE (iput e (Some dir) s) (\<lambda>s.
                        case s_imount (super_block s m) of
                          None \<Rightarrow> Inl Fault
                        | Some d \<Rightarrow> Inr (namelen, d, upd_inode d (\<lambda>i. i\<lparr>i_count := i_count i + 1\<rparr>) s))))
      else Inr (namelen, dir, s))"

text \<open>The entry, if found, and the directory, which may have been exchanged.\<close>

definition find_entry :: "benv \<Rightarrow> nat \<Rightarrow> u32 \<Rightarrow> nat \<Rightarrow> bufw \<Rightarrow> ((nat \<times> nat) option \<times> nat \<times> bufw) kres" where
  "find_entry e dir name namelen s =
     (let namelen = min namelen NAME_LEN;
          entries = unat (i_size (inode_table s dir)) div 16
      in if namelen = 0 then Inr (None, dir, s)
         else bindE (if namelen = 2 \<and> get_fs_byte name (bw_fs s) = 46 \<and> get_fs_byte (name + 1) (bw_fs s) = 46
                     then dot_dot e dir namelen s else Inr (namelen, dir, s)) (\<lambda>(namelen, dir, s).
                if i_zone (inode_table s dir) 0 = 0 then Inr (None, dir, s)
                else bindE (bread (e_fuel e) e (i_dev (inode_table s dir)) (ucast (i_zone (inode_table s dir) 0)) s) (\<lambda>(r, s).
                  case r of
                    None \<Rightarrow> Inr (None, dir, s)
                  | Some b \<Rightarrow>
                      bindE (find_entry_loop (Suc entries) e dir namelen name entries 0 0 (Some b) s)
                        (\<lambda>(r, s). Inr (r, dir, s)))))"

definition put_name :: "nat \<Rightarrow> nat \<Rightarrow> u32 \<Rightarrow> nat \<Rightarrow> bufw \<Rightarrow> bufw" where
  "put_name bh k name namelen s =
     upd_bh bh (\<lambda>b. b\<lparr>b_data := fold (\<lambda>j d. d(16 * k + 2 + j :=
       if j < namelen then get_fs_byte (name + word_of_nat j) (bw_fs s) else 0)) [0..<NAME_LEN] (b_data b)\<rparr>) s"

primrec add_entry_loop ::
  "nat \<Rightarrow> benv \<Rightarrow> nat \<Rightarrow> nat \<Rightarrow> u32 \<Rightarrow> nat \<Rightarrow> nat \<Rightarrow> nat option \<Rightarrow> bufw \<Rightarrow> ((nat \<times> nat) option \<times> bufw) kres" where
  "add_entry_loop 0 e dir namelen name i k bh s = Inl Hang"
| "add_entry_loop (Suc f) e dir namelen name i k bh s =
     (let try = (\<lambda>b k s.
            let s = (if unat (i_size (inode_table s dir)) \<le> i * 16
                     then upd_inode dir (\<lambda>ip. ip\<lparr>i_size := word_of_nat ((i + 1) * 16), i_dirt := True,
                            i_ctime := CURRENT_TIME s\<rparr>) (set_de_inode b k 0 s)
                     else s)
            in if de_inode (b_data (bhs s b)) k = 0
               then
                 let s = upd_inode dir (\<lambda>ip. ip\<lparr>i_mtime := CURRENT_TIME s\<rparr>) s
                 in Inr (Some (b, k), mark_dirt b (put_name b k name namelen s))
               else add_entry_loop f e dir namelen name (Suc i) (Suc k) (Some b) s)
      in case bh of
           None \<Rightarrow> Inl Fault
         | Some b \<Rightarrow>
             if k < 64 then try b k s
             else bindE (brelse e (Some b) s) (\<lambda>s.
                  bindE (create_block e dir (int (i div 64)) s) (\<lambda>(block, s).
                    if block = 0 then Inr (None, s)
                    else bindE (bread (e_fuel e) e (i_dev (inode_table s dir)) (word_of_int block) s) (\<lambda>(r, s).
                      case r of
                        None \<Rightarrow> add_entry_loop f e dir namelen name (i + 64) k None s
                      | Some b \<Rightarrow> try b 0 s))))"

definition add_entry :: "benv \<Rightarrow> nat \<Rightarrow> u32 \<Rightarrow> nat \<Rightarrow> bufw \<Rightarrow> ((nat \<times> nat) option \<times> bufw) kres" where
  "add_entry e dir name namelen s =
     (let namelen = min namelen NAME_LEN
      in if namelen = 0 \<or> i_zone (inode_table s dir) 0 = 0 then Inr (None, s)
         else bindE (bread (e_fuel e) e (i_dev (inode_table s dir)) (ucast (i_zone (inode_table s dir) 0)) s) (\<lambda>(r, s).
           case r of
             None \<Rightarrow> Inr (None, s)
           | Some b \<Rightarrow> add_entry_loop (e_fuel e) e dir namelen name 0 0 (Some b) s))"

section \<open>Walking a path\<close>

text \<open>\<open>for (namelen=0; (c=get_fs_byte(pathname++)) && (c!='/'); namelen++)\<close>.\<close>

primrec name_end :: "nat \<Rightarrow> u32 \<Rightarrow> nat \<Rightarrow> fsmem \<Rightarrow> (u8 \<times> u32 \<times> nat) kres" where
  "name_end 0 pathname namelen fs = Inl Hang"
| "name_end (Suc f) pathname namelen fs =
     (let c = get_fs_byte pathname fs
      in if c = 0 \<or> c = 47 then Inr (c, pathname + 1, namelen) else name_end f (pathname + 1) (Suc namelen) fs)"

primrec get_dir_loop :: "nat \<Rightarrow> benv \<Rightarrow> nat \<Rightarrow> u32 \<Rightarrow> bufw \<Rightarrow> (nat option \<times> bufw) kres" where
  "get_dir_loop 0 e inode pathname s = Inl Hang"
| "get_dir_loop (Suc f) e inode pathname s =
     (if \<not> S_ISDIR (i_mode (inode_table s inode)) \<or> \<not> permission s inode MAY_EXEC
      then finish [iput e (Some inode)] None s
      else bindE (name_end (e_fuel e) pathname 0 (bw_fs s)) (\<lambda>(c, next, namelen).
        if c = 0 then Inr (Some inode, s)
        else bindE (find_entry e inode pathname namelen s) (\<lambda>(r, inode, s).
          case r of
            None \<Rightarrow> finish [iput e (Some inode)] None s
          | Some (b, k) \<Rightarrow>
              let inr = de_inode (b_data (bhs s b)) k;
                  idev = i_dev (inode_table s inode)
              in bindE (brelse e (Some b) s) (\<lambda>s.
                 bindE (iput e (Some inode) s) (\<lambda>s.
                 bindE (iget e idev inr s) (\<lambda>(inode, s). get_dir_loop f e inode next s))))))"

definition get_dir :: "benv \<Rightarrow> u32 \<Rightarrow> bufw \<Rightarrow> (nat option \<times> bufw) kres" where
  "get_dir e pathname s =
     (case t_root (curr s) of
        None \<Rightarrow> Inl (Panic ''No root inode'')
      | Some root \<Rightarrow>
          if i_count (inode_table s root) = 0 then Inl (Panic ''No root inode'')
          else
            (case t_pwd (curr s) of
               None \<Rightarrow> Inl (Panic ''No cwd inode'')
             | Some pwd \<Rightarrow>
                 if i_count (inode_table s pwd) = 0 then Inl (Panic ''No cwd inode'')
                 else
                   let c = get_fs_byte pathname (bw_fs s);
                       inc = (\<lambda>n. upd_inode n (\<lambda>i. i\<lparr>i_count := i_count i + 1\<rparr>) s)
                   in if c = 47 then get_dir_loop (e_fuel e) e root (pathname + 1) (inc root)
                      else if c \<noteq> 0 then get_dir_loop (e_fuel e) e pwd pathname (inc pwd)
                      else Inr (None, s)))"

text \<open>The end of the path and the start of its last component.\<close>

primrec basename_loop :: "nat \<Rightarrow> u32 \<Rightarrow> u32 \<Rightarrow> fsmem \<Rightarrow> (u32 \<times> u32) kres" where
  "basename_loop 0 pathname basename fs = Inl Hang"
| "basename_loop (Suc f) pathname basename fs =
     (let c = get_fs_byte pathname fs
      in if c = 0 then Inr (pathname + 1, basename)
         else basename_loop f (pathname + 1) (if c = 47 then pathname + 1 else basename) fs)"

definition dir_namei :: "benv \<Rightarrow> u32 \<Rightarrow> bufw \<Rightarrow> ((nat \<times> nat \<times> u32) option \<times> bufw) kres" where
  "dir_namei e pathname s =
     bindE (get_dir e pathname s) (\<lambda>(dir, s).
       case dir of
         None \<Rightarrow> Inr (None, s)
       | Some d \<Rightarrow>
           bindE (basename_loop (e_fuel e) pathname pathname (bw_fs s)) (\<lambda>(p, basename).
             Inr (Some (d, unat (p - basename - 1), basename), s)))"

definition namei :: "benv \<Rightarrow> u32 \<Rightarrow> bufw \<Rightarrow> (nat option \<times> bufw) kres" where
  "namei e pathname s =
     bindE (dir_namei e pathname s) (\<lambda>(r, s).
       case r of
         None \<Rightarrow> Inr (None, s)
       | Some (dir, namelen, basename) \<Rightarrow>
           if namelen = 0 then Inr (Some dir, s)
           else bindE (find_entry e dir basename namelen s) (\<lambda>(r, dir, s).
             case r of
               None \<Rightarrow> finish [iput e (Some dir)] None s
             | Some (b, k) \<Rightarrow>
                 let inr = de_inode (b_data (bhs s b)) k;
                     dev = i_dev (inode_table s dir)
                 in bindE (brelse e (Some b) s) (\<lambda>s.
                    bindE (iput e (Some dir) s) (\<lambda>s.
                    bindE (iget e dev inr s) (\<lambda>(n, s).
                      Inr (Some n, upd_inode n (\<lambda>i. i\<lparr>i_atime := CURRENT_TIME s, i_dirt := True\<rparr>) s))))))"

section \<open>Opening and creating\<close>

text \<open>The result and, when it is 0, the i-node.\<close>

definition open_namei :: "benv \<Rightarrow> u32 \<Rightarrow> u32 \<Rightarrow> u16 \<Rightarrow> bufw \<Rightarrow> ((int \<times> nat option) \<times> bufw) kres" where
  "open_namei e pathname flag mode s =
     (let flag = (if flag AND O_TRUNC \<noteq> 0 \<and> flag AND O_ACCMODE = 0 then flag OR 1 else flag);
          mode = (mode AND 0x1FF AND NOT (t_umask (curr s))) OR I_REGULAR
      in bindE (dir_namei e pathname s) (\<lambda>(r, s).
        case r of
          None \<Rightarrow> Inr ((- ENOENT, None), s)
        | Some (dir, namelen, basename) \<Rightarrow>
            if namelen = 0
            then if flag AND (O_ACCMODE OR O_CREAT OR O_TRUNC) = 0 then Inr ((0, Some dir), s)
                 else finish [iput e (Some dir)] (- EISDIR, None) s
            else bindE (find_entry e dir basename namelen s) (\<lambda>(r, dir, s).
              case r of
                None \<Rightarrow>
                  if flag AND O_CREAT = 0 then finish [iput e (Some dir)] (- ENOENT, None) s
                  else if \<not> permission s dir MAY_WRITE then finish [iput e (Some dir)] (- EACCES, None) s
                  else bindE (new_inode e (i_dev (inode_table s dir)) s) (\<lambda>(r, s).
                    case r of
                      None \<Rightarrow> finish [iput e (Some dir)] (- ENOSPC, None) s
                    | Some n \<Rightarrow>
                        let s = upd_inode n (\<lambda>i. i\<lparr>i_uid := t_euid (curr s), i_mode := mode, i_dirt := True\<rparr>) s
                        in bindE (add_entry e dir basename namelen s) (\<lambda>(r, s).
                          case r of
                            None \<Rightarrow>
                              finish [iput e (Some n), iput e (Some dir)] (- ENOSPC, None)
                                (upd_inode n (\<lambda>i. i\<lparr>i_nlinks := i_nlinks i - 1\<rparr>) s)
                          | Some (b, k) \<Rightarrow>
                              finish [brelse e (Some b), iput e (Some dir)] (0, Some n)
                                (mark_dirt b (set_de_inode b k (i_num (inode_table s n)) s))))
              | Some (b, k) \<Rightarrow>
                  let inr = de_inode (b_data (bhs s b)) k;
                      dev = i_dev (inode_table s dir)
                  in bindE (brelse e (Some b) s) (\<lambda>s.
                     bindE (iput e (Some dir) s) (\<lambda>s.
                       if flag AND O_EXCL \<noteq> 0 then Inr ((- EEXIST, None), s)
                       else bindE (iget e dev inr s) (\<lambda>(n, s).
                         if (S_ISDIR (i_mode (inode_table s n)) \<and> flag AND O_ACCMODE \<noteq> 0) \<or>
                            \<not> permission s n (ACC_MODE flag)
                         then finish [iput e (Some n)] (- EPERM, None) s
                         else
                           let s = upd_inode n (\<lambda>i. i\<lparr>i_atime := CURRENT_TIME s\<rparr>) s
                           in bindE (if flag AND O_TRUNC \<noteq> 0 then truncate_inode e n s else Inr s) (\<lambda>s.
                                Inr ((0, Some n), s))))))))"

text \<open>The start that \<open>sys_mknod\<close>, \<open>sys_mkdir\<close>, \<open>sys_rmdir\<close> and \<open>sys_unlink\<close> share.\<close>

definition with_dir ::
  "benv \<Rightarrow> u32 \<Rightarrow> (nat \<Rightarrow> nat \<Rightarrow> u32 \<Rightarrow> bufw \<Rightarrow> (int \<times> bufw) kres) \<Rightarrow> bufw \<Rightarrow> (int \<times> bufw) kres" where
  "with_dir e filename act s =
     bindE (dir_namei e filename s) (\<lambda>(r, s).
       case r of
         None \<Rightarrow> Inr (- ENOENT, s)
       | Some (dir, namelen, basename) \<Rightarrow>
           if namelen = 0 then finish [iput e (Some dir)] (- ENOENT) s
           else if \<not> permission s dir MAY_WRITE then finish [iput e (Some dir)] (- EPERM) s
           else act dir namelen basename s)"

definition sys_mknod :: "benv \<Rightarrow> u32 \<Rightarrow> u16 \<Rightarrow> u16 \<Rightarrow> bufw \<Rightarrow> (int \<times> bufw) kres" where
  "sys_mknod e filename mode dev s =
     (if \<not> suser s then Inr (- EPERM, s)
      else with_dir e filename (\<lambda>dir namelen basename s.
        bindE (find_entry e dir basename namelen s) (\<lambda>(r, dir, s).
          case r of
            Some (b, k) \<Rightarrow> finish [brelse e (Some b), iput e (Some dir)] (- EEXIST) s
          | None \<Rightarrow>
              bindE (new_inode e (i_dev (inode_table s dir)) s) (\<lambda>(r, s).
                case r of
                  None \<Rightarrow> finish [iput e (Some dir)] (- ENOSPC) s
                | Some n \<Rightarrow>
                    let s = upd_inode n (\<lambda>i. i\<lparr>i_mode := mode\<rparr>) s;
                        s = (if S_ISBLK mode \<or> S_ISCHR mode then upd_inode n (set_zone 0 dev) s else s);
                        s = upd_inode n (\<lambda>i. i\<lparr>i_mtime := CURRENT_TIME s, i_atime := CURRENT_TIME s, i_dirt := True\<rparr>) s
                    in bindE (add_entry e dir basename namelen s) (\<lambda>(r, s).
                         case r of
                           None \<Rightarrow>
                             bindE (iput e (Some dir) s) (\<lambda>s.
                               finish [iput e (Some n)] (- ENOSPC) (upd_inode n (\<lambda>i. i\<lparr>i_nlinks := 0\<rparr>) s))
                         | Some (b, k) \<Rightarrow>
                             finish [iput e (Some dir), iput e (Some n), brelse e (Some b)] 0
                               (mark_dirt b (set_de_inode b k (i_num (inode_table s n)) s)))))) s)"

text \<open>The entries \<open>.\<close> and \<open>..\<close> of a new directory; \<open>strcpy\<close> copies the final zero too.\<close>

definition dir_entries :: "u16 \<Rightarrow> u16 \<Rightarrow> block \<Rightarrow> block" where
  "dir_entries self parent b =
     (put16 16 parent ((put16 0 self b)(2 := 46, 3 := 0)))(18 := 46, 19 := 46, 20 := 0)"

definition sys_mkdir :: "benv \<Rightarrow> u32 \<Rightarrow> u16 \<Rightarrow> bufw \<Rightarrow> (int \<times> bufw) kres" where
  "sys_mkdir e pathname mode s =
     (if \<not> suser s then Inr (- EPERM, s)
      else with_dir e pathname (\<lambda>dir namelen basename s.
        bindE (find_entry e dir basename namelen s) (\<lambda>(r, dir, s).
          case r of
            Some (b, k) \<Rightarrow> finish [brelse e (Some b), iput e (Some dir)] (- EEXIST) s
          | None \<Rightarrow>
              bindE (new_inode e (i_dev (inode_table s dir)) s) (\<lambda>(r, s).
                case r of
                  None \<Rightarrow> finish [iput e (Some dir)] (- ENOSPC) s
                | Some n \<Rightarrow>
                    let s = upd_inode n (\<lambda>i. i\<lparr>i_size := 32, i_dirt := True, i_mtime := CURRENT_TIME s,
                              i_atime := CURRENT_TIME s\<rparr>) s
                    in bindE (new_block e (i_dev (inode_table s n)) s) (\<lambda>(nr, s).
                      let s = upd_inode n (set_zone 0 (word_of_int nr)) s
                      in if i_zone (inode_table s n) 0 = 0
                         then bindE (iput e (Some dir) s) (\<lambda>s.
                                finish [iput e (Some n)] (- ENOSPC) (upd_inode n (\<lambda>i. i\<lparr>i_nlinks := i_nlinks i - 1\<rparr>) s))
                         else
                           let s = upd_inode n (\<lambda>i. i\<lparr>i_dirt := True\<rparr>) s
                           in bindE (bread (e_fuel e) e (i_dev (inode_table s n)) (ucast (i_zone (inode_table s n) 0)) s) (\<lambda>(r, s).
                             case r of
                               None \<Rightarrow>
                                 bindE (iput e (Some dir) s) (\<lambda>s.
                                 bindE (free_block e (i_dev (inode_table s n)) (uint (i_zone (inode_table s n) 0)) s) (\<lambda>s.
                                   finish [iput e (Some n)] (- ERROR) (upd_inode n (\<lambda>i. i\<lparr>i_nlinks := i_nlinks i - 1\<rparr>) s)))
                             | Some d \<Rightarrow>
                                 let s = upd_bh d (\<lambda>h. h\<lparr>b_data := dir_entries (i_num (inode_table s n))
                                           (i_num (inode_table s dir)) (b_data h), b_dirt := True\<rparr>) s;
                                     s = upd_inode n (\<lambda>i. i\<lparr>i_nlinks := 2\<rparr>) s
                                 in bindE (brelse e (Some d) s) (\<lambda>s.
                                   let s = upd_inode n (\<lambda>i. i\<lparr>i_mode := I_DIRECTORY OR (mode AND 0x1FF AND NOT (t_umask (curr s))),
                                             i_dirt := True\<rparr>) s
                                   in bindE (add_entry e dir basename namelen s) (\<lambda>(r, s).
                                     case r of
                                       None \<Rightarrow>
                                         bindE (iput e (Some dir) s) (\<lambda>s.
                                         bindE (free_block e (i_dev (inode_table s n)) (uint (i_zone (inode_table s n) 0)) s) (\<lambda>s.
                                           finish [iput e (Some n)] (- ENOSPC) (upd_inode n (\<lambda>i. i\<lparr>i_nlinks := 0\<rparr>) s)))
                                     | Some (b, k) \<Rightarrow>
                                         let s = mark_dirt b (set_de_inode b k (i_num (inode_table s n)) s);
                                             s = upd_inode dir (\<lambda>i. i\<lparr>i_nlinks := i_nlinks i + 1, i_dirt := True\<rparr>) s
                                         in finish [iput e (Some dir), iput e (Some n), brelse e (Some b)] 0 s))))))) s)"

section \<open>Removing\<close>

text \<open>A block of the directory that is missing leaves the loop with the buffer it has released.\<close>

primrec empty_dir_loop :: "nat \<Rightarrow> benv \<Rightarrow> nat \<Rightarrow> nat \<Rightarrow> nat \<Rightarrow> nat \<Rightarrow> nat \<Rightarrow> bufw \<Rightarrow> (bool \<times> bufw) kres" where
  "empty_dir_loop 0 e inode len nr k bh s = Inl Hang"
| "empty_dir_loop (Suc f) e inode len nr k bh s =
     (if \<not> nr < len then finish [brelse e (Some bh)] True s
      else
        let try = (\<lambda>b k s.
              if de_inode (b_data (bhs s b)) k \<noteq> 0 then finish [brelse e (Some b)] False s
              else empty_dir_loop f e inode len (Suc nr) (Suc k) b s)
        in if k < 64 then try bh k s
           else bindE (brelse e (Some bh) s) (\<lambda>s.
                bindE (bmap e inode (int (nr div 64)) s) (\<lambda>(block, s).
                  if block = 0 then empty_dir_loop f e inode len (nr + 64) k bh s
                  else bindE (bread (e_fuel e) e (i_dev (inode_table s inode)) (word_of_int block) s) (\<lambda>(r, s).
                    case r of None \<Rightarrow> Inr (False, s) | Some b \<Rightarrow> try b 0 s))))"

definition empty_dir :: "benv \<Rightarrow> nat \<Rightarrow> bufw \<Rightarrow> (bool \<times> bufw) kres" where
  "empty_dir e inode s =
     (let len = unat (i_size (inode_table s inode)) div 16
      in if len < 2 \<or> i_zone (inode_table s inode) 0 = 0 then Inr (False, s)
         else bindE (bread (e_fuel e) e (i_dev (inode_table s inode)) (ucast (i_zone (inode_table s inode) 0)) s) (\<lambda>(r, s).
           case r of
             None \<Rightarrow> Inr (False, s)
           | Some b \<Rightarrow>
               let d = b_data (bhs s b)
               in if de_inode d 0 \<noteq> i_num (inode_table s inode) \<or> de_inode d 1 = 0 \<or>
                     \<not> (de_name d 0 0 = 46 \<and> de_name d 0 1 = 0) \<or>
                     \<not> (de_name d 1 0 = 46 \<and> de_name d 1 1 = 46 \<and> de_name d 1 2 = 0)
                  then Inr (False, s)
                  else empty_dir_loop (Suc len) e inode len 2 2 b s))"

definition sys_rmdir :: "benv \<Rightarrow> u32 \<Rightarrow> bufw \<Rightarrow> (int \<times> bufw) kres" where
  "sys_rmdir e name s =
     (if \<not> suser s then Inr (- EPERM, s)
      else with_dir e name (\<lambda>dir namelen basename s.
        bindE (find_entry e dir basename namelen s) (\<lambda>(r, dir, s).
          case r of
            None \<Rightarrow> finish [iput e (Some dir)] (- ENOENT) s
          | Some (b, k) \<Rightarrow>
              bindE (iget e (i_dev (inode_table s dir)) (de_inode (b_data (bhs s b)) k) s) (\<lambda>(n, s).
                let dip = inode_table s dir;
                    ip = inode_table s n;
                    out = [iput e (Some n), iput e (Some dir), brelse e (Some b)]
                in if (i_mode dip AND S_ISVTX \<noteq> 0 \<and> t_euid (curr s) \<noteq> 0 \<and> i_uid ip \<noteq> t_euid (curr s)) \<or>
                      i_dev ip \<noteq> i_dev dip \<or> 1 < i_count ip
                   then finish [iput e (Some dir), iput e (Some n), brelse e (Some b)] (- EPERM) s
                   else if n = dir then finish out (- EPERM) s
                   else if \<not> S_ISDIR (i_mode ip) then finish out (- ENOTDIR) s
                   else bindE (empty_dir e n s) (\<lambda>(em, s).
                     if \<not> em then finish out (- ENOTEMPTY) s
                     else bindE (brelse e (Some b) (mark_dirt b (set_de_inode b k 0 s))) (\<lambda>s.
                       let s = upd_inode n (\<lambda>i. i\<lparr>i_nlinks := 0, i_dirt := True\<rparr>) s;
                           s = upd_inode dir (\<lambda>i. i\<lparr>i_nlinks := i_nlinks i - 1, i_ctime := CURRENT_TIME s,
                                 i_mtime := CURRENT_TIME s, i_dirt := True\<rparr>) s
                       in finish [iput e (Some dir), iput e (Some n)] 0 s))))) s)"

definition sys_unlink :: "benv \<Rightarrow> u32 \<Rightarrow> bufw \<Rightarrow> (int \<times> bufw) kres" where
  "sys_unlink e name s =
     with_dir e name (\<lambda>dir namelen basename s.
       bindE (find_entry e dir basename namelen s) (\<lambda>(r, dir, s).
         case r of
           None \<Rightarrow> finish [iput e (Some dir)] (- ENOENT) s
         | Some (b, k) \<Rightarrow>
             bindE (iget e (i_dev (inode_table s dir)) (de_inode (b_data (bhs s b)) k) s) (\<lambda>(n, s).
               let dip = inode_table s dir;
                   ip = inode_table s n
               in if i_mode dip AND S_ISVTX \<noteq> 0 \<and> \<not> suser s \<and> t_euid (curr s) \<noteq> i_uid ip \<and> t_euid (curr s) \<noteq> i_uid dip
                  then finish [iput e (Some dir), iput e (Some n), brelse e (Some b)] (- EPERM) s
                  else if S_ISDIR (i_mode ip)
                  then finish [iput e (Some n), iput e (Some dir), brelse e (Some b)] (- EPERM) s
                  else
                    let s = (if i_nlinks ip = 0 then upd_inode n (\<lambda>i. i\<lparr>i_nlinks := 1\<rparr>) s else s)
                    in bindE (brelse e (Some b) (mark_dirt b (set_de_inode b k 0 s))) (\<lambda>s.
                         finish [iput e (Some n), iput e (Some dir)] 0
                           (upd_inode n (\<lambda>i. i\<lparr>i_nlinks := i_nlinks i - 1, i_dirt := True, i_ctime := CURRENT_TIME s\<rparr>) s))))) s"

definition sys_link :: "benv \<Rightarrow> u32 \<Rightarrow> u32 \<Rightarrow> bufw \<Rightarrow> (int \<times> bufw) kres" where
  "sys_link e oldname newname s =
     bindE (namei e oldname s) (\<lambda>(r, s).
       case r of
         None \<Rightarrow> Inr (- ENOENT, s)
       | Some n \<Rightarrow>
           if S_ISDIR (i_mode (inode_table s n)) then finish [iput e (Some n)] (- EPERM) s
           else bindE (dir_namei e newname s) (\<lambda>(r, s).
             case r of
               None \<Rightarrow> finish [iput e (Some n)] (- EACCES) s
             | Some (dir, namelen, basename) \<Rightarrow>
                 if namelen = 0 then finish [iput e (Some n), iput e (Some dir)] (- EPERM) s
                 else if i_dev (inode_table s dir) \<noteq> i_dev (inode_table s n)
                 then finish [iput e (Some dir), iput e (Some n)] (- EXDEV) s
                 else if \<not> permission s dir MAY_WRITE then finish [iput e (Some dir), iput e (Some n)] (- EACCES) s
                 else bindE (find_entry e dir basename namelen s) (\<lambda>(r, dir, s).
                   case r of
                     Some (b, k) \<Rightarrow> finish [brelse e (Some b), iput e (Some dir), iput e (Some n)] (- EEXIST) s
                   | None \<Rightarrow>
                       bindE (add_entry e dir basename namelen s) (\<lambda>(r, s).
                         case r of
                           None \<Rightarrow> finish [iput e (Some dir), iput e (Some n)] (- ENOSPC) s
                         | Some (b, k) \<Rightarrow>
                             bindE (brelse e (Some b) (mark_dirt b (set_de_inode b k (i_num (inode_table s n)) s))) (\<lambda>s.
                             bindE (iput e (Some dir) s) (\<lambda>s.
                               finish [iput e (Some n)] 0
                                 (upd_inode n (\<lambda>i. i\<lparr>i_nlinks := i_nlinks i + 1, i_ctime := CURRENT_TIME s, i_dirt := True\<rparr>) s)))))))"

end
