(* ===== verification/Mount.thy ===== *)
theory Mount
  imports Namei
begin

text \<open>
  Mounting and unmounting file systems, the rest of \<open>fs/super.c\<close>.
\<close>

definition sys_umount :: "benv \<Rightarrow> u32 \<Rightarrow> bufw \<Rightarrow> (int \<times> bufw) kres" where
  "sys_umount e dev_name s =
     bindE (namei e dev_name s) (\<lambda>(r, s).
       case r of
         None \<Rightarrow> Inr (- ENOENT, s)
       | Some n \<Rightarrow>
           let dev = i_zone (inode_table s n) 0
           in if \<not> S_ISBLK (i_mode (inode_table s n)) then finish [iput e (Some n)] (- ENOTBLK) s
              else bindE (iput e (Some n) s) (\<lambda>s.
                if dev = ROOT_DEV s then Inr (- EBUSY, s)
                else bindE (get_super e dev s) (\<lambda>(sb, s).
                  case sb of
                    None \<Rightarrow> Inr (- ENOENT, s)
                  | Some m \<Rightarrow>
                      (case s_imount (super_block s m) of
                         None \<Rightarrow> Inr (- ENOENT, s)
                       | Some d \<Rightarrow>
                           if \<exists>j < NR_INODE. i_dev (inode_table s j) = dev \<and> i_count (inode_table s j) \<noteq> 0
                           then Inr (- EBUSY, s)
                           else finish
                             [\<lambda>s. Inr (upd_inode d (\<lambda>i. i\<lparr>i_mount := False\<rparr>) s),
                              \<lambda>s. iput e (s_imount (super_block s m)) s,
                              \<lambda>s. Inr (upd_super m (\<lambda>b. b\<lparr>s_imount := None\<rparr>) s),
                              \<lambda>s. iput e (s_isup (super_block s m)) s,
                              \<lambda>s. Inr (upd_super m (\<lambda>b. b\<lparr>s_isup := None\<rparr>) s),
                              put_super e dev,
                              sync_dev e dev] 0 s))))"

definition sys_mount :: "benv \<Rightarrow> u32 \<Rightarrow> u32 \<Rightarrow> bufw \<Rightarrow> (int \<times> bufw) kres" where
  "sys_mount e dev_name dir_name s =
     bindE (namei e dev_name s) (\<lambda>(r, s).
       case r of
         None \<Rightarrow> Inr (- ENOENT, s)
       | Some n \<Rightarrow>
           let dev = i_zone (inode_table s n) 0
           in if \<not> S_ISBLK (i_mode (inode_table s n)) then finish [iput e (Some n)] (- EPERM) s
              else bindE (iput e (Some n) s) (\<lambda>s.
                   bindE (namei e dir_name s) (\<lambda>(r, s).
                     case r of
                       None \<Rightarrow> Inr (- ENOENT, s)
                     | Some d \<Rightarrow>
                         if i_count (inode_table s d) \<noteq> 1 \<or> i_num (inode_table s d) = ROOT_INO
                         then finish [iput e (Some d)] (- EBUSY) s
                         else if \<not> S_ISDIR (i_mode (inode_table s d)) then finish [iput e (Some d)] (- EPERM) s
                         else bindE (read_super e dev s) (\<lambda>(sb, s).
                           case sb of
                             None \<Rightarrow> finish [iput e (Some d)] (- EBUSY) s
                           | Some m \<Rightarrow>
                               if s_imount (super_block s m) \<noteq> None then finish [iput e (Some d)] (- EBUSY) s
                               else if i_mount (inode_table s d) then finish [iput e (Some d)] (- EPERM) s
                               else Inr (0, upd_inode d (\<lambda>i. i\<lparr>i_mount := True, i_dirt := True\<rparr>)
                                              (upd_super m (\<lambda>b. b\<lparr>s_imount := Some d\<rparr>) s))))))"

text \<open>The loops of \<open>mount_root\<close> that count the clear bits of a map.\<close>

primrec count_free :: "(nat \<Rightarrow> nat option) \<Rightarrow> bufw \<Rightarrow> nat \<Rightarrow> nat kres" where
  "count_free mp s 0 = Inr 0"
| "count_free mp s (Suc i) =
     (if 8 \<le> i div 8192 then Inl Fault
      else case mp (i div 8192) of
        None \<Rightarrow> Inl Fault
      | Some z \<Rightarrow> bindE (count_free mp s i) (\<lambda>fr. Inr (if bm_bit (b_data (bhs s z)) (i mod 8192) then fr else fr + 1)))"

text \<open>
  The numbers it prints are its results; \<open>keypress\<close> stands for \<open>wait_for_keypress\<close>, which waits
  on the console when the root is a floppy.
\<close>

definition mount_root :: "benv \<Rightarrow> (bufw \<Rightarrow> bufw) \<Rightarrow> bufw \<Rightarrow> ((nat \<times> nat) \<times> bufw) kres" where
  "mount_root e keypress s =
     (let s = fold (\<lambda>i. upd_file i (\<lambda>f. f\<lparr>f_count := 0\<rparr>)) [0..<NR_FILE] s;
          s = (if drop_bit 8 (ROOT_DEV s) = 2 then keypress s else s);
          s = fold (\<lambda>i. upd_super i (\<lambda>b. b\<lparr>s_dev := 0, s_lock := False, s_wait := None\<rparr>)) [0..<NR_SUPER] s
      in bindE (read_super e (ROOT_DEV s) s) (\<lambda>(sb, s).
           case sb of
             None \<Rightarrow> Inl (Panic ''Unable to mount root'')
           | Some p \<Rightarrow>
               bindE (iget e (ROOT_DEV s) ROOT_INO s) (\<lambda>(mi, s).
                 let s = upd_inode mi (\<lambda>i. i\<lparr>i_count := i_count i + 3\<rparr>) s;
                     s = upd_super p (\<lambda>b. b\<lparr>s_imount := Some mi, s_isup := Some mi\<rparr>) s;
                     s = upd_curr (\<lambda>t. t\<lparr>t_pwd := Some mi, t_root := Some mi\<rparr>) s;
                     sb = super_block s p
                 in bindE (count_free (s_zmap sb) s (unat (s_nzones sb))) (\<lambda>fz.
                    bindE (count_free (s_imap sb) s (unat (s_ninodes sb) + 1)) (\<lambda>fi.
                      Inr ((fz, fi), s))))))"

end
