(* ===== verification/Open.thy ===== *)
theory Open
  imports Mount File_Io
begin

text \<open>
  Opening and closing files, descriptors and attributes: \<open>fs/open.c\<close>, \<open>fs/fcntl.c\<close>, \<open>fs/stat.c\<close>
  and \<open>fs/ioctl.c\<close>.
\<close>

section \<open>open.c\<close>

definition sys_ustat :: int where
  "sys_ustat = - ENOSYS"

text \<open>The argument \<open>times\<close> (here \<open>utb\<close>) is the address of a \<open>struct utimbuf\<close> of the user, or null.\<close>

definition sys_utime :: "benv \<Rightarrow> u32 \<Rightarrow> u32 \<Rightarrow> bufw \<Rightarrow> (int \<times> bufw) kres" where
  "sys_utime e filename utb s =
     bindE (namei e filename s) (\<lambda>(r, s).
       case r of
         None \<Rightarrow> Inr (- ENOENT, s)
       | Some n \<Rightarrow>
           let actime = (if utb \<noteq> 0 then get_fs_long utb (bw_fs s) else CURRENT_TIME s);
               modtime = (if utb \<noteq> 0 then get_fs_long (utb + 4) (bw_fs s) else CURRENT_TIME s);
               s = upd_inode n (\<lambda>i. i\<lparr>i_atime := actime, i_mtime := modtime, i_dirt := True\<rparr>) s
           in finish [iput e (Some n)] 0 s)"

text \<open>The owner of the i-node is compared after it was given back.\<close>

definition sys_access :: "benv \<Rightarrow> u32 \<Rightarrow> u32 \<Rightarrow> bufw \<Rightarrow> (int \<times> bufw) kres" where
  "sys_access e filename mode s =
     (let mode = mode AND 7
      in bindE (namei e filename s) (\<lambda>(r, s).
        case r of
          None \<Rightarrow> Inr (- EACCES, s)
        | Some n \<Rightarrow>
            let md = ucast (i_mode (inode_table s n) AND 0x1FF) :: u32
            in bindE (iput e (Some n) s) (\<lambda>s.
                 let ip = inode_table s n;
                     res = (if t_uid (curr s) = i_uid ip then drop_bit 6 md
                            else if t_gid (curr s) = ucast (i_gid ip) then drop_bit 6 md else md)
                 in if res AND 7 AND mode = mode then Inr (0, s)
                    else if t_uid (curr s) = 0 \<and> (mode AND 1 = 0 \<or> md AND 0x49 \<noteq> 0) then Inr (0, s)
                    else Inr (- EACCES, s))))"

definition sys_chdir :: "benv \<Rightarrow> u32 \<Rightarrow> bufw \<Rightarrow> (int \<times> bufw) kres" where
  "sys_chdir e filename s =
     bindE (namei e filename s) (\<lambda>(r, s).
       case r of
         None \<Rightarrow> Inr (- ENOENT, s)
       | Some n \<Rightarrow>
           if \<not> S_ISDIR (i_mode (inode_table s n)) then finish [iput e (Some n)] (- ENOTDIR) s
           else bindE (iput e (t_pwd (curr s)) s) (\<lambda>s. Inr (0, upd_curr (\<lambda>t. t\<lparr>t_pwd := Some n\<rparr>) s)))"

definition sys_chroot :: "benv \<Rightarrow> u32 \<Rightarrow> bufw \<Rightarrow> (int \<times> bufw) kres" where
  "sys_chroot e filename s =
     bindE (namei e filename s) (\<lambda>(r, s).
       case r of
         None \<Rightarrow> Inr (- ENOENT, s)
       | Some n \<Rightarrow>
           if \<not> S_ISDIR (i_mode (inode_table s n)) then finish [iput e (Some n)] (- ENOTDIR) s
           else bindE (iput e (t_root (curr s)) s) (\<lambda>s. Inr (0, upd_curr (\<lambda>t. t\<lparr>t_root := Some n\<rparr>) s)))"

definition sys_chmod :: "benv \<Rightarrow> u32 \<Rightarrow> u32 \<Rightarrow> bufw \<Rightarrow> (int \<times> bufw) kres" where
  "sys_chmod e filename mode s =
     bindE (namei e filename s) (\<lambda>(r, s).
       case r of
         None \<Rightarrow> Inr (- ENOENT, s)
       | Some n \<Rightarrow>
           if t_euid (curr s) \<noteq> i_uid (inode_table s n) \<and> \<not> suser s then finish [iput e (Some n)] (- EACCES) s
           else finish [iput e (Some n)] 0
                  (upd_inode n (\<lambda>i. i\<lparr>i_mode := (ucast mode AND 0xFFF) OR (i_mode i AND NOT 0xFFF), i_dirt := True\<rparr>) s))"

definition sys_chown :: "benv \<Rightarrow> u32 \<Rightarrow> u32 \<Rightarrow> u32 \<Rightarrow> bufw \<Rightarrow> (int \<times> bufw) kres" where
  "sys_chown e filename uid gid s =
     bindE (namei e filename s) (\<lambda>(r, s).
       case r of
         None \<Rightarrow> Inr (- ENOENT, s)
       | Some n \<Rightarrow>
           if \<not> suser s then finish [iput e (Some n)] (- EACCES) s
           else finish [iput e (Some n)] 0 (upd_inode n (\<lambda>i. i\<lparr>i_uid := ucast uid, i_gid := ucast gid, i_dirt := True\<rparr>) s))"

definition clear_cloexec :: "nat \<Rightarrow> bufw \<Rightarrow> bufw" where
  "clear_cloexec fd s = upd_curr (\<lambda>t. t\<lparr>t_close_on_exec := t_close_on_exec t AND NOT (push_bit fd 1)\<rparr>) s"

definition set_cloexec :: "nat \<Rightarrow> bufw \<Rightarrow> bufw" where
  "set_cloexec fd s = upd_curr (\<lambda>t. t\<lparr>t_close_on_exec := t_close_on_exec t OR push_bit fd 1\<rparr>) s"

text \<open>
  What \<open>sys_open\<close> does for a terminal: \<open>None\<close> when it may be opened.  \<open>set_pgrp\<close> stands for the
  store to \<open>tty_table[...].pgrp\<close>.
\<close>

definition open_tty :: "(nat \<Rightarrow> int \<Rightarrow> bufw \<Rightarrow> bufw kres) \<Rightarrow> nat \<Rightarrow> bufw \<Rightarrow> (bool \<times> bufw) kres" where
  "open_tty set_pgrp n s =
     (let dev = i_zone (inode_table s n) 0
      in if \<not> S_ISCHR (i_mode (inode_table s n)) then Inr (True, s)
         else if drop_bit 8 dev = 4
         then if t_leader (curr s) \<noteq> 0 \<and> t_tty (curr s) < 0
              then
                let s = upd_curr (\<lambda>t. t\<lparr>t_tty := uint (dev AND 0xff)\<rparr>) s
                in bindE (set_pgrp (nat (t_tty (curr s))) (t_pgrp (curr s)) s) (\<lambda>s. Inr (True, s))
              else Inr (True, s)
         else Inr (\<not> (drop_bit 8 dev = 5 \<and> t_tty (curr s) < 0), s))"

definition sys_open :: "benv \<Rightarrow> (nat \<Rightarrow> int \<Rightarrow> bufw \<Rightarrow> bufw kres) \<Rightarrow> u32 \<Rightarrow> u32 \<Rightarrow> u16 \<Rightarrow> bufw \<Rightarrow> (int \<times> bufw) kres" where
  "sys_open e set_pgrp filename flag mode s =
     (let mode = mode AND 0x1FF AND NOT (t_umask (curr s))
      in case find (\<lambda>fd. t_filp (curr s) fd = None) [0..<NR_OPEN] of
           None \<Rightarrow> Inr (- EINVAL, s)
         | Some fd \<Rightarrow>
             let s = clear_cloexec fd s
             in (case find (\<lambda>f. f_count (file_table s f) = 0) [0..<NR_FILE] of
                   None \<Rightarrow> Inr (- EINVAL, s)
                 | Some f \<Rightarrow>
                     let s = upd_file f (\<lambda>fp. fp\<lparr>f_count := f_count fp + 1\<rparr>) (set_filp fd (Some f) s);
                         undo = (\<lambda>s. upd_file f (\<lambda>fp. fp\<lparr>f_count := 0\<rparr>) (set_filp fd None s))
                     in bindE (open_namei e filename flag mode s) (\<lambda>((i, r), s).
                          if i < 0 then Inr (i, undo s)
                          else case r of
                            None \<Rightarrow> Inl Fault
                          | Some n \<Rightarrow>
                              bindE (open_tty set_pgrp n s) (\<lambda>(ok, s).
                                if \<not> ok then bindE (iput e (Some n) s) (\<lambda>s. Inr (- EPERM, undo s))
                                else bindE (if S_ISBLK (i_mode (inode_table s n))
                                            then disk_change e (i_zone (inode_table s n) 0) s else Inr s) (\<lambda>s.
                                  Inr (int fd, upd_file f (\<lambda>_. \<lparr>f_mode = i_mode (inode_table s n), f_flags = ucast flag,
                                                                f_count = 1, f_inode = Some n, f_pos = 0\<rparr>) s))))))"

definition sys_creat :: "benv \<Rightarrow> (nat \<Rightarrow> int \<Rightarrow> bufw \<Rightarrow> bufw kres) \<Rightarrow> u32 \<Rightarrow> u16 \<Rightarrow> bufw \<Rightarrow> (int \<times> bufw) kres" where
  "sys_creat e set_pgrp pathname mode s = sys_open e set_pgrp pathname (O_CREAT OR O_TRUNC) mode s"

definition sys_close :: "benv \<Rightarrow> nat \<Rightarrow> bufw \<Rightarrow> (int \<times> bufw) kres" where
  "sys_close e fd s =
     (if NR_OPEN \<le> fd then Inr (- EINVAL, s)
      else
        let s = clear_cloexec fd s
        in case t_filp (curr s) fd of
             None \<Rightarrow> Inr (- EINVAL, s)
           | Some f \<Rightarrow>
               let s = set_filp fd None s
               in if f_count (file_table s f) = 0 then Inl (Panic ''Close: file count is 0'')
                  else
                    let s = upd_file f (\<lambda>fp. fp\<lparr>f_count := f_count fp - 1\<rparr>) s
                    in if f_count (file_table s f) \<noteq> 0 then Inr (0, s)
                       else finish [iput e (f_inode (file_table s f))] 0 s)"

section \<open>fcntl.c\<close>

definition dupfd :: "nat \<Rightarrow> nat \<Rightarrow> bufw \<Rightarrow> int \<times> bufw" where
  "dupfd fd arg s =
     (case get_file fd s of
        None \<Rightarrow> (- EBADF, s)
      | Some f \<Rightarrow>
          if NR_OPEN \<le> arg then (- EINVAL, s)
          else case find (\<lambda>a. t_filp (curr s) a = None) [arg..<NR_OPEN] of
                 None \<Rightarrow> (- EMFILE, s)
               | Some a \<Rightarrow>
                   (int a, upd_file f (\<lambda>fp. fp\<lparr>f_count := f_count fp + 1\<rparr>) (set_filp a (Some f) (clear_cloexec a s))))"

definition sys_dup2 :: "benv \<Rightarrow> nat \<Rightarrow> nat \<Rightarrow> bufw \<Rightarrow> (int \<times> bufw) kres" where
  "sys_dup2 e oldfd newfd s = bindE (sys_close e newfd s) (\<lambda>(_, s). Inr (dupfd oldfd newfd s))"

definition sys_dup :: "nat \<Rightarrow> bufw \<Rightarrow> int \<times> bufw" where
  "sys_dup fildes s = dupfd fildes 0 s"

abbreviation (input) O_NONBLOCK :: u16 where "O_NONBLOCK \<equiv> 0x800"

definition sys_fcntl :: "nat \<Rightarrow> nat \<Rightarrow> u32 \<Rightarrow> bufw \<Rightarrow> int \<times> bufw" where
  "sys_fcntl fd cmd arg s =
     (case get_file fd s of
        None \<Rightarrow> (- EBADF, s)
      | Some f \<Rightarrow>
          if cmd = 0 then dupfd fd (unat arg) s
          else if cmd = 1 then (uint (drop_bit fd (t_close_on_exec (curr s)) AND 1), s)
          else if cmd = 2 then (0, if arg AND 1 \<noteq> 0 then set_cloexec fd s else clear_cloexec fd s)
          else if cmd = 3 then (uint (f_flags (file_table s f)), s)
          else if cmd = 4
          then (0, upd_file f (\<lambda>fp. fp\<lparr>f_flags := (f_flags fp AND NOT (O_APPEND OR O_NONBLOCK)) OR
                                                   (ucast arg AND (O_APPEND OR O_NONBLOCK))\<rparr>) s)
          else (- 1, s))"

section \<open>stat.c\<close>

text \<open>
  The 32 bytes of \<open>struct stat\<close>; \<open>pad\<close> is what the stack held at the four padding bytes, which
  are copied to the user with the rest.
\<close>

definition stat_bytes :: "(nat \<Rightarrow> u8) \<Rightarrow> m_inode \<Rightarrow> u8 list" where
  "stat_bytes pad i =
     (let b = pad;
          b = put16 0 (i_dev i) b; b = put16 2 (i_num i) b; b = put16 4 (i_mode i) b; b = b(6 := i_nlinks i);
          b = put16 8 (i_uid i) b; b = b(10 := i_gid i); b = put16 12 (i_zone i 0) b;
          b = put32 16 (i_size i) b; b = put32 20 (i_atime i) b; b = put32 24 (i_mtime i) b; b = put32 28 (i_ctime i) b
      in map b [0..<32])"

definition cp_stat :: "(nat \<Rightarrow> u8) \<Rightarrow> nat \<Rightarrow> u32 \<Rightarrow> bufw \<Rightarrow> bufw kres" where
  "cp_stat pad n statbuf s =
     bindE (verify_area statbuf 32 s) (\<lambda>s. Inr (to_user (stat_bytes pad (inode_table s n)) statbuf s))"

definition sys_stat :: "benv \<Rightarrow> (nat \<Rightarrow> u8) \<Rightarrow> u32 \<Rightarrow> u32 \<Rightarrow> bufw \<Rightarrow> (int \<times> bufw) kres" where
  "sys_stat e pad filename statbuf s =
     bindE (namei e filename s) (\<lambda>(r, s).
       case r of
         None \<Rightarrow> Inr (- ENOENT, s)
       | Some n \<Rightarrow> finish [cp_stat pad n statbuf, iput e (Some n)] 0 s)"

definition sys_fstat :: "(nat \<Rightarrow> u8) \<Rightarrow> nat \<Rightarrow> u32 \<Rightarrow> bufw \<Rightarrow> (int \<times> bufw) kres" where
  "sys_fstat pad fd statbuf s =
     (case get_file fd s of
        None \<Rightarrow> Inr (- EBADF, s)
      | Some f \<Rightarrow>
          (case f_inode (file_table s f) of
             None \<Rightarrow> Inr (- EBADF, s)
           | Some n \<Rightarrow> finish [cp_stat pad n statbuf] 0 s))"

section \<open>ioctl.c\<close>

text \<open>The terminals, majors 4 and 5, are the only devices of \<open>ioctl_table\<close>; \<open>tty_ioctl\<close> is a parameter.\<close>

definition sys_ioctl ::
  "(u16 \<Rightarrow> u32 \<Rightarrow> u32 \<Rightarrow> bufw \<Rightarrow> (int \<times> bufw) kres) \<Rightarrow> nat \<Rightarrow> u32 \<Rightarrow> u32 \<Rightarrow> bufw \<Rightarrow> (int \<times> bufw) kres" where
  "sys_ioctl tty_ioctl fd cmd arg s =
     (case get_file fd s of
        None \<Rightarrow> Inr (- EBADF, s)
      | Some f \<Rightarrow>
          (case f_inode (file_table s f) of
             None \<Rightarrow> Inl Fault
           | Some n \<Rightarrow>
               let mode = i_mode (inode_table s n);
                   dev = i_zone (inode_table s n) 0
               in if \<not> S_ISCHR mode \<and> \<not> S_ISBLK mode then Inr (- EINVAL, s)
                  else if 8 \<le> drop_bit 8 dev then Inr (- ENODEV, s)
                  else if drop_bit 8 dev \<noteq> 4 \<and> drop_bit 8 dev \<noteq> 5 then Inr (- ENOTTY, s)
                  else tty_ioctl dev cmd arg s))"

end
