(* ===== verification/Sys.thy ===== *)
theory Sys
  imports Open
begin

text \<open>
  The small system calls of \<open>kernel/sys.c\<close>: user and group ids, times, the end of the data
  segment, process groups and sessions.
\<close>

section \<open>Calls that are not implemented\<close>

definition sys_ftime :: int where "sys_ftime = - ENOSYS"
definition sys_break :: int where "sys_break = - ENOSYS"
definition sys_ptrace :: int where "sys_ptrace = - ENOSYS"
definition sys_stty :: int where "sys_stty = - ENOSYS"
definition sys_gtty :: int where "sys_gtty = - ENOSYS"
definition sys_rename :: int where "sys_rename = - ENOSYS"
definition sys_prof :: int where "sys_prof = - ENOSYS"
definition sys_acct :: int where "sys_acct = - ENOSYS"
definition sys_phys :: int where "sys_phys = - ENOSYS"
definition sys_lock :: int where "sys_lock = - ENOSYS"
definition sys_mpx :: int where "sys_mpx = - ENOSYS"
definition sys_ulimit :: int where "sys_ulimit = - ENOSYS"

section \<open>User and group ids\<close>

text \<open>Ids are unsigned 16-bit numbers; the arguments are \<open>int\<close>, and a negative one or 0 leaves the id alone.\<close>

definition sys_setregid :: "int \<Rightarrow> int \<Rightarrow> bufw \<Rightarrow> int \<times> bufw" where
  "sys_setregid rgid egid s =
     (if 0 < rgid \<and> \<not> (uint (t_gid (curr s)) = rgid \<or> suser s) then (- EPERM, s)
      else
        let s = (if 0 < rgid then upd_curr (\<lambda>t. t\<lparr>t_gid := word_of_int rgid\<rparr>) s else s)
        in if 0 < egid
           then if uint (t_gid (curr s)) = egid \<or> uint (t_egid (curr s)) = egid \<or> uint (t_sgid (curr s)) = egid \<or> suser s
                then (0, upd_curr (\<lambda>t. t\<lparr>t_egid := word_of_int egid\<rparr>) s)
                else (- EPERM, s)
           else (0, s))"

definition sys_setgid :: "int \<Rightarrow> bufw \<Rightarrow> int \<times> bufw" where
  "sys_setgid gid s = sys_setregid gid gid s"

definition sys_setreuid :: "int \<Rightarrow> int \<Rightarrow> bufw \<Rightarrow> int \<times> bufw" where
  "sys_setreuid ruid euid s =
     (let old_ruid = t_uid (curr s)
      in if 0 < ruid \<and> \<not> (uint (t_euid (curr s)) = ruid \<or> uint old_ruid = ruid \<or> suser s) then (- EPERM, s)
         else
           let s = (if 0 < ruid then upd_curr (\<lambda>t. t\<lparr>t_uid := word_of_int ruid\<rparr>) s else s)
           in if 0 < euid
              then if uint old_ruid = euid \<or> uint (t_euid (curr s)) = euid \<or> suser s
                   then (0, upd_curr (\<lambda>t. t\<lparr>t_euid := word_of_int euid\<rparr>) s)
                   else (- EPERM, upd_curr (\<lambda>t. t\<lparr>t_uid := old_ruid\<rparr>) s)
              else (0, s))"

definition sys_setuid :: "int \<Rightarrow> bufw \<Rightarrow> int \<times> bufw" where
  "sys_setuid uid s = sys_setreuid uid uid s"

section \<open>Times\<close>

definition sys_time :: "u32 \<Rightarrow> bufw \<Rightarrow> (int \<times> bufw) kres" where
  "sys_time tloc s =
     (let i = CURRENT_TIME s
      in if tloc = 0 then Inr (sint i, s)
         else bindE (verify_area tloc 4 s) (\<lambda>s. Inr (sint i, s\<lparr>bw_fs := put_fs_long i tloc (bw_fs s)\<rparr>)))"

definition sys_stime :: "u32 \<Rightarrow> bufw \<Rightarrow> int \<times> bufw" where
  "sys_stime tptr s =
     (if \<not> suser s then (- EPERM, s)
      else (0, s\<lparr>bw_sched := (bw_sched s)\<lparr>startup_time :=
        sint (get_fs_long tptr (bw_fs s) - word_of_int (jiffies (bw_sched s) sdiv HZ))\<rparr>\<rparr>))"

definition sys_times :: "u32 \<Rightarrow> bufw \<Rightarrow> (int \<times> bufw) kres" where
  "sys_times tbuf s =
     (if tbuf = 0 then Inr (jiffies (bw_sched s), s)
      else bindE (verify_area tbuf 16 s) (\<lambda>s.
        let t = curr s;
            fs = put_fs_long (word_of_int (t_utime t)) tbuf (bw_fs s);
            fs = put_fs_long (word_of_int (t_stime t)) (tbuf + 4) fs;
            fs = put_fs_long (word_of_int (t_cutime t)) (tbuf + 8) fs;
            fs = put_fs_long (word_of_int (t_cstime t)) (tbuf + 12) fs
        in Inr (jiffies (bw_sched s), s\<lparr>bw_fs := fs\<rparr>)))"

section \<open>Memory, sessions and the rest\<close>

definition sys_brk :: "u32 \<Rightarrow> bufw \<Rightarrow> u32 \<times> bufw" where
  "sys_brk end_data_seg s =
     (let s = (if t_end_code (curr s) \<le> end_data_seg \<and> end_data_seg < t_start_stack (curr s) - 16384
               then upd_curr (\<lambda>t. t\<lparr>t_brk := end_data_seg\<rparr>) s else s)
      in (t_brk (curr s), s))"

definition sys_setpgid :: "int \<Rightarrow> int \<Rightarrow> bufw \<Rightarrow> int \<times> bufw" where
  "sys_setpgid pid pgid s =
     (let pid = (if pid = 0 then t_pid (curr s) else pid);
          pgid = (if pgid = 0 then t_pid (curr s) else pgid);
          tk = task (bw_sched s)
      in case find (\<lambda>i. case tk i of Some t \<Rightarrow> t_pid t = pid | None \<Rightarrow> False) [0..<NR_TASKS] of
           None \<Rightarrow> (- ESRCH, s)
         | Some i \<Rightarrow>
             (case tk i of
                None \<Rightarrow> (- ESRCH, s)
              | Some t \<Rightarrow>
                  if t_leader t \<noteq> 0 \<or> t_session t \<noteq> t_session (curr s) then (- EPERM, s)
                  else (0, s\<lparr>bw_sched := upd_task i (\<lambda>t. t\<lparr>t_pgrp := pgid\<rparr>) (bw_sched s)\<rparr>)))"

definition sys_getpgrp :: "bufw \<Rightarrow> int" where
  "sys_getpgrp s = t_pgrp (curr s)"

definition sys_setsid :: "bufw \<Rightarrow> int \<times> bufw" where
  "sys_setsid s =
     (if t_leader (curr s) \<noteq> 0 \<and> \<not> suser s then (- EPERM, s)
      else
        let s = upd_curr (\<lambda>t. t\<lparr>t_leader := 1, t_session := t_pid t, t_pgrp := t_pid t, t_tty := - 1\<rparr>) s
        in (t_pgrp (curr s), s))"

text \<open>The five strings of \<open>struct utsname\<close>, nine bytes each with the final zero.\<close>

definition thisname :: "u8 list" where
  "thisname = map of_char (''linux .0'' @ [CHR 0x00] @ ''nodename'' @ [CHR 0x00] @ ''release '' @ [CHR 0x00] @
     ''version '' @ [CHR 0x00] @ ''machine '' @ [CHR 0x00])"

definition sys_uname :: "u32 \<Rightarrow> bufw \<Rightarrow> (int \<times> bufw) kres" where
  "sys_uname name s =
     (if name = 0 then Inr (- ERROR, s)
      else bindE (verify_area name (int (length thisname)) s) (\<lambda>s. Inr (0, to_user thisname name s)))"

definition sys_umask :: "u32 \<Rightarrow> bufw \<Rightarrow> int \<times> bufw" where
  "sys_umask msk s = (uint (t_umask (curr s)), upd_curr (\<lambda>t. t\<lparr>t_umask := ucast (msk AND 0x1FF)\<rparr>) s)"

end
