(* ===== verification/Process.thy ===== *)
theory Process
  imports Sys
begin

text \<open>
  Creating and ending tasks: \<open>kernel/fork.c\<close> and \<open>kernel/exit.c\<close>, with the descriptor macros of
  \<open>include/linux/sched.h\<close> and \<open>include/asm/system.h\<close>.  \<open>schedule\<close> returns to its caller only when
  other tasks have run: what the caller finds then is a parameter \<open>sw\<close>.
\<close>

section \<open>Segment descriptors\<close>

definition set_base :: "u32 \<Rightarrow> desc_struct \<Rightarrow> desc_struct" where
  "set_base base d =
     d\<lparr>desc_a := (desc_a d AND 0xffff) OR push_bit 16 base,
       desc_b := (desc_b d AND 0x00ffff00) OR (base AND 0xff000000) OR (drop_bit 16 base AND 0xff)\<rparr>"

text \<open>\<open>set_limit\<close> takes the size of the segment; the field holds pages less one.\<close>

definition set_limit :: "u32 \<Rightarrow> desc_struct \<Rightarrow> desc_struct" where
  "set_limit limit d =
     (let l = drop_bit 12 (limit - 1)
      in d\<lparr>desc_a := (desc_a d AND 0xffff0000) OR (l AND 0xffff),
           desc_b := (desc_b d AND 0xfff0ffff) OR (l AND 0xff0000)\<rparr>)"

text \<open>The instruction \<open>lsll\<close> gives the last offset of a segment; bit 23 says that the limit counts pages.\<close>

definition lsl :: "desc_struct \<Rightarrow> u32" where
  "lsl d =
     (let l = (desc_a d AND 0xffff) OR (desc_b d AND 0xf0000)
      in if bit (desc_b d) 23 then push_bit 12 l OR 0xfff else l)"

text \<open>Selectors \<open>0x0f\<close> and \<open>0x17\<close> are entries 1 and 2 of the local table of the current task.\<close>

definition get_limit :: "u32 \<Rightarrow> bufw \<Rightarrow> u32" where
  "get_limit segment s = lsl (t_ldt (curr s) (unat (drop_bit 3 segment))) + 1"

definition set_tssldt_desc :: "u32 \<Rightarrow> u32 \<Rightarrow> desc_struct" where
  "set_tssldt_desc addr type =
     \<lparr>desc_a = 104 OR push_bit 16 addr, desc_b = (drop_bit 16 addr AND 0xff) OR push_bit 8 type OR (addr AND 0xff000000)\<rparr>"

section \<open>State\<close>

text \<open>
  Beside the state of the file system: the last process number, the address of the page each task
  structure is in, and the global descriptor table.
\<close>

record kernw =
  kw :: bufw
  last_pid :: int
  task_page :: "nat \<Rightarrow> u32"
  gdt :: "nat \<Rightarrow> desc_struct"

definition tasks :: "kernw \<Rightarrow> nat \<Rightarrow> task_struct option" where
  "tasks s i = task (bw_sched (kw s)) i"

definition set_task :: "nat \<Rightarrow> task_struct option \<Rightarrow> kernw \<Rightarrow> kernw" where
  "set_task i t s = s\<lparr>kw := (kw s)\<lparr>bw_sched := (bw_sched (kw s))\<lparr>task := (task (bw_sched (kw s)))(i := t)\<rparr>\<rparr>\<rparr>"

definition mod_task :: "nat \<Rightarrow> (task_struct \<Rightarrow> task_struct) \<Rightarrow> kernw \<Rightarrow> kernw" where
  "mod_task i f s = set_task i (map_option f (tasks s i)) s"

definition on_bufw :: "(bufw \<Rightarrow> bufw kres) \<Rightarrow> kernw \<Rightarrow> kernw kres" where
  "on_bufw f s = bindE (f (kw s)) (\<lambda>w. Inr (s\<lparr>kw := w\<rparr>))"

definition on_mm :: "(mm \<Rightarrow> mm kres) \<Rightarrow> kernw \<Rightarrow> kernw kres" where
  "on_mm f s = bindE (f (bw_mm (kw s))) (\<lambda>m. Inr (s\<lparr>kw := (kw s)\<lparr>bw_mm := m\<rparr>\<rparr>))"

definition kcurr :: "kernw \<Rightarrow> task_struct" where
  "kcurr s = curr (kw s)"

definition me :: "kernw \<Rightarrow> nat" where
  "me s = current (bw_sched (kw s))"

section \<open>fork.c\<close>

text \<open>Returns whether the page tables were copied.\<close>

definition copy_mem :: "nat \<Rightarrow> kernw \<Rightarrow> (int \<times> kernw) kres" where
  "copy_mem nr s =
     (let code_limit = get_limit 0x0f (kw s);
          data_limit = get_limit 0x17 (kw s);
          old_code_base = get_base (t_ldt (kcurr s) 1);
          old_data_base = get_base (t_ldt (kcurr s) 2)
      in if old_data_base \<noteq> old_code_base then Inl (Panic ''We don't support separate I&D'')
         else if data_limit < code_limit then Inl (Panic ''Bad data_limit'')
         else
           let new_base = word_of_nat nr * 0x4000000;
               s = mod_task nr (\<lambda>p. p\<lparr>t_start_code := new_base,
                 t_ldt := (t_ldt p)(1 := set_base new_base (t_ldt p 1), 2 := set_base new_base (t_ldt p 2))\<rparr>) s
           in bindE (copy_page_tables old_data_base new_base data_limit (bw_mm (kw s))) (\<lambda>(r, m).
                let s = s\<lparr>kw := (kw s)\<lparr>bw_mm := m\<rparr>\<rparr>
                in if r \<noteq> 0
                   then bindE (on_mm (free_page_tables new_base data_limit) s) (\<lambda>s. Inr (- ENOMEM, s))
                   else Inr (0, s)))"

text \<open>The registers of the caller, as the system call pushed them.\<close>

record fork_regs =
  fr_ebp :: u32
  fr_edi :: u32
  fr_esi :: u32
  fr_gs :: u32
  fr_ebx :: u32
  fr_ecx :: u32
  fr_edx :: u32
  fr_fs :: u32
  fr_es :: u32
  fr_ds :: u32
  fr_eip :: u32
  fr_cs :: u32
  fr_eflags :: u32
  fr_esp :: u32
  fr_ss :: u32

definition LDT_sel :: "nat \<Rightarrow> u32" where
  "LDT_sel n = push_bit 4 (word_of_nat n) + push_bit 3 5"

text \<open>What a new task has of its own; the rest is copied from its father.\<close>

definition child_tss :: "nat \<Rightarrow> u32 \<Rightarrow> fork_regs \<Rightarrow> tss_struct \<Rightarrow> tss_struct" where
  "child_tss nr page r t =
     t\<lparr>tss_back_link := 0, tss_esp0 := 4096 + page, tss_ss0 := 0x10, tss_eip := fr_eip r, tss_eflags := fr_eflags r,
       tss_eax := 0, tss_ecx := fr_ecx r, tss_edx := fr_edx r, tss_ebx := fr_ebx r, tss_esp := fr_esp r,
       tss_ebp := fr_ebp r, tss_esi := fr_esi r, tss_edi := fr_edi r, tss_es := fr_es r AND 0xffff,
       tss_cs := fr_cs r AND 0xffff, tss_ss := fr_ss r AND 0xffff, tss_ds := fr_ds r AND 0xffff,
       tss_fs := fr_fs r AND 0xffff, tss_gs := fr_gs r AND 0xffff, tss_ldt := LDT_sel nr,
       tss_trace_bitmap := 0x80000000\<rparr>"

definition child_of :: "nat \<Rightarrow> u32 \<Rightarrow> int \<Rightarrow> int \<Rightarrow> fork_regs \<Rightarrow> task_struct \<Rightarrow> task_struct" where
  "child_of nr page pid jif r t =
     t\<lparr>t_state := TASK_UNINTERRUPTIBLE, t_pid := pid, t_father := t_pid t, t_counter := t_priority t, t_signal := 0,
       t_alarm := 0, t_leader := 0, t_utime := 0, t_stime := 0, t_cutime := 0, t_cstime := 0, t_start_time := jif,
       t_tss := child_tss nr page r (t_tss t)\<rparr>"

text \<open>\<open>clts; fnsave\<close> when the coprocessor holds the father's numbers; \<open>fninit\<close> is the coprocessor after it.\<close>

definition save_math :: "(i387_struct \<Rightarrow> i387_struct) \<Rightarrow> nat \<Rightarrow> kernw \<Rightarrow> kernw" where
  "save_math fninit nr s =
     (if last_task_used_math (bw_sched (kw s)) = Some (me s)
      then
        let f = fpu (bw_sched (kw s));
            s = mod_task nr (\<lambda>p. p\<lparr>t_tss := (t_tss p)\<lparr>tss_i387 := f\<rparr>\<rparr>) s
        in s\<lparr>kw := (kw s)\<lparr>bw_sched := (bw_sched (kw s))\<lparr>ts_flag := False, fpu := fninit f\<rparr>\<rparr>\<rparr>
      else s)"

definition inc_file :: "nat option \<Rightarrow> bufw \<Rightarrow> bufw" where
  "inc_file f s = (case f of None \<Rightarrow> s | Some f \<Rightarrow> upd_file f (\<lambda>fp. fp\<lparr>f_count := f_count fp + 1\<rparr>) s)"

definition inc_inode :: "nat option \<Rightarrow> bufw \<Rightarrow> bufw" where
  "inc_inode n s = (case n of None \<Rightarrow> s | Some n \<Rightarrow> upd_inode n (\<lambda>i. i\<lparr>i_count := i_count i + 1\<rparr>) s)"

text \<open>The structures \<open>tss\<close> and \<open>ldt\<close> are 744 and 720 bytes into the task structure.\<close>

definition copy_process :: "(i387_struct \<Rightarrow> i387_struct) \<Rightarrow> nat \<Rightarrow> fork_regs \<Rightarrow> kernw \<Rightarrow> (int \<times> kernw) kres" where
  "copy_process fninit nr r s =
     (let (p, m) = get_free_page (bw_mm (kw s))
      in if p = 0 then Inr (- EAGAIN, s\<lparr>kw := (kw s)\<lparr>bw_mm := m\<rparr>\<rparr>)
         else
           let s = s\<lparr>kw := (kw s)\<lparr>bw_mm := m\<rparr>, task_page := (task_page s)(nr := p)\<rparr>;
               s = set_task nr (Some (child_of nr p (last_pid s) (jiffies (bw_sched (kw s))) r (kcurr s))) s;
               s = save_math fninit nr s
           in bindE (copy_mem nr s) (\<lambda>(err, s).
                if err \<noteq> 0
                then bindE (on_mm (free_page p) (set_task nr None s)) (\<lambda>s. Inr (- EAGAIN, s))
                else
                  let w = fold (\<lambda>i. inc_file (t_filp (kcurr s) i)) [0..<NR_OPEN] (kw s);
                      w = inc_inode (t_executable (kcurr s)) (inc_inode (t_root (kcurr s)) (inc_inode (t_pwd (kcurr s)) w));
                      s = s\<lparr>kw := w, gdt := (gdt s)(2 * nr + 4 := set_tssldt_desc (p + 744) 0x89,
                                                  2 * nr + 5 := set_tssldt_desc (p + 720) 0x82)\<rparr>;
                      s = mod_task nr (\<lambda>p. p\<lparr>t_state := TASK_RUNNING\<rparr>) s
                  in Inr (last_pid s, s)))"

text \<open>The search for a number no task has; among 65 numbers one is free.\<close>

definition next_pid :: "int \<Rightarrow> int" where
  "next_pid l = (let l = sint (word_of_int (l + 1) :: u32) in if l < 0 then 1 else l)"

definition pid_used :: "kernw \<Rightarrow> int \<Rightarrow> bool" where
  "pid_used s l = (\<exists>i < NR_TASKS. case tasks s i of None \<Rightarrow> False | Some t \<Rightarrow> t_pid t = l)"

primrec pid_loop :: "nat \<Rightarrow> int \<Rightarrow> kernw \<Rightarrow> int kres" where
  "pid_loop 0 l s = Inl Hang"
| "pid_loop (Suc n) l s = (let l = next_pid l in if pid_used s l then pid_loop n l s else Inr l)"

definition find_empty_process :: "kernw \<Rightarrow> (int \<times> kernw) kres" where
  "find_empty_process s =
     bindE (pid_loop 65 (last_pid s) s) (\<lambda>l.
       Inr (case find (\<lambda>i. tasks s i = None) [1..<NR_TASKS] of Some i \<Rightarrow> int i | None \<Rightarrow> - EAGAIN,
            s\<lparr>last_pid := l\<rparr>))"

section \<open>exit.c\<close>

definition release :: "(kernw \<Rightarrow> kernw kres) \<Rightarrow> nat option \<Rightarrow> kernw \<Rightarrow> kernw kres" where
  "release sw p s =
     (case p of
        None \<Rightarrow> Inr s
      | Some i \<Rightarrow>
          if 1 \<le> i \<and> i < NR_TASKS \<and> tasks s i \<noteq> None
          then bindE (on_mm (free_page (task_page s i)) (set_task i None s)) sw
          else Inl (Panic ''trying to release non-existent task''))"

definition sig_bit :: "nat \<Rightarrow> u32" where
  "sig_bit sig = push_bit (sig - 1) 1"

definition add_signal :: "nat \<Rightarrow> task_struct \<Rightarrow> task_struct" where
  "add_signal sig t = t\<lparr>t_signal := t_signal t OR sig_bit sig\<rparr>"

definition send_sig :: "int \<Rightarrow> nat \<Rightarrow> bool \<Rightarrow> kernw \<Rightarrow> int \<times> kernw" where
  "send_sig sig p priv s =
     (case tasks s p of
        None \<Rightarrow> (- EINVAL, s)
      | Some t \<Rightarrow>
          if sig < 1 \<or> 32 < sig then (- EINVAL, s)
          else if priv \<or> t_euid (kcurr s) = t_euid t \<or> suser (kw s) then (0, mod_task p (add_signal (nat sig)) s)
          else (- EPERM, s))"

definition kill_session :: "kernw \<Rightarrow> kernw" where
  "kill_session s =
     fold (\<lambda>i s. mod_task i (\<lambda>t. if t_session t = t_session (kcurr s) then add_signal SIGHUP t else t) s)
       (rev [1..<NR_TASKS]) s"

text \<open>The loops of \<open>sys_kill\<close> and their body: the last error is the result.\<close>

definition kill_step ::
  "(kernw \<Rightarrow> task_struct option \<Rightarrow> bool) \<Rightarrow> int \<Rightarrow> bool \<Rightarrow> nat \<Rightarrow> int \<times> kernw \<Rightarrow> int \<times> kernw" where
  "kill_step sel sig priv i rs =
     (let (retval, s) = rs
      in if sel s (tasks s i)
         then let (err, s) = send_sig sig i priv s in (if err \<noteq> 0 then err else retval, s)
         else (retval, s))"

definition kill_tasks :: "(kernw \<Rightarrow> task_struct option \<Rightarrow> bool) \<Rightarrow> int \<Rightarrow> bool \<Rightarrow> kernw \<Rightarrow> int \<times> kernw" where
  "kill_tasks sel sig priv s = fold (kill_step sel sig priv) (rev [1..<NR_TASKS]) (0, s)"

definition of_task :: "(kernw \<Rightarrow> task_struct \<Rightarrow> bool) \<Rightarrow> kernw \<Rightarrow> task_struct option \<Rightarrow> bool" where
  "of_task P s t = (case t of None \<Rightarrow> False | Some t \<Rightarrow> P s t)"

definition sys_kill :: "int \<Rightarrow> int \<Rightarrow> kernw \<Rightarrow> int \<times> kernw" where
  "sys_kill pid sig s =
     (if pid = 0 then kill_tasks (of_task (\<lambda>s t. t_pgrp t = t_pid (kcurr s))) sig True s
      else if 0 < pid then kill_tasks (of_task (\<lambda>s t. t_pid t = pid)) sig False s
      else if pid = - 1 then kill_tasks (\<lambda>s t. True) sig False s
      else kill_tasks (of_task (\<lambda>s t. t_pgrp t = - pid)) sig False s)"

text \<open>The second result is whether the task has been released.\<close>

definition tell_father :: "(kernw \<Rightarrow> kernw kres) \<Rightarrow> int \<Rightarrow> kernw \<Rightarrow> (bool \<times> kernw) kres" where
  "tell_father sw pid s =
     (case (if pid = 0 then None
            else find (\<lambda>i. of_task (\<lambda>s t. t_pid t = pid) s (tasks s i)) [0..<NR_TASKS]) of
        Some i \<Rightarrow> Inr (False, mod_task i (add_signal SIGCHLD) s)
      | None \<Rightarrow> bindE (release sw (Some (me s)) s) (\<lambda>s. Inr (True, s)))"

text \<open>A task that leaves: \<open>schedule\<close> switches to another one and does not return.\<close>

definition leave :: "kernw \<Rightarrow> kernw kres" where
  "leave s = bindE (schedule (bw_sched (kw s))) (\<lambda>sc. Inr (s\<lparr>kw := (kw s)\<lparr>bw_sched := sc\<rparr>\<rparr>))"

definition kupd_curr :: "(task_struct \<Rightarrow> task_struct) \<Rightarrow> kernw \<Rightarrow> kernw" where
  "kupd_curr f s = s\<lparr>kw := upd_curr f (kw s)\<rparr>"

text \<open>The children of the task go to task 1, which is told of those that are zombies.\<close>

definition reparent :: "kernw \<Rightarrow> kernw" where
  "reparent s =
     fold (\<lambda>i s.
       case tasks s i of
         None \<Rightarrow> s
       | Some t \<Rightarrow>
           if t_father t = t_pid (kcurr s)
           then
             let s = mod_task i (\<lambda>t. t\<lparr>t_father := 1\<rparr>) s
             in if t_state t = TASK_ZOMBIE then snd (send_sig (int SIGCHLD) 1 True s) else s
           else s) [0..<NR_TASKS] s"

definition drop_math :: "kernw \<Rightarrow> kernw" where
  "drop_math s =
     (if last_task_used_math (bw_sched (kw s)) = Some (me s)
      then s\<lparr>kw := (kw s)\<lparr>bw_sched := (bw_sched (kw s))\<lparr>last_task_used_math := None\<rparr>\<rparr>\<rparr> else s)"

definition close_files :: "benv \<Rightarrow> bufw \<Rightarrow> bufw kres" where
  "close_files e w =
     foldE (\<lambda>i w. if t_filp (curr w) i \<noteq> None then bindE (sys_close e i w) (\<lambda>(_, w). Inr w) else Inr w) [0..<NR_OPEN] w"

definition put_inodes :: "benv \<Rightarrow> bufw \<Rightarrow> bufw kres" where
  "put_inodes e w =
     bindE (iput e (t_pwd (curr w)) w) (\<lambda>w.
     let w = upd_curr (\<lambda>t. t\<lparr>t_pwd := None\<rparr>) w
     in bindE (iput e (t_root (curr w)) w) (\<lambda>w.
     let w = upd_curr (\<lambda>t. t\<lparr>t_root := None\<rparr>) w
     in bindE (iput e (t_executable (curr w)) w) (\<lambda>w.
          Inr (upd_curr (\<lambda>t. t\<lparr>t_executable := None\<rparr>) w))))"

text \<open>From \<open>current->state = TASK_ZOMBIE\<close> on.\<close>

definition become_zombie :: "u32 \<Rightarrow> kernw \<Rightarrow> kernw kres" where
  "become_zombie code s =
     (let s = kupd_curr (\<lambda>t. t\<lparr>t_state := TASK_ZOMBIE, t_exit_code := code\<rparr>) s
      in bindE (tell_father leave (t_father (kcurr s)) s) (\<lambda>(gone, s). if gone then Inr s else leave s))"

definition do_exit :: "benv \<Rightarrow> (nat \<Rightarrow> int \<Rightarrow> bufw \<Rightarrow> bufw kres) \<Rightarrow> u32 \<Rightarrow> kernw \<Rightarrow> kernw kres" where
  "do_exit e set_pgrp code s =
     bindE (on_mm (free_page_tables (get_base (t_ldt (kcurr s) 1)) (get_limit 0x0f (kw s))) s) (\<lambda>s.
     bindE (on_mm (free_page_tables (get_base (t_ldt (kcurr s) 2)) (get_limit 0x17 (kw s))) s) (\<lambda>s.
     bindE (on_bufw (close_files e) (reparent s)) (\<lambda>s.
     bindE (on_bufw (put_inodes e) s) (\<lambda>s.
     bindE (if t_leader (kcurr s) \<noteq> 0 \<and> 0 \<le> t_tty (kcurr s)
            then on_bufw (set_pgrp (nat (t_tty (kcurr s))) 0) s else Inr s) (\<lambda>s.
     let s = drop_math s;
         s = (if t_leader (kcurr s) \<noteq> 0 then kill_session s else s)
     in become_zombie code s)))))"

definition sys_exit :: "benv \<Rightarrow> (nat \<Rightarrow> int \<Rightarrow> bufw \<Rightarrow> bufw kres) \<Rightarrow> u32 \<Rightarrow> kernw \<Rightarrow> kernw kres" where
  "sys_exit e set_pgrp error_code s = do_exit e set_pgrp (push_bit 8 (error_code AND 0xff)) s"

text \<open>Whether task \<open>t\<close> is one the caller of \<open>sys_waitpid\<close> waits for.\<close>

definition waited_for :: "int \<Rightarrow> task_struct \<Rightarrow> task_struct \<Rightarrow> bool" where
  "waited_for pid c t \<longleftrightarrow>
     t_father t = t_pid c \<and>
     (if 0 < pid then t_pid t = pid
      else if pid = 0 then t_pgrp t = t_pgrp c
      else pid = - 1 \<or> t_pgrp t = - pid)"

text \<open>The search of the table from slot \<open>i\<close> down: a result, or the flag that a child was seen.\<close>

fun wait_scan ::
  "(kernw \<Rightarrow> kernw kres) \<Rightarrow> int \<Rightarrow> u32 \<Rightarrow> u32 \<Rightarrow> nat list \<Rightarrow> bool \<Rightarrow> kernw \<Rightarrow> ((int + bool) \<times> kernw) kres" where
  "wait_scan sw pid stat_addr options [] flag s = Inr (Inr flag, s)"
| "wait_scan sw pid stat_addr options (i # is) flag s =
     (case tasks s i of
        None \<Rightarrow> wait_scan sw pid stat_addr options is flag s
      | Some t \<Rightarrow>
          if i = me s \<or> \<not> waited_for pid (kcurr s) t then wait_scan sw pid stat_addr options is flag s
          else if t_state t = TASK_STOPPED
          then if options AND 2 = 0 then wait_scan sw pid stat_addr options is flag s
               else Inr (Inl (t_pid t), s\<lparr>kw := (kw s)\<lparr>bw_fs := put_fs_long 0x7f stat_addr (bw_fs (kw s))\<rparr>\<rparr>)
          else if t_state t = TASK_ZOMBIE
          then
            let s = kupd_curr (\<lambda>c. c\<lparr>t_cutime := wrap32 (t_cutime c + t_utime t), t_cstime := wrap32 (t_cstime c + t_stime t)\<rparr>) s
            in bindE (release sw (Some i) s) (\<lambda>s.
                 Inr (Inl (t_pid t), s\<lparr>kw := (kw s)\<lparr>bw_fs := put_fs_long (t_exit_code t) stat_addr (bw_fs (kw s))\<rparr>\<rparr>))
          else wait_scan sw pid stat_addr options is True s)"

primrec wait_loop :: "nat \<Rightarrow> (kernw \<Rightarrow> kernw kres) \<Rightarrow> int \<Rightarrow> u32 \<Rightarrow> u32 \<Rightarrow> kernw \<Rightarrow> (int \<times> kernw) kres" where
  "wait_loop 0 sw pid stat_addr options s = Inl Hang"
| "wait_loop (Suc n) sw pid stat_addr options s =
     bindE (wait_scan sw pid stat_addr options (rev [1..<NR_TASKS]) False s) (\<lambda>(r, s).
       case r of
         Inl v \<Rightarrow> Inr (v, s)
       | Inr flag \<Rightarrow>
           if \<not> flag then Inr (- ECHILD, s)
           else if options AND 1 \<noteq> 0 then Inr (0, s)
           else bindE (sw (kupd_curr (\<lambda>t. t\<lparr>t_state := TASK_INTERRUPTIBLE\<rparr>) s)) (\<lambda>s.
             let s = kupd_curr (\<lambda>t. t\<lparr>t_signal := t_signal t AND NOT (sig_bit SIGCHLD)\<rparr>) s
             in if t_signal (kcurr s) = 0 then wait_loop n sw pid stat_addr options s else Inr (- EINTR, s)))"

definition sys_waitpid :: "benv \<Rightarrow> (kernw \<Rightarrow> kernw kres) \<Rightarrow> int \<Rightarrow> u32 \<Rightarrow> u32 \<Rightarrow> kernw \<Rightarrow> (int \<times> kernw) kres" where
  "sys_waitpid e sw pid stat_addr options s =
     bindE (on_bufw (verify_area stat_addr 4) s) (wait_loop (e_fuel e) sw pid stat_addr options)"

end
