(* ===== verification/Task_Life.thy ===== *)
theory Task_Life
  imports Process
begin

text \<open>
  Properties of \<open>kernel/fork.c\<close> and \<open>kernel/exit.c\<close>: descriptors, the choice of process numbers,
  signals sent to tasks, children waited for, and the task a fork makes.
\<close>

section \<open>Descriptors\<close>

lemma nlt_numeral_mask:
  "(0xffff :: u32) = mask 16" "(0xff :: u32) = mask 8" "(0xff000000 :: u32) = push_bit 24 (mask 8)"
  "(0xffff0000 :: u32) = push_bit 16 (mask 16)" "(0x00ffff00 :: u32) = push_bit 8 (mask 16)"
  "(0xfff0ffff :: u32) = mask 16 OR push_bit 20 (mask 12)" "(0xff0000 :: u32) = push_bit 16 (mask 8)"
  "(0xf0000 :: u32) = push_bit 16 (mask 4)" "(0xfff :: u32) = mask 12" "(0xff0000ff :: u32) = mask 8 OR push_bit 24 (mask 8)"
  "(0xf0ff00 :: u32) = push_bit 8 (mask 8) OR push_bit 20 (mask 4)"
  by (simp_all add: mask_eq_exp_minus_1 push_bit_eq_mult)

text \<open>The parts of a word the base is spread over.\<close>

lemma byte_ranges:
  obtains "(n::nat) < 16" | m where "n = 16 + m" "m < 4" | m where "n = 20 + m" "m < 4" | m where "n = 24 + m"
proof -
  have "n < 16 \<or> (\<exists>m. n = 16 + m \<and> m < 4) \<or> (\<exists>m. n = 20 + m \<and> m < 4) \<or> (\<exists>m. n = 24 + m)" by presburger
  then show thesis using that by blast
qed

lemma set_base_desc:
  "get_base (set_base b d) = b" "lsl (set_base b d) = lsl d" "bit (desc_b (set_base b d)) 23 = bit (desc_b d) 23"
proof -
  show "get_base (set_base b d) = b"
  proof (rule bit_word_eqI)
    fix n assume "n < LENGTH(32)"
    then show "bit (get_base (set_base b d)) n = bit b n"
      unfolding get_base_def set_base_def nlt_numeral_mask
      by (cases n rule: byte_ranges) (auto simp: bit_simps dest: bit_imp_le_length)
  qed
  show "bit (desc_b (set_base b d)) 23 = bit (desc_b d) 23"
    unfolding set_base_def nlt_numeral_mask by (auto simp: bit_simps)
  then show "lsl (set_base b d) = lsl d"
    unfolding lsl_def Let_def set_base_def nlt_numeral_mask by (auto intro!: bit_word_eqI simp: bit_simps)
qed

lemma set_limit_desc:
  "get_base (set_limit l d) = get_base d" "bit (desc_b (set_limit l d)) 23 = bit (desc_b d) 23"
  "bit (desc_b d) 23 \<Longrightarrow> lsl (set_limit l d) = (l - 1) OR 0xfff"
proof -
  show b: "bit (desc_b (set_limit l d)) 23 = bit (desc_b d) 23"
    unfolding set_limit_def Let_def nlt_numeral_mask by (auto simp: bit_simps dest: bit_imp_le_length)
  show "get_base (set_limit l d) = get_base d"
  proof (rule bit_word_eqI)
    fix n assume "n < LENGTH(32)"
    then show "bit (get_base (set_limit l d)) n = bit (get_base d) n"
      unfolding get_base_def set_limit_def Let_def nlt_numeral_mask
      by (cases n rule: byte_ranges) (auto simp: bit_simps dest: bit_imp_le_length)
  qed
  assume g: "bit (desc_b d) 23"
  have "lsl (set_limit l d) = push_bit 12 (drop_bit 12 (l - 1)) OR mask 12"
    unfolding lsl_def b Let_def set_limit_def nlt_numeral_mask using g
    by (auto intro!: bit_word_eqI simp: bit_simps)
  also have "\<dots> = (l - 1) OR 0xfff"
    unfolding nlt_numeral_mask by (rule bit_word_eqI) (auto simp: bit_simps)
  finally show "lsl (set_limit l d) = (l - 1) OR 0xfff" .
qed

text \<open>
  What \<open>set_base\<close> and \<open>set_limit\<close> spread over the two words of a descriptor, \<open>get_base\<close> and the
  instruction under \<open>get_limit\<close> find again: the base exactly, the limit up to the end of its
  page, when the descriptor counts its limit in pages.
\<close>

theorem descriptor_roundtrip:
  assumes "bit (desc_b d) 23"
  shows "get_base (set_limit l (set_base b d)) = b \<and> lsl (set_limit l (set_base b d)) = (l - 1) OR 0xfff"
  using assms by (simp add: set_base_desc set_limit_desc)

section \<open>Process numbers\<close>

lemma find_from_1_Some:
  "find P [1..<n] = Some i \<longleftrightarrow> 1 \<le> i \<and> i < n \<and> P i \<and> (\<forall>j. 1 \<le> j \<longrightarrow> j < i \<longrightarrow> \<not> P j)"
proof -
  have "find P [1..<n] = Some i \<longleftrightarrow> (\<exists>k < n - 1. P (1 + k) \<and> i = 1 + k \<and> (\<forall>j < k. \<not> P (1 + j)))"
    by (auto simp: find_Some_iff)
  also have "\<dots> \<longleftrightarrow> 1 \<le> i \<and> i < n \<and> P i \<and> (\<forall>j. 1 \<le> j \<longrightarrow> j < i \<longrightarrow> \<not> P j)"
  proof
    assume "\<exists>k < n - 1. P (1 + k) \<and> i = 1 + k \<and> (\<forall>j < k. \<not> P (1 + j))"
    then obtain k where k: "k < n - 1" "P (1 + k)" "i = 1 + k" "\<forall>j < k. \<not> P (1 + j)" by blast
    have "\<not> P j" if "1 \<le> j" "j < i" for j using k(4) [rule_format, of "j - 1"] k(3) that by simp
    then show "1 \<le> i \<and> i < n \<and> P i \<and> (\<forall>j. 1 \<le> j \<longrightarrow> j < i \<longrightarrow> \<not> P j)" using k by auto
  next
    assume "1 \<le> i \<and> i < n \<and> P i \<and> (\<forall>j. 1 \<le> j \<longrightarrow> j < i \<longrightarrow> \<not> P j)"
    then show "\<exists>k < n - 1. P (1 + k) \<and> i = 1 + k \<and> (\<forall>j < k. \<not> P (1 + j))" by (intro exI [of _ "i - 1"]) auto
  qed
  finally show ?thesis .
qed

lemma next_pid_range:
  assumes "0 \<le> l" "l < 2147483648"
  shows "next_pid l = (if l + 1 = 2147483648 then 1 else l + 1)"
proof (cases "l + 1 = 2147483648")
  case True
  then show ?thesis by (simp add: next_pid_def)
next
  case False
  then have "sint (word_of_int (l + 1) :: u32) = l + 1"
    using assms by (simp add: signed_of_int signed_take_bit_int_eq_self del: of_int_add)
  then show ?thesis using False assms by (simp add: next_pid_def)
qed

lemma next_pid_iter:
  assumes "0 \<le> l" "l < 2147483648" "0 < k" "k \<le> 65"
  shows "(next_pid ^^ k) l = (if l + int k < 2147483648 then l + int k else l + int k - 2147483647)"
  using assms(3,4)
proof (induction k)
  case (Suc k)
  show ?case
  proof (cases "k = 0")
    case True
    then show ?thesis using next_pid_range [OF assms(1,2)] assms by auto
  next
    case False
    let ?v = "(next_pid ^^ k) l"
    have v: "?v = (if l + int k < 2147483648 then l + int k else l + int k - 2147483647)" using Suc False by simp
    have r: "0 \<le> ?v" "?v < 2147483648" using v Suc.prems assms(1,2) by (auto split: if_splits)
    have "(next_pid ^^ Suc k) l = next_pid ?v" by simp
    then show ?thesis using v Suc.prems assms(1,2) unfolding next_pid_range [OF r] by (auto split: if_splits)
  qed
qed simp

lemma pid_loop_iter:
  "(\<exists>k. 0 < k \<and> k \<le> n \<and> \<not> pid_used s ((next_pid ^^ k) l) \<and> pid_loop n l s = Inr ((next_pid ^^ k) l)) \<or>
   (\<forall>k. 0 < k \<longrightarrow> k \<le> n \<longrightarrow> pid_used s ((next_pid ^^ k) l))"
proof (induction n arbitrary: l)
  case (Suc n)
  have i: "(next_pid ^^ k) (next_pid l) = (next_pid ^^ Suc k) l" for k by (simp add: funpow_swap1)
  show ?case
  proof (cases "pid_used s (next_pid l)")
    case False
    then show ?thesis by (intro disjI1 exI [of _ 1]) (simp add: Let_def)
  next
    case used: True
    from Suc [of "next_pid l"] show ?thesis
    proof
      assume "\<exists>k. 0 < k \<and> k \<le> n \<and> \<not> pid_used s ((next_pid ^^ k) (next_pid l)) \<and>
        pid_loop n (next_pid l) s = Inr ((next_pid ^^ k) (next_pid l))"
      then obtain k where "0 < k" "k \<le> n" "\<not> pid_used s ((next_pid ^^ Suc k) l)"
        "pid_loop n (next_pid l) s = Inr ((next_pid ^^ Suc k) l)" unfolding i by blast
      then show ?thesis using used by (intro disjI1 exI [of _ "Suc k"]) (simp add: Let_def)
    next
      assume a: "\<forall>k. 0 < k \<longrightarrow> k \<le> n \<longrightarrow> pid_used s ((next_pid ^^ k) (next_pid l))"
      have "pid_used s ((next_pid ^^ k) l)" if "0 < k" "k \<le> Suc n" for k
      proof (cases "k = 1")
        case False
        then have "pid_used s ((next_pid ^^ (k - 1)) (next_pid l))" "k = Suc (k - 1)" using a that by auto
        then show ?thesis unfolding i by simp
      qed (use used in simp)
      then show ?thesis by blast
    qed
  qed
qed simp

text \<open>A table of 64 tasks has at most 64 process numbers.\<close>

lemma pids_card: "card {l. pid_used s l} \<le> NR_TASKS" "finite {l. pid_used s l}"
proof -
  have sub: "{l. pid_used s l} \<subseteq> (\<lambda>i. case tasks s i of None \<Rightarrow> 0 | Some t \<Rightarrow> t_pid t) ` {..<NR_TASKS}"
  proof
    fix l assume "l \<in> {l. pid_used s l}"
    then obtain i t where "i < NR_TASKS" "tasks s i = Some t" "t_pid t = l"
      by (auto simp: pid_used_def split: option.splits)
    then show "l \<in> (\<lambda>i. case tasks s i of None \<Rightarrow> 0 | Some t \<Rightarrow> t_pid t) ` {..<NR_TASKS}"
      by (intro image_eqI [of _ _ i]) simp_all
  qed
  show "finite {l. pid_used s l}" using finite_surj [OF _ sub] by simp
  have "card {l. pid_used s l} \<le> card ((\<lambda>i. case tasks s i of None \<Rightarrow> 0 | Some t \<Rightarrow> t_pid t) ` {..<NR_TASKS})"
    by (rule card_mono [OF _ sub]) simp
  also have "\<dots> \<le> NR_TASKS" using card_image_le [of "{..<NR_TASKS}"] by force
  finally show "card {l. pid_used s l} \<le> NR_TASKS" .
qed

lemma pid_loop_returns:
  assumes "0 \<le> l" "l < 2147483648"
  shows "\<exists>p. pid_loop 65 l s = Inr p \<and> \<not> pid_used s p \<and> 0 < p \<and> p < 2147483648"
proof -
  have "\<not> (\<forall>k. 0 < k \<longrightarrow> k \<le> 65 \<longrightarrow> pid_used s ((next_pid ^^ k) l))"
  proof
    assume "\<forall>k. 0 < k \<longrightarrow> k \<le> 65 \<longrightarrow> pid_used s ((next_pid ^^ k) l)"
    then have "(\<lambda>k. (next_pid ^^ k) l) ` {1..65} \<subseteq> {l. pid_used s l}" by auto
    moreover have "inj_on (\<lambda>k. (next_pid ^^ k) l) {1..65}"
    proof (rule inj_onI)
      fix a b :: nat assume r: "a \<in> {1..65}" "b \<in> {1..65}" and eq: "(next_pid ^^ a) l = (next_pid ^^ b) l"
      from r have b: "0 < a" "a \<le> 65" "0 < b" "b \<le> 65" by auto
      show "a = b" using eq b unfolding next_pid_iter [OF assms b(1,2)] next_pid_iter [OF assms b(3,4)]
        by (auto split: if_splits)
    qed
    ultimately have "card {1..65::nat} \<le> card {l. pid_used s l}"
      using card_inj_on_le pids_card(2) by blast
    then show False using pids_card(1) [of s] by simp
  qed
  with pid_loop_iter [of 65 s l] obtain k where k: "0 < k" "k \<le> 65" "\<not> pid_used s ((next_pid ^^ k) l)"
    "pid_loop 65 l s = Inr ((next_pid ^^ k) l)" by blast
  then show ?thesis using assms by (intro exI [of _ "(next_pid ^^ k) l"]) (auto simp: next_pid_iter)
qed

text \<open>
  C9: \<open>find_empty_process\<close> returns: among 65 consecutive numbers one is not in use, so the search
  ends; \<open>last_pid\<close> is then positive and the number of no task; the result is the lowest free
  slot above 0, or \<open>-EAGAIN\<close> when all are taken.
\<close>

theorem find_empty_process_fresh:
  assumes "0 \<le> last_pid s" "last_pid s < 2147483648"
  shows "\<exists>r p. find_empty_process s = Inr (r, s\<lparr>last_pid := p\<rparr>) \<and> 0 < p \<and> p < 2147483648 \<and>
    (\<forall>i < NR_TASKS. \<forall>t. tasks s i = Some t \<longrightarrow> t_pid t \<noteq> p) \<and>
    (r = - EAGAIN \<and> (\<forall>i. 1 \<le> i \<longrightarrow> i < NR_TASKS \<longrightarrow> tasks s i \<noteq> None) \<or>
     (\<exists>i. r = int i \<and> 1 \<le> i \<and> i < NR_TASKS \<and> tasks s i = None \<and> (\<forall>j. 1 \<le> j \<longrightarrow> j < i \<longrightarrow> tasks s j \<noteq> None)))"
proof -
  obtain p where p: "pid_loop 65 (last_pid s) s = Inr p" "\<not> pid_used s p" "0 < p" "p < 2147483648"
    using pid_loop_returns [OF assms] by blast
  have q: "\<forall>i < NR_TASKS. \<forall>t. tasks s i = Some t \<longrightarrow> t_pid t \<noteq> p"
    using p(2) by (fastforce simp: pid_used_def)
  let ?f = "find (\<lambda>i. tasks s i = None) [1..<NR_TASKS]"
  let ?r = "case ?f of Some i \<Rightarrow> int i | None \<Rightarrow> - EAGAIN"
  have "?r = - EAGAIN \<and> (\<forall>i. 1 \<le> i \<longrightarrow> i < NR_TASKS \<longrightarrow> tasks s i \<noteq> None) \<or>
     (\<exists>i. ?r = int i \<and> 1 \<le> i \<and> i < NR_TASKS \<and> tasks s i = None \<and> (\<forall>j. 1 \<le> j \<longrightarrow> j < i \<longrightarrow> tasks s j \<noteq> None))"
  proof (cases ?f)
    case None
    then have "\<forall>i. 1 \<le> i \<longrightarrow> i < NR_TASKS \<longrightarrow> tasks s i \<noteq> None" by (simp add: find_None_iff del: upt_rec_numeral)
    then show ?thesis unfolding None by simp
  next
    case (Some i)
    then have "1 \<le> i \<and> i < NR_TASKS \<and> tasks s i = None \<and> (\<forall>j. 1 \<le> j \<longrightarrow> j < i \<longrightarrow> tasks s j \<noteq> None)"
      by (rule find_from_1_Some [THEN iffD1])
    moreover have "?r = int i" using Some by simp
    ultimately show ?thesis by blast
  qed
  then show ?thesis
    using p q by (intro exI [of _ ?r] exI [of _ p]) (simp add: find_empty_process_def)
qed

section \<open>Signals to tasks\<close>

lemma mod_task_simps [simp]:
  "tasks (mod_task i f s) j = (if j = i then map_option f (tasks s i) else tasks s j)"
  "bw_fs (kw (mod_task i f s)) = bw_fs (kw s)" "me (mod_task i f s) = me s"
  by (simp_all add: mod_task_def set_task_def tasks_def me_def)

lemma kcurr_mod_task:
  "kcurr (mod_task i f s) = (if i = me s \<and> tasks s i \<noteq> None then f (kcurr s) else kcurr s)"
  by (auto simp: kcurr_def curr_def cur_def me_def mod_task_def set_task_def tasks_def split: option.splits)

lemma add_signal_simps [simp]:
  "t_pid (add_signal n t) = t_pid t" "t_euid (add_signal n t) = t_euid t" "t_pgrp (add_signal n t) = t_pgrp t"
  by (simp_all add: add_signal_def)

text \<open>The test of \<open>send_sig\<close>, what it returns for a selected slot, and the tasks it has reached.\<close>

definition may_signal :: "bool \<Rightarrow> kernw \<Rightarrow> task_struct \<Rightarrow> bool" where
  "may_signal priv s t \<longleftrightarrow> priv \<or> t_euid (kcurr s) = t_euid t \<or> suser (kw s)"

definition sig_err :: "bool \<Rightarrow> kernw \<Rightarrow> task_struct option \<Rightarrow> int" where
  "sig_err priv s t = (case t of None \<Rightarrow> - EINVAL | Some t \<Rightarrow> if may_signal priv s t then 0 else - EPERM)"

definition signalled :: "int \<Rightarrow> bool \<Rightarrow> kernw \<Rightarrow> task_struct option \<Rightarrow> task_struct option" where
  "signalled sig priv s t =
     map_option (\<lambda>t. if may_signal priv s t then add_signal (nat sig) t else t) t"

lemma send_sig_effect:
  assumes "1 \<le> sig" "sig \<le> 32"
  shows "fst (send_sig sig i priv s) = sig_err priv s (tasks s i)"
    "tasks (snd (send_sig sig i priv s)) j = (if j = i then signalled sig priv s (tasks s i) else tasks s j)"
    "t_pid (kcurr (snd (send_sig sig i priv s))) = t_pid (kcurr s)"
    "t_euid (kcurr (snd (send_sig sig i priv s))) = t_euid (kcurr s)"
  using assms by (auto simp: send_sig_def sig_err_def signalled_def may_signal_def kcurr_mod_task split: option.splits)

lemma may_signal_cong: "t_euid (kcurr s') = t_euid (kcurr s) \<Longrightarrow> may_signal priv s' = may_signal priv s"
  by (simp add: may_signal_def fun_eq_iff suser_def kcurr_def)

lemma sig_cong:
  assumes "t_euid (kcurr s') = t_euid (kcurr s)"
  shows "sig_err priv s' = sig_err priv s" "signalled sig priv s' = signalled sig priv s"
  by (rule ext, simp only: sig_err_def may_signal_cong [OF assms])
    (rule ext, simp only: signalled_def may_signal_cong [OF assms])

text \<open>The loops of \<open>sys_kill\<close>, for a test of the tasks that looks only at the number of the caller.\<close>

definition by_pid :: "(kernw \<Rightarrow> 'a \<Rightarrow> bool) \<Rightarrow> bool" where
  "by_pid sel \<longleftrightarrow> (\<forall>s s' t. t_pid (kcurr s') = t_pid (kcurr s) \<longrightarrow> sel s' t = sel s t)"

lemma kill_fold:
  assumes "1 \<le> sig" "sig \<le> 32" and sel: "by_pid sel"
  shows "distinct xs \<Longrightarrow>
    fold (kill_step sel sig priv) xs (r, s) = (r', s') \<Longrightarrow>
    (\<forall>i. tasks s' i = (if i \<in> set xs \<and> sel s (tasks s i) then signalled sig priv s (tasks s i) else tasks s i)) \<and>
    (r' = 0 \<longleftrightarrow> r = 0 \<and> (\<forall>i \<in> set xs. sel s (tasks s i) \<longrightarrow> sig_err priv s (tasks s i) = 0))"
proof (induction xs arbitrary: r s)
  case (Cons x xs)
  show ?case
  proof (cases "sel s (tasks s x)")
    case False
    then have "kill_step sel sig priv x (r, s) = (r, s)" by (simp add: kill_step_def)
    then show ?thesis using Cons False by auto
  next
    case True
    let ?r = "send_sig sig x priv s"
    note E = send_sig_effect [OF assms(1,2), of x priv s]
    have eu: "t_euid (kcurr (snd ?r)) = t_euid (kcurr s)" by (rule E(4))
    have sl: "sel (snd ?r) t = sel s t" for t using sel E(3) unfolding by_pid_def by blast
    have "kill_step sel sig priv x (r, s) = (if fst ?r \<noteq> 0 then fst ?r else r, snd ?r)"
      using True by (simp add: kill_step_def split_beta)
    then have "fold (kill_step sel sig priv) xs (if fst ?r \<noteq> 0 then fst ?r else r, snd ?r) = (r', s')"
      using Cons.prems(2) by simp
    note IH = Cons.IH [OF _ this]
    have d: "x \<notin> set xs" "distinct xs" using Cons.prems(1) by auto
    have n: "(\<forall>i. tasks s' i = (if i \<in> set xs \<and> sel s (tasks (snd ?r) i) then signalled sig priv s (tasks (snd ?r) i)
        else tasks (snd ?r) i)) \<and>
      (r' = 0 \<longleftrightarrow> (if fst ?r \<noteq> 0 then fst ?r else r) = 0 \<and>
        (\<forall>i \<in> set xs. sel s (tasks (snd ?r) i) \<longrightarrow> sig_err priv s (tasks (snd ?r) i) = 0))"
      using IH [OF d(2)] by (simp add: sl sig_cong [OF eu])
    have t: "tasks (snd ?r) i = tasks s i" if "i \<noteq> x" for i using that by (simp add: E(2))
    show ?thesis
    proof (intro conjI allI)
      fix i
      show "tasks s' i = (if i \<in> set (x # xs) \<and> sel s (tasks s i) then signalled sig priv s (tasks s i) else tasks s i)"
        using n d True by (cases "i = x") (simp_all add: t E(2))
    next
      have "(\<forall>i \<in> set xs. sel s (tasks (snd ?r) i) \<longrightarrow> sig_err priv s (tasks (snd ?r) i) = 0) \<longleftrightarrow>
        (\<forall>i \<in> set xs. sel s (tasks s i) \<longrightarrow> sig_err priv s (tasks s i) = 0)"
        using d(1) by (metis t)
      then show "r' = 0 \<longleftrightarrow> r = 0 \<and> (\<forall>i \<in> set (x # xs). sel s (tasks s i) \<longrightarrow> sig_err priv s (tasks s i) = 0)"
        using n True by (auto simp: E(1))
    qed
  qed
qed auto

lemma kill_tasks_effect:
  assumes "1 \<le> sig" "sig \<le> 32" and sel: "by_pid sel"
  shows "tasks (snd (kill_tasks sel sig priv s)) i =
      (if 1 \<le> i \<and> i < NR_TASKS \<and> sel s (tasks s i) then signalled sig priv s (tasks s i) else tasks s i)"
    "fst (kill_tasks sel sig priv s) = 0 \<longleftrightarrow>
      (\<forall>i. 1 \<le> i \<longrightarrow> i < NR_TASKS \<longrightarrow> sel s (tasks s i) \<longrightarrow> sig_err priv s (tasks s i) = 0)"
proof -
  have x: "distinct (rev [1..<NR_TASKS])" "set (rev [1..<NR_TASKS]) = {1..<NR_TASKS}" by simp_all
  note K = kill_fold [OF assms(1,2) sel x(1), where priv = priv and r = 0 and s = s and
    r' = "fst (kill_tasks sel sig priv s)" and s' = "snd (kill_tasks sel sig priv s)"]
  show "tasks (snd (kill_tasks sel sig priv s)) i =
      (if 1 \<le> i \<and> i < NR_TASKS \<and> sel s (tasks s i) then signalled sig priv s (tasks s i) else tasks s i)"
    using K unfolding x(2) by (simp add: kill_tasks_def del: upt_rec_numeral)
  show "fst (kill_tasks sel sig priv s) = 0 \<longleftrightarrow>
      (\<forall>i. 1 \<le> i \<longrightarrow> i < NR_TASKS \<longrightarrow> sel s (tasks s i) \<longrightarrow> sig_err priv s (tasks s i) = 0)"
    using K unfolding x(2) by (auto simp: kill_tasks_def simp del: upt_rec_numeral)
qed

text \<open>The tasks \<open>kill (pid, sig)\<close> is for, as the loops select them.\<close>

definition addressed :: "int \<Rightarrow> kernw \<Rightarrow> task_struct \<Rightarrow> bool" where
  "addressed pid s t \<longleftrightarrow>
     (if pid = 0 then t_pgrp t = t_pid (kcurr s) else if 0 < pid then t_pid t = pid else pid = - 1 \<or> t_pgrp t = - pid)"

lemma kill_of_task:
  assumes "1 \<le> sig" "sig \<le> 32" and P: "by_pid P"
  shows "tasks (snd (kill_tasks (of_task P) sig priv s)) i =
      (if 1 \<le> i \<and> i < NR_TASKS
       then map_option (\<lambda>t. if P s t \<and> may_signal priv s t then add_signal (nat sig) t else t) (tasks s i) else tasks s i)"
    "fst (kill_tasks (of_task P) sig priv s) = 0 \<longleftrightarrow>
      (\<forall>i. 1 \<le> i \<longrightarrow> i < NR_TASKS \<longrightarrow> (case tasks s i of None \<Rightarrow> True | Some t \<Rightarrow> P s t \<longrightarrow> may_signal priv s t))"
proof -
  have "by_pid (of_task P)"
    using P unfolding by_pid_def of_task_def by (metis (no_types, lifting) option.case_eq_if)
  note E = kill_tasks_effect [OF assms(1,2) this]
  show "tasks (snd (kill_tasks (of_task P) sig priv s)) i =
      (if 1 \<le> i \<and> i < NR_TASKS
       then map_option (\<lambda>t. if P s t \<and> may_signal priv s t then add_signal (nat sig) t else t) (tasks s i) else tasks s i)"
    unfolding E(1) by (cases "tasks s i") (simp_all add: of_task_def signalled_def)
  have "(of_task P s t \<longrightarrow> sig_err priv s t = 0) \<longleftrightarrow> (case t of None \<Rightarrow> True | Some t \<Rightarrow> P s t \<longrightarrow> may_signal priv s t)" for t
    by (cases t) (simp_all add: of_task_def sig_err_def)
  then show "fst (kill_tasks (of_task P) sig priv s) = 0 \<longleftrightarrow>
      (\<forall>i. 1 \<le> i \<longrightarrow> i < NR_TASKS \<longrightarrow> (case tasks s i of None \<Rightarrow> True | Some t \<Rightarrow> P s t \<longrightarrow> may_signal priv s t))"
    unfolding E(2) by simp
qed

lemma kill_all:
  assumes "1 \<le> sig" "sig \<le> 32"
  shows "tasks (snd (kill_tasks (\<lambda>s t. True) sig priv s)) i =
      (if 1 \<le> i \<and> i < NR_TASKS then signalled sig priv s (tasks s i) else tasks s i)"
    "fst (kill_tasks (\<lambda>s t. True) sig priv s) = 0 \<longleftrightarrow>
      (\<forall>i. 1 \<le> i \<longrightarrow> i < NR_TASKS \<longrightarrow> (case tasks s i of None \<Rightarrow> False | Some t \<Rightarrow> may_signal priv s t))"
proof -
  have "sig_err priv s t = 0 \<longleftrightarrow> (case t of None \<Rightarrow> False | Some t \<Rightarrow> may_signal priv s t)" for t
    by (cases t) (simp_all add: sig_err_def)
  then show "fst (kill_tasks (\<lambda>s t. True) sig priv s) = 0 \<longleftrightarrow>
      (\<forall>i. 1 \<le> i \<longrightarrow> i < NR_TASKS \<longrightarrow> (case tasks s i of None \<Rightarrow> False | Some t \<Rightarrow> may_signal priv s t))"
    by (simp add: kill_tasks_effect(2) [OF assms] by_pid_def)
qed (simp add: kill_tasks_effect(1) [OF assms] by_pid_def)

text \<open>
  C15: \<open>sys_kill\<close> with a proper signal: exactly the tasks in slots 1 to 63 that the number
  addresses and the caller may signal get the bit of the signal; no other task changes.  The
  result is 0 just when every addressed task could be signalled and, for the number \<open>-1\<close>, no slot
  of the table is empty.
\<close>

theorem sys_kill_delivers:
  assumes "1 \<le> sig" "sig \<le> 32"
  shows "tasks (snd (sys_kill pid sig s)) i =
      (if 1 \<le> i \<and> i < NR_TASKS
       then map_option (\<lambda>t. if addressed pid s t \<and> may_signal (pid = 0) s t then add_signal (nat sig) t else t) (tasks s i)
       else tasks s i) \<and>
    (fst (sys_kill pid sig s) = 0 \<longleftrightarrow>
      (\<forall>i. 1 \<le> i \<longrightarrow> i < NR_TASKS \<longrightarrow>
        (case tasks s i of None \<Rightarrow> pid \<noteq> - 1 | Some t \<Rightarrow> addressed pid s t \<longrightarrow> may_signal (pid = 0) s t)))"
proof -
  consider "pid = 0" | "0 < pid" | "pid = - 1" | "pid < - 1" by linarith
  then show ?thesis
  proof cases
    case 1
    then show ?thesis by (simp add: sys_kill_def addressed_def kill_of_task [OF assms] by_pid_def cong: option.case_cong)
  next
    case 2
    then show ?thesis by (simp add: sys_kill_def addressed_def kill_of_task [OF assms] by_pid_def cong: option.case_cong)
  next
    case 3
    then show ?thesis by (simp add: sys_kill_def addressed_def kill_all [OF assms] signalled_def cong: option.case_cong)
  next
    case 4
    then show ?thesis by (simp add: sys_kill_def addressed_def kill_of_task [OF assms] by_pid_def cong: option.case_cong)
  qed
qed

section \<open>Waiting for children\<close>

text \<open>A slot at which the search of \<open>sys_waitpid\<close> ends.\<close>

definition wait_ends :: "int \<Rightarrow> u32 \<Rightarrow> kernw \<Rightarrow> nat \<Rightarrow> bool" where
  "wait_ends pid options s i \<longleftrightarrow>
     i \<noteq> me s \<and> (case tasks s i of None \<Rightarrow> False
       | Some t \<Rightarrow> waited_for pid (kcurr s) t \<and> (t_state t = TASK_ZOMBIE \<or> t_state t = TASK_STOPPED \<and> options AND 2 \<noteq> 0))"

lemma wait_scan_skip:
  assumes "\<And>j. j \<in> set xs \<Longrightarrow> \<not> wait_ends pid options s j"
  shows "wait_scan sw pid st options (xs @ ys) flag s = 
    wait_scan sw pid st options ys (flag \<or> (\<exists>j \<in> set xs. j \<noteq> me s \<and> 
      (case tasks s j of None \<Rightarrow> False | Some t \<Rightarrow> waited_for pid (kcurr s) t \<and> t_state t \<noteq> TASK_STOPPED))) s"
  using assms
proof (induction xs arbitrary: flag)
  case (Cons x xs)
  have x: "\<not> wait_ends pid options s x" using Cons.prems by simp
  note IH = Cons.IH [OF Cons.prems]
  show ?case
    using x IH by (auto simp: wait_ends_def split: option.splits)
qed simp

lemma kupd_curr_simps [simp]:
  "me (kupd_curr f s) = me s" "task_page (kupd_curr f s) = task_page s" "bw_mm (kw (kupd_curr f s)) = bw_mm (kw s)"
  "bw_fs (kw (kupd_curr f s)) = bw_fs (kw s)"
  "tasks (kupd_curr f s) j = (if j = me s then map_option f (tasks s j) else tasks s j)"
  by (simp_all add: kupd_curr_def upd_curr_def upd_task_def me_def tasks_def)

lemma set_task_simps [simp]:
  "me (set_task i t s) = me s" "task_page (set_task i t s) = task_page s" "bw_mm (kw (set_task i t s)) = bw_mm (kw s)"
  "tasks (set_task i t s) j = (if j = i then t else tasks s j)"
  by (simp_all add: set_task_def me_def tasks_def)

lemma on_mm_Inr: "f (bw_mm (kw s)) = Inr m \<Longrightarrow> on_mm f s = Inr (s\<lparr>kw := (kw s)\<lparr>bw_mm := m\<rparr>\<rparr>)"
  by (simp add: on_mm_def)

lemma set_mm_simps [simp]:
  "me (s\<lparr>kw := (kw s)\<lparr>bw_mm := m\<rparr>\<rparr>) = me s" "tasks (s\<lparr>kw := (kw s)\<lparr>bw_mm := m\<rparr>\<rparr>) j = tasks s j"
  by (simp_all add: me_def tasks_def)

text \<open>What the father's record and the table are when a zombie has been taken out.\<close>

definition reaped :: "nat \<Rightarrow> task_struct \<Rightarrow> mm \<Rightarrow> kernw \<Rightarrow> kernw \<Rightarrow> bool" where
  "reaped i t m s s' \<longleftrightarrow>
     tasks s' i = None \<and> bw_mm (kw s') = m \<and>
     tasks s' (me s) = map_option (\<lambda>c. c\<lparr>t_cutime := wrap32 (t_cutime c + t_utime t), t_cstime := wrap32 (t_cstime c + t_stime t)\<rparr>) (tasks s (me s)) \<and>
     (\<forall>j. j \<noteq> i \<longrightarrow> j \<noteq> me s \<longrightarrow> tasks s' j = tasks s j)"

lemma wait_scan_zombie:
  assumes "1 \<le> i" "i < NR_TASKS" "tasks s i = Some t" "wait_ends pid options s i" "t_state t = TASK_ZOMBIE"
    and m: "free_page (task_page s i) (bw_mm (kw s)) = Inr m"
  shows "\<exists>s'. reaped i t m s s' \<and>
    wait_scan sw pid st options (i # is) flag s = bindE (sw s') (\<lambda>s.
      Inr (Inl (t_pid t), s\<lparr>kw := (kw s)\<lparr>bw_fs := put_fs_long (t_exit_code t) st (bw_fs (kw s))\<rparr>\<rparr>))"
proof -
  let ?u = "kupd_curr (\<lambda>c. c\<lparr>t_cutime := wrap32 (t_cutime c + t_utime t), t_cstime := wrap32 (t_cstime c + t_stime t)\<rparr>) s"
  let ?s = "(set_task i None ?u)\<lparr>kw := (kw (set_task i None ?u))\<lparr>bw_mm := m\<rparr>\<rparr>"
  have w: "i \<noteq> me s" "waited_for pid (kcurr s) t" using assms(3,4) by (simp_all add: wait_ends_def)
  have "on_mm (free_page (task_page ?u i)) (set_task i None ?u) = Inr ?s" using m by (simp add: on_mm_Inr)
  moreover have "tasks ?u i \<noteq> None" using w assms(3) by simp
  ultimately have r: "release sw (Some i) ?u = sw ?s" using assms(1,2) unfolding release_def by simp
  have "reaped i t m s ?s" using w by (simp add: reaped_def)
  moreover have "wait_scan sw pid st options (i # is) flag s = bindE (sw ?s) (\<lambda>s.
      Inr (Inl (t_pid t), s\<lparr>kw := (kw s)\<lparr>bw_fs := put_fs_long (t_exit_code t) st (bw_fs (kw s))\<rparr>\<rparr>))"
    using w assms(3,5) by (simp add: r Let_def)
  ultimately show ?thesis by blast
qed

lemma rev_upt_split:
  assumes "1 \<le> i" "i < n"
  shows "rev [1..<n] = rev [Suc i..<n] @ i # rev [1..<i]"
proof -
  have "[1..<n] = [1..<i] @ [i..<n]" using assms upt_add_eq_append [of 1 i "n - i"] by simp
  then show ?thesis using assms by (simp add: upt_conv_Cons)
qed

text \<open>
  C16: \<open>sys_waitpid\<close> takes out the zombie that its search from the last slot down finds first: the
  slot becomes free, the page of the task goes back to the memory, the father gets the times of
  the child, no other task changes before \<open>schedule\<close> is called, and on return the exit code is
  in the memory of the user and the result is the number of the child.
\<close>

theorem sys_waitpid_reaps:
  assumes "on_bufw (verify_area st 4) s = Inr s0" "0 < e_fuel e"
    and "1 \<le> i" "i < NR_TASKS" "tasks s0 i = Some t" "wait_ends pid options s0 i" "t_state t = TASK_ZOMBIE"
    and "\<And>j. i < j \<Longrightarrow> j < NR_TASKS \<Longrightarrow> \<not> wait_ends pid options s0 j"
    and "free_page (task_page s0 i) (bw_mm (kw s0)) = Inr m"
  shows "\<exists>s1. reaped i t m s0 s1 \<and>
    sys_waitpid e sw pid st options s = bindE (sw s1) (\<lambda>s2.
      Inr (t_pid t, s2\<lparr>kw := (kw s2)\<lparr>bw_fs := put_fs_long (t_exit_code t) st (bw_fs (kw s2))\<rparr>\<rparr>))"
proof -
  obtain f where f: "e_fuel e = Suc f" using assms(2) gr0_implies_Suc by blast
  have sk: "\<And>j. j \<in> set (rev [Suc i..<NR_TASKS]) \<Longrightarrow> \<not> wait_ends pid options s0 j" using assms(8) by auto
  obtain flag where "wait_scan sw pid st options (rev [1..<NR_TASKS]) False s0 =
      wait_scan sw pid st options (i # rev [1..<i]) flag s0"
    using wait_scan_skip [where xs = "rev [Suc i..<NR_TASKS]" and ys = "i # rev [1..<i]" and sw = sw and st = st and
        flag = False, OF sk] unfolding rev_upt_split [OF assms(3,4)] by blast
  then show ?thesis
    using wait_scan_zombie [OF assms(3-7,9), of sw st "rev [1..<i]" flag] assms(1) f
    by (fastforce simp: sys_waitpid_def bindE_def split: sum.splits)
qed

text \<open>A child that is neither reported nor passed over.\<close>

definition live_child :: "int \<Rightarrow> kernw \<Rightarrow> bool" where
  "live_child pid s \<longleftrightarrow> (\<exists>j \<in> {1..<NR_TASKS}. j \<noteq> me s \<and>
      (case tasks s j of None \<Rightarrow> False | Some t \<Rightarrow> waited_for pid (kcurr s) t \<and> t_state t \<noteq> TASK_STOPPED))"

lemma wait_scan_none:
  assumes "\<And>j. 1 \<le> j \<Longrightarrow> j < NR_TASKS \<Longrightarrow> \<not> wait_ends pid options s j"
  shows "wait_scan sw pid st options (rev [1..<NR_TASKS]) False s = Inr (Inr (live_child pid s), s)"
proof -
  have "\<And>j. j \<in> set (rev [1..<NR_TASKS]) \<Longrightarrow> \<not> wait_ends pid options s j" using assms by auto
  from wait_scan_skip [where xs = "rev [1..<NR_TASKS]" and ys = "[]" and sw = sw and st = st and flag = False, OF this]
  show ?thesis by (simp add: live_child_def del: upt_rec_numeral)
qed

text \<open>
  When the search finds neither a zombie nor a stopped child to report, \<open>sys_waitpid\<close> returns
  \<open>-ECHILD\<close> if the caller has no child that it waits for but stopped ones, and with \<open>WNOHANG\<close> it
  returns 0 at once if there is one; the tasks stay as they are.
\<close>

theorem sys_waitpid_nothing:
  assumes "on_bufw (verify_area st 4) s = Inr s0" "0 < e_fuel e"
    and "\<And>j. 1 \<le> j \<Longrightarrow> j < NR_TASKS \<Longrightarrow> \<not> wait_ends pid options s0 j"
    and "options AND 1 \<noteq> 0 \<or> \<not> live_child pid s0"
  shows "sys_waitpid e sw pid st options s = Inr (if live_child pid s0 then 0 else - ECHILD, s0)"
proof -
  obtain f where f: "e_fuel e = Suc f" using assms(2) gr0_implies_Suc by blast
  have "wait_scan sw pid st options (rev [1..<NR_TASKS]) False s0 = Inr (Inr (live_child pid s0), s0)"
    by (rule wait_scan_none) (rule assms(3))
  then show ?thesis using assms(1,4) f by (auto simp add: sys_waitpid_def simp del: upt_rec_numeral)
qed

section \<open>The new task\<close>

lemma fold_inc_file:
  "file_table (fold (\<lambda>i. inc_file (g i)) xs w) f =
    (file_table w f)\<lparr>f_count := f_count (file_table w f) + of_nat (length (filter (\<lambda>i. g i = Some f) xs))\<rparr>"
  by (induction xs arbitrary: w) (auto simp: inc_file_def upd_file_def split: option.split)

lemma inc_file_keeps:
  "bw_sched (inc_file g w) = bw_sched w" "inode_table (inc_file g w) = inode_table w" "bw_mm (inc_file g w) = bw_mm w"
  by (simp_all add: inc_file_def upd_file_def split: option.split)

lemma fold_inc_file_keeps:
  "bw_sched (fold (\<lambda>i. inc_file (g i)) xs w) = bw_sched w" "inode_table (fold (\<lambda>i. inc_file (g i)) xs w) = inode_table w"
  "bw_mm (fold (\<lambda>i. inc_file (g i)) xs w) = bw_mm w"
  by (induction xs arbitrary: w) (simp_all add: inc_file_keeps)

lemma inc_inode_simps:
  "bw_sched (inc_inode n w) = bw_sched w" "file_table (inc_inode n w) = file_table w" "bw_mm (inc_inode n w) = bw_mm w"
  "i_count (inode_table (inc_inode n w) k) = i_count (inode_table w k) + (if n = Some k then 1 else 0)"
  by (simp_all add: inc_inode_def upd_inode_def split: option.split)

text \<open>
  What the child has of its own, and what the tables hold of it.  The child's segments start at
  \<open>64 MB\<close> times its slot.
\<close>

definition caller_regs :: "fork_regs \<Rightarrow> tss_struct \<Rightarrow> bool" where
  "caller_regs r t \<longleftrightarrow>
     tss_eax t = 0 \<and> tss_ebx t = fr_ebx r \<and> tss_ecx t = fr_ecx r \<and> tss_edx t = fr_edx r \<and>
     tss_esi t = fr_esi r \<and> tss_edi t = fr_edi r \<and> tss_ebp t = fr_ebp r \<and> tss_esp t = fr_esp r \<and>
     tss_eip t = fr_eip r \<and> tss_eflags t = fr_eflags r \<and>
     map unat [tss_cs t, tss_ss t, tss_ds t, tss_es t, tss_fs t, tss_gs t] =
       map (\<lambda>x. unat x mod 65536) [fr_cs r, fr_ss r, fr_ds r, fr_es r, fr_fs r, fr_gs r]"

definition new_child :: "nat \<Rightarrow> u32 \<Rightarrow> fork_regs \<Rightarrow> kernw \<Rightarrow> task_struct \<Rightarrow> bool" where
  "new_child nr p r s t \<longleftrightarrow>
     t_state t = TASK_RUNNING \<and> t_pid t = last_pid s \<and> t_father t = t_pid (kcurr s) \<and> t_signal t = 0 \<and> t_alarm t = 0 \<and>
     t_leader t = 0 \<and> t_counter t = t_priority (kcurr s) \<and> t_start_time t = jiffies (bw_sched (kw s)) \<and>
     [t_utime t, t_stime t, t_cutime t, t_cstime t] = [0, 0, 0, 0] \<and>
     t_start_code t = word_of_nat nr * 0x4000000 \<and> get_base (t_ldt t 1) = t_start_code t \<and> get_base (t_ldt t 2) = t_start_code t \<and>
     lsl (t_ldt t 1) = lsl (t_ldt (kcurr s) 1) \<and> lsl (t_ldt t 2) = lsl (t_ldt (kcurr s) 2) \<and>
     t_filp t = t_filp (kcurr s) \<and> t_sigaction t = t_sigaction (kcurr s) \<and> t_blocked t = t_blocked (kcurr s) \<and>
     (t_pwd t, t_root t, t_executable t) = (t_pwd (kcurr s), t_root (kcurr s), t_executable (kcurr s)) \<and>
     (t_uid t, t_euid t, t_gid t, t_egid t) = (t_uid (kcurr s), t_euid (kcurr s), t_gid (kcurr s), t_egid (kcurr s)) \<and>
     caller_regs r (t_tss t) \<and> tss_esp0 (t_tss t) = p + 4096 \<and> tss_ss0 (t_tss t) = 0x10 \<and>
     tss_ldt (t_tss t) = 16 * word_of_nat nr + 40 \<and>
     tss_i387 (t_tss t) = (if last_task_used_math (bw_sched (kw s)) = Some (me s) then fpu (bw_sched (kw s))
                           else tss_i387 (t_tss (kcurr s)))"

definition counted :: "task_struct \<Rightarrow> bufw \<Rightarrow> bufw \<Rightarrow> bool" where
  "counted t w w' \<longleftrightarrow>
     (\<forall>f. f_count (file_table w' f) = f_count (file_table w f) + of_nat (length (filter (\<lambda>i. t_filp t i = Some f) [0..<NR_OPEN]))) \<and>
     (\<forall>n. i_count (inode_table w' n) = i_count (inode_table w n) +
        of_nat (length (filter (\<lambda>q. q = Some n) [t_pwd t, t_root t, t_executable t])))"

lemma mod_65536: "unat (w AND 0xffff :: u32) = unat w mod 65536"
  using unat_and_mask [of w 16] by (simp add: mask_eq_exp_minus_1)

lemma child_regs: "caller_regs r (child_tss nr p r t)"
  by (simp add: caller_regs_def child_tss_def mod_65536)

text \<open>The child with the numbers of the coprocessor, when they are the caller's.\<close>

lemma save_math_simps [simp]:
  "me (save_math fninit nr s) = me s" "bw_mm (kw (save_math fninit nr s)) = bw_mm (kw s)"
  "last_pid (save_math fninit nr s) = last_pid s" "gdt (save_math fninit nr s) = gdt s"
  "file_table (kw (save_math fninit nr s)) = file_table (kw s)" "inode_table (kw (save_math fninit nr s)) = inode_table (kw s)"
  "j \<noteq> nr \<Longrightarrow> tasks (save_math fninit nr s) j = tasks s j"
  by (simp_all add: save_math_def Let_def mod_task_def set_task_def me_def tasks_def)

lemma save_math_child:
  assumes "tasks s nr = Some ch"
  shows "tasks (save_math fninit nr s) nr = Some (ch\<lparr>t_tss := (t_tss ch)\<lparr>tss_i387 :=
    if last_task_used_math (bw_sched (kw s)) = Some (me s) then fpu (bw_sched (kw s)) else tss_i387 (t_tss ch)\<rparr>\<rparr>)"
  using assms by (simp add: save_math_def Let_def mod_task_def set_task_def tasks_def)

lemma tssldt_base:
  assumes "take_bit 8 ty = ty"
  shows "get_base (set_tssldt_desc a ty) = a"
proof (rule bit_word_eqI)
  have ty: "m < 8" if "bit ty m" for m using that assms by (metis bit_take_bit_iff)
  have "take_bit 7 104 = (104 :: u32)" by simp
  then have lim: "m < 7" if "bit (104 :: u32) m" for m using that by (metis bit_take_bit_iff)
  fix n assume "n < LENGTH(32)"
  then show "bit (get_base (set_tssldt_desc a ty)) n = bit a n"
    unfolding get_base_def set_tssldt_desc_def desc_struct.simps nlt_numeral_mask
    by (cases n rule: byte_ranges) (auto simp: bit_simps simp del: bit_numeral_rec dest: bit_imp_le_length ty lim)
qed

text \<open>
  C5: \<open>copy_process\<close> with a page for the task and the page tables copied: it returns \<open>last_pid\<close>; the
  slot holds a runnable child with that number, the caller as father, no signals, times or alarm,
  its own segments of the same size, the coprocessor state of the caller, and every register
  of the caller except 0 in \<open>eax\<close>; its two descriptors point into its page; every open file of the
  caller is counted once more for each descriptor and the three i-nodes once each; no other task
  changes.
\<close>

theorem copy_process_child:
  assumes "get_free_page (bw_mm (kw s)) = (p, m)" "p \<noteq> 0" "nr \<noteq> me s" "tasks s (me s) = Some c"
    and "get_base (t_ldt c 1) = get_base (t_ldt c 2)" "get_limit 0x0f (kw s) \<le> get_limit 0x17 (kw s)"
    and "copy_page_tables (get_base (t_ldt c 2)) (word_of_nat nr * 0x4000000) (get_limit 0x17 (kw s)) m = Inr (0, m')"
  shows "\<exists>s' t. copy_process fninit nr r s = Inr (last_pid s, s') \<and> tasks s' nr = Some t \<and> new_child nr p r s t \<and>
    get_base (gdt s' (2 * nr + 4)) = p + 744 \<and> get_base (gdt s' (2 * nr + 5)) = p + 720 \<and>
    counted c (kw s) (kw s') \<and> bw_mm (kw s') = m' \<and> (\<forall>j. j \<noteq> nr \<longrightarrow> tasks s' j = tasks s j)"
proof -
  define ch0 where "ch0 = child_of nr p (last_pid s) (jiffies (bw_sched (kw s))) r c"
  define f where "f = (if last_task_used_math (bw_sched (kw s)) = Some (me s) then fpu (bw_sched (kw s)) else tss_i387 (t_tss ch0))"
  define ch where "ch = ch0\<lparr>t_tss := (t_tss ch0)\<lparr>tss_i387 := f\<rparr>\<rparr>"
  define nb :: u32 where "nb = word_of_nat nr * 0x4000000"
  define g where "g = (\<lambda>t :: task_struct. t\<lparr>t_start_code := nb,
      t_ldt := (t_ldt t)(1 := set_base nb (t_ldt t 1), 2 := set_base nb (t_ldt t 2))\<rparr>)"
  define s1 where "s1 = s\<lparr>kw := (kw s)\<lparr>bw_mm := m\<rparr>, task_page := (task_page s)(nr := p)\<rparr>"
  define s1' where "s1' = set_task nr (Some ch0) s1"
  define s2 where "s2 = save_math fninit nr s1'"
  define s3 where "s3 = (mod_task nr g s2)\<lparr>kw := (kw (mod_task nr g s2))\<lparr>bw_mm := m'\<rparr>\<rparr>"
  have kc: "kcurr s = c" "curr (kw s) = c" using assms(4) by (simp_all add: kcurr_def curr_def cur_def me_def tasks_def)
  have n1: "tasks s1' nr = Some ch0" "\<And>j. j \<noteq> nr \<Longrightarrow> tasks s1' j = tasks s j" "me s1' = me s"
    "bw_sched (kw s1') = (bw_sched (kw s))\<lparr>task := (task (bw_sched (kw s)))(nr := Some ch0)\<rparr>"
    by (simp_all add: s1'_def s1_def set_task_def tasks_def me_def)
  have n2: "tasks s2 nr = Some ch" "\<And>j. j \<noteq> nr \<Longrightarrow> tasks s2 j = tasks s j" "me s2 = me s" "bw_mm (kw s2) = m"
    "last_pid s2 = last_pid s" "file_table (kw s2) = file_table (kw s)" "inode_table (kw s2) = inode_table (kw s)"
    using save_math_child [OF n1(1), of fninit] n1 by (simp_all add: s2_def ch_def f_def) (simp_all add: s1'_def s1_def set_task_def)
  have tc: "tasks s2 (me s) = Some c" using n2(2) assms(3,4) by simp
  then have c2: "curr (kw s2) = c" "kcurr s2 = c"
    using n2(3) by (simp_all add: kcurr_def curr_def cur_def me_def tasks_def)
  have l2: "get_limit x (kw s2) = get_limit x (kw s)" for x by (simp add: get_limit_def c2 kc)
  have "copy_page_tables (get_base (t_ldt c 2)) nb (get_limit 0x17 (kw s)) (bw_mm (kw (mod_task nr g s2))) = Inr (0, m')"
    using assms(7) n2(4) by (simp add: nb_def mod_task_def)
  then have cm: "copy_mem nr s2 = Inr (0, s3)"
    using assms(5,6) unfolding copy_mem_def c2 l2 Let_def g_def nb_def s3_def by (simp add: not_less [symmetric])
  have t3: "tasks s3 nr = Some (g ch)" "j \<noteq> nr \<Longrightarrow> tasks s3 j = tasks s j" "last_pid s3 = last_pid s"
    "file_table (kw s3) = file_table (kw s)" "inode_table (kw s3) = inode_table (kw s)" "me s3 = me s" for j
    using n2 by (auto simp: s3_def mod_task_def) (auto simp: set_task_def)
  have "tasks s3 (me s) = Some c" using t3(2) assms(3,4) by simp
  then have k3: "kcurr s3 = c" using t3(6) by (simp add: kcurr_def curr_def cur_def me_def tasks_def)
  define w where "w = inc_inode (t_executable c) (inc_inode (t_root c) (inc_inode (t_pwd c)
      (fold (\<lambda>i. inc_file (t_filp c i)) [0..<NR_OPEN] (kw s3))))"
  define s4 where "s4 = s3\<lparr>kw := w, gdt := (gdt s3)(2 * nr + 4 := set_tssldt_desc (p + 744) 0x89,
      2 * nr + 5 := set_tssldt_desc (p + 720) 0x82)\<rparr>"
  define s5 where "s5 = mod_task nr (\<lambda>t. t\<lparr>t_state := TASK_RUNNING\<rparr>) s4"
  have st: "set_task nr (Some (child_of nr p (last_pid s1) (jiffies (bw_sched (kw s1))) r (kcurr s1))) s1 = s1'"
    using kc by (simp add: s1'_def ch0_def s1_def kcurr_def curr_def)
  have "copy_process fninit nr r s = Inr (last_pid s, s5)"
    using assms(2) unfolding copy_process_def assms(1) Let_def prod.case s1_def [symmetric] st s2_def [symmetric] cm
    by (simp add: k3 w_def [symmetric] s4_def [symmetric] s5_def [symmetric] del: upt_rec_numeral)
      (simp add: s5_def s4_def t3(3) mod_task_def set_task_def)
  moreover have "tasks s4 = tasks s3" by (simp add: fun_eq_iff tasks_def s4_def w_def inc_inode_simps fold_inc_file_keeps)
  moreover have "new_child nr p r s ((g ch)\<lparr>t_state := TASK_RUNNING\<rparr>)"
    using child_regs [of r nr p "t_tss c"]
    by (simp add: new_child_def g_def ch_def ch0_def f_def child_of_def kc set_base_desc nb_def caller_regs_def)
      (simp add: child_tss_def LDT_sel_def push_bit_eq_mult mult.commute add.commute)
  moreover have "bw_mm (kw s5) = m'"
    by (simp add: s5_def s4_def w_def mod_task_def inc_inode_simps fold_inc_file_keeps s3_def)
  moreover have "gdt s5 = gdt s4" by (simp add: s5_def mod_task_def set_task_def)
  then have "get_base (gdt s5 (2 * nr + 4)) = p + 744" "get_base (gdt s5 (2 * nr + 5)) = p + 720"
    by (simp_all add: s4_def tssldt_base)
  moreover have "counted c (kw s) (kw s5)"
    by (auto simp: counted_def s5_def s4_def w_def mod_task_def set_task_def inc_inode_simps fold_inc_file fold_inc_file_keeps t3
        simp del: upt_rec_numeral)
  ultimately show ?thesis using t3(1,2)
    by (intro exI [of _ s5] exI [of _ "(g ch)\<lparr>t_state := TASK_RUNNING\<rparr>"]) (simp add: s5_def)
qed

section \<open>A table with a zombie\<close>

definition demo_tasks :: sched where
  "demo_tasks = demo_sched\<lparr>task := [0 \<mapsto> INIT_TASK, 1 \<mapsto> INIT_TASK\<lparr>t_pid := 1\<rparr>,
     2 \<mapsto> INIT_TASK\<lparr>t_pid := 2, t_father := 1, t_state := TASK_ZOMBIE, t_exit_code := 0x100\<rparr>]\<rparr>"

definition demo_kern :: kernw where
  "demo_kern = \<lparr>kw = boot_buf\<lparr>bw_sched := demo_tasks\<rparr>, last_pid = 1, task_page = (\<lambda>_. 0x100000),
     gdt = (\<lambda>_. \<lparr>desc_a = 0, desc_b = 0\<rparr>)\<rparr>"

lemma demo_kern_simps:
  "me demo_kern = 1" "last_pid demo_kern = 1" "task_page demo_kern i = 0x100000" "bw_mm (kw demo_kern) = demo_mm"
  "last_task_used_math (bw_sched (kw demo_kern)) = None"
  "tasks demo_kern = [0 \<mapsto> INIT_TASK, 1 \<mapsto> INIT_TASK\<lparr>t_pid := 1\<rparr>,
     2 \<mapsto> INIT_TASK\<lparr>t_pid := 2, t_father := 1, t_state := TASK_ZOMBIE, t_exit_code := 0x100\<rparr>]"
  by (simp_all add: fun_eq_iff demo_kern_def demo_tasks_def demo_sched_def boot_buf_def me_def tasks_def)

lemma demo_kcurr: "kcurr demo_kern = INIT_TASK\<lparr>t_pid := 1\<rparr>" "curr (kw demo_kern) = INIT_TASK\<lparr>t_pid := 1\<rparr>"
  by (simp_all add: kcurr_def curr_def cur_def demo_kern_def demo_tasks_def demo_sched_def)

theorem descriptor_roundtrip_witness:
  "get_base (set_limit 0x4000000 (set_base 0x8000000 \<lparr>desc_a = 0x9f, desc_b = 0xc0f200\<rparr>)) = 0x8000000 \<and>
   lsl (set_limit 0x4000000 (set_base 0x8000000 \<lparr>desc_a = 0x9f, desc_b = 0xc0f200\<rparr>)) + 1 = 0x4000000"
  using descriptor_roundtrip [of "\<lparr>desc_a = 0x9f, desc_b = 0xc0f200\<rparr>" "0x4000000" "0x8000000"] by simp

theorem find_empty_process_fresh_witness:
  "\<exists>r p. find_empty_process demo_kern = Inr (r, demo_kern\<lparr>last_pid := p\<rparr>) \<and>
    (\<forall>i < NR_TASKS. \<forall>t. tasks demo_kern i = Some t \<longrightarrow> t_pid t \<noteq> p)"
  using find_empty_process_fresh [of demo_kern] by (simp add: demo_kern_simps(2)) blast

theorem sys_kill_delivers_witness:
  "fst (sys_kill (- 1) 9 demo_kern) \<noteq> 0 \<and>
   tasks (snd (sys_kill (- 1) 9 demo_kern)) 2 = map_option (add_signal 9) (tasks demo_kern 2)"
proof -
  note K = sys_kill_delivers [of 9 "- 1" demo_kern 2, simplified]
  have "may_signal False demo_kern t" for t by (simp add: may_signal_def suser_def demo_kcurr INIT_TASK_def)
  moreover have "tasks demo_kern 3 = None" by (simp add: demo_kern_simps)
  moreover from this have "fst (sys_kill (- 1) 9 demo_kern) \<noteq> 0"
    using K spec [of "\<lambda>i. Suc 0 \<le> i \<longrightarrow> i < 64 \<longrightarrow> (case tasks demo_kern i of None \<Rightarrow> - 1 \<noteq> (- 1 :: int)
      | Some t \<Rightarrow> addressed (- 1) demo_kern t \<longrightarrow> may_signal (- 1 = (0 :: int)) demo_kern t)" 3] by auto
  ultimately show ?thesis using K by (simp add: addressed_def cong: map_option_cong)
qed

lemma demo_wait_ends: "wait_ends (- 1) 0 demo_kern j \<longleftrightarrow> j = 2"
  by (auto simp: wait_ends_def demo_kern_simps waited_for_def demo_kcurr INIT_TASK_def)

lemma demo_verify: "on_bufw (verify_area 0 4) demo_kern = Inr demo_kern"
proof -
  have "verify_area 0 4 (kw demo_kern) = Inr (kw demo_kern)"
    by (simp add: verify_area_def write_verify_def demo_kern_simps demo_mm_def rd_def)
  then show ?thesis by (simp add: on_bufw_def)
qed

theorem sys_waitpid_reaps_witness:
  "\<exists>s1. tasks s1 2 = None \<and> sys_waitpid demo_env Inr (- 1) 0 0 demo_kern =
     Inr (2, s1\<lparr>kw := (kw s1)\<lparr>bw_fs := put_fs_long 0x100 0 (bw_fs (kw s1))\<rparr>\<rparr>)"
proof -
  have f: "free_page (task_page demo_kern 2) (bw_mm (kw demo_kern)) = Inr (set_map 0 0 demo_mm)"
    by (simp add: demo_kern_simps free_page_def demo_mm_def MAP_NR_def set_map_def)
  show ?thesis
    using sys_waitpid_reaps [OF demo_verify, of demo_env 2 _ "- 1" 0, OF _ _ _ _ _ _ _ f, of _ Inr]
    by (fastforce simp: demo_env_def demo_wait_ends demo_kern_simps reaped_def INIT_TASK_def)
qed

theorem sys_waitpid_nothing_witness:
  "sys_waitpid demo_env Inr 7 0 0 demo_kern = Inr (- ECHILD, demo_kern)"
proof -
  have "\<not> wait_ends 7 0 demo_kern j" for j
    by (auto simp: wait_ends_def demo_kern_simps waited_for_def demo_kcurr INIT_TASK_def)
  moreover have "\<not> live_child 7 demo_kern"
    by (auto simp: live_child_def demo_kern_simps waited_for_def demo_kcurr INIT_TASK_def split: if_splits)
  ultimately show ?thesis
    using sys_waitpid_nothing [OF demo_verify, of demo_env 7 0 Inr] by (simp add: demo_env_def)
qed

lemma demo_mm_get_zero: "rd a (snd (get_free_page demo_mm)) = 0"
proof (rule get_free_page_cases [of demo_mm])
  assume "\<forall>i < PAGING_PAGES. mem_map demo_mm i \<noteq> 0"
  then have "mem_map demo_mm 5 \<noteq> 0" by simp
  then show ?thesis by (simp add: demo_mm_def)
next
  fix i s' assume "get_free_page demo_mm = (page_addr i, s')"
    "\<And>a. rd a s' = (if a \<in> page_words (page_addr i) then 0 else rd a demo_mm)"
  then show ?thesis by (simp add: demo_mm_def rd_def)
qed

definition demo_regs :: fork_regs where
  "demo_regs = \<lparr>fr_ebp = 0, fr_edi = 0, fr_esi = 0, fr_gs = 0, fr_ebx = 7, fr_ecx = 0, fr_edx = 0,
     fr_fs = 0, fr_es = 0, fr_ds = 0, fr_eip = 0x40, fr_cs = 0, fr_eflags = 0, fr_esp = 0x1000, fr_ss = 0\<rparr>"

theorem copy_process_child_witness:
  "\<exists>s' t. copy_process (\<lambda>x. x) 3 demo_regs demo_kern = Inr (1, s') \<and>
     tasks s' 3 = Some t \<and> t_pid t = 1 \<and> t_start_code t = 0xc000000 \<and> tss_ebx (t_tss t) = 7"
proof -
  let ?c = "INIT_TASK\<lparr>t_pid := 1\<rparr>"
  have g: "get_base (t_ldt INIT_TASK 1) = 0" "get_base (t_ldt INIT_TASK 2) = 0" by (simp_all add: get_base_def INIT_TASK_def)
  have l: "get_limit 0x0f (kw demo_kern) = 0xa0000" "get_limit 0x17 (kw demo_kern) = 0xa0000"
    by (simp_all add: get_limit_def demo_kcurr INIT_TASK_def lsl_def)
  have cp: "copy_page_tables (get_base (t_ldt ?c 2)) (word_of_nat 3 * 0x4000000) (get_limit 0x17 (kw demo_kern))
      (snd (get_free_page demo_mm)) = Inr (0, snd (get_free_page demo_mm))"
    by (simp add: g l copy_page_tables_def demo_mm_get_zero)
  have p: "get_free_page (bw_mm (kw demo_kern)) = (page_addr 5, snd (get_free_page demo_mm))"
    using demo_mm_get by (simp add: demo_kern_simps)
  have n: "page_addr 5 \<noteq> 0" by (rule page_addr_nonzero) simp
  have c: "3 \<noteq> me demo_kern" "tasks demo_kern (me demo_kern) = Some ?c"
    "get_base (t_ldt ?c 1) = get_base (t_ldt ?c 2)"
    "get_limit 0x0f (kw demo_kern) \<le> get_limit 0x17 (kw demo_kern)"
    by (simp_all add: demo_kern_simps g g(1) [unfolded One_nat_def] l)
  obtain s' t where "copy_process (\<lambda>x. x) 3 demo_regs demo_kern = Inr (last_pid demo_kern, s')" "tasks s' 3 = Some t"
    "new_child 3 (page_addr 5) demo_regs demo_kern t"
    using copy_process_child [OF p n c cp] by blast
  then show ?thesis by (intro exI [of _ s'] exI [of _ t]) (simp add: new_child_def caller_regs_def demo_kern_simps demo_regs_def)
qed

end
