(* ===== verification/Signal.thy ===== *)
theory Signal
  imports Task_Life
begin

text \<open>
  Signals, \<open>kernel/signal.c\<close>: the mask of the task, the actions, and the stack frame \<open>do_signal\<close>
  builds for a handler.
\<close>

abbreviation (input) SA_NOMASK :: u32 where "SA_NOMASK \<equiv> 0x40000000"
abbreviation (input) SA_ONESHOT :: u32 where "SA_ONESHOT \<equiv> 0x80000000"

definition sys_sgetmask :: "bufw \<Rightarrow> int" where
  "sys_sgetmask s = sint (t_blocked (curr s))"

definition sys_ssetmask :: "u32 \<Rightarrow> bufw \<Rightarrow> int \<times> bufw" where
  "sys_ssetmask newmask s =
     (sint (t_blocked (curr s)), upd_curr (\<lambda>t. t\<lparr>t_blocked := newmask AND NOT (sig_bit SIGKILL)\<rparr>) s)"

text \<open>The 16 bytes of a \<open>struct sigaction\<close> in the memory of the user.\<close>

definition save_old :: "sigaction \<Rightarrow> u32 \<Rightarrow> bufw \<Rightarrow> bufw kres" where
  "save_old from to s =
     bindE (verify_area to 16 s) (\<lambda>s.
       Inr (s\<lparr>bw_fs := put_fs_long (sa_restorer from) (to + 12) (put_fs_long (sa_flags from) (to + 8)
              (put_fs_long (sa_mask from) (to + 4) (put_fs_long (sa_handler from) to (bw_fs s))))\<rparr>))"

definition get_new :: "u32 \<Rightarrow> fsmem \<Rightarrow> sigaction" where
  "get_new from fs =
     \<lparr>sa_handler = get_fs_long from fs, sa_mask = get_fs_long (from + 4) fs, sa_flags = get_fs_long (from + 8) fs,
      sa_restorer = get_fs_long (from + 12) fs\<rparr>"

definition set_action :: "nat \<Rightarrow> sigaction \<Rightarrow> bufw \<Rightarrow> bufw" where
  "set_action k a s = upd_curr (\<lambda>t. t\<lparr>t_sigaction := (t_sigaction t)(k := a)\<rparr>) s"

definition sys_signal :: "int \<Rightarrow> u32 \<Rightarrow> u32 \<Rightarrow> bufw \<Rightarrow> int \<times> bufw" where
  "sys_signal signum handler restorer s =
     (if signum < 1 \<or> 32 < signum \<or> signum = int SIGKILL then (- 1, s)
      else
        let k = nat signum - 1
        in (sint (sa_handler (t_sigaction (curr s) k)),
            set_action k \<lparr>sa_handler = handler, sa_mask = 0, sa_flags = SA_ONESHOT OR SA_NOMASK, sa_restorer = restorer\<rparr> s))"

definition sys_sigaction :: "int \<Rightarrow> u32 \<Rightarrow> u32 \<Rightarrow> bufw \<Rightarrow> (int \<times> bufw) kres" where
  "sys_sigaction signum action oldaction s =
     (if signum < 1 \<or> 32 < signum \<or> signum = int SIGKILL then Inr (- 1, s)
      else
        let k = nat signum - 1;
            tmp = t_sigaction (curr s) k;
            s = set_action k (get_new action (bw_fs s)) s
        in bindE (if oldaction \<noteq> 0 then save_old tmp oldaction s else Inr s) (\<lambda>s.
             let a = t_sigaction (curr s) k
             in Inr (0, set_action k (if sa_flags a AND SA_NOMASK \<noteq> 0 then a\<lparr>sa_mask := 0\<rparr>
                                      else a\<lparr>sa_mask := sa_mask a OR sig_bit (k + 1)\<rparr>) s)))"

text \<open>Storing the words of the list from \<open>tmp_esp\<close> up.\<close>

primrec put_longs :: "u32 list \<Rightarrow> u32 \<Rightarrow> fsmem \<Rightarrow> fsmem" where
  "put_longs [] tmp_esp fs = fs"
| "put_longs (w # ws) tmp_esp fs = put_longs ws (tmp_esp + 4) (put_fs_long w tmp_esp fs)"

text \<open>
  The result is the instruction and stack pointer to return to, or \<open>None\<close> when the task has ended;
  \<open>eax\<close> to \<open>eflags\<close> are the registers the system call or interrupt pushed.
\<close>

definition do_signal ::
  "benv \<Rightarrow> (nat \<Rightarrow> int \<Rightarrow> bufw \<Rightarrow> bufw kres) \<Rightarrow> nat \<Rightarrow> u32 \<Rightarrow> u32 \<Rightarrow> u32 \<Rightarrow> u32 \<Rightarrow> u32 \<Rightarrow> u32 \<Rightarrow> kernw \<Rightarrow>
    ((u32 \<times> u32) option \<times> kernw) kres" where
  "do_signal e set_pgrp signr eax ecx edx eip eflags esp s =
     (let k = signr - 1;
          sa = t_sigaction (kcurr s) k;
          handler = sa_handler sa
      in if handler = 1 then Inr (Some (eip, esp), s)
         else if handler = 0
         then if signr = SIGCHLD then Inr (Some (eip, esp), s)
              else bindE (do_exit e set_pgrp (sig_bit signr) s) (\<lambda>s. Inr (None, s))
         else
           let s = (if sa_flags sa AND SA_ONESHOT \<noteq> 0 then s\<lparr>kw := set_action k (sa\<lparr>sa_handler := 0\<rparr>) (kw s)\<rparr> else s);
               nomask = (sa_flags sa AND SA_NOMASK \<noteq> 0);
               longs = (if nomask then 7 else 8);
               esp = esp - 4 * longs
           in bindE (on_bufw (verify_area esp (4 * uint longs)) s) (\<lambda>s.
                let frame = [sa_restorer sa, word_of_nat signr] @ (if nomask then [] else [t_blocked (kcurr s)]) @
                            [eax, ecx, edx, eflags, eip];
                    s = s\<lparr>kw := (kw s)\<lparr>bw_fs := put_longs frame esp (bw_fs (kw s))\<rparr>\<rparr>;
                    s = kupd_curr (\<lambda>t. t\<lparr>t_blocked := t_blocked t OR sa_mask sa\<rparr>) s
                in Inr (Some (handler, esp), s)))"

lemma put_longs_bytes: "put_longs ws a fs = put_fs_bytes (concat (map long_bytes ws)) a fs"
  by (induction ws arbitrary: a fs) (simp_all add: put_fs_long_bytes put_fs_bytes_append)

lemma get_put_longs:
  assumes "j < length ws" "4 * length ws \<le> 4294967296"
  shows "get_fs_long (a + 4 * of_nat j) (put_longs ws a fs) = ws ! j"
proof (rule get_fs_long_bytes)
  fix k :: nat assume k: "k < 4"
  let ?b = "concat (map long_bytes ws)"
  have "4 * j + k < length ?b" "length ?b \<le> 4294967296"
    using assms k unfolding length_concat_long_bytes by simp_all
  from put_fs_bytes_in [OF this, of a fs]
  have "put_fs_bytes ?b a fs (a + of_nat (4 * j + k)) = long_bytes (ws ! j) ! k"
    using concat_long_bytes_nth [OF assms(1) k] by simp
  then show "put_longs ws a fs (a + 4 * of_nat j + of_nat k) = long_bytes (ws ! j) ! k"
    unfolding put_longs_bytes by (simp add: add.assoc)
qed

lemma put_longs_out:
  assumes "4 * length ws \<le> 4294967296" "4 * length ws \<le> unat (x - a)"
  shows "put_longs ws a fs x = fs x"
  unfolding put_longs_bytes
proof (rule put_fs_bytes_out)
  fix i assume "i < length (concat (map long_bytes ws))"
  then have i: "i < 4 * length ws" by (simp only: length_concat_long_bytes)
  show "x \<noteq> a + of_nat i"
  proof
    assume "x = a + of_nat i"
    then have "unat (x - a) = i" using i assms(1) by (simp add: unat_of_nat)
    then show False using i assms(2) by simp
  qed
qed

section \<open>The frame of a handler\<close>

definition signal_frame :: "sigaction \<Rightarrow> nat \<Rightarrow> u32 \<Rightarrow> u32 \<Rightarrow> u32 \<Rightarrow> u32 \<Rightarrow> u32 \<Rightarrow> u32 \<Rightarrow> u32 list" where
  "signal_frame sa signr blocked eax ecx edx eflags eip =
     [sa_restorer sa, word_of_nat signr] @ (if sa_flags sa AND SA_NOMASK \<noteq> 0 then [] else [blocked]) @
     [eax, ecx, edx, eflags, eip]"

lemma set_action_keeps:
  "bw_mm (set_action k a w) = bw_mm w" "bw_fs (set_action k a w) = bw_fs w"
  "t_ldt (curr (set_action k a w)) = t_ldt (curr w)" "t_blocked (curr (set_action k a w)) = t_blocked (curr w)"
  by (auto simp: set_action_def upd_curr_def upd_task_def curr_def cur_def split: option.split)

lemma verify_area_mm: "verify_area a n w = Inr w' \<Longrightarrow> \<exists>m. w' = w\<lparr>bw_mm := m\<rparr>"
  by (auto simp: verify_area_def Let_def)

lemma verify_set_action:
  assumes "verify_area a n w = Inr w'"
  shows "verify_area a n (set_action k x w) = Inr (set_action k x w')"
proof -
  obtain m where "verify_loop (nat ((n + uint (a AND 0xfff) + 4095) div 4096)) ((a AND 0xfffff000) + get_base (t_ldt (curr w) 2))
      (bw_mm w) = Inr m" "w' = w\<lparr>bw_mm := m\<rparr>"
    using assms by (auto simp: verify_area_def Let_def)
  then show ?thesis
    by (simp add: verify_area_def Let_def set_action_keeps) (simp add: set_action_def upd_curr_def)
qed

text \<open>
  C11: \<open>do_signal\<close> for a signal with a handler: the task goes on in the handler with a stack lower
  by seven or eight words, which hold the restorer, the signal, the old mask unless \<open>SA_NOMASK\<close>
  is set, three registers, the flags and the old instruction pointer; the memory above and
  below is untouched, the mask of the action is added to the blocked signals, and a handler
  installed for one time is gone.
\<close>

theorem do_signal_frame:
  assumes "tasks s (me s) = Some c" "sa = t_sigaction c (signr - 1)" "sa_handler sa \<noteq> 0" "sa_handler sa \<noteq> 1"
    and "fr = signal_frame sa signr (t_blocked c) eax ecx edx eflags eip" "sp = esp - 4 * word_of_nat (length fr)"
    and "verify_area sp (4 * int (length fr)) (kw s) = Inr w"
  shows "\<exists>s' c'. do_signal e set_pgrp signr eax ecx edx eip eflags esp s = Inr (Some (sa_handler sa, sp), s') \<and>
    (\<forall>j < length fr. get_fs_long (sp + 4 * word_of_nat j) (bw_fs (kw s')) = fr ! j) \<and>
    (\<forall>a. 4 * length fr \<le> unat (a - sp) \<longrightarrow> bw_fs (kw s') a = bw_fs (kw s) a) \<and>
    tasks s' (me s) = Some c' \<and> t_blocked c' = t_blocked c OR sa_mask sa \<and>
    (sa_flags sa AND SA_ONESHOT \<noteq> 0 \<longrightarrow> sa_handler (t_sigaction c' (signr - 1)) = 0)"
proof -
  let ?k = "signr - 1" and ?x = "sa\<lparr>sa_handler := 0\<rparr>"
  define one where "one \<longleftrightarrow> sa_flags sa AND SA_ONESHOT \<noteq> 0"
  define nm where "nm \<longleftrightarrow> sa_flags sa AND SA_NOMASK \<noteq> 0"
  obtain m where w: "w = (kw s)\<lparr>bw_mm := m\<rparr>" using verify_area_mm [OF assms(7)] by blast
  define w1 where "w1 = (if one then set_action ?k ?x w else w)"
  define c1 where "c1 = (if one then c\<lparr>t_sigaction := (t_sigaction c)(?k := ?x)\<rparr> else c)"
  define s1 where "s1 = s\<lparr>kw := w1\<lparr>bw_fs := put_longs fr sp (bw_fs w1)\<rparr>\<rparr>"
  have kc: "kcurr s = c" "curr (kw s) = c" using assms(1) by (simp_all add: kcurr_def curr_def cur_def me_def tasks_def)
  have c1: "curr w1 = c1" "bw_fs w1 = bw_fs (kw s)" "current (bw_sched w1) = me s" "task (bw_sched w1) (me s) = Some c1"
    using assms(1) by (simp_all add: w1_def c1_def w set_action_def upd_curr_def upd_task_def curr_def cur_def me_def tasks_def)
  have len: "word_of_nat (length fr) = (if nm then 7 else 8 :: u32)" "4 * int (length fr) = 4 * uint (if nm then 7 else 8 :: u32)"
    by (simp_all add: assms(5) signal_frame_def nm_def)
  have sp: "esp - 4 * (if nm then 7 else 8) = sp" unfolding assms(6) len by simp
  have v: "on_bufw (verify_area sp (4 * uint (if nm then 7 else 8 :: u32)))
      (if one then s\<lparr>kw := set_action ?k ?x (kw s)\<rparr> else s) = Inr (s\<lparr>kw := w1\<rparr>)"
    using assms(7) verify_set_action [OF assms(7)] unfolding len by (simp add: on_bufw_def w1_def)
  have fr: "[sa_restorer sa, word_of_nat signr] @ (if nm then [] else [t_blocked c1]) @ [eax, ecx, edx, eflags, eip] = fr"
    by (simp add: assms(5) signal_frame_def nm_def c1_def)
  have kc1: "kcurr (s\<lparr>kw := w1\<rparr>) = c1" by (simp add: kcurr_def c1(1))
  let ?s = "kupd_curr (\<lambda>t. t\<lparr>t_blocked := t_blocked t OR sa_mask sa\<rparr>) s1"
  have "do_signal e set_pgrp signr eax ecx edx eip eflags esp s = Inr (Some (sa_handler sa, sp), ?s)"
    using assms(3,4) unfolding do_signal_def Let_def kc assms(2) [symmetric] one_def [symmetric] nm_def [symmetric] sp v
      bindE_simps kc1 fr by (simp add: s1_def)
  moreover have "tasks ?s (me s) = Some (c1\<lparr>t_blocked := t_blocked c1 OR sa_mask sa\<rparr>)"
    using c1 by (simp add: s1_def) (simp add: me_def tasks_def)
  moreover have "bw_fs (kw ?s) = put_longs fr sp (bw_fs (kw s))" by (simp add: s1_def c1(2))
  moreover have "length fr \<le> 8" by (simp add: assms(5) signal_frame_def)
  ultimately show ?thesis
    by (intro exI [of _ ?s] exI [of _ "c1\<lparr>t_blocked := t_blocked c1 OR sa_mask sa\<rparr>"])
      (simp add: get_put_longs put_longs_out c1_def one_def)
qed

text \<open>Signal 2 with a handler installed by \<open>signal\<close>.\<close>

definition demo_sig :: kernw where
  "demo_sig = demo_kern\<lparr>kw := snd (sys_signal 2 0x500 0x600 (kw demo_kern))\<rparr>"

theorem do_signal_frame_witness:
  "\<exists>s' c'. do_signal demo_env (\<lambda>_ _. Inr) 2 7 0 0 0x40 0 0x1000 demo_sig = Inr (Some (0x500, 0xFE4), s') \<and>
     get_fs_long 0xFE4 (bw_fs (kw s')) = 0x600 \<and> get_fs_long 0xFE8 (bw_fs (kw s')) = 2 \<and>
     tasks s' 1 = Some c' \<and> sa_handler (t_sigaction c' 1) = 0"
proof -
  let ?sa = "\<lparr>sa_handler = 0x500, sa_mask = 0, sa_flags = SA_ONESHOT OR SA_NOMASK, sa_restorer = 0x600\<rparr>"
  let ?c = "INIT_TASK\<lparr>t_pid := 1, t_sigaction := (\<lambda>_. demo_sigaction)(1 := ?sa)\<rparr>"
  let ?fr = "signal_frame ?sa 2 (t_blocked ?c) 7 0 0 0 0x40"
  have t: "tasks demo_sig (me demo_sig) = Some ?c" "me demo_sig = 1"
    by (simp_all add: demo_sig_def sys_signal_def set_action_def upd_curr_def upd_task_def tasks_def me_def demo_kern_def
        demo_tasks_def demo_sched_def boot_buf_def Let_def) (simp add: INIT_TASK_def)
  have sa: "?sa = t_sigaction ?c (2 - 1)" by simp
  have h: "sa_handler ?sa \<noteq> 0" "sa_handler ?sa \<noteq> 1" by simp_all
  have k: "curr (kw demo_sig) = ?c" using t by (simp add: curr_def cur_def tasks_def me_def)
  have m: "bw_mm (kw demo_sig) = demo_mm"
    by (simp add: demo_sig_def sys_signal_def set_action_def upd_curr_def Let_def demo_kern_simps)
  have fr: "?fr = [0x600, 2, 7, 0, 0, 0, 0x40]" by (simp add: signal_frame_def)
  have "verify_area 0xFE4 28 (kw demo_sig) = Inr ((kw demo_sig)\<lparr>bw_mm := demo_mm\<rparr>)"
    by (simp add: verify_area_def m write_verify_def demo_mm_def rd_def)
  then have v: "verify_area 0xFE4 (4 * int (length ?fr)) (kw demo_sig) = Inr ((kw demo_sig)\<lparr>bw_mm := demo_mm\<rparr>)" unfolding fr by simp
  have sp: "0xFE4 = 0x1000 - 4 * (word_of_nat (length ?fr) :: u32)" unfolding fr by simp
  obtain s' c' where "do_signal demo_env (\<lambda>_ _. Inr) 2 7 0 0 0x40 0 0x1000 demo_sig = Inr (Some (sa_handler ?sa, 0xFE4), s')"
    and j: "\<forall>j < length ?fr. get_fs_long (0xFE4 + 4 * word_of_nat j) (bw_fs (kw s')) = ?fr ! j"
    and "tasks s' (me demo_sig) = Some c'" "sa_flags ?sa AND SA_ONESHOT \<noteq> 0 \<longrightarrow> sa_handler (t_sigaction c' (2 - 1)) = 0"
    using do_signal_frame [OF t(1) sa h refl sp v, of demo_env "\<lambda>_ _. Inr"] by blast
  then show ?thesis using j [rule_format, of 0] j [rule_format, of 1] t(2) unfolding fr
    by (intro exI [of _ s'] exI [of _ c']) simp
qed

end
