(* ===== verification/Exec.thy ===== *)
theory Exec
  imports Signal
begin

text \<open>
  Loading a program, \<open>fs/exec.c\<close>, with the header of \<open>include/a.out.h\<close>.  Argument and environment
  strings go from the old user memory through kernel pages, whose bytes are in \<open>pmem\<close>, to the top
  of the new one.  Scans for the end of a string or of an array take fuel.
\<close>

abbreviation (input) MAX_ARG_PAGES :: nat where "MAX_ARG_PAGES \<equiv> 32"
abbreviation (input) ENOEXEC :: int where "ENOEXEC \<equiv> 8"
abbreviation (input) ZMAGIC :: u32 where "ZMAGIC \<equiv> 0x10B"

record exec =
  a_magic :: u32
  a_text :: u32
  a_data :: u32
  a_bss :: u32
  a_syms :: u32
  a_entry :: u32
  a_trsize :: u32
  a_drsize :: u32

definition exec_at :: "block \<Rightarrow> exec" where
  "exec_at b =
     \<lparr>a_magic = le32 b 0, a_text = le32 b 4, a_data = le32 b 8, a_bss = le32 b 12, a_syms = le32 b 16,
      a_entry = le32 b 20, a_trsize = le32 b 24, a_drsize = le32 b 28\<rparr>"

definition N_TXTOFF :: "exec \<Rightarrow> u32" where
  "N_TXTOFF x = (if a_magic x = ZMAGIC then (1024 - 32) + 32 else 32)"

section \<open>Strings and tables\<close>

primrec skip_string :: "nat \<Rightarrow> u32 \<Rightarrow> fsmem \<Rightarrow> u32 kres" where
  "skip_string 0 p fs = Inl Hang"
| "skip_string (Suc f) p fs = (if get_fs_byte p fs = 0 then Inr (p + 1) else skip_string f (p + 1) fs)"

text \<open>The loop over \<open>n\<close> strings: each address into the table, then the null word.\<close>

primrec fill_table :: "nat \<Rightarrow> nat \<Rightarrow> u32 \<Rightarrow> u32 \<Rightarrow> fsmem \<Rightarrow> (u32 \<times> fsmem) kres" where
  "fill_table 0 f p tb fs = Inr (p, put_fs_long 0 tb fs)"
| "fill_table (Suc n) f p tb fs =
     (let fs = put_fs_long p tb fs
      in bindE (skip_string f p fs) (\<lambda>p. fill_table n f p (tb + 4) fs))"

definition create_tables :: "nat \<Rightarrow> u32 \<Rightarrow> int \<Rightarrow> int \<Rightarrow> fsmem \<Rightarrow> (u32 \<times> fsmem) kres" where
  "create_tables f p argc envc fs =
     (let sp = 0xfffffffc AND p;
          envp = sp - 4 * word_of_int (envc + 1);
          argv = envp - 4 * word_of_int (argc + 1);
          fs = put_fs_long envp (argv - 4) fs;
          fs = put_fs_long argv (argv - 8) fs;
          fs = put_fs_long (word_of_int argc) (argv - 12) fs
      in bindE (fill_table (nat argc) f p argv fs) (\<lambda>(p, fs).
         bindE (fill_table (nat envc) f p envp fs) (\<lambda>(p, fs). Inr (argv - 12, fs))))"

primrec count_loop :: "nat \<Rightarrow> u32 \<Rightarrow> int \<Rightarrow> fsmem \<Rightarrow> int kres" where
  "count_loop 0 tmp i fs = Inl Hang"
| "count_loop (Suc f) tmp i fs = (if get_fs_long tmp fs = 0 then Inr i else count_loop f (tmp + 4) (i + 1) fs)"

definition count :: "nat \<Rightarrow> u32 \<Rightarrow> fsmem \<Rightarrow> int kres" where
  "count f argv fs = (if argv = 0 then Inr 0 else count_loop f argv 0 fs)"

text \<open>A string with its final zero.\<close>

primrec string_at :: "nat \<Rightarrow> u32 \<Rightarrow> fsmem \<Rightarrow> u8 list kres" where
  "string_at 0 a fs = Inl Hang"
| "string_at (Suc f) a fs =
     (let c = get_fs_byte a fs
      in if c = 0 then Inr [0] else bindE (string_at f (a + 1) fs) (\<lambda>bs. Inr (c # bs)))"

text \<open>
  The pages of the arguments, where the last string starts in them, the page in use and the
  offset in it.
\<close>

record args =
  pages :: "nat \<Rightarrow> u32"
  arg_p :: u32
  arg_pag :: u32
  arg_offset :: int

text \<open>
  One byte; \<open>None\<close> when there is no page.  An address below the first page makes an index that is
  not in the array.
\<close>

definition copy_byte :: "u8 \<Rightarrow> args \<Rightarrow> bufw \<Rightarrow> (args option \<times> args \<times> bufw) kres" where
  "copy_byte b g s =
     (let p = arg_p g - 1;
          g = g\<lparr>arg_p := p, arg_offset := arg_offset g - 1\<rparr>;
          store = (\<lambda>g s. Inr (Some g, g, s\<lparr>pmem := (pmem s)(arg_pag g + word_of_int (arg_offset g) := b)\<rparr>))
      in if 0 \<le> arg_offset g then store g s
         else
           let g = g\<lparr>arg_offset := uint (p mod 4096)\<rparr>;
               i = unat (p div 4096)
           in if MAX_ARG_PAGES \<le> i then Inl Fault
              else if pages g i \<noteq> 0 then store (g\<lparr>arg_pag := pages g i\<rparr>) s
              else
                let (pag, m) = get_free_page (bw_mm s);
                    s = s\<lparr>bw_mm := m\<rparr>;
                    g = g\<lparr>arg_pag := pag, pages := (pages g)(i := pag)\<rparr>
                in if pag = 0 then Inr (None, g, s) else store g s)"

text \<open>
  The bytes of a string from the last one on.  The test \<open>p-len < 0\<close> compares unsigned numbers and
  is never true.
\<close>

primrec copy_bytes :: "u8 list \<Rightarrow> args \<Rightarrow> bufw \<Rightarrow> (args option \<times> args \<times> bufw) kres" where
  "copy_bytes [] g s = Inr (Some g, g, s)"
| "copy_bytes (b # bs) g s =
     bindE (copy_byte b g s) (\<lambda>(r, g', s).
       case r of None \<Rightarrow> Inr (None, g', s) | Some g \<Rightarrow> copy_bytes bs g s)"

primrec copy_strings_loop :: "nat \<Rightarrow> (nat \<Rightarrow> u8 list kres) \<Rightarrow> args \<Rightarrow> bufw \<Rightarrow> (args \<times> bufw) kres" where
  "copy_strings_loop 0 fetch g s = Inr (g, s)"
| "copy_strings_loop (Suc argc) fetch g s =
     bindE (fetch argc) (\<lambda>bs.
     bindE (copy_bytes (rev bs) g s) (\<lambda>(r, g', s).
       case r of None \<Rightarrow> Inr (g'\<lparr>arg_p := 0\<rparr>, s) | Some g \<Rightarrow> copy_strings_loop argc fetch g s))"

text \<open>\<open>fetch\<close> gives string \<open>k\<close> of the array, from user or kernel memory; a position 0 means failure.\<close>

definition copy_strings :: "int \<Rightarrow> (nat \<Rightarrow> u8 list kres) \<Rightarrow> args \<Rightarrow> bufw \<Rightarrow> (args \<times> bufw) kres" where
  "copy_strings argc fetch g s =
     (if arg_p g = 0 then Inr (g, s) else copy_strings_loop (nat argc) fetch (g\<lparr>arg_pag := 0, arg_offset := 0\<rparr>) s)"

definition user_string :: "nat \<Rightarrow> u32 \<Rightarrow> fsmem \<Rightarrow> nat \<Rightarrow> u8 list kres" where
  "user_string f argv fs k =
     (let tmp = get_fs_long (argv + 4 * word_of_nat k) fs
      in if tmp = 0 then Inl (Panic ''argc is wrong'') else string_at f tmp fs)"

section \<open>The new address space\<close>

definition set_ldt :: "nat \<Rightarrow> (desc_struct \<Rightarrow> desc_struct) \<Rightarrow> bufw \<Rightarrow> bufw" where
  "set_ldt k f s = upd_curr (\<lambda>t. t\<lparr>t_ldt := (t_ldt t)(k := f (t_ldt t k))\<rparr>) s"

text \<open>
  The user memory after the change: the argument pages at its top; the rest, which page faults
  will load, is the parameter \<open>img\<close>.
\<close>

definition new_fs :: "(u32 \<Rightarrow> u8) \<Rightarrow> (nat \<Rightarrow> u32) \<Rightarrow> (u32 \<Rightarrow> u8) \<Rightarrow> fsmem" where
  "new_fs img pg mem a =
     (if 0x3fe0000 \<le> a \<and> a < 0x4000000 \<and> pg (unat ((a - 0x3fe0000) div 4096)) \<noteq> 0
      then mem (pg (unat ((a - 0x3fe0000) div 4096)) + a mod 4096) else img a)"

definition change_ldt :: "(u32 \<Rightarrow> u8) \<Rightarrow> u32 \<Rightarrow> (nat \<Rightarrow> u32) \<Rightarrow> bufw \<Rightarrow> (u32 \<times> bufw) kres" where
  "change_ldt img text_size pg s =
     (let code_limit = (text_size + 4096 - 1) AND 0xFFFFF000;
          data_limit = 0x4000000;
          code_base = get_base (t_ldt (curr s) 1);
          s = set_ldt 1 (\<lambda>d. set_limit code_limit (set_base code_base d)) s;
          s = set_ldt 2 (\<lambda>d. set_limit data_limit (set_base code_base d)) s;
          s = s\<lparr>bw_fs := new_fs img pg (pmem s)\<rparr>
      in bindE (foldE (\<lambda>i s.
             if pg i \<noteq> 0
             then bindE (put_page (pg i) (code_base + data_limit - 4096 * word_of_nat (MAX_ARG_PAGES - i)) (bw_mm s))
                    (\<lambda>(_, m). Inr (s\<lparr>bw_mm := m\<rparr>))
             else Inr s) (rev [0..<MAX_ARG_PAGES]) s) (\<lambda>s. Inr (data_limit, s)))"

section \<open>do_execve\<close>

text \<open>The line after \<open>#!\<close>: the interpreter, the last part of its name and its argument.\<close>

definition blank :: "u8 \<Rightarrow> bool" where
  "blank c \<longleftrightarrow> c = 32 \<or> c = 9"

definition parse_interp :: "u8 list \<Rightarrow> (u8 list \<times> u8 list \<times> u8 list option) option" where
  "parse_interp buf =
     (let str = takeWhile (\<lambda>c. c \<noteq> 0) (take 1022 buf);
          cp = dropWhile blank (takeWhile (\<lambda>c. c \<noteq> 10) str);
          name = takeWhile (\<lambda>c. \<not> blank c) cp;
          rest = dropWhile (\<lambda>c. \<not> blank c) cp
      in if 10 \<notin> set str \<or> cp = [] then None
         else Some (name, rev (takeWhile (\<lambda>c. c \<noteq> 47) (rev name)), if rest = [] then None else Some (tl rest)))"

text \<open>A string of the kernel as the memory \<open>fs\<close> selects, from address 0 on.\<close>

definition kmem_of :: "u8 list \<Rightarrow> fsmem" where
  "kmem_of bs a = (if unat a < length bs then bs ! unat a else 0)"

text \<open>The checks from \<open>restart_interp\<close> on, and the first block of the file: an error or the block and the ids.\<close>

definition exec_check :: "benv \<Rightarrow> nat \<Rightarrow> bufw \<Rightarrow> ((int + nat \<times> u16 \<times> u16) \<times> bufw) kres" where
  "exec_check e n s =
     (let ip = inode_table s n;
          i = ucast (i_mode ip) :: u32;
          e_uid = (if i AND 0x800 \<noteq> 0 then i_uid ip else t_euid (curr s));
          e_gid = (if i AND 0x400 \<noteq> 0 then ucast (i_gid ip) else t_egid (curr s));
          i = (if t_euid (curr s) = i_uid ip then drop_bit 6 i
               else if t_egid (curr s) = ucast (i_gid ip) then drop_bit 3 i else i)
      in if \<not> S_ISREG (i_mode ip) then Inr (Inl (- EACCES), s)
         else if i AND 1 = 0 \<and> \<not> (i_mode ip AND 0x49 \<noteq> 0 \<and> suser s) then Inr (Inl (- ENOEXEC), s)
         else bindE (bread (e_fuel e) e (i_dev ip) (ucast (i_zone ip 0)) s) (\<lambda>(r, s).
           case r of None \<Rightarrow> Inr (Inl (- EACCES), s) | Some b \<Rightarrow> Inr (Inr (b, e_uid, e_gid), s)))"

definition exec_error1 :: "int \<Rightarrow> args \<Rightarrow> bufw \<Rightarrow> ((int \<times> (u32 \<times> u32) option) \<times> bufw) kres" where
  "exec_error1 retval g s =
     bindE (foldE (\<lambda>i s. bindE (free_page (pages g i) (bw_mm s)) (\<lambda>m. Inr (s\<lparr>bw_mm := m\<rparr>))) [0..<MAX_ARG_PAGES] s)
       (\<lambda>s. Inr ((retval, None), s))"

definition exec_error2 :: "benv \<Rightarrow> nat \<Rightarrow> int \<Rightarrow> args \<Rightarrow> bufw \<Rightarrow> ((int \<times> (u32 \<times> u32) option) \<times> bufw) kres" where
  "exec_error2 e n retval g s = bindE (iput e (Some n) s) (exec_error1 retval g)"

definition exec_bad :: "exec \<Rightarrow> u32 \<Rightarrow> bool" where
  "exec_bad ex sz \<longleftrightarrow>
     a_magic ex \<noteq> ZMAGIC \<or> a_trsize ex \<noteq> 0 \<or> a_drsize ex \<noteq> 0 \<or> 0x3000000 < a_text ex + a_data ex + a_bss ex \<or>
     sz < a_text ex + a_data ex + a_syms ex + N_TXTOFF ex \<or> N_TXTOFF ex \<noteq> 1024"

text \<open>After the point of no return.\<close>

definition exec_commit ::
  "benv \<Rightarrow> (u32 \<Rightarrow> u8) \<Rightarrow> nat \<Rightarrow> exec \<Rightarrow> u16 \<Rightarrow> u16 \<Rightarrow> int \<Rightarrow> int \<Rightarrow> args \<Rightarrow> bufw \<Rightarrow> ((int \<times> (u32 \<times> u32) option) \<times> bufw) kres" where
  "exec_commit e img n ex e_uid e_gid argc envc g s =
     bindE (iput e (t_executable (curr s)) s) (\<lambda>s.
     let s = upd_curr (\<lambda>t. t\<lparr>t_executable := Some n,
               t_sigaction := (\<lambda>i. if i < 32 then (t_sigaction t i)\<lparr>sa_handler := 0\<rparr> else t_sigaction t i)\<rparr>) s
     in bindE (foldE (\<lambda>i s. if bit (t_close_on_exec (curr s)) i then bindE (sys_close e i s) (\<lambda>(_, s). Inr s) else Inr s)
                 [0..<NR_OPEN] s) (\<lambda>s.
     let s = upd_curr (\<lambda>t. t\<lparr>t_close_on_exec := 0\<rparr>) s
     in bindE (free_page_tables (get_base (t_ldt (curr s) 1)) (get_limit 0x0f s) (bw_mm s)) (\<lambda>m.
     let s = s\<lparr>bw_mm := m\<rparr>
     in bindE (free_page_tables (get_base (t_ldt (curr s) 2)) (get_limit 0x17 s) (bw_mm s)) (\<lambda>m.
     let s = s\<lparr>bw_mm := m\<rparr>;
         sc = bw_sched s;
         s = (if last_task_used_math sc = Some (current sc) then s\<lparr>bw_sched := sc\<lparr>last_task_used_math := None\<rparr>\<rparr> else s);
         s = upd_curr (\<lambda>t. t\<lparr>t_used_math := 0\<rparr>) s
     in bindE (change_ldt img (a_text ex) (pages g) s) (\<lambda>(limit, s).
        bindE (create_tables (e_fuel e) (arg_p g + limit - 0x20000) argc envc (bw_fs s)) (\<lambda>(p, fs).
     let i = uint (a_text ex + a_data ex);
         fs = put_fs_bytes (replicate (nat ((- i) mod 4096)) 0) (word_of_int i) fs;
         s = upd_curr (\<lambda>t. t\<lparr>t_end_code := a_text ex, t_end_data := a_data ex + a_text ex,
               t_brk := a_bss ex + (a_data ex + a_text ex), t_start_stack := p AND 0xfffff000,
               t_euid := e_uid, t_egid := e_gid\<rparr>) (s\<lparr>bw_fs := fs\<rparr>)
     in Inr ((0, Some (a_entry ex, p)), s)))))))"

text \<open>From the test of the header on; \<open>sh\<close> says that the arguments have been copied.\<close>

definition exec_load ::
  "benv \<Rightarrow> (u32 \<Rightarrow> u8) \<Rightarrow> bool \<Rightarrow> nat \<Rightarrow> exec \<Rightarrow> u16 \<Rightarrow> u16 \<Rightarrow> u32 \<Rightarrow> u32 \<Rightarrow> int \<Rightarrow> int \<Rightarrow> args \<Rightarrow> bufw \<Rightarrow>
    ((int \<times> (u32 \<times> u32) option) \<times> bufw) kres" where
  "exec_load e img sh n ex e_uid e_gid argv envp argc envc g s =
     (if exec_bad ex (i_size (inode_table s n)) then exec_error2 e n (- ENOEXEC) g s
      else if sh then exec_commit e img n ex e_uid e_gid argc envc g s
      else bindE (copy_strings envc (user_string (e_fuel e) envp (bw_fs s)) g s) (\<lambda>(g, s).
           bindE (copy_strings argc (user_string (e_fuel e) argv (bw_fs s)) g s) (\<lambda>(g, s).
             if arg_p g = 0 then exec_error2 e n (- ENOMEM) g s
             else exec_commit e img n ex e_uid e_gid argc envc g s)))"

text \<open>The \<open>#!\<close> section: the strings, then the interpreter in place of the script.\<close>

definition exec_script ::
  "benv \<Rightarrow> (u32 \<Rightarrow> u8) \<Rightarrow> u32 \<Rightarrow> u8 list \<Rightarrow> u32 \<Rightarrow> u32 \<Rightarrow> int \<Rightarrow> int \<Rightarrow> args \<Rightarrow> bufw \<Rightarrow>
    ((int \<times> (u32 \<times> u32) option) \<times> bufw) kres" where
  "exec_script e img filename line argv envp argc envc g s =
     (case parse_interp line of
        None \<Rightarrow> exec_error1 (- ENOEXEC) g s
      | Some (interp, i_name, i_arg) \<Rightarrow>
          bindE (copy_strings envc (user_string (e_fuel e) envp (bw_fs s)) g s) (\<lambda>(g, s).
          bindE (copy_strings (argc - 1) (user_string (e_fuel e) (argv + 4) (bw_fs s)) g s) (\<lambda>(g, s).
          bindE (copy_strings 1 (\<lambda>_. if filename = 0 then Inl (Panic ''argc is wrong'')
                                     else string_at (e_fuel e) filename (bw_fs s)) g s) (\<lambda>(g, s).
          bindE (case i_arg of None \<Rightarrow> Inr (g, s) | Some a \<Rightarrow> copy_strings 1 (\<lambda>_. Inr (a @ [0])) g s) (\<lambda>(g, s).
          bindE (copy_strings 1 (\<lambda>_. Inr (i_name @ [0])) g s) (\<lambda>(g, s).
          let argc = argc - 1 + 1 + (if i_arg = None then 0 else 1) + 1
          in if arg_p g = 0 then exec_error1 (- ENOMEM) g s
             else
               let old_fs = bw_fs s
               in bindE (namei e 0 (s\<lparr>bw_fs := kmem_of (interp @ [0])\<rparr>)) (\<lambda>(r, s).
                    let s = s\<lparr>bw_fs := old_fs\<rparr>
                    in case r of
                         None \<Rightarrow> exec_error1 (- ENOENT) g s
                       | Some n \<Rightarrow>
                           bindE (exec_check e n s) (\<lambda>(c, s).
                             case c of
                               Inl err \<Rightarrow> exec_error2 e n err g s
                             | Inr (b, e_uid, e_gid) \<Rightarrow>
                                 let ex = exec_at (b_data (bhs s b))
                                 in bindE (brelse e (Some b) s)
                                      (exec_load e img True n ex e_uid e_gid argv envp argc envc g)))))))))"

text \<open>
  \<open>cs\<close> is the code segment of the caller.  The result is 0 with the new instruction and stack
  pointer, or an error.
\<close>

definition do_execve ::
  "benv \<Rightarrow> (u32 \<Rightarrow> u8) \<Rightarrow> u32 \<Rightarrow> u32 \<Rightarrow> u32 \<Rightarrow> u32 \<Rightarrow> bufw \<Rightarrow> ((int \<times> (u32 \<times> u32) option) \<times> bufw) kres" where
  "do_execve e img cs filename argv envp s =
     (let g = \<lparr>pages = (\<lambda>_. 0), arg_p = 4096 * 32 - 4, arg_pag = 0, arg_offset = 0\<rparr>
      in if 0xffff AND cs \<noteq> 0x0f then Inl (Panic ''execve called from supervisor mode'')
         else bindE (namei e filename s) (\<lambda>(r, s).
           case r of
             None \<Rightarrow> Inr ((- ENOENT, None), s)
           | Some n \<Rightarrow>
               bindE (count (e_fuel e) argv (bw_fs s)) (\<lambda>argc.
               bindE (count (e_fuel e) envp (bw_fs s)) (\<lambda>envc.
               bindE (exec_check e n s) (\<lambda>(c, s).
                 case c of
                   Inl err \<Rightarrow> exec_error2 e n err g s
                 | Inr (b, e_uid, e_gid) \<Rightarrow>
                     let d = b_data (bhs s b)
                     in if d 0 = 35 \<and> d 1 = 33
                        then bindE (brelse e (Some b) s) (\<lambda>s.
                             bindE (iput e (Some n) s)
                               (exec_script e img filename (map d [2..<1024]) argv envp argc envc g))
                        else bindE (brelse e (Some b) s)
                               (exec_load e img False n (exec_at d) e_uid e_gid argv envp argc envc g))))))"

end
