(* ===== verification/Exec_Args.thy ===== *)
theory Exec_Args
  imports Exec
begin

text \<open>
  What a new program finds on its stack: the strings \<open>copy_strings\<close> puts into the argument pages of
  \<open>fs/exec.c\<close> and the tables \<open>create_tables\<close> builds below them.
\<close>

section \<open>The strings of a new program\<close>

text \<open>Byte \<open>q\<close> of the argument area, and the bytes from the position to \<open>lim\<close>.\<close>

definition arg_addr :: "args \<Rightarrow> nat \<Rightarrow> u32" where
  "arg_addr g q = pages g (q div 4096) + of_nat (q mod 4096)"

definition arg_bytes :: "nat \<Rightarrow> args \<Rightarrow> (u32 \<Rightarrow> u8) \<Rightarrow> u8 list" where
  "arg_bytes lim g m = map (\<lambda>q. m (arg_addr g q)) [unat (arg_p g)..<lim]"

text \<open>
  The pages in use are different allocated frames, every byte from the position on has its page,
  and the cursor is either spent or at the position.
\<close>

definition frames_ok :: "(nat \<Rightarrow> u32) \<Rightarrow> mm \<Rightarrow> bool" where
  "frames_ok pg m \<longleftrightarrow>
     (\<forall>i < MAX_ARG_PAGES. pg i \<noteq> 0 \<longrightarrow> (\<exists>j < PAGING_PAGES. pg i = page_addr j \<and> mem_map m j \<noteq> 0)) \<and>
     (\<forall>i < MAX_ARG_PAGES. \<forall>j < MAX_ARG_PAGES. pg i \<noteq> 0 \<longrightarrow> pg i = pg j \<longrightarrow> i = j)"

definition args_ok :: "nat \<Rightarrow> args \<Rightarrow> mm \<Rightarrow> bool" where
  "args_ok lim g m \<longleftrightarrow>
     unat (arg_p g) \<le> lim \<and> lim \<le> 131072 \<and> frames_ok (pages g) m \<and>
     (\<forall>q. unat (arg_p g) \<le> q \<longrightarrow> q < lim \<longrightarrow> pages g (q div 4096) \<noteq> 0) \<and>
     (arg_offset g = 0 \<or> unat (arg_p g) < lim \<and> arg_offset g = int (unat (arg_p g) mod 4096) \<and>
        arg_pag g = pages g (unat (arg_p g) div 4096))"

lemma page_offset_inj:
  assumes "i < PAGING_PAGES" "j < PAGING_PAGES" "a < 4096" "b < 4096"
    and "page_addr i + of_nat a = page_addr j + of_nat b"
  shows "i = j \<and> a = b"
proof -
  have u: "unat (page_addr k + of_nat c) = k * 4096 + 1048576 + c" if "k < PAGING_PAGES" "c < 4096" for k c
  proof -
    have c: "unat (of_nat c :: u32) = c" using that by (simp add: unat_of_nat)
    have lt: "unat (page_addr k) + unat (of_nat c :: u32) < 4294967296"
      unfolding unat_page_addr [OF that(1)] c using that by simp
    show ?thesis unfolding unat_add_no_wrap [OF lt] unat_page_addr [OF that(1)] c by simp
  qed
  have "i * 4096 + a = j * 4096 + b" using arg_cong [OF assms(5), of unat] assms(1-4) by (simp add: u)
  then have "(i * 4096 + a) div 4096 = (j * 4096 + b) div 4096" "(i * 4096 + a) mod 4096 = (j * 4096 + b) mod 4096" by simp_all
  then show ?thesis using assms(3,4) by simp
qed

lemma frames_okD:
  "frames_ok pg m \<Longrightarrow> i < MAX_ARG_PAGES \<Longrightarrow> pg i \<noteq> 0 \<Longrightarrow> \<exists>j < PAGING_PAGES. pg i = page_addr j \<and> mem_map m j \<noteq> 0"
  by (simp add: frames_ok_def)

lemma arg_addr_inj:
  assumes "frames_ok (pages g) m" "q < 131072" "q' < 131072" "pages g (q div 4096) \<noteq> 0" "pages g (q' div 4096) \<noteq> 0"
    and "arg_addr g q = arg_addr g q'"
  shows "q = q'"
proof -
  have i: "q div 4096 < MAX_ARG_PAGES" "q' div 4096 < MAX_ARG_PAGES" using assms(2,3) by auto
  obtain j j' where j: "j < PAGING_PAGES" "pages g (q div 4096) = page_addr j" "j' < PAGING_PAGES" "pages g (q' div 4096) = page_addr j'"
    using frames_okD [OF assms(1) i(1) assms(4)] frames_okD [OF assms(1) i(2) assms(5)] by blast
  have "j = j' \<and> q mod 4096 = q' mod 4096"
    using assms(6) j(2,4) by (intro page_offset_inj [OF j(1,3)]) (simp_all add: arg_addr_def)
  then have "q mod 4096 = q' mod 4096" "pages g (q div 4096) = pages g (q' div 4096)" using j by simp_all
  moreover from this(2) have "q div 4096 = q' div 4096" using assms(1,4) i unfolding frames_ok_def by blast
  ultimately have "q div 4096 * 4096 + q mod 4096 = q' div 4096 * 4096 + q' mod 4096" by (simp only:)
  then show ?thesis by (simp only: div_mult_mod_eq)
qed

text \<open>A byte stored below the position.\<close>

lemma arg_store:
  assumes ok: "args_ok lim g m" and p: "0 < unat (arg_p g)" and q: "q = unat (arg_p g) - 1"
    and fr: "frames_ok (pages g2) m2" and p2: "arg_p g2 = arg_p g - 1" and pg: "pages g2 (q div 4096) \<noteq> 0"
    and cur: "arg_offset g2 = int (q mod 4096)" "arg_pag g2 = pages g2 (q div 4096)"
    and keep: "\<And>i. pages g i \<noteq> 0 \<Longrightarrow> pages g2 i = pages g i"
  shows "args_ok lim g2 m2 \<and>
    arg_bytes lim g2 (mem(arg_pag g2 + word_of_int (arg_offset g2) := b)) = b # arg_bytes lim g mem"
proof -
  have u: "unat (arg_p g2) = q" using p unfolding p2 q by (simp add: unat_sub word_le_nat_alt)
  have lim: "unat (arg_p g) \<le> lim" "lim \<le> 131072" using ok by (simp_all add: args_ok_def)
  have here: "pages g (r div 4096) \<noteq> 0" if "q < r" "r < lim" for r using ok that q by (simp add: args_ok_def)
  have pr: "pages g2 (r div 4096) \<noteq> 0" if "q \<le> r" "r < lim" for r
    using that pg keep [OF here, of r] here [of r] by (cases "r = q") auto
  have "args_ok lim g2 m2" unfolding args_ok_def u using lim p q fr pr cur by auto
  moreover have "arg_pag g2 + word_of_int (arg_offset g2) = arg_addr g2 q" by (simp add: cur arg_addr_def)
  moreover have a: "arg_addr g2 r \<noteq> arg_addr g2 q" "arg_addr g2 r = arg_addr g r" if "q < r" "r < lim" for r
  proof -
    show "arg_addr g2 r \<noteq> arg_addr g2 q" using arg_addr_inj [OF fr, of r q] that lim pr [of r] pg by fastforce
    show "arg_addr g2 r = arg_addr g r" using keep [OF here [OF that]] by (simp add: arg_addr_def)
  qed
  moreover have "[q..<lim] = q # [unat (arg_p g)..<lim]" using p q lim by (simp add: upt_conv_Cons)
  moreover have "map (\<lambda>r. (mem(arg_addr g2 q := b)) (arg_addr g2 r)) [unat (arg_p g)..<lim] =
      map (\<lambda>r. mem (arg_addr g r)) [unat (arg_p g)..<lim]"
  proof (rule map_cong [OF refl])
    fix r assume "r \<in> set [unat (arg_p g)..<lim]"
    then have "q < r" "r < lim" using p q by auto
    then show "(mem(arg_addr g2 q := b)) (arg_addr g2 r) = mem (arg_addr g r)" using a by simp
  qed
  ultimately show ?thesis unfolding arg_bytes_def u by simp
qed

lemma frames_ok_new:
  assumes "frames_ok pg m" "i < MAX_ARG_PAGES" "j < PAGING_PAGES" "mem_map m j = 0" "mem_map m' = (mem_map m)(j := 1)"
  shows "frames_ok (pg(i := page_addr j)) m'"
proof -
  have "pg k \<noteq> page_addr j" if "k < MAX_ARG_PAGES" "pg k \<noteq> 0" for k
    using assms(1,3,4) that page_addr_inj unfolding frames_ok_def by metis
  then show ?thesis using assms(1-3,5) page_addr_nonzero [OF assms(3)] unfolding frames_ok_def
    by (auto split: if_splits) metis+
qed

definition no_page :: "mm \<Rightarrow> bool" where
  "no_page m \<longleftrightarrow> (\<forall>i < PAGING_PAGES. mem_map m i \<noteq> 0)"

lemma copy_byte_spec:
  assumes ok: "args_ok lim g (bw_mm s)" and p: "0 < unat (arg_p g)"
  shows "(\<exists>g' s'. copy_byte b g s = Inr (Some g', g', s') \<and> arg_p g' = arg_p g - 1 \<and> args_ok lim g' (bw_mm s') \<and>
      arg_bytes lim g' (pmem s') = b # arg_bytes lim g (pmem s)) \<or>
    (\<exists>g' s'. copy_byte b g s = Inr (None, g', s') \<and> no_page (bw_mm s'))"
proof -
  define q where "q = unat (arg_p g) - 1"
  have q: "q < 131072" "q div 4096 < MAX_ARG_PAGES" "0 < arg_p g" using ok p by (auto simp: args_ok_def q_def word_gt_0)
  have u: "unat (arg_p g - 1) = q" using p by (simp add: q_def unat_sub word_le_nat_alt)
  have w: "uint ((arg_p g - 1) mod 4096) = int (q mod 4096)" "unat ((arg_p g - 1) div 4096) = q div 4096"
    by (simp_all add: u [symmetric] unat_mod unat_div uint_mod of_nat_mod)
  have fin: ?thesis
    if "copy_byte b g s = Inr (Some g2, g2, s2\<lparr>pmem := (pmem s)(arg_pag g2 + word_of_int (arg_offset g2) := b)\<rparr>)"
      "frames_ok (pages g2) (bw_mm s2)" "arg_p g2 = arg_p g - 1" "pages g2 (q div 4096) \<noteq> 0"
      "arg_offset g2 = int (q mod 4096)" "arg_pag g2 = pages g2 (q div 4096)" "\<And>i. pages g i \<noteq> 0 \<Longrightarrow> pages g2 i = pages g i" for g2 s2
    using that(1,3) arg_store [OF ok p q_def that(2-7), of "pmem s" b]
    by (intro disjI1 exI [of _ g2] exI [of _ "s2\<lparr>pmem := (pmem s)(arg_pag g2 + word_of_int (arg_offset g2) := b)\<rparr>"]) simp
  show ?thesis
  proof (cases "arg_offset g = 0")
    case False
    then have c: "arg_offset g = int (unat (arg_p g) mod 4096)" "arg_pag g = pages g (unat (arg_p g) div 4096)"
      "unat (arg_p g) < lim" using ok by (auto simp: args_ok_def)
    have suc: "unat (arg_p g) = Suc q" using p q_def by simp
    have m: "0 < unat (arg_p g) mod 4096" using False c(1) by simp
    have d: "unat (arg_p g) div 4096 = q div 4096" "unat (arg_p g) mod 4096 = Suc (q mod 4096)"
      using m unfolding suc by (auto simp: mod_Suc div_Suc split: if_splits)
    let ?g = "g\<lparr>arg_p := arg_p g - 1, arg_offset := arg_offset g - 1\<rparr>"
    have "copy_byte b g s = Inr (Some ?g, ?g, s\<lparr>pmem := (pmem s)(arg_pag ?g + word_of_int (arg_offset ?g) := b)\<rparr>)"
      using c(1) m by (simp add: copy_byte_def Let_def)
    then show ?thesis
    proof (rule fin)
      show "pages ?g (q div 4096) \<noteq> 0" using ok c(3) d(1) by (auto simp: args_ok_def)
    qed (use ok c d in \<open>simp_all add: args_ok_def\<close>)
  next
    case True
    let ?g = "g\<lparr>arg_p := arg_p g - 1, arg_offset := int (q mod 4096)\<rparr>"
    let ?st = "\<lambda>g s. Inr (Some g, g, s\<lparr>pmem := (pmem s)(arg_pag g + word_of_int (arg_offset g) := b)\<rparr>)"
    have e: "copy_byte b g s =
        (if pages g (q div 4096) \<noteq> 0 then ?st (?g\<lparr>arg_pag := pages g (q div 4096)\<rparr>) s
         else let (pag, m) = get_free_page (bw_mm s); g' = ?g\<lparr>arg_pag := pag, pages := (pages g)(q div 4096 := pag)\<rparr>
              in if pag = 0 then Inr (None, g', s\<lparr>bw_mm := m\<rparr>) else ?st g' (s\<lparr>bw_mm := m\<rparr>))"
      using True q(2) by (simp add: copy_byte_def Let_def w split_beta)
    show ?thesis
    proof (cases "pages g (q div 4096) = 0")
      case False
      let ?g2 = "?g\<lparr>arg_pag := pages g (q div 4096)\<rparr>"
      have "copy_byte b g s = ?st ?g2 s" unfolding e using False by simp
      then show ?thesis by (rule fin) (use ok False in \<open>simp_all add: args_ok_def\<close>)
    next
      case none: True
      show ?thesis
      proof (rule get_free_page_cases [of "bw_mm s"])
        assume "get_free_page (bw_mm s) = (0, bw_mm s)" "\<forall>i < PAGING_PAGES. mem_map (bw_mm s) i \<noteq> 0"
        then show ?thesis unfolding e using none by (intro disjI2 exI conjI) (simp_all add: no_page_def)
      next
        fix j m assume j: "j < PAGING_PAGES" "mem_map (bw_mm s) j = 0" "get_free_page (bw_mm s) = (page_addr j, m)"
          "page_addr j \<noteq> 0" "mem_map m = (mem_map (bw_mm s))(j := 1)"
        let ?g2 = "?g\<lparr>arg_pag := page_addr j, pages := (pages g)(q div 4096 := page_addr j)\<rparr>"
        have f: "frames_ok (pages ?g2) m"
          using frames_ok_new [OF _ q(2) j(1,2,5)] ok by (simp add: args_ok_def)
        have "copy_byte b g s =
            Inr (Some ?g2, ?g2, (s\<lparr>bw_mm := m\<rparr>)\<lparr>pmem := (pmem s)(arg_pag ?g2 + word_of_int (arg_offset ?g2) := b)\<rparr>)"
          unfolding e using none j(3,4) by (simp add: Let_def)
        then show ?thesis by (rule fin) (use f none j(4) in auto)
      qed
    qed
  qed
qed

lemma copy_bytes_spec:
  "args_ok lim g (bw_mm s) \<Longrightarrow> length bs \<le> unat (arg_p g) \<Longrightarrow>
    (\<exists>g' s'. copy_bytes bs g s = Inr (Some g', g', s') \<and> unat (arg_p g') = unat (arg_p g) - length bs \<and>
      args_ok lim g' (bw_mm s') \<and> arg_bytes lim g' (pmem s') = rev bs @ arg_bytes lim g (pmem s)) \<or>
    (\<exists>g' s'. copy_bytes bs g s = Inr (None, g', s') \<and> no_page (bw_mm s'))"
proof (induction bs arbitrary: g s)
  case (Cons b bs)
  have p: "0 < unat (arg_p g)" using Cons.prems(2) by simp
  from copy_byte_spec [OF Cons.prems(1) p, of b] show ?case
  proof (elim disjE exE conjE)
    fix g' s' assume c: "copy_byte b g s = Inr (Some g', g', s')" "arg_p g' = arg_p g - 1" "args_ok lim g' (bw_mm s')"
      "arg_bytes lim g' (pmem s') = b # arg_bytes lim g (pmem s)"
    have u: "unat (arg_p g') = unat (arg_p g) - 1" using p c(2) by (simp add: unat_sub word_le_nat_alt)
    then have "length bs \<le> unat (arg_p g')" using Cons.prems(2) by simp
    from Cons.IH [OF c(3) this] show ?thesis using u by (auto simp: c(1,4))
  next
    fix g' s' assume "copy_byte b g s = Inr (None, g', s')" "no_page (bw_mm s')"
    then show ?thesis by simp
  qed
qed auto

lemma copy_strings_loop_spec:
  assumes "\<And>k. k < argc \<Longrightarrow> fetch k = Inr (str k)"
  shows "args_ok lim g (bw_mm s) \<Longrightarrow> length (concat (map str [0..<argc])) < unat (arg_p g) \<Longrightarrow>
    (\<exists>g' s'. copy_strings_loop argc fetch g s = Inr (g', s') \<and> 
      unat (arg_p g') = unat (arg_p g) - length (concat (map str [0..<argc])) \<and> args_ok lim g' (bw_mm s') \<and>
      arg_bytes lim g' (pmem s') = concat (map str [0..<argc]) @ arg_bytes lim g (pmem s)) \<or>
    (\<exists>g' s'. copy_strings_loop argc fetch g s = Inr (g', s') \<and> arg_p g' = 0 \<and> no_page (bw_mm s'))"
  using assms
proof (induction argc arbitrary: g s)
  case (Suc n)
  have f: "fetch n = Inr (str n)" using Suc.prems(3) by simp
  have l: "length (rev (str n)) \<le> unat (arg_p g)" using Suc.prems(2) by simp
  from copy_bytes_spec [OF Suc.prems(1) l] show ?case
  proof (elim disjE exE conjE)
    fix g' s' assume c: "copy_bytes (rev (str n)) g s = Inr (Some g', g', s')"
      "unat (arg_p g') = unat (arg_p g) - length (rev (str n))" "args_ok lim g' (bw_mm s')"
      "arg_bytes lim g' (pmem s') = rev (rev (str n)) @ arg_bytes lim g (pmem s)"
    have "length (concat (map str [0..<n])) < unat (arg_p g')" using Suc.prems(2) c(2) by simp
    from Suc.IH [OF c(3) this] Suc.prems(3) show ?thesis using c(2) by (auto simp: f c(1,4))
  next
    fix g' s' assume "copy_bytes (rev (str n)) g s = Inr (None, g', s')" "no_page (bw_mm s')"
    then show ?thesis by (simp add: f)
  qed
qed auto

text \<open>
  C6: \<open>copy_strings\<close> with strings that fit returns, and puts them in front of what the argument
  area holds: read through the pages, the bytes from the new position on are the strings in
  order, each with its final zero, followed by the bytes that were there.  When there is no free
  page left the position is 0.
\<close>

theorem copy_strings_layout:
  assumes "args_ok lim g (bw_mm s)" "\<And>k. k < nat argc \<Longrightarrow> fetch k = Inr (str k)"
    and "length (concat (map str [0..<nat argc])) < unat (arg_p g)"
  shows "\<exists>g' s'. copy_strings argc fetch g s = Inr (g', s') \<and>
    (arg_p g' = 0 \<and> no_page (bw_mm s') \<or>
     unat (arg_p g') = unat (arg_p g) - length (concat (map str [0..<nat argc])) \<and> args_ok lim g' (bw_mm s') \<and>
     arg_bytes lim g' (pmem s') = concat (map str [0..<nat argc]) @ arg_bytes lim g (pmem s))"
proof -
  let ?g = "g\<lparr>arg_pag := 0, arg_offset := 0\<rparr>"
  have "args_ok lim ?g (bw_mm s)" "arg_bytes lim ?g = arg_bytes lim g"
    using assms(1) by (auto simp: args_ok_def arg_bytes_def arg_addr_def fun_eq_iff)
  moreover have "arg_p g \<noteq> 0" using assms(3) by auto
  ultimately show ?thesis
    using copy_strings_loop_spec [of "nat argc" fetch str lim ?g s, OF assms(2)] assms(3) by (auto simp: copy_strings_def)
qed

lemma copy_bytes_append:
  "copy_bytes (xs @ ys) g s = bindE (copy_bytes xs g s) (\<lambda>(r, g', s').
     case r of None \<Rightarrow> Inr (None, g', s') | Some g \<Rightarrow> copy_bytes ys g s')"
  by (induction xs arbitrary: g s) (auto simp: bindE_def split: sum.splits option.splits)

lemma copy_byte_below:
  assumes "args_ok lim g m" "arg_p g = 0"
  shows "copy_byte b g s = Inl Fault"
proof -
  have "arg_offset g = 0" using assms by (auto simp: args_ok_def)
  then show ?thesis using assms(2) by (simp add: copy_byte_def Let_def)
qed

text \<open>
  C35: \<open>copy_strings\<close> with a string that does not fit below the position: the test for it compares
  unsigned numbers and never stops the copy, so unless the memory runs out first the index of
  the page leaves the array.
\<close>

theorem copy_strings_overflow:
  assumes "args_ok lim g (bw_mm s)" "arg_p g \<noteq> 0" "fetch 0 = Inr bs" "unat (arg_p g) < length bs"
  shows "copy_strings 1 fetch g s = Inl Fault \<or>
    (\<exists>g' s'. copy_strings 1 fetch g s = Inr (g', s') \<and> arg_p g' = 0 \<and> no_page (bw_mm s'))"
proof -
  let ?g = "g\<lparr>arg_pag := 0, arg_offset := 0\<rparr>" and ?n = "unat (arg_p g)"
  let ?xs = "take ?n (rev bs)"
  have ok: "args_ok lim ?g (bw_mm s)" using assms(1) by (auto simp: args_ok_def)
  have "drop ?n (rev bs) \<noteq> []" using assms(4) by simp
  then obtain y ys where d: "drop ?n (rev bs) = y # ys" by (cases "drop ?n (rev bs)") auto
  have bs: "copy_bytes (rev bs) ?g s = copy_bytes (?xs @ y # ys) ?g s" using d by (metis append_take_drop_id)
  have n: "length ?xs = unat (arg_p ?g)" using assms(4) by simp
  from copy_bytes_spec [OF ok, of ?xs] n show ?thesis
  proof (elim disjE exE conjE meta_impE)
    fix g' s' assume c: "copy_bytes ?xs ?g s = Inr (Some g', g', s')" "unat (arg_p g') = unat (arg_p ?g) - length ?xs"
      "args_ok lim g' (bw_mm s')"
    then have "arg_p g' = 0" using n by (simp add: unat_eq_0)
    then have "copy_bytes (rev bs) ?g s = Inl Fault"
      unfolding bs copy_bytes_append c(1) using copy_byte_below [OF c(3)] by simp
    then show ?thesis using assms(2,3) by (simp add: copy_strings_def)
  next
    fix g' s' assume "copy_bytes ?xs ?g s = Inr (None, g', s')" "no_page (bw_mm s')"
    then have "copy_bytes (rev bs) ?g s = Inr (None, g', s')" unfolding bs copy_bytes_append by simp
    then show ?thesis using assms(2,3) \<open>no_page (bw_mm s')\<close> by (simp add: copy_strings_def)
  qed simp
qed

section \<open>The tables\<close>

definition zstr :: "u8 list \<Rightarrow> bool" where
  "zstr x \<longleftrightarrow> x \<noteq> [] \<and> last x = 0 \<and> 0 \<notin> set (butlast x)"

definition bytes_at :: "u32 \<Rightarrow> u8 list \<Rightarrow> fsmem \<Rightarrow> bool" where
  "bytes_at p bs fs \<longleftrightarrow> (\<forall>i < length bs. fs (p + of_nat i) = bs ! i)"

lemma bytes_at_Cons: "bytes_at p (b # bs) fs \<longleftrightarrow> fs p = b \<and> bytes_at (p + 1) bs fs"
  unfolding bytes_at_def by (auto simp: less_Suc_eq_0_disj add.assoc)

lemma bytes_at_append: "bytes_at p (xs @ ys) fs \<longleftrightarrow> bytes_at p xs fs \<and> bytes_at (p + of_nat (length xs)) ys fs"
  by (induction xs arbitrary: p) (simp_all add: bytes_at_Cons add.assoc, simp add: bytes_at_def)

lemma skip_string_zstr:
  "zstr x \<Longrightarrow> bytes_at p x fs \<Longrightarrow> length x \<le> f \<Longrightarrow> skip_string f p fs = Inr (p + of_nat (length x))"
proof (induction x arbitrary: p f)
  case (Cons b x)
  obtain f' where f: "f = Suc f'" using Cons.prems(3) by (cases f) auto
  show ?case
  proof (cases "x = []")
    case True
    then show ?thesis using Cons.prems f by (simp add: zstr_def bytes_at_Cons get_fs_byte_def)
  next
    case False
    then have "zstr x" "b \<noteq> 0" using Cons.prems(1) by (auto simp: zstr_def)
    then show ?thesis using Cons f by (simp add: bytes_at_Cons get_fs_byte_def add.assoc)
  qed
qed (simp add: zstr_def)

primrec str_addrs :: "u32 \<Rightarrow> u8 list list \<Rightarrow> u32 list" where
  "str_addrs p [] = []"
| "str_addrs p (x # xs) = p # str_addrs (p + of_nat (length x)) xs"

text \<open>A table of \<open>n\<close> words that ends where the \<open>m\<close> bytes at \<open>p\<close> do not reach.\<close>

definition apart :: "u32 \<Rightarrow> nat \<Rightarrow> u32 \<Rightarrow> nat \<Rightarrow> bool" where
  "apart tb n p m \<longleftrightarrow> 4 * n \<le> 4294967296 \<and> (\<forall>i < m. 4 * n \<le> unat (p + of_nat i - tb))"

lemma apart_put:
  assumes "apart tb n p (length bs)" "0 < n" "bytes_at p bs fs"
  shows "bytes_at p bs (put_fs_long w tb fs)"
proof -
  have "put_longs [w] tb fs (p + of_nat i) = fs (p + of_nat i)" if "i < length bs" for i
    using assms(1,2) that by (intro put_longs_out) (auto simp: apart_def)
  then show ?thesis using assms(3) by (simp add: bytes_at_def)
qed

lemma apart_sub:
  assumes a: "apart tb N p M" and k: "k + n \<le> N" "j + m \<le> M"
  shows "apart (tb + 4 * of_nat k) n (p + of_nat j) m"
proof -
  have "4 * n \<le> unat (p + of_nat j + of_nat i - (tb + 4 * of_nat k))" if "i < m" for i
  proof -
    let ?d = "p + of_nat (j + i) - tb"
    have "j + i < M" using that k(2) by simp
    then have "4 * N \<le> unat ?d" using a unfolding apart_def by blast
    then have d: "4 * k + 4 * n \<le> unat ?d" using k(1) by simp
    then have "4 * k < 4294967296" using unat_u32_less [of ?d] by linarith
    then have u: "unat (of_nat (4 * k) :: u32) = 4 * k" by (intro of_nat_inverse [OF refl]) simp
    then have le: "of_nat (4 * k) \<le> ?d" unfolding word_le_nat_alt using d by simp
    have un: "unat (?d - of_nat (4 * k)) = unat ?d - 4 * k" unfolding unat_sub_no_wrap [OF le] u ..
    have "p + of_nat j + of_nat i - (tb + 4 * of_nat k) = ?d - of_nat (4 * k)" by simp
    then have "unat (p + of_nat j + of_nat i - (tb + 4 * of_nat k)) = unat ?d - 4 * k" using un by (simp only:)
    then show ?thesis using d by linarith
  qed
  then show ?thesis using a k(1) unfolding apart_def by auto
qed

lemma fill_table_spec:
  "\<forall>x \<in> set xs. zstr x \<and> length x \<le> f \<Longrightarrow> bytes_at p (concat xs) fs \<Longrightarrow> apart tb (Suc (length xs)) p (length (concat xs)) \<Longrightarrow>
    fill_table (length xs) f p tb fs = Inr (p + of_nat (length (concat xs)), put_longs (str_addrs p xs @ [0]) tb fs)"
proof (induction xs arbitrary: p tb fs)
  case (Cons x xs)
  let ?fs = "put_fs_long p tb fs"
  have b: "bytes_at p (x @ concat xs) ?fs" using apart_put [OF Cons.prems(3)] Cons.prems(2) by simp
  have "skip_string f p ?fs = Inr (p + of_nat (length x))"
    using Cons.prems(1) b by (intro skip_string_zstr) (simp_all add: bytes_at_append)
  moreover have "apart (tb + 4) (Suc (length xs)) (p + of_nat (length x)) (length (concat xs))"
    using apart_sub [OF Cons.prems(3), of 1 "Suc (length xs)" "length x" "length (concat xs)"] by simp
  ultimately show ?case
    using Cons.IH [of "p + of_nat (length x)" ?fs "tb + 4"] Cons.prems(1) b by (simp add: bytes_at_append add.assoc Let_def)
qed simp

lemma put_longs_append:
  "put_longs (xs @ ys) a fs = put_longs ys (a + 4 * of_nat (length xs)) (put_longs xs a fs)"
  by (induction xs arbitrary: a fs) (simp_all add: algebra_simps)

lemma put_longs_down: "put_fs_long z a (put_fs_long y (a + 4) (put_fs_long x (a + 8) fs)) = put_longs [z, y, x] a fs"
  by (rule ext) (simp add: put_fs_long_def add.assoc)

lemma length_str_addrs [simp]: "length (str_addrs p xs) = length xs"
  by (induction xs arbitrary: p) simp_all

lemma apart_put_longs:
  assumes "apart tb n p (length bs)" "length ws \<le> n" "bytes_at p bs fs"
  shows "bytes_at p bs (put_longs ws tb fs)"
proof -
  have "put_longs ws tb fs (p + of_nat i) = fs (p + of_nat i)" if "i < length bs" for i
    using assms(1,2) that by (intro put_longs_out) (fastforce simp: apart_def)+
  then show ?thesis using assms(3) by (simp add: bytes_at_def)
qed

text \<open>The stack of the new program, from its pointer up.\<close>

definition start_frame :: "u32 \<Rightarrow> u32 \<Rightarrow> u8 list list \<Rightarrow> u8 list list \<Rightarrow> u32 list" where
  "start_frame sp p args envs =
     [of_nat (length args), sp + 12, sp + 12 + 4 * of_nat (Suc (length args))] @
     str_addrs p args @ [0] @ str_addrs (p + of_nat (length (concat args))) envs @ [0]"

text \<open>
  C14: \<open>create_tables\<close> over strings that lie one after the other from \<open>p\<close> on, with room for the
  tables below them: it returns, and stores at the new stack pointer the number of arguments,
  the addresses of the two tables, the address of each argument and a null word, the address
  of each environment string and a null word, and nothing else.
\<close>

theorem create_tables_frame:
  assumes "\<forall>x \<in> set (args @ envs). zstr x \<and> length x \<le> f" "bytes_at p (concat (args @ envs)) fs"
    and "sp = (0xfffffffc AND p) - 4 * of_nat (length args + length envs + 5)"
    and "apart sp (length args + length envs + 5) p (length (concat (args @ envs)))"
  shows "create_tables f p (int (length args)) (int (length envs)) fs = Inr (sp, put_longs (start_frame sp p args envs) sp fs)"
proof -
  let ?n = "length args" and ?m = "length envs" and ?la = "length (concat args)" and ?le = "length (concat envs)"
  let ?argv = "sp + 12" and ?envp = "sp + 12 + 4 * of_nat (Suc ?n)" and ?q = "p + of_nat ?la"
  let ?h = "[of_nat ?n, ?argv, ?envp]"
  let ?fs1 = "put_longs ?h sp fs"
  let ?fs2 = "put_longs (str_addrs p args @ [0]) ?argv ?fs1"
  have av: "(0xfffffffc AND p) - 4 * word_of_int (int ?m + 1) - 4 * word_of_int (int ?n + 1) = ?argv"
    "(0xfffffffc AND p) - 4 * word_of_int (int ?m + 1) = ?envp"
    unfolding assms(3) by (simp_all add: algebra_simps)
  have h: "put_fs_long (word_of_int (int ?n)) (?argv - 12) (put_fs_long ?argv (?argv - 8) (put_fs_long ?envp (?argv - 4) fs)) = ?fs1"
  proof -
    have "?argv - 4 = sp + 8" "?argv - 8 = sp + 4" "?argv - 12 = sp" by simp_all
    then show ?thesis by (simp only: of_int_of_nat_eq put_longs_down)
  qed
  have b: "bytes_at p (concat args) fs" "bytes_at ?q (concat envs) fs"
    using assms(2) by (simp_all add: bytes_at_append)
  have b1: "bytes_at p (concat args) ?fs1" "bytes_at ?q (concat envs) ?fs1"
    using apart_put_longs [OF _ _ b(1), of sp 3 ?h] apart_put_longs [OF _ _ b(2), of sp 3 ?h]
      apart_sub [OF assms(4), of 0 3 0 ?la] apart_sub [OF assms(4), of 0 3 ?la ?le] by simp_all
  have a: "apart ?argv (Suc ?n) p ?la" "apart ?argv (Suc ?n) ?q ?le" "apart ?envp (Suc ?m) ?q ?le"
    using apart_sub [OF assms(4), of 3 "Suc ?n" 0 ?la] apart_sub [OF assms(4), of 3 "Suc ?n" ?la ?le]
      apart_sub [OF assms(4), of "4 + ?n" "Suc ?m" ?la ?le] by (simp_all add: algebra_simps)
  have b2: "bytes_at ?q (concat envs) ?fs2" using apart_put_longs [OF a(2) _ b1(2)] by simp
  have f1: "fill_table ?n f p ?argv ?fs1 = Inr (?q, ?fs2)" using assms(1) by (intro fill_table_spec b1 a) auto
  have f2: "fill_table ?m f ?q ?envp ?fs2 = Inr (?q + of_nat ?le, put_longs (str_addrs ?q envs @ [0]) ?envp ?fs2)"
    using assms(1) by (intro fill_table_spec b2 a) auto
  have "put_longs (start_frame sp p args envs) sp fs = put_longs (str_addrs ?q envs @ [0]) ?envp ?fs2"
    unfolding start_frame_def append_assoc [symmetric] put_longs_append by (simp add: algebra_simps)
  then show ?thesis
    unfolding create_tables_def Let_def av(1) unfolding av(2) h nat_int f1 bindE_simps prod.case f2 by simp
qed

section \<open>Examples\<close>

definition demo_args :: "u32 \<Rightarrow> args" where
  "demo_args p = \<lparr>pages = (\<lambda>_. 0), arg_p = p, arg_pag = 0, arg_offset = 0\<rparr>"

lemma demo_args_ok: "unat p \<le> 131072 \<Longrightarrow> args_ok (unat p) (demo_args p) m" "arg_bytes (unat p) (demo_args p) mem = []"
  by (simp_all add: args_ok_def demo_args_def frames_ok_def arg_bytes_def)

theorem copy_strings_layout_witness:
  "\<exists>g' s'. copy_strings 1 (\<lambda>_. Inr [97, 0]) (demo_args 0x1fffc) boot_buf = Inr (g', s') \<and>
     (arg_p g' = 0 \<or> arg_bytes 131068 g' (pmem s') = [97, 0])"
  using copy_strings_layout [where s = boot_buf and argc = 1 and fetch = "\<lambda>_. Inr [97, 0]" and str = "\<lambda>_. [97, 0]",
      OF demo_args_ok(1) [of "0x1fffc"]]
    demo_args_ok(2) [of "0x1fffc"] by (auto simp: demo_args_def)

theorem copy_strings_overflow_witness:
  "copy_strings 1 (\<lambda>_. Inr [65, 66, 0]) (demo_args 1) boot_buf = Inl Fault \<or>
   (\<exists>g' s'. copy_strings 1 (\<lambda>_. Inr [65, 66, 0]) (demo_args 1) boot_buf = Inr (g', s') \<and> arg_p g' = 0)"
  using copy_strings_overflow [where s = boot_buf and fetch = "\<lambda>_. Inr [65, 66, 0]" and bs = "[65, 66, 0]",
      OF demo_args_ok(1) [of 1]]
  by (auto simp: demo_args_def)

theorem create_tables_frame_witness:
  "create_tables 10 0x1000 1 1 ((\<lambda>_. 0)(0x1000 := 97, 0x1002 := 98)) =
     Inr (0xFE4, put_longs [1, 0xFF0, 0xFF8, 0x1000, 0, 0x1002, 0] 0xFE4 ((\<lambda>_. 0)(0x1000 := 97, 0x1002 := 98)))"
proof -
  let ?fs = "(\<lambda>_. 0)(0x1000 := 97, 0x1002 := 98) :: fsmem"
  have z: "\<forall>x \<in> set ([[97, 0]] @ [[98, 0]]). zstr x \<and> length x \<le> 10" by (simp add: zstr_def)
  have b: "bytes_at 0x1000 (concat ([[97, 0]] @ [[98, 0]])) ?fs" by (simp add: bytes_at_Cons) (simp add: bytes_at_def)
  have a: "apart 0xFE4 (length [[97, 0 :: u8]] + length [[98, 0 :: u8]] + 5) 0x1000 (length (concat ([[97, 0 :: u8]] @ [[98, 0]])))"
  proof -
    have "28 \<le> unat (0x1000 + of_nat i - 0xFE4 :: u32)" if "i < 4" for i
    proof -
      have "0x1000 + of_nat i - 0xFE4 = (of_nat (28 + i) :: u32)" by simp
      moreover have "unat (of_nat (28 + i) :: u32) = 28 + i" using that by (intro of_nat_inverse [OF refl]) simp
      ultimately show ?thesis by (simp only:)
    qed
    then show ?thesis by (simp add: apart_def)
  qed
  have sp: "0xFE4 = (0xfffffffc AND 0x1000) - 4 * (of_nat (length [[97, 0 :: u8]] + length [[98, 0 :: u8]] + 5) :: u32)" by simp
  from create_tables_frame [OF z b sp a] show ?thesis by (simp add: start_frame_def)
qed

end
