(* ===== verification/Hd.thy ===== *)
theory Hd
  imports Ramdisk Mount
begin

text \<open>
  The hard disk driver, \<open>kernel/blk_drv/hd.c\<close>.  The controller is a parameter: a record of what
  reading and writing its ports does to a state of it, of any type.  The address of the routine
  the next interrupt calls is a value of \<open>hd_intr\<close>; \<open>hd_interrupt\<close> is the entry in
  \<open>kernel/system_call.s\<close>.  A request is repeated at most once for every entry of the queue and for
  every error of one, which bounds the loop of \<open>do_hd_request\<close>.
\<close>

section \<open>Ports\<close>

record 'c ports =
  p_inb :: "nat \<Rightarrow> 'c \<Rightarrow> u8 \<times> 'c"
  p_outb :: "u8 \<Rightarrow> nat \<Rightarrow> 'c \<Rightarrow> 'c"
  p_insw :: "nat \<Rightarrow> 'c \<Rightarrow> u16 \<times> 'c"
  p_outsw :: "u16 \<Rightarrow> nat \<Rightarrow> 'c \<Rightarrow> 'c"

abbreviation (input) HD_DATA :: nat where "HD_DATA \<equiv> 0x1f0"
abbreviation (input) HD_ERROR :: nat where "HD_ERROR \<equiv> 0x1f1"
abbreviation (input) HD_STATUS :: nat where "HD_STATUS \<equiv> 0x1f7"
abbreviation (input) HD_CMD :: nat where "HD_CMD \<equiv> 0x3f6"
abbreviation (input) WIN_RESTORE :: u32 where "WIN_RESTORE \<equiv> 0x10"
abbreviation (input) WIN_READ :: u32 where "WIN_READ \<equiv> 0x20"
abbreviation (input) WIN_WRITE :: u32 where "WIN_WRITE \<equiv> 0x30"
abbreviation (input) WIN_SPECIFY :: u32 where "WIN_SPECIFY \<equiv> 0x91"
abbreviation (input) MAX_HD :: nat where "MAX_HD \<equiv> 2"
abbreviation (input) MAX_ERRORS :: int where "MAX_ERRORS \<equiv> 7"

section \<open>State\<close>

record hd_i_struct =
  hi_head :: u32
  hi_sect :: u32
  hi_cyl :: u32
  hi_wpcom :: u32
  hi_lzone :: u32
  hi_ctl :: u32

record hd_struct =
  start_sect :: u32
  nr_sects :: u32

datatype hd_intr = Read_intr | Write_intr | Recal_intr

record 'c hdw =
  h_bw :: bufw
  h_ctl :: 'c
  recalibrate :: bool
  hd_reset :: bool
  hd_info :: "nat \<Rightarrow> hd_i_struct"
  NR_HD :: nat
  hd_parts :: "nat \<Rightarrow> hd_struct"
  do_hd :: "hd_intr option"
  callable :: bool
  hd_gate :: bool

definition hd_inb :: "'c ports \<Rightarrow> nat \<Rightarrow> 'c hdw \<Rightarrow> u8 \<times> 'c hdw" where
  "hd_inb io port s = (let (v, c) = p_inb io port (h_ctl s) in (v, s\<lparr>h_ctl := c\<rparr>))"

definition hd_outb :: "'c ports \<Rightarrow> u8 \<Rightarrow> nat \<Rightarrow> 'c hdw \<Rightarrow> 'c hdw" where
  "hd_outb io v port s = s\<lparr>h_ctl := p_outb io v port (h_ctl s)\<rparr>"

text \<open>The words of \<open>insw\<close> and \<open>outsw\<close>, low byte first.\<close>

primrec port_read :: "'c ports \<Rightarrow> nat \<Rightarrow> 'c \<Rightarrow> u8 list \<times> 'c" where
  "port_read io 0 c = ([], c)"
| "port_read io (Suc n) c =
     (let (w, c) = p_insw io HD_DATA c; (bs, c) = port_read io n c in (ucast w # ucast (drop_bit 8 w) # bs, c))"

primrec port_write :: "'c ports \<Rightarrow> u8 list \<Rightarrow> nat \<Rightarrow> nat \<Rightarrow> 'c \<Rightarrow> 'c" where
  "port_write io bs 0 k c = c"
| "port_write io bs (Suc n) k c =
     port_write io bs n (k + 2) (p_outsw io (ucast (bs ! k) OR push_bit 8 (ucast (bs ! (k + 1)))) HD_DATA c)"

definition on_hd :: "(bufw \<Rightarrow> bufw kres) \<Rightarrow> 'c hdw \<Rightarrow> 'c hdw kres" where
  "on_hd f s = bindE (f (h_bw s)) (\<lambda>b. Inr (s\<lparr>h_bw := b\<rparr>))"

definition hd_current :: "'c hdw \<Rightarrow> (nat \<times> request) kres" where
  "hd_current s = (case CURRENT 3 (h_bw s) of None \<Rightarrow> Inl Fault | Some c \<Rightarrow> Inr (c, request (h_bw s) c))"

definition upd_cur :: "nat \<Rightarrow> (request \<Rightarrow> request) \<Rightarrow> 'c hdw \<Rightarrow> 'c hdw" where
  "upd_cur c f s = s\<lparr>h_bw := upd_req c f (h_bw s)\<rparr>"

section \<open>The controller\<close>

text \<open>\<open>retries\<close> after each decrement.\<close>

primrec ready_loop :: "'c ports \<Rightarrow> nat \<Rightarrow> 'c hdw \<Rightarrow> nat \<times> 'c hdw" where
  "ready_loop io 0 s = (0, s)"
| "ready_loop io (Suc retries) s =
     (let (v, s) = hd_inb io HD_STATUS s in if v AND 0xc0 = 0x40 then (Suc retries, s) else ready_loop io retries s)"

definition controller_ready :: "'c ports \<Rightarrow> 'c hdw \<Rightarrow> nat \<times> 'c hdw" where
  "controller_ready io s = ready_loop io 9999 s"

text \<open>Whether the command failed.\<close>

definition win_result :: "'c ports \<Rightarrow> 'c hdw \<Rightarrow> bool \<times> 'c hdw" where
  "win_result io s =
     (let (i, s) = hd_inb io HD_STATUS s
      in if i AND 0xF1 = 0x50 then (False, s)
         else (True, if i AND 1 \<noteq> 0 then snd (hd_inb io HD_ERROR s) else s))"

definition hd_out ::
  "'c ports \<Rightarrow> u32 \<Rightarrow> u32 \<Rightarrow> u32 \<Rightarrow> u32 \<Rightarrow> u32 \<Rightarrow> u32 \<Rightarrow> hd_intr \<Rightarrow> 'c hdw \<Rightarrow> 'c hdw kres" where
  "hd_out io drive nsect sect head cyl cmd intr s =
     (if 1 < drive \<or> 15 < head then Inl (Panic ''Trying to write bad sector'')
      else
        let (retries, s) = controller_ready io s
        in if retries = 0 then Inl (Panic ''HD controller not ready'')
           else
             let i = hd_info s (unat drive);
                 s = s\<lparr>do_hd := Some intr\<rparr>;
                 s = hd_outb io (ucast (hi_ctl i)) HD_CMD s;
                 s = hd_outb io (ucast (drop_bit 2 (hi_wpcom i))) (HD_DATA + 1) s;
                 s = hd_outb io (ucast nsect) (HD_DATA + 2) s;
                 s = hd_outb io (ucast sect) (HD_DATA + 3) s;
                 s = hd_outb io (ucast cyl) (HD_DATA + 4) s;
                 s = hd_outb io (ucast (drop_bit 8 cyl)) (HD_DATA + 5) s;
                 s = hd_outb io (ucast (0xA0 OR push_bit 4 drive OR head)) (HD_DATA + 6) s
             in Inr (hd_outb io (ucast cmd) (HD_DATA + 7) s))"

primrec busy_loop :: "'c ports \<Rightarrow> nat \<Rightarrow> 'c hdw \<Rightarrow> 'c hdw" where
  "busy_loop io 0 s = s"
| "busy_loop io (Suc n) s = (let (v, s) = hd_inb io HD_STATUS s in if v AND 0xC0 = 0x40 then s else busy_loop io n s)"

definition drive_busy :: "'c ports \<Rightarrow> 'c hdw \<Rightarrow> bool \<times> 'c hdw" where
  "drive_busy io s =
     (let (i, s) = hd_inb io HD_STATUS (busy_loop io 10000 s) in (i AND 0xD0 \<noteq> 0x50, s))"

definition reset_controller :: "'c ports \<Rightarrow> 'c hdw \<Rightarrow> 'c hdw" where
  "reset_controller io s =
     (let s = hd_outb io 4 HD_CMD s;
          s = hd_outb io (ucast (hi_ctl (hd_info s 0) AND 0x0f)) HD_CMD s
      in snd (hd_inb io HD_ERROR (snd (drive_busy io s))))"

definition reset_hd :: "'c ports \<Rightarrow> nat \<Rightarrow> 'c hdw \<Rightarrow> 'c hdw kres" where
  "reset_hd io nr s =
     (let s = reset_controller io s; i = hd_info s nr
      in hd_out io (of_nat nr) (hi_sect i) (hi_sect i) (hi_head i - 1) (hi_cyl i) WIN_SPECIFY Recal_intr s)"

section \<open>Requests and interrupts\<close>

text \<open>\<open>CURRENT\<close> is looked at again after \<open>end_request\<close>.\<close>

definition bad_rw_intr :: "'c hdw \<Rightarrow> 'c hdw kres" where
  "bad_rw_intr s =
     bindE (hd_current s) (\<lambda>(c, rqs).
     let s = upd_cur c (\<lambda>r. r\<lparr>r_errors := r_errors r + 1\<rparr>) s
     in bindE (if MAX_ERRORS \<le> r_errors rqs + 1 then on_hd (end_request 3 False) s else Inr s) (\<lambda>s.
        bindE (hd_current s) (\<lambda>(c, rqs).
          Inr (if 3 < r_errors rqs then s\<lparr>hd_reset := True\<rparr> else s))))"

text \<open>Sector, head and cylinder of a block number.\<close>

definition chs :: "hd_i_struct \<Rightarrow> u32 \<Rightarrow> u32 \<times> u32 \<times> u32" where
  "chs i block = (block mod hi_sect i + 1, block div hi_sect i mod hi_head i, block div hi_sect i div hi_head i)"

primrec drq_loop :: "'c ports \<Rightarrow> nat \<Rightarrow> 'c hdw \<Rightarrow> bool \<times> 'c hdw" where
  "drq_loop io 0 s = (False, s)"
| "drq_loop io (Suc n) s = (let (v, s) = hd_inb io HD_STATUS s in if v AND 8 \<noteq> 0 then (True, s) else drq_loop io n s)"

definition sector_out :: "'c ports \<Rightarrow> request \<Rightarrow> 'c hdw \<Rightarrow> 'c hdw" where
  "sector_out io rqs s =
     s\<lparr>h_ctl := port_write io (map (b_data (bhs (h_bw s) (r_buffer rqs))) [r_offset rqs..<r_offset rqs + 512]) 256 0 (h_ctl s)\<rparr>"

primrec do_hd_request :: "nat \<Rightarrow> 'c ports \<Rightarrow> 'c hdw \<Rightarrow> 'c hdw kres" where
  "do_hd_request 0 io s = Inl Hang"
| "do_hd_request (Suc n) io s =
     bindE (INIT_REQUEST 3 ''harddisk'' (h_bw s)) (\<lambda>r.
       case r of
         None \<Rightarrow> Inr s
       | Some c \<Rightarrow>
           let rqs = request (h_bw s) c;
               dev = nat (MINOR (r_dev rqs));
               block = r_sector rqs
           in if 5 * NR_HD s \<le> dev \<or> nr_sects (hd_parts s dev) < block + 2
              then bindE (on_hd (end_request 3 False) s) (do_hd_request n io)
              else
                let block = block + start_sect (hd_parts s dev);
                    d = dev div 5;
                    i = hd_info s d
                in if hi_sect i = 0 \<or> hi_head i = 0 then Inl Fault
                   else
                     let (sec, head, cyl) = chs i block
                     in if hd_reset s then reset_hd io d (s\<lparr>hd_reset := False, recalibrate := True\<rparr>)
                        else if recalibrate s
                        then hd_out io (of_nat d) (hi_sect i) 0 0 0 WIN_RESTORE Recal_intr (s\<lparr>recalibrate := False\<rparr>)
                        else if r_cmd rqs = WRITE
                        then bindE (hd_out io (of_nat d) (r_nr_sectors rqs) sec head cyl WIN_WRITE Write_intr s) (\<lambda>s.
                               let (drq, s) = drq_loop io 3000 s
                               in if \<not> drq then bindE (bad_rw_intr s) (do_hd_request n io)
                                  else Inr (sector_out io rqs s))
                        else if r_cmd rqs = READ
                        then hd_out io (of_nat d) (r_nr_sectors rqs) sec head cyl WIN_READ Read_intr s
                        else Inl (Panic ''unknown hd-command''))"

text \<open>As many rounds as 32 requests with eight of them each can need.\<close>

definition hd_fuel :: nat where "hd_fuel = 257"

definition put_bytes :: "nat \<Rightarrow> u8 list \<Rightarrow> block \<Rightarrow> block" where
  "put_bytes k bs b = (\<lambda>j. if k \<le> j \<and> j < k + length bs then bs ! (j - k) else b j)"

definition read_intr :: "'c ports \<Rightarrow> 'c hdw \<Rightarrow> 'c hdw kres" where
  "read_intr io s =
     (let (bad, s) = win_result io s
      in if bad then bindE (bad_rw_intr s) (do_hd_request hd_fuel io)
         else bindE (hd_current s) (\<lambda>(c, rqs).
           let (bs, ctl) = port_read io 256 (h_ctl s);
               s = s\<lparr>h_ctl := ctl,
                     h_bw := upd_bh (r_buffer rqs) (\<lambda>h. h\<lparr>b_data := put_bytes (r_offset rqs) bs (b_data h)\<rparr>) (h_bw s)\<rparr>;
               s = upd_cur c (\<lambda>r. r\<lparr>r_errors := 0, r_offset := r_offset r + 512, r_sector := r_sector r + 1,
                                     r_nr_sectors := r_nr_sectors r - 1\<rparr>) s
           in if r_nr_sectors rqs - 1 \<noteq> 0 then Inr (s\<lparr>do_hd := Some Read_intr\<rparr>)
              else bindE (on_hd (end_request 3 True) s) (do_hd_request hd_fuel io)))"

definition write_intr :: "'c ports \<Rightarrow> 'c hdw \<Rightarrow> 'c hdw kres" where
  "write_intr io s =
     (let (bad, s) = win_result io s
      in if bad then bindE (bad_rw_intr s) (do_hd_request hd_fuel io)
         else bindE (hd_current s) (\<lambda>(c, rqs).
           let s = upd_cur c (\<lambda>r. r\<lparr>r_nr_sectors := r_nr_sectors r - 1\<rparr>) s
           in if r_nr_sectors rqs - 1 \<noteq> 0
              then
                let s = upd_cur c (\<lambda>r. r\<lparr>r_sector := r_sector r + 1, r_offset := r_offset r + 512\<rparr>) s;
                    s = s\<lparr>do_hd := Some Write_intr\<rparr>
                in Inr (sector_out io (request (h_bw s) c) s)
              else bindE (on_hd (end_request 3 True) s) (do_hd_request hd_fuel io)))"

definition recal_intr :: "'c ports \<Rightarrow> 'c hdw \<Rightarrow> 'c hdw kres" where
  "recal_intr io s =
     (let (bad, s) = win_result io s
      in bindE (if bad then bad_rw_intr s else Inr s) (do_hd_request hd_fuel io))"

text \<open>\<open>unexpected_hd_interrupt\<close> only prints.\<close>

definition unexpected_hd_interrupt :: "'c hdw \<Rightarrow> 'c hdw kres" where
  "unexpected_hd_interrupt s = Inr s"

definition hd_interrupt :: "'c ports \<Rightarrow> 'c hdw \<Rightarrow> 'c hdw kres" where
  "hd_interrupt io s =
     (let s' = s\<lparr>do_hd := None\<rparr>
      in case do_hd s of
           None \<Rightarrow> unexpected_hd_interrupt s'
         | Some Read_intr \<Rightarrow> read_intr io s'
         | Some Write_intr \<Rightarrow> write_intr io s'
         | Some Recal_intr \<Rightarrow> recal_intr io s')"

definition hd_init :: "'c ports \<Rightarrow> 'c hdw \<Rightarrow> 'c hdw" where
  "hd_init io s =
     (let b = h_bw s;
          s = s\<lparr>h_bw := b\<lparr>blk_dev := (blk_dev b)(3 := (blk_dev b 3)\<lparr>request_fn := Some Do_hd_request\<rparr>)\<rparr>, hd_gate := True\<rparr>;
          (v, s) = hd_inb io 0x21 s;
          s = hd_outb io (v AND 0xfb) 0x21 s;
          (v, s) = hd_inb io 0xA1 s
      in hd_outb io (v AND 0xbf) 0xA1 s)"

section \<open>sys_setup\<close>

definition CMOS_READ_hd :: "'c ports \<Rightarrow> u8 \<Rightarrow> 'c hdw \<Rightarrow> u8 \<times> 'c hdw" where
  "CMOS_READ_hd io addr s = hd_inb io 0x71 (hd_outb io (0x80 OR addr) 0x70 s)"

text \<open>The drive table the BIOS left in memory, 16 bytes for each drive.\<close>

definition pm16 :: "u32 \<Rightarrow> (u32 \<Rightarrow> u8) \<Rightarrow> u32" where
  "pm16 a m = ucast (m a) OR push_bit 8 (ucast (m (a + 1)))"

definition bios_info :: "u32 \<Rightarrow> (u32 \<Rightarrow> u8) \<Rightarrow> hd_i_struct" where
  "bios_info a m =
     \<lparr>hi_head = ucast (m (a + 2)), hi_sect = ucast (m (a + 14)), hi_cyl = pm16 a m, hi_wpcom = pm16 (a + 5) m,
      hi_lzone = pm16 (a + 12) m, hi_ctl = ucast (m (a + 8))\<rparr>"

text \<open>The four entries of the partition table of a drive.\<close>

definition read_partitions :: "benv \<Rightarrow> nat \<Rightarrow> 'c hdw \<Rightarrow> 'c hdw kres" where
  "read_partitions e drive s =
     bindE (bread (e_fuel e) e (0x300 + 5 * of_nat drive) 0 (h_bw s)) (\<lambda>(r, b).
       case r of
         None \<Rightarrow> Inl (Panic '''')
       | Some i \<Rightarrow>
           let d = b_data (bhs b i)
           in if d 510 \<noteq> 0x55 \<or> d 511 \<noteq> 0xAA then Inl (Panic '''')
              else
                let s = s\<lparr>hd_parts := (\<lambda>k. if 5 * drive < k \<and> k < 5 * drive + 5
                          then \<lparr>start_sect = le32 d (0x1BE + 16 * (k - 5 * drive - 1) + 8),
                                nr_sects = le32 d (0x1BE + 16 * (k - 5 * drive - 1) + 12)\<rparr>
                          else hd_parts s k)\<rparr>
                in bindE (brelse e (Some i) b) (\<lambda>b. Inr (s\<lparr>h_bw := b\<rparr>)))"

definition sys_setup :: "'c ports \<Rightarrow> benv \<Rightarrow> (bufw \<Rightarrow> bufw) \<Rightarrow> u32 \<Rightarrow> 'c hdw \<Rightarrow> (int \<times> 'c hdw) kres" where
  "sys_setup io e keypress BIOS s =
     (if \<not> callable s then Inr (- 1, s)
      else
        let m = pmem (h_bw s);
            s = s\<lparr>callable := False, hd_info := (hd_info s)(0 := bios_info BIOS m, 1 := bios_info (BIOS + 16) m)\<rparr>;
            nr = (if hi_cyl (hd_info s 1) \<noteq> 0 then 2 else 1 :: nat);
            whole = (\<lambda>i. let d = hd_info s i in \<lparr>start_sect = 0, nr_sects = hi_head d * hi_sect d * hi_cyl d\<rparr>);
            s = s\<lparr>hd_parts := (\<lambda>k. if k = 0 \<or> k = 5 \<and> nr = 2 then whole (k div 5) else hd_parts s k)\<rparr>;
            (cmos_disks, s) = CMOS_READ_hd io 0x12 s;
            nr = (if cmos_disks AND 0xf0 = 0 then 0 else if cmos_disks AND 0x0f \<noteq> 0 then 2 else 1);
            s = s\<lparr>NR_HD := nr, hd_parts := (\<lambda>k. if nr = 0 \<and> k = 0 \<or> nr < 2 \<and> k = 5
                     then \<lparr>start_sect = 0, nr_sects = 0\<rparr> else hd_parts s k)\<rparr>
        in bindE (foldE (read_partitions e) [0..<nr] s) (\<lambda>s.
           bindE (rd_load (e_fuel e) e (ROOT_DEV (h_bw s)) (h_bw s)) (\<lambda>(root, b).
           bindE (mount_root e keypress (b\<lparr>ROOT_DEV := root\<rparr>)) (\<lambda>(_, b).
             Inr (0, s\<lparr>h_bw := b\<rparr>)))))"

section \<open>Addresses of sectors\<close>

text \<open>
  The sector, head and cylinder \<open>do_hd_request\<close> computes are the address of the block: they lie
  within the geometry of the drive and give the block number back.
\<close>

theorem chs_roundtrip:
  assumes "hi_sect i \<noteq> 0" "hi_head i \<noteq> 0" "unat (hi_sect i) < 256" "chs i block = (sec, head, cyl)"
  shows "1 \<le> unat sec \<and> unat sec \<le> unat (hi_sect i) \<and> unat head < unat (hi_head i) \<and>
    unat block = (unat cyl * unat (hi_head i) + unat head) * unat (hi_sect i) + (unat sec - 1)"
proof -
  let ?S = "unat (hi_sect i)" and ?H = "unat (hi_head i)" and ?b = "unat block"
  have nz: "0 < ?S" "0 < ?H" using assms(1,2) by (simp_all add: unat_gt_0)
  have c: "sec = block mod hi_sect i + 1" "head = block div hi_sect i mod hi_head i" "cyl = block div hi_sect i div hi_head i"
    using assms(4) by (simp_all add: chs_def)
  have m: "?b mod ?S < ?S" using nz by simp
  have "unat (block mod hi_sect i) = ?b mod ?S" by (simp add: unat_mod)
  moreover from this have "unat (block mod hi_sect i) + unat (1 :: u32) < 4294967296"
    using m assms(3) unfolding unat_1 by linarith
  ultimately have s: "unat sec = ?b mod ?S + 1" unfolding c(1) by (simp add: unat_add_no_wrap)
  have h: "unat head = ?b div ?S mod ?H" "unat cyl = ?b div ?S div ?H" unfolding c by (simp_all add: unat_mod unat_div)
  have "(unat cyl * ?H + unat head) * ?S + (unat sec - 1) = ?b div ?S * ?S + ?b mod ?S"
    unfolding s h by (simp only: div_mult_mod_eq) simp
  moreover have "1 \<le> unat sec" "unat sec \<le> ?S" using s m by linarith+
  moreover have "unat head < ?H" using h(1) nz by simp
  ultimately show ?thesis by (simp only: div_mult_mod_eq)
qed

section \<open>A read request\<close>

text \<open>The registers a command writes, in order.\<close>

definition hd_regs :: "hd_i_struct \<Rightarrow> nat \<Rightarrow> u32 \<Rightarrow> u32 \<times> u32 \<times> u32 \<Rightarrow> u32 \<Rightarrow> (u8 \<times> nat) list" where
  "hd_regs i drive nsect addr cmd =
     (case addr of (sec, head, cyl) \<Rightarrow>
       [(ucast (hi_ctl i), HD_CMD), (ucast (drop_bit 2 (hi_wpcom i)), HD_DATA + 1), (ucast nsect, HD_DATA + 2),
        (ucast sec, HD_DATA + 3), (ucast cyl, HD_DATA + 4), (ucast (drop_bit 8 cyl), HD_DATA + 5),
        (ucast (0xA0 OR push_bit 4 (of_nat drive) OR head), HD_DATA + 6), (ucast cmd, HD_DATA + 7)])"

lemma ready_first:
  assumes "p_inb io HD_STATUS (h_ctl s) = (v, c)" "v AND 0xc0 = 0x40"
  shows "controller_ready io s = (9999, s\<lparr>h_ctl := c\<rparr>)"
proof -
  have "ready_loop io (Suc n) s = (Suc n, s\<lparr>h_ctl := c\<rparr>)" for n using assms by (simp add: hd_inb_def)
  from this [of 9998] show ?thesis by (simp add: controller_ready_def del: ready_loop.simps)
qed

lemma hd_out_regs:
  assumes "p_inb io HD_STATUS (h_ctl s) = (v, c)" "v AND 0xc0 = 0x40" "d < 2" "head \<le> 15"
  shows "hd_out io (of_nat d) nsect sec head cyl cmd intr s =
    Inr (s\<lparr>do_hd := Some intr,
           h_ctl := fold (\<lambda>(v, p). p_outb io v p) (hd_regs (hd_info s d) d nsect (sec, head, cyl) cmd) c\<rparr>)"
proof -
  have "\<not> (1 :: u32) < of_nat d" "unat (of_nat d :: u32) = d" using assms(3) by (auto simp: less_2_cases_iff)
  then show ?thesis using assms(4) ready_first [OF assms(1,2)]
    by (simp add: hd_out_def hd_outb_def hd_regs_def Let_def not_less)
qed

lemma length_port_read: "length (fst (port_read io n c)) = 2 * n"
  by (induction n arbitrary: c) (simp_all add: split_beta Let_def)

lemma win_result_ok:
  "p_inb io HD_STATUS (h_ctl s) = (v, c) \<Longrightarrow> v AND 0xF1 = 0x50 \<Longrightarrow> win_result io s = (False, s\<lparr>h_ctl := c\<rparr>)"
  by (simp add: win_result_def hd_inb_def)

text \<open>The end of the only request of a queue, with nobody waiting.\<close>

lemma end_request_last:
  assumes "CURRENT m b = Some c" "r_bh (request b c) = Some i" "r_waiting (request b c) = None" "r_next (request b c) = None"
    "wait_for_request b = None" "b_wait (bhs b i) = None"
  shows "\<exists>b'. end_request m u b = Inr b' \<and> CURRENT m b' = None \<and>
    bhs b' = (bhs b)(i := (bhs b i)\<lparr>b_uptodate := u, b_lock := False\<rparr>)"
  using assms by (simp add: end_request_def unlock_buffer_def upd_bh_def upd_req_def Let_def CURRENT_def fun_upd_def fun_eq_iff)

lemma do_hd_request_idle: "CURRENT 3 (h_bw s) = None \<Longrightarrow> do_hd_request (Suc n) io s = Inr s"
  by (simp add: INIT_REQUEST_def)

text \<open>What a good read interrupt makes of the state: the sector is in the buffer and the request moves on.\<close>

definition sector_in :: "nat \<Rightarrow> u8 list \<Rightarrow> 'c \<Rightarrow> 'c hdw \<Rightarrow> 'c hdw" where
  "sector_in c bs ctl s =
     (let rqs = request (h_bw s) c
      in upd_cur c (\<lambda>r. r\<lparr>r_errors := 0, r_offset := r_offset r + 512, r_sector := r_sector r + 1, r_nr_sectors := r_nr_sectors r - 1\<rparr>)
           (s\<lparr>do_hd := None, h_ctl := ctl,
              h_bw := upd_bh (r_buffer rqs) (\<lambda>h. h\<lparr>b_data := put_bytes (r_offset rqs) bs (b_data h)\<rparr>) (h_bw s)\<rparr>))"

lemma read_interrupt:
  assumes "do_hd s = Some Read_intr" "p_inb io HD_STATUS (h_ctl s) = (v, c1)" "v AND 0xF1 = 0x50"
    and "port_read io 256 c1 = (bs, c2)" "CURRENT 3 (h_bw s) = Some c"
  shows "hd_interrupt io s =
    (if r_nr_sectors (request (h_bw s) c) - 1 \<noteq> 0 then Inr ((sector_in c bs c2 s)\<lparr>do_hd := Some Read_intr\<rparr>)
     else bindE (on_hd (end_request 3 True) (sector_in c bs c2 s)) (do_hd_request hd_fuel io))"
proof -
  let ?s = "s\<lparr>do_hd := None\<rparr>"
  have w: "win_result io ?s = (False, ?s\<lparr>h_ctl := c1\<rparr>)" using assms(2,3) by (intro win_result_ok) simp_all
  show ?thesis using assms(1,4,5)
    by (simp add: hd_interrupt_def read_intr_def w hd_current_def sector_in_def upd_cur_def Let_def)
qed

lemma sector_in_simps:
  "h_ctl (sector_in c bs ctl s) = ctl" "do_hd (sector_in c bs ctl s) = None" "CURRENT m (h_bw (sector_in c bs ctl s)) = CURRENT m (h_bw s)"
  "wait_for_request (h_bw (sector_in c bs ctl s)) = wait_for_request (h_bw s)"
  "request (h_bw (sector_in c bs ctl s)) c = (request (h_bw s) c)\<lparr>r_errors := 0, r_offset := r_offset (request (h_bw s) c) + 512,
     r_sector := r_sector (request (h_bw s) c) + 1, r_nr_sectors := r_nr_sectors (request (h_bw s) c) - 1\<rparr>"
  "bhs (h_bw (sector_in c bs ctl s)) = (bhs (h_bw s))(r_buffer (request (h_bw s) c) := (bhs (h_bw s) (r_buffer (request (h_bw s) c)))
     \<lparr>b_data := put_bytes (r_offset (request (h_bw s) c)) bs (b_data (bhs (h_bw s) (r_buffer (request (h_bw s) c))))\<rparr>)"
  by (simp_all add: sector_in_def Let_def upd_cur_def upd_req_def upd_bh_def CURRENT_def)

lemma put_bytes_twice:
  assumes "length xs = 512" "length ys = 512" "k < 1024"
  shows "put_bytes 512 ys (put_bytes 0 xs b) k = (xs @ ys) ! k"
  using assms by (simp add: put_bytes_def nth_append)

text \<open>
  C17: A read request on an idle queue.  \<open>do_hd_request\<close> writes the command with the address of the
  first sector to the controller and leaves the rest to the interrupts; two interrupts later, if
  the controller reports success each time, the buffer holds the two sectors the controller
  gave, it is up to date and unlocked, and the queue is empty.  In between the controller may
  do what it likes with its own state.
\<close>

theorem hd_read_block:
  assumes q: "CURRENT 3 (h_bw s) = Some c" "request (h_bw s) c = rqs"
    and dev: "MAJOR (r_dev rqs) = 3" "MINOR (r_dev rqs) = int dev" "dev < 5 * NR_HD s" "NR_HD s \<le> 2"
    and rq: "r_cmd rqs = READ" "r_nr_sectors rqs = 2" "r_buffer rqs = i" "r_offset rqs = 0" "r_bh rqs = Some i"
      "r_waiting rqs = None" "r_next rqs = None"
    and bf: "b_lock (bhs (h_bw s) i)" "b_wait (bhs (h_bw s) i) = None" "wait_for_request (h_bw s) = None"
    and blk: "\<not> nr_sects (hd_parts s dev) < r_sector rqs + 2"
    and geo: "hi_sect (hd_info s (dev div 5)) \<noteq> 0" "hi_head (hd_info s (dev div 5)) \<noteq> 0" "hi_head (hd_info s (dev div 5)) \<le> 16"
    and st: "\<not> hd_reset s" "\<not> recalibrate s"
    and c0: "p_inb io HD_STATUS (h_ctl s) = (v0, c0)" "v0 AND 0xc0 = 0x40"
    and c1: "p_inb io HD_STATUS d1 = (v1, e1)" "v1 AND 0xF1 = 0x50" "port_read io 256 e1 = (bs1, f1)"
    and c2: "p_inb io HD_STATUS d2 = (v2, e2)" "v2 AND 0xF1 = 0x50" "port_read io 256 e2 = (bs2, f2)"
  shows "\<exists>s1 s2 s3. do_hd_request (Suc n) io s = Inr s1 \<and>
    h_ctl s1 = fold (\<lambda>(v, p). p_outb io v p) (hd_regs (hd_info s (dev div 5)) (dev div 5) 2
      (chs (hd_info s (dev div 5)) (r_sector rqs + start_sect (hd_parts s dev))) WIN_READ) c0 \<and>
    hd_interrupt io (s1\<lparr>h_ctl := d1\<rparr>) = Inr s2 \<and> hd_interrupt io (s2\<lparr>h_ctl := d2\<rparr>) = Inr s3 \<and>
    (\<forall>k < 1024. b_data (bhs (h_bw s3) i) k = (bs1 @ bs2) ! k) \<and>
    b_uptodate (bhs (h_bw s3) i) \<and> \<not> b_lock (bhs (h_bw s3) i) \<and> CURRENT 3 (h_bw s3) = None \<and> do_hd s3 = None"
proof -
  let ?d = "dev div 5"
  let ?i = "hd_info s ?d"
  obtain sec head cyl where a: "chs ?i (r_sector rqs + start_sect (hd_parts s dev)) = (sec, head, cyl)" by (metis prod_cases3)
  have hd15: "head \<le> 15"
  proof -
    have "head = (r_sector rqs + start_sect (hd_parts s dev)) div hi_sect ?i mod hi_head ?i" using a by (simp add: chs_def)
    then have "unat head < unat (hi_head ?i)" using geo(2) by (simp add: unat_mod unat_gt_0)
    moreover have "unat (hi_head ?i) \<le> 16" using geo(3) by (simp add: word_le_nat_alt)
    ultimately show ?thesis by (simp add: word_le_nat_alt)
  qed
  have d2: "?d < 2" using dev(3,4) by simp
  let ?regs = "hd_regs ?i ?d 2 (sec, head, cyl) WIN_READ"
  define s1 where "s1 = s\<lparr>do_hd := Some Read_intr, h_ctl := fold (\<lambda>(v, p). p_outb io v p) ?regs c0\<rparr>"
  have r1: "do_hd_request (Suc n) io s = Inr s1"
    using q dev rq bf blk geo st a hd_out_regs [OF c0 d2 hd15, of 2 sec cyl WIN_READ Read_intr]
    by (simp add: INIT_REQUEST_def s1_def Let_def)
  define t1 where "t1 = s1\<lparr>h_ctl := d1\<rparr>"
  define s2 where "s2 = (sector_in c bs1 f1 t1)\<lparr>do_hd := Some Read_intr\<rparr>"
  have t1: "request (h_bw t1) c = rqs" "CURRENT 3 (h_bw t1) = Some c" "do_hd t1 = Some Read_intr" "h_ctl t1 = d1" "h_bw t1 = h_bw s"
    using q by (simp_all add: t1_def s1_def)
  have r2: "hd_interrupt io t1 = Inr s2"
    using read_interrupt [of t1 io v1 e1 bs1 f1 c] c1 t1 rq(2) by (simp add: s2_def)
  define t2 where "t2 = s2\<lparr>h_ctl := d2\<rparr>"
  define s3 where "s3 = sector_in c bs2 f2 t2"
  have t2: "CURRENT 3 (h_bw t2) = Some c" "do_hd t2 = Some Read_intr" "h_ctl t2 = d2" "h_bw t2 = h_bw (sector_in c bs1 f1 t1)"
    using t1 by (simp_all add: t2_def s2_def sector_in_simps)
  have rq2: "request (h_bw t2) c = rqs\<lparr>r_errors := 0, r_offset := 512, r_sector := r_sector rqs + 1, r_nr_sectors := 1\<rparr>"
    using rq unfolding t2(4) sector_in_simps t1(1) by simp
  have r3: "hd_interrupt io t2 = bindE (on_hd (end_request 3 True) s3) (do_hd_request hd_fuel io)"
    using read_interrupt [of t2 io v2 e2 bs2 f2 c] c2 t2 rq2 by (simp add: s3_def)
  have bh3: "bhs (h_bw s3) i = (bhs (h_bw s) i)\<lparr>b_data := put_bytes 512 bs2 (put_bytes 0 bs1 (b_data (bhs (h_bw s) i)))\<rparr>"
    using rq q(2) unfolding s3_def sector_in_simps rq2 unfolding t2(4) sector_in_simps t1 by simp
  have "request (h_bw s3) c = rqs\<lparr>r_errors := 0, r_offset := 1024, r_sector := r_sector rqs + 1 + 1, r_nr_sectors := 0\<rparr>"
    unfolding s3_def sector_in_simps rq2 by simp
  then obtain b' where b': "end_request 3 True (h_bw s3) = Inr b'" "CURRENT 3 b' = None"
    "bhs b' = (bhs (h_bw s3))(i := (bhs (h_bw s3) i)\<lparr>b_uptodate := True, b_lock := False\<rparr>)"
    using end_request_last [of 3 "h_bw s3" c i True] rq bf bh3 t2 t1 by (auto simp: s3_def sector_in_simps)
  have r4: "hd_interrupt io t2 = Inr (s3\<lparr>h_bw := b'\<rparr>)"
    unfolding r3 on_hd_def b'(1) bindE_simps hd_fuel_def
    using do_hd_request_idle [of "s3\<lparr>h_bw := b'\<rparr>" 256] b'(2) by (simp del: do_hd_request.simps)
  have len: "length bs1 = 512" "length bs2 = 512"
    using length_port_read [of io 256 e1] length_port_read [of io 256 e2] c1 c2 by simp_all
  show ?thesis
    apply (rule exI [of _ s1], rule exI [of _ s2], rule exI [of _ "s3\<lparr>h_bw := b'\<rparr>"])
    using r1 r2 r4 b'(2,3) bh3 a len by (simp add: t1_def t2_def s1_def s3_def sector_in_simps put_bytes_twice)
qed

text \<open>
  C28: When the last request of the queue fails for the seventh time, \<open>bad_rw_intr\<close> has ended it and
  then looks at the errors of the current request, which is a null pointer.
\<close>

theorem hd_last_error_fault:
  assumes "CURRENT 3 (h_bw s) = Some c" "r_errors (request (h_bw s) c) = 6" "r_next (request (h_bw s) c) = None"
    and "r_bh (request (h_bw s) c) = Some i"
  shows "bad_rw_intr s = Inl Fault"
  using assms by (simp add: bad_rw_intr_def hd_current_def upd_cur_def upd_req_def on_hd_def end_request_def unlock_buffer_def
      CURRENT_def upd_bh_def Let_def split_beta)

section \<open>Examples\<close>

definition demo_drive :: hd_i_struct where
  "demo_drive = \<lparr>hi_head = 4, hi_sect = 17, hi_cyl = 615, hi_wpcom = 300, hi_lzone = 615, hi_ctl = 8\<rparr>"

theorem chs_roundtrip_witness:
  "chs demo_drive 100 = (16, 1, 1) \<and> (unat (1 :: u32) * 4 + 1) * 17 + (unat (16 :: u32) - 1) = 100"
  using chs_roundtrip [of demo_drive 100 16 1 1] by (simp add: demo_drive_def chs_def)

text \<open>A controller that is always ready and gives the letters A and B.\<close>

definition demo_ports :: "unit ports" where
  "demo_ports = \<lparr>p_inb = (\<lambda>_ c. (0x50, c)), p_outb = (\<lambda>_ _ c. c), p_insw = (\<lambda>_ c. (0x4241, c)), p_outsw = (\<lambda>_ _ c. c)\<rparr>"

definition demo_hd :: "unit hdw" where
  "demo_hd = \<lparr>h_bw = boot_buf\<lparr>request := (\<lambda>_. demo_request\<lparr>r_dev := 0x301, r_sector := 4, r_nr_sectors := 2, r_bh := Some 0, r_errors := 6\<rparr>),
       bhs := (\<lambda>_. demo_head\<lparr>b_lock := True\<rparr>), blk_dev := (\<lambda>_. \<lparr>request_fn = Some Do_hd_request, current_request = Some 0\<rparr>)\<rparr>,
     h_ctl = (), recalibrate = False, hd_reset = False, hd_info = (\<lambda>_. demo_drive), NR_HD = 1,
     hd_parts = (\<lambda>_. \<lparr>start_sect = 1, nr_sects = 100\<rparr>), do_hd = None, callable = False, hd_gate = True\<rparr>"

lemma demo_port_read: "port_read demo_ports n () = (concat (replicate n [0x41, 0x42]), ())"
  by (induction n) (simp_all add: demo_ports_def)

theorem hd_read_block_witness:
  "\<exists>s1 s2 s3. do_hd_request (Suc 0) demo_ports demo_hd = Inr s1 \<and> hd_interrupt demo_ports s1 = Inr s2 \<and>
     hd_interrupt demo_ports s2 = Inr s3 \<and> b_uptodate (bhs (h_bw s3) 0) \<and> do_hd s3 = None"
proof -
  have st: "p_inb demo_ports HD_STATUS c = (0x50, ())" for c by (simp add: demo_ports_def)
  have b: "(0x50 :: u8) AND 0xc0 = 0x40" "(0x50 :: u8) AND 0xF1 = 0x50" by simp_all
  let ?r = "demo_request\<lparr>r_dev := 0x301, r_sector := 4, r_nr_sectors := 2, r_bh := Some 0, r_errors := 6\<rparr>"
  have h: "CURRENT 3 (h_bw demo_hd) = Some 0" "request (h_bw demo_hd) 0 = ?r" "NR_HD demo_hd = 1" "b_lock (bhs (h_bw demo_hd) 0)"
    "b_wait (bhs (h_bw demo_hd) 0) = None" "wait_for_request (h_bw demo_hd) = None" "hd_info demo_hd = (\<lambda>_. demo_drive)"
    "hd_parts demo_hd = (\<lambda>_. \<lparr>start_sect = 1, nr_sects = 100\<rparr>)" "\<not> hd_reset demo_hd" "\<not> recalibrate demo_hd"
    by (simp_all add: demo_hd_def CURRENT_def boot_buf_def demo_head_def)
  have r: "MAJOR (r_dev ?r) = 3" "MINOR (r_dev ?r) = int 1" "r_cmd ?r = READ" "r_nr_sectors ?r = 2" "r_buffer ?r = 0" "r_offset ?r = 0"
    "r_bh ?r = Some 0" "r_waiting ?r = None" "r_next ?r = None" "r_sector ?r = 4"
    by (simp_all add: demo_request_def MAJOR_def MINOR_def)
  have u: "s\<lparr>h_ctl := ()\<rparr> = s" for s :: "unit hdw" by simp
  have g: "1 < 5 * NR_HD demo_hd" "NR_HD demo_hd \<le> 2" "\<not> nr_sects (hd_parts demo_hd 1) < r_sector ?r + 2"
    "hi_sect (hd_info demo_hd (1 div 5)) \<noteq> 0" "hi_head (hd_info demo_hd (1 div 5)) \<noteq> 0" "hi_head (hd_info demo_hd (1 div 5)) \<le> 16"
    by (simp_all add: h r demo_drive_def)
  show ?thesis
    using hd_read_block [OF h(1,2) r(1,2) g(1,2) r(3-9) h(4-6) g(3-6) h(9,10) st b(1) st [of "()"] b(2) demo_port_read st [of "()"] b(2) demo_port_read, of 0]
    unfolding u by blast
qed

theorem hd_last_error_fault_witness: "bad_rw_intr demo_hd = Inl Fault"
  by (rule hd_last_error_fault [of _ 0 0]) (simp_all add: demo_hd_def CURRENT_def demo_request_def)

end
