(* ===== verification/Wait_Queue.thy ===== *)
theory Wait_Queue
  imports Sched
begin

text \<open>
  The wait queues of \<open>kernel/sched.c\<close> as a system of steps.  A queue is the head pointer the
  callers share, together with the local variable \<open>tmp\<close> of every task that is inside
  \<open>sleep_on\<close>; the steps are those parts of \<open>sleep_on\<close>, \<open>interruptible_sleep_on\<close> and \<open>wake_up\<close>
  that run without interruption.  The invariant says that a sleeper is always held by the head
  or by exactly one other sleeper, so that waking the head wakes every sleeper in the end.
\<close>

section \<open>The system\<close>

record waitq =
  wq_head :: "nat option"
  wq_tmp :: "nat \<Rightarrow> nat option option"
  wq_s :: sched

definition state_of :: "sched \<Rightarrow> nat \<Rightarrow> int option" where
  "state_of s i = map_option t_state (task s i)"

inductive wq_step :: "waitq \<Rightarrow> waitq \<Rightarrow> bool" where
  Sleep: "wq_tmp w (current (wq_s w)) = None \<Longrightarrow>
    state_of (wq_s w) (current (wq_s w)) = Some TASK_RUNNING \<Longrightarrow>
    sleep_on_enter (wq_head w) (wq_s w) = Inr (tmp, p, s') \<Longrightarrow>
    wq_step w \<lparr>wq_head = p, wq_tmp = (wq_tmp w)(current (wq_s w) := Some tmp), wq_s = s'\<rparr>"
| Run: "state_of (wq_s w) i = Some TASK_RUNNING \<Longrightarrow>
    wq_step w (w\<lparr>wq_s := (wq_s w)\<lparr>current := i\<rparr>\<rparr>)"
| Resume: "wq_tmp w (current (wq_s w)) = Some tmp \<Longrightarrow>
    state_of (wq_s w) (current (wq_s w)) = Some TASK_RUNNING \<Longrightarrow>
    wq_step w (w\<lparr>wq_tmp := (wq_tmp w)(current (wq_s w) := None),
                wq_s := sleep_on_leave tmp (wq_s w)\<rparr>)"
| Wake: "wake_up (wq_head w) (wq_s w) = (p, s') \<Longrightarrow>
    wq_step w (w\<lparr>wq_head := p, wq_s := s'\<rparr>)"
| Other: "(\<And>i. wq_tmp w i \<noteq> None \<Longrightarrow> task s' i = task (wq_s w) i) \<Longrightarrow>
    wq_step w (w\<lparr>wq_s := s'\<rparr>)"

inductive wq_reach :: "waitq \<Rightarrow> bool" where
  Init: "wq_head w = None \<Longrightarrow> wq_tmp w = (\<lambda>_. None) \<Longrightarrow> wq_reach w"
| Step: "wq_reach w \<Longrightarrow> wq_step w w' \<Longrightarrow> wq_reach w'"

section \<open>The invariant\<close>

definition asleep :: "waitq \<Rightarrow> nat \<Rightarrow> bool" where
  "asleep w i \<longleftrightarrow> wq_tmp w i \<noteq> None \<and> state_of (wq_s w) i \<noteq> Some TASK_RUNNING"

definition holds :: "waitq \<Rightarrow> nat \<Rightarrow> nat \<Rightarrow> bool" where
  "holds w k i \<longleftrightarrow> wq_tmp w k = Some (Some i)"

definition wq_inv :: "waitq \<Rightarrow> bool" where
  "wq_inv w \<longleftrightarrow>
     (\<forall>i. wq_head w = Some i \<longrightarrow> asleep w i) \<and>
     (\<forall>k i. holds w k i \<longrightarrow> asleep w i \<and> wq_head w \<noteq> Some i) \<and>
     (\<forall>k k' i. holds w k i \<longrightarrow> holds w k' i \<longrightarrow> k = k') \<and>
     (\<forall>i. asleep w i \<longrightarrow> wq_head w = Some i \<or> (\<exists>k. holds w k i)) \<and>
     (\<forall>i. wq_tmp w i \<noteq> None \<longrightarrow> task (wq_s w) i \<noteq> None) \<and>
     finite {i. wq_tmp w i \<noteq> None} \<and>
     (\<exists>rank :: nat \<Rightarrow> nat. \<forall>k i. holds w k i \<longrightarrow> rank i < rank k)"

lemma wq_invD:
  assumes "wq_inv w"
  shows "wq_head w = Some i \<Longrightarrow> asleep w i"
    and "holds w k i \<Longrightarrow> asleep w i"
    and "holds w k i \<Longrightarrow> wq_head w \<noteq> Some i"
    and "holds w k i \<Longrightarrow> holds w k' i \<Longrightarrow> k = k'"
    and "asleep w i \<Longrightarrow> wq_head w = Some i \<or> (\<exists>k. holds w k i)"
    and "wq_tmp w i \<noteq> None \<Longrightarrow> \<exists>t. task (wq_s w) i = Some t"
    and "finite {i. wq_tmp w i \<noteq> None}"
    and "\<exists>rank :: nat \<Rightarrow> nat. \<forall>k i. holds w k i \<longrightarrow> rank i < rank k"
  using assms unfolding wq_inv_def by (blast, blast, blast, blast, blast, blast, blast, blast)

lemma state_of_upd_task [simp]:
  "state_of (upd_task i (t_state_update (\<lambda>_. v)) s) j =
     (if i = j \<and> task s j \<noteq> None then Some v else state_of s j)"
  by (auto simp: state_of_def upd_task_def)

lemma task_upd_task_None [simp]:
  "(task (upd_task i f s) j = None) = (task s j = None)"
  by (simp add: upd_task_def)

lemma current_upd_task [simp]: "current (upd_task i f s) = current s"
  by (simp add: upd_task_def)

lemma state_of_current [simp]: "state_of (s\<lparr>current := i\<rparr>) j = state_of s j"
  by (simp add: state_of_def)

lemma sleep_keeps_inv:
  assumes inv: "wq_inv w" and c: "c = current (wq_s w)" and out: "wq_tmp w c = None"
    and run: "state_of (wq_s w) c = Some TASK_RUNNING"
    and ent: "sleep_on_enter (wq_head w) (wq_s w) = Inr (tmp, p, s')"
  shows "wq_inv \<lparr>wq_head = p, wq_tmp = (wq_tmp w)(c := Some tmp), wq_s = s'\<rparr>"
proof -
  have ent': "tmp = wq_head w" "p = Some c"
    "s' = upd_task c (t_state_update (\<lambda>_. TASK_UNINTERRUPTIBLE)) (wq_s w)"
    using ent by (auto simp: sleep_on_enter_def c split: if_splits)
  have ex: "task (wq_s w) c \<noteq> None" using run by (auto simp: state_of_def)
  define w' where "w' = \<lparr>wq_head = p, wq_tmp = (wq_tmp w)(c := Some tmp), wq_s = s'\<rparr>"
  have as: "asleep w' i = (i = c \<or> asleep w i)" for i
    using ex by (auto simp: w'_def asleep_def ent')
  have ho: "holds w' k i = (if k = c then wq_head w = Some i else holds w k i)" for k i
    by (auto simp: w'_def holds_def ent')
  have he: "wq_head w' = Some c" by (simp add: w'_def ent')
  have ta: "wq_tmp w' i \<noteq> None \<longleftrightarrow> i = c \<or> wq_tmp w i \<noteq> None"
    "task (wq_s w') i = None \<longleftrightarrow> task (wq_s w) i = None" for i
    by (auto simp: w'_def ent')
  have "\<not> asleep w c" using out by (simp add: asleep_def)
  then have nc: "\<not> holds w k c" "wq_head w \<noteq> Some c" for k
    using wq_invD(1,2) [OF inv] by blast+
  obtain rank :: "nat \<Rightarrow> nat" where rank: "\<And>k i. holds w k i \<Longrightarrow> rank i < rank k"
    using wq_invD(8) [OF inv] by blast
  define r where "r = rank(c := (case wq_head w of None \<Rightarrow> 0 | Some h \<Rightarrow> Suc (rank h)))"
  have "holds w' k i \<Longrightarrow> r i < r k" for k i
    using rank nc by (auto simp: ho r_def split: if_splits)
  moreover have "{i. wq_tmp w' i \<noteq> None} = insert c {i. wq_tmp w i \<noteq> None}"
    by (rule set_eqI) (simp only: mem_Collect_eq insert_iff ta(1))
  then have "finite {i. wq_tmp w' i \<noteq> None}"
    using wq_invD(7) [OF inv] by simp
  moreover have "wq_tmp w' i \<noteq> None \<longrightarrow> task (wq_s w') i \<noteq> None" for i
    using wq_invD(6) [OF inv, of i] ex ta by auto
  moreover have "holds w' k i \<longrightarrow> asleep w' i \<and> wq_head w' \<noteq> Some i" for k i
    using wq_invD(1,2) [OF inv] nc by (auto simp: ho as he)
  moreover have "holds w' k i \<longrightarrow> holds w' k' i \<longrightarrow> k = k'" for k k' i
    using wq_invD(3,4) [OF inv] by (auto simp: ho)
  moreover have "asleep w' i \<longrightarrow> wq_head w' = Some i \<or> (\<exists>k. holds w' k i)" for i
  proof
    assume "asleep w' i"
    then consider "i = c" | "asleep w i" by (auto simp: as)
    then show "wq_head w' = Some i \<or> (\<exists>k. holds w' k i)"
    proof cases
      case 2
      moreover have "\<not> holds w c i" using out by (simp add: holds_def)
      ultimately show ?thesis using wq_invD(5) [OF inv 2] by (metis ho)
    qed (simp add: he)
  qed
  moreover have "wq_head w' = Some i \<longrightarrow> asleep w' i" for i
    by (auto simp: as he)
  ultimately show ?thesis unfolding wq_inv_def w'_def [symmetric] by blast
qed

text \<open>
  The other steps wake at most one task, which loses its holder, and take at most one task that
  is awake out of the queue.
\<close>

lemma shrink_keeps_inv:
  assumes inv: "wq_inv w"
    and as: "\<And>i. asleep w' i \<longleftrightarrow> asleep w i \<and> i \<notin> W"
    and head: "\<And>i. wq_head w' = Some i \<longleftrightarrow> wq_head w = Some i \<and> i \<notin> W"
    and tmp: "\<And>k. wq_tmp w' k = wq_tmp w k \<or> wq_tmp w' k = None"
    and ho: "\<And>k i. holds w' k i \<longleftrightarrow> holds w k i \<and> i \<notin> W"
    and ex: "\<And>i. wq_tmp w' i \<noteq> None \<Longrightarrow> task (wq_s w') i = None \<longleftrightarrow> task (wq_s w) i = None"
  shows "wq_inv w'"
proof -
  have sub: "wq_tmp w' i \<noteq> None \<Longrightarrow> wq_tmp w i \<noteq> None" for i
    using tmp [of i] by auto
  then have "finite {i. wq_tmp w' i \<noteq> None}"
    by (intro finite_subset [OF _ wq_invD(7) [OF inv]]) auto
  moreover have "wq_tmp w' i \<noteq> None \<longrightarrow> task (wq_s w') i \<noteq> None" for i
    using sub [of i] ex [of i] wq_invD(6) [OF inv, of i] by auto
  moreover have "asleep w' i \<longrightarrow> wq_head w' = Some i \<or> (\<exists>k. holds w' k i)" for i
    using wq_invD(5) [OF inv, of i] by (auto simp: as head ho)
  moreover have "holds w' k i \<longrightarrow> asleep w' i \<and> wq_head w' \<noteq> Some i" for k i
    using wq_invD(2,3) [OF inv, of k i] by (auto simp: as head ho)
  moreover have "holds w' k i \<longrightarrow> holds w' k' i \<longrightarrow> k = k'" for k k' i
    using wq_invD(4) [OF inv, of k i k'] by (auto simp: ho)
  moreover have "wq_head w' = Some i \<longrightarrow> asleep w' i" for i
    using wq_invD(1) [OF inv, of i] by (auto simp: as head)
  moreover have "\<exists>rank :: nat \<Rightarrow> nat. \<forall>k i. holds w' k i \<longrightarrow> rank i < rank k"
    using wq_invD(8) [OF inv] ho by blast
  ultimately show ?thesis unfolding wq_inv_def by blast
qed

lemma state_of_wake_task:
  "state_of (wake_task t s) i =
     (if t = Some i \<and> task s i \<noteq> None then Some TASK_RUNNING else state_of s i)"
  by (auto simp: wake_task_def split: option.splits)

lemma task_wake_task_None [simp]: "(task (wake_task t s) i = None) = (task s i = None)"
  by (auto simp: wake_task_def split: option.splits)

lemma wake_keeps_inv:
  assumes inv: "wq_inv w" and "wake_up (wq_head w) (wq_s w) = (p, s')"
  shows "wq_inv (w\<lparr>wq_head := p, wq_s := s'\<rparr>)"
proof -
  have w: "p = None" "s' = wake_task (wq_head w) (wq_s w)"
    using assms(2) by (auto simp: wake_up_def)
  show ?thesis
  proof (rule shrink_keeps_inv [OF inv, where W = "set_option (wq_head w)"], goal_cases)
    case (1 i)
    then show ?case
      using wq_invD(6) [OF inv, of i] by (auto simp: w asleep_def state_of_wake_task)
  next
    case (4 k i)
    then show ?case
      using wq_invD(3) [OF inv, of k i] by (auto simp: holds_def)
  qed (auto simp: w)
qed

lemma resume_keeps_inv:
  assumes inv: "wq_inv w" and "wq_tmp w c = Some tmp"
    and "state_of (wq_s w) c = Some TASK_RUNNING"
  shows "wq_inv (w\<lparr>wq_tmp := (wq_tmp w)(c := None), wq_s := sleep_on_leave tmp (wq_s w)\<rparr>)"
proof -
  have nc: "\<not> asleep w c" using assms(3) by (simp add: asleep_def)
  have held: "tmp = Some i \<Longrightarrow> holds w c i" for i
    using assms(2) by (simp add: holds_def)
  have t: "tmp = Some i \<Longrightarrow> asleep w i \<and> wq_head w \<noteq> Some i \<and> (\<forall>k. holds w k i \<longrightarrow> k = c)" for i
    using held [of i] wq_invD(2-4) [OF inv] by blast
  show ?thesis
  proof (rule shrink_keeps_inv [OF inv, where W = "set_option tmp"], goal_cases)
    case (1 i)
    then show ?case
      using nc wq_invD(6) [OF inv, of i]
      by (auto simp: asleep_def sleep_on_leave_def state_of_wake_task)
  next
    case (4 k i)
    then show ?case
      using t [of i] assms(2) by (auto simp: holds_def)
  qed (use t in \<open>auto simp: sleep_on_leave_def\<close>)
qed

lemma same_keeps_inv:
  assumes inv: "wq_inv w" and "\<And>i. wq_tmp w i \<noteq> None \<Longrightarrow> state_of s' i = state_of (wq_s w) i"
    and "\<And>i. wq_tmp w i \<noteq> None \<Longrightarrow> task s' i = None \<longleftrightarrow> task (wq_s w) i = None"
  shows "wq_inv (w\<lparr>wq_s := s'\<rparr>)"
proof (rule shrink_keeps_inv [OF inv, where W = "{}"], goal_cases)
  case (1 i)
  then show ?case using assms(2) [of i] by (auto simp: asleep_def)
qed (use assms(3) in \<open>auto simp: holds_def\<close>)

lemma wq_step_inv: "wq_step w w' \<Longrightarrow> wq_inv w \<Longrightarrow> wq_inv w'"
proof (induction rule: wq_step.induct)
  case (Sleep w tmp p s')
  then show ?case by (intro sleep_keeps_inv) auto
next
  case (Run w i)
  then show ?case by (intro same_keeps_inv) auto
next
  case (Resume w tmp)
  then show ?case by (intro resume_keeps_inv) auto
next
  case (Wake w p s')
  then show ?case by (intro wake_keeps_inv)
next
  case (Other w s')
  then show ?case by (intro same_keeps_inv) (auto simp: state_of_def)
qed

lemma wq_reach_inv: "wq_reach w \<Longrightarrow> wq_inv w"
proof (induction rule: wq_reach.induct)
  case (Init w)
  then show ?case by (simp add: wq_inv_def asleep_def holds_def)
next
  case (Step w w')
  then show ?case by (blast intro: wq_step_inv)
qed

section \<open>No sleeper is lost\<close>

text \<open>With the head empty, the sleeper of the highest rank has nobody to wait for.\<close>

lemma wq_inv_progress:
  assumes inv: "wq_inv w" and head: "wq_head w = None" and "wq_tmp w i \<noteq> None"
  shows "\<exists>k. wq_tmp w k \<noteq> None \<and> state_of (wq_s w) k = Some TASK_RUNNING"
proof -
  obtain rank :: "nat \<Rightarrow> nat" where rank: "\<And>k i. holds w k i \<Longrightarrow> rank i < rank k"
    using wq_invD(8) [OF inv] by blast
  let ?Q = "{i. wq_tmp w i \<noteq> None}"
  have fin: "finite (rank ` ?Q)" "rank ` ?Q \<noteq> {}"
    using wq_invD(7) [OF inv] assms(3) by auto
  obtain k where k: "k \<in> ?Q" "Max (rank ` ?Q) = rank k"
    using Max_in [OF fin] by blast
  have "\<not> asleep w k"
  proof
    assume "asleep w k"
    then obtain h where h: "holds w h k" using wq_invD(5) [OF inv] head by auto
    then have "h \<in> ?Q" by (simp add: holds_def)
    with fin(1) have "rank h \<le> rank k" unfolding k(2) [symmetric] by (intro Max_ge) auto
    with rank [OF h] show False by simp
  qed
  with k(1) show ?thesis by (auto simp: asleep_def)
qed

text \<open>
  C7: whenever a queue's head is empty but tasks are still inside \<open>sleep_on\<close>, one of them can
  run: no task sleeps in a queue nobody can wake any more.
\<close>

theorem sleep_on_no_lost_sleeper:
  assumes "wq_reach w" and "wq_head w = None" and "wq_tmp w i \<noteq> None"
  shows "\<exists>k. wq_tmp w k \<noteq> None \<and> state_of (wq_s w) k = Some TASK_RUNNING"
  using wq_inv_progress [OF wq_reach_inv [OF assms(1)] assms(2,3)] .

lemma drain:
  "wq_inv w \<Longrightarrow> wq_head w = None \<Longrightarrow> card {i. wq_tmp w i \<noteq> None} = n \<Longrightarrow>
   \<exists>w'. wq_step\<^sup>*\<^sup>* w w' \<and> wq_tmp w' = (\<lambda>_. None) \<and> wq_head w' = None"
proof (induction n arbitrary: w)
  case 0
  then have "wq_tmp w = (\<lambda>_. None)"
    using wq_invD(7) [OF 0(1)] by (intro ext) auto
  with 0 show ?case by blast
next
  case (Suc n)
  then obtain i where "wq_tmp w i \<noteq> None" by fastforce
  from wq_inv_progress [OF Suc.prems(1,2) this] obtain k tmp
    where k: "wq_tmp w k = Some tmp" "state_of (wq_s w) k = Some TASK_RUNNING" by blast
  define v where "v = w\<lparr>wq_s := (wq_s w)\<lparr>current := k\<rparr>\<rparr>"
  define u where "u = v\<lparr>wq_tmp := (wq_tmp v)(k := None), wq_s := sleep_on_leave tmp (wq_s v)\<rparr>"
  have wv: "wq_step w v" unfolding v_def using k(2) by (rule wq_step.Run)
  have "wq_step v (v\<lparr>wq_tmp := (wq_tmp v)(current (wq_s v) := None),
                     wq_s := sleep_on_leave tmp (wq_s v)\<rparr>)"
    by (rule wq_step.Resume) (use k in \<open>auto simp: v_def\<close>)
  then have vu: "wq_step v u" by (simp add: u_def v_def)
  have "{i. wq_tmp u i \<noteq> None} = {i. wq_tmp w i \<noteq> None} - {k}"
    by (auto simp: u_def v_def split: if_splits)
  moreover have "k \<in> {i. wq_tmp w i \<noteq> None}" using k(1) by simp
  ultimately have "card {i. wq_tmp u i \<noteq> None} = n"
    using Suc.prems(3) by (simp add: card_Diff_singleton)
  moreover have "wq_inv u" using wv vu Suc.prems(1) by (blast intro: wq_step_inv)
  moreover have "wq_head u = None" using Suc.prems(2) by (simp add: u_def v_def)
  ultimately obtain w' where "wq_step\<^sup>*\<^sup>* u w'" "wq_tmp w' = (\<lambda>_. None)" "wq_head w' = None"
    using Suc.IH by blast
  moreover have "wq_step\<^sup>*\<^sup>* w u" using wv vu by auto
  ultimately show ?case by (meson rtranclp_trans)
qed

text \<open>
  C8: one call of \<open>wake_up\<close> is enough for the whole queue: from every reachable state, after it,
  the tasks that can run reach, by returning from \<open>sleep_on\<close> one after the other, a state where
  no task is left in the queue.
\<close>

theorem wake_up_wakes_all:
  assumes "wq_reach w" and "wake_up (wq_head w) (wq_s w) = (p, s')"
  shows "\<exists>w'. wq_step\<^sup>*\<^sup>* (w\<lparr>wq_head := p, wq_s := s'\<rparr>) w' \<and> wq_tmp w' = (\<lambda>_. None) \<and> wq_head w' = None"
  using assms(2)
  by (intro drain wake_keeps_inv wq_reach_inv [OF assms(1)]) (auto simp: wake_up_def)

subsection \<open>Witnesses: one task sleeps and is woken\<close>

definition demo_wq0 :: waitq where
  "demo_wq0 = \<lparr>wq_head = None, wq_tmp = (\<lambda>_. None), wq_s = demo_sched\<rparr>"

definition demo_wq1 :: waitq where
  "demo_wq1 = \<lparr>wq_head = Some 1, wq_tmp = (\<lambda>_. None)(1 := Some None),
     wq_s = upd_task 1 (t_state_update (\<lambda>_. TASK_UNINTERRUPTIBLE)) demo_sched\<rparr>"

definition demo_wq2 :: waitq where
  "demo_wq2 = demo_wq1\<lparr>wq_head := None, wq_s := wake_task (Some 1) (wq_s demo_wq1)\<rparr>"

lemma demo_wq1_reach: "wq_reach demo_wq1"
proof (rule wq_reach.Step)
  show "wq_reach demo_wq0" by (rule wq_reach.Init) (simp_all add: demo_wq0_def)
  have "wq_step demo_wq0 \<lparr>wq_head = Some 1,
      wq_tmp = (wq_tmp demo_wq0)(current (wq_s demo_wq0) := Some None), wq_s = wq_s demo_wq1\<rparr>"
    by (rule wq_step.Sleep)
      (simp_all add: demo_wq0_def demo_wq1_def demo_sched_def sleep_on_enter_def state_of_def
        INIT_TASK_def)
  then show "wq_step demo_wq0 demo_wq1" by (simp add: demo_wq0_def demo_wq1_def demo_sched_def)
qed

lemma demo_wq2_reach: "wq_reach demo_wq2"
  by (rule wq_reach.Step [OF demo_wq1_reach], unfold demo_wq2_def, rule wq_step.Wake)
    (simp add: wake_up_def demo_wq1_def)

theorem sleep_on_no_lost_sleeper_witness:
  "wq_reach demo_wq2 \<and>
   (\<exists>k. wq_tmp demo_wq2 k \<noteq> None \<and> state_of (wq_s demo_wq2) k = Some TASK_RUNNING)"
  using demo_wq2_reach sleep_on_no_lost_sleeper [OF demo_wq2_reach, of 1]
  by (simp add: demo_wq2_def demo_wq1_def)

theorem wake_up_wakes_all_witness:
  "\<exists>w'. wq_step\<^sup>*\<^sup>* (demo_wq1\<lparr>wq_head := None,
        wq_s := snd (wake_up (wq_head demo_wq1) (wq_s demo_wq1))\<rparr>) w' \<and>
      wq_tmp w' = (\<lambda>_. None) \<and> wq_head w' = None"
  by (rule wake_up_wakes_all [OF demo_wq1_reach]) (simp add: wake_up_def)

section \<open>interruptible_sleep_on\<close>

text \<open>
  The same system with the interruptible routine.  A resumed sleeper that finds another task at
  the head wakes it and sleeps again, without entering itself into the queue.
\<close>

inductive iq_step :: "waitq \<Rightarrow> waitq \<Rightarrow> bool" where
  ISleep: "wq_tmp w (current (wq_s w)) = None \<Longrightarrow>
    state_of (wq_s w) (current (wq_s w)) = Some TASK_RUNNING \<Longrightarrow>
    interruptible_sleep_on_enter (wq_head w) (wq_s w) = Inr (tmp, p, s') \<Longrightarrow>
    iq_step w \<lparr>wq_head = p, wq_tmp = (wq_tmp w)(current (wq_s w) := Some tmp), wq_s = s'\<rparr>"
| IRun: "state_of (wq_s w) i = Some TASK_RUNNING \<Longrightarrow>
    iq_step w (w\<lparr>wq_s := (wq_s w)\<lparr>current := i\<rparr>\<rparr>)"
| IRepeat: "wq_tmp w (current (wq_s w)) = Some tmp \<Longrightarrow>
    state_of (wq_s w) (current (wq_s w)) = Some TASK_RUNNING \<Longrightarrow>
    interruptible_sleep_on_resume tmp (wq_head w) (wq_s w) = (None, s') \<Longrightarrow>
    iq_step w (w\<lparr>wq_s := s'\<rparr>)"
| ILeave: "wq_tmp w (current (wq_s w)) = Some tmp \<Longrightarrow>
    state_of (wq_s w) (current (wq_s w)) = Some TASK_RUNNING \<Longrightarrow>
    interruptible_sleep_on_resume tmp (wq_head w) (wq_s w) = (Some p, s') \<Longrightarrow>
    iq_step w \<lparr>wq_head = p, wq_tmp = (wq_tmp w)(current (wq_s w) := None), wq_s = s'\<rparr>"
| IWake: "wake_up (wq_head w) (wq_s w) = (p, s') \<Longrightarrow>
    iq_step w (w\<lparr>wq_head := p, wq_s := s'\<rparr>)"
| IOther: "(\<And>i. wq_tmp w i \<noteq> None \<Longrightarrow> task s' i = task (wq_s w) i) \<Longrightarrow>
    iq_step w (w\<lparr>wq_s := s'\<rparr>)"

text \<open>A task is lost when it sleeps and neither the head nor any sleeper points to it.\<close>

definition lost :: "waitq \<Rightarrow> nat \<Rightarrow> bool" where
  "lost w i \<longleftrightarrow> asleep w i \<and> wq_head w \<noteq> Some i \<and> (\<forall>k. \<not> holds w k i)"

lemma lost_step: "iq_step w w' \<Longrightarrow> lost w i \<Longrightarrow> lost w' i"
proof (induction rule: iq_step.induct)
  case (IOther w s')
  then have "state_of s' i = state_of (wq_s w) i"
    by (simp add: state_of_def lost_def asleep_def)
  with IOther show ?case by (simp add: lost_def asleep_def holds_def)
qed (auto simp: lost_def asleep_def holds_def interruptible_sleep_on_enter_def wake_up_def
    interruptible_sleep_on_resume_def state_of_wake_task split: if_splits)

lemma lost_forever: "iq_step\<^sup>*\<^sup>* w w' \<Longrightarrow> lost w i \<Longrightarrow> lost w' i"
  by (induction rule: rtranclp_induct) (auto intro: lost_step)

text \<open>The run: task 2 sleeps and is woken; before it runs, task 3 sleeps; each then resumes.\<close>

definition pair_sched :: "int \<Rightarrow> int \<Rightarrow> nat \<Rightarrow> sched" where
  "pair_sched a b c = demo_sched\<lparr>
     task := (\<lambda>i. if i = 2 then Some (INIT_TASK\<lparr>t_state := a\<rparr>)
                   else if i = 3 then Some (INIT_TASK\<lparr>t_state := b\<rparr>)
                   else if i = 0 then Some INIT_TASK else None),
     current := c\<rparr>"

definition pair_tmp :: "nat option option \<Rightarrow> nat option option \<Rightarrow> nat \<Rightarrow> nat option option" where
  "pair_tmp x y = (\<lambda>_. None)(2 := x, 3 := y)"

lemma pair_simps [simp]:
  "current (pair_sched a b c) = c"
  "state_of (pair_sched a b c) 2 = Some a"
  "state_of (pair_sched a b c) 3 = Some b"
  "pair_tmp x y 2 = x" "pair_tmp x y 3 = y"
  "(pair_tmp x y)(2 := z) = pair_tmp z y" "(pair_tmp x y)(3 := z) = pair_tmp x z"
  "(pair_sched a b c)\<lparr>current := d\<rparr> = pair_sched a b d"
  "upd_task 2 (t_state_update (\<lambda>_. v)) (pair_sched a b c) = pair_sched v b c"
  "upd_task 3 (t_state_update (\<lambda>_. v)) (pair_sched a b c) = pair_sched a v c"
  by (auto simp: pair_sched_def pair_tmp_def state_of_def upd_task_def demo_sched_def)

abbreviation pairq :: "nat option \<Rightarrow> nat option option \<Rightarrow> nat option option \<Rightarrow> int \<Rightarrow> int \<Rightarrow> nat \<Rightarrow> waitq" where
  "pairq h x y a b c \<equiv> \<lparr>wq_head = h, wq_tmp = pair_tmp x y, wq_s = pair_sched a b c\<rparr>"

lemmas iq_routines =
  interruptible_sleep_on_enter_def interruptible_sleep_on_resume_def wake_up_def wake_task_def

lemma pair_steps:
  "iq_step (pairq None None None 0 0 2) (pairq (Some 2) (Some None) None 1 0 2)"
  "iq_step (pairq (Some 2) (Some None) None 1 0 2) (pairq (Some 2) (Some None) None 1 0 3)"
  "iq_step (pairq (Some 2) (Some None) None 1 0 3) (pairq None (Some None) None 0 0 3)"
  "iq_step (pairq None (Some None) None 0 0 3) (pairq (Some 3) (Some None) (Some None) 0 1 3)"
  "iq_step (pairq (Some 3) (Some None) (Some None) 0 1 3) (pairq (Some 3) (Some None) (Some None) 0 1 2)"
  "iq_step (pairq (Some 3) (Some None) (Some None) 0 1 2) (pairq (Some 3) (Some None) (Some None) 1 0 2)"
  "iq_step (pairq (Some 3) (Some None) (Some None) 1 0 2) (pairq (Some 3) (Some None) (Some None) 1 0 3)"
  "iq_step (pairq (Some 3) (Some None) (Some None) 1 0 3) (pairq None (Some None) None 1 0 3)"
  using iq_step.ISleep [of "pairq None None None 0 0 2"]
    iq_step.IRun [of "pairq (Some 2) (Some None) None 1 0 2" 3]
    iq_step.IWake [of "pairq (Some 2) (Some None) None 1 0 3"]
    iq_step.ISleep [of "pairq None (Some None) None 0 0 3"]
    iq_step.IRun [of "pairq (Some 3) (Some None) (Some None) 0 1 3" 2]
    iq_step.IRepeat [of "pairq (Some 3) (Some None) (Some None) 0 1 2"]
    iq_step.IRun [of "pairq (Some 3) (Some None) (Some None) 1 0 2" 3]
    iq_step.ILeave [of "pairq (Some 3) (Some None) (Some None) 1 0 3"]
  by (simp_all add: iq_routines)

inductive iq_reach :: "waitq \<Rightarrow> bool" where
  "wq_head w = None \<Longrightarrow> wq_tmp w = (\<lambda>_. None) \<Longrightarrow> iq_reach w"
| "iq_reach w \<Longrightarrow> iq_step w w' \<Longrightarrow> iq_reach w'"

lemma pair_reach: "iq_reach (pairq None (Some None) None 1 0 3)"
proof -
  have "iq_reach (pairq None None None 0 0 2)"
    by (rule iq_reach.intros(1)) (simp_all add: pair_tmp_def)
  then show ?thesis using pair_steps by (meson iq_reach.intros(2))
qed

text \<open>
  C18: \<open>interruptible_sleep_on\<close> can lose a sleeper.  A state is reachable in which a task is inside
  the routine and, whatever the tasks and \<open>wake_up\<close> do from then on, never becomes runnable (only
  a signal would wake it): the routine re-sleeps at \<open>goto repeat\<close> without being in the queue.
\<close>

theorem interruptible_sleep_on_loses_sleeper:
  "\<exists>w i. iq_reach w \<and> wq_tmp w i \<noteq> None \<and>
     (\<forall>w'. iq_step\<^sup>*\<^sup>* w w' \<longrightarrow> wq_tmp w' i \<noteq> None \<and> state_of (wq_s w') i \<noteq> Some TASK_RUNNING)"
proof (intro exI conjI allI impI)
  let ?w = "pairq None (Some None) None 1 0 3"
  show "iq_reach ?w" by (rule pair_reach)
  show "wq_tmp ?w 2 \<noteq> None" by simp
  fix w' assume "iq_step\<^sup>*\<^sup>* ?w w'"
  moreover have "lost ?w 2" by (auto simp: lost_def asleep_def holds_def pair_tmp_def)
  ultimately have "lost w' 2" by (rule lost_forever)
  then show "wq_tmp w' 2 \<noteq> None" "state_of (wq_s w') 2 \<noteq> Some TASK_RUNNING"
    by (simp_all add: lost_def asleep_def)
qed

theorem interruptible_sleep_on_loses_sleeper_witness:
  "\<exists>w i. iq_reach w \<and> wq_tmp w i \<noteq> None \<and> state_of (wq_s w) i \<noteq> Some TASK_RUNNING"
  using interruptible_sleep_on_loses_sleeper by (blast intro: rtranclp.rtrancl_refl)

end
