(* ===== verification/Timers.thy ===== *)
theory Timers
  imports Wait_Queue
begin

text \<open>
  The timer list of \<open>kernel/sched.c\<close>: an array of 64 entries threaded into a list by \<open>next\<close>,
  whose \<open>jiffies\<close> are differences.  The abstract view of the list is the list of its pairs
  (difference, function); \<open>add_timer\<close> refines an insertion into it and \<open>do_timer\<close> a removal of
  its front.
\<close>

section \<open>The abstract list\<close>

fun chain :: "(nat \<Rightarrow> timer) \<Rightarrow> nat option \<Rightarrow> nat list \<Rightarrow> bool" where
  "chain tb h [] = (h = None)"
| "chain tb h (p # ps) = (h = Some p \<and> chain tb (tm_next (tb p)) ps)"

definition entry :: "(nat \<Rightarrow> timer) \<Rightarrow> nat \<Rightarrow> int \<times> nat option" where
  "entry tb p = (tm_jiffies (tb p), tm_fn (tb p))"

definition timers_wf :: "sched \<Rightarrow> nat list \<Rightarrow> bool" where
  "timers_wf s ps \<longleftrightarrow>
     chain (timer_list s) (next_timer s) ps \<and> distinct ps \<and>
     (\<forall>p. p \<in> set ps \<longleftrightarrow> p < TIME_REQUESTS \<and> tm_fn (timer_list s p) \<noteq> None)"

definition pending :: "sched \<Rightarrow> nat list \<Rightarrow> (int \<times> nat option) list" where
  "pending s ps = map (entry (timer_list s)) ps"

fun insert_delta :: "int \<Rightarrow> 'a \<Rightarrow> (int \<times> 'a) list \<Rightarrow> (int \<times> 'a) list" where
  "insert_delta j f [] = [(j, f)]"
| "insert_delta j f ((d, g) # xs) =
     (if d < j then (d, g) # insert_delta (j - d) f xs else (j, f) # (d, g) # xs)"

text \<open>The number of ticks after which each entry runs.\<close>

fun fire_times :: "int \<Rightarrow> (int \<times> 'a) list \<Rightarrow> (int \<times> 'a) list" where
  "fire_times t [] = []"
| "fire_times t ((d, f) # xs) = (t + d, f) # fire_times (t + d) xs"

lemma chain_cong:
  "(\<And>p. p \<in> set ps \<Longrightarrow> tm_next (tb p) = tm_next (tb' p)) \<Longrightarrow> chain tb h ps = chain tb' h ps"
  by (induction ps arbitrary: h) auto

lemma chain_length_unique: "chain tb h ps \<Longrightarrow> chain tb h qs \<Longrightarrow> ps = qs"
  by (induction ps arbitrary: h qs) (case_tac qs; auto)+

section \<open>add_timer\<close>

lemma add_timer_loop_spec:
  "chain tb (tm_next (tb p)) ps \<Longrightarrow> distinct (p # ps) \<Longrightarrow>
   \<exists>tb'. add_timer_loop p tb = Some tb' \<and>
     (\<forall>q. tm_next (tb' q) = tm_next (tb q)) \<and>
     (\<forall>q. q \<notin> set (p # ps) \<longrightarrow> tb' q = tb q) \<and>
     map (entry tb') (p # ps) =
       insert_delta (tm_jiffies (tb p)) (tm_fn (tb p)) (map (entry tb) ps)"
proof (induction ps arbitrary: p tb)
  case Nil
  then show ?case by (subst add_timer_loop.simps) (simp add: entry_def)
next
  case (Cons q ps)
  then have q: "tm_next (tb p) = Some q" and "p \<noteq> q" by auto
  show ?case
  proof (cases "tm_jiffies (tb q) < tm_jiffies (tb p)")
    case False
    with q show ?thesis by (subst add_timer_loop.simps) (simp add: entry_def)
  next
    case True
    define tb1 where "tb1 = tb(p := (tb p)\<lparr>tm_fn := tm_fn (tb q), tm_jiffies := tm_jiffies (tb q)\<rparr>,
        q := (tb q)\<lparr>tm_fn := tm_fn (tb p), tm_jiffies := tm_jiffies (tb p) - tm_jiffies (tb q)\<rparr>)"
    have loop: "add_timer_loop p tb = add_timer_loop q tb1"
      using q True \<open>p \<noteq> q\<close>
      by (subst add_timer_loop.simps) (simp add: tb1_def Let_def fun_upd_twist)
    have nxt: "tm_next (tb1 x) = tm_next (tb x)" for x by (simp add: tb1_def)
    have "chain tb (tm_next (tb q)) ps" using Cons.prems(1) by simp
    then have "chain tb1 (tm_next (tb1 q)) ps"
      by (simp add: nxt chain_cong [of ps tb1 tb])
    from Cons.IH [OF this] Cons.prems(2) obtain tb' where
      tb': "add_timer_loop q tb1 = Some tb'" "\<And>x. tm_next (tb' x) = tm_next (tb1 x)"
        "\<And>x. x \<notin> set (q # ps) \<Longrightarrow> tb' x = tb1 x"
        "map (entry tb') (q # ps) =
           insert_delta (tm_jiffies (tb1 q)) (tm_fn (tb1 q)) (map (entry tb1) ps)"
      by auto
    have "map (entry tb1) ps = map (entry tb) ps"
      using Cons.prems(2) by (auto simp: entry_def tb1_def)
    then have "map (entry tb') (q # ps) =
        insert_delta (tm_jiffies (tb p) - tm_jiffies (tb q)) (tm_fn (tb p)) (map (entry tb) ps)"
      using tb'(4) by (simp only:) (simp add: tb1_def)
    moreover have "entry tb' p = entry tb q"
      using tb'(3) [of p] Cons.prems(2) by (simp add: entry_def tb1_def)
    ultimately have "map (entry tb') (p # q # ps) =
        insert_delta (tm_jiffies (tb p)) (tm_fn (tb p)) (map (entry tb) (q # ps))"
      using True by (simp add: entry_def)
    moreover have "tb' x = tb x" if "x \<notin> set (p # q # ps)" for x
      using tb'(3) [of x] that by (simp add: tb1_def)
    ultimately show ?thesis
      using tb'(1,2) by (auto simp: loop nxt)
  qed
qed

text \<open>The first free entry exists exactly when fewer than 64 timers are pending.\<close>

lemma find_free:
  assumes "timers_wf s ps"
  shows "find (\<lambda>p. tm_fn (timer_list s p) = None) [0..<TIME_REQUESTS] = None \<longleftrightarrow> length ps = TIME_REQUESTS"
    and "length ps \<le> TIME_REQUESTS"
proof -
  have mem: "p \<in> set ps \<longleftrightarrow> p < TIME_REQUESTS \<and> tm_fn (timer_list s p) \<noteq> None" for p
    using assms by (simp add: timers_wf_def)
  have len: "length ps = card (set ps)"
    using assms by (simp add: timers_wf_def distinct_card)
  have sub: "set ps \<subseteq> {..<TIME_REQUESTS}" using mem by (meson lessThan_iff subsetI)
  then show "length ps \<le> TIME_REQUESTS" using card_mono [OF finite_lessThan sub] by (simp only: len card_lessThan)
  have "(\<forall>p < TIME_REQUESTS. tm_fn (timer_list s p) \<noteq> None) \<longleftrightarrow> set ps = {..<TIME_REQUESTS}"
    using mem sub by (metis lessThan_iff subsetI subset_antisym)
  also have "\<dots> \<longleftrightarrow> card (set ps) = TIME_REQUESTS"
    using card_subset_eq [OF finite_lessThan sub] by (metis card_lessThan)
  finally show "find (\<lambda>p. tm_fn (timer_list s p) = None) [0..<TIME_REQUESTS] = None \<longleftrightarrow> length ps = TIME_REQUESTS"
    by (simp only: find_upt_None len)
qed

lemma set_insert_delta: "set (map snd (insert_delta j f xs)) = insert f (set (map snd xs))"
  by (induction j f xs rule: insert_delta.induct) auto

lemma add_timer_spec:
  assumes wf: "timers_wf s ps" and "0 < j" and "length ps < TIME_REQUESTS"
  shows "\<exists>s' p. add_timer run j (Some f) s = Inr s' \<and> timers_wf s' (p # ps) \<and>
    pending s' (p # ps) = insert_delta j (Some f) (pending s ps) \<and>
    s' = s\<lparr>timer_list := timer_list s', next_timer := next_timer s'\<rparr>"
proof -
  obtain p where p: "find (\<lambda>p. tm_fn (timer_list s p) = None) [0..<TIME_REQUESTS] = Some p"
    using find_free(1) [OF wf] assms(3) by (metis less_irrefl option.exhaust)
  then have free: "p < TIME_REQUESTS" "tm_fn (timer_list s p) = None"
    by (simp_all only: find_upt_Some)
  then have "p \<notin> set ps" using wf by (simp add: timers_wf_def)
  note free = free this
  let ?tb = "(timer_list s)(p := \<lparr>tm_jiffies = j, tm_fn = Some f, tm_next = next_timer s\<rparr>)"
  have "chain (timer_list s) (next_timer s) ps" using wf by (simp add: timers_wf_def)
  moreover have "tm_next (?tb q) = tm_next (timer_list s q)" if "q \<in> set ps" for q
    using that free(3) by auto
  ultimately have "chain ?tb (tm_next (?tb p)) ps"
    using chain_cong [of ps ?tb "timer_list s"] by (simp del: fun_upd_apply) simp
  moreover have "distinct (p # ps)" using wf free by (simp add: timers_wf_def)
  ultimately obtain tb' where tb': "add_timer_loop p ?tb = Some tb'"
      "\<And>q. tm_next (tb' q) = tm_next (?tb q)" "\<And>q. q \<notin> set (p # ps) \<Longrightarrow> tb' q = ?tb q"
      "map (entry tb') (p # ps) = insert_delta (tm_jiffies (?tb p)) (tm_fn (?tb p)) (map (entry ?tb) ps)"
    using add_timer_loop_spec [of ?tb p ps] by blast
  define s' where "s' = s\<lparr>timer_list := tb', next_timer := Some p\<rparr>"
  have "map (entry ?tb) ps = map (entry (timer_list s)) ps"
    using free(3) by (auto simp: entry_def)
  with tb'(4) have pend: "pending s' (p # ps) = insert_delta j (Some f) (pending s ps)"
    by (simp add: pending_def s'_def)
  have "\<forall>q \<in> set ps. tm_fn (timer_list s q) \<noteq> None" using wf by (simp add: timers_wf_def)
  then have "None \<notin> set (map snd (pending s ps))" by (force simp: pending_def entry_def)
  then have "None \<notin> set (map snd (pending s' (p # ps)))"
    by (simp only: pend set_insert_delta) simp
  then have "tm_fn (tb' q) \<noteq> None" if "q \<in> set (p # ps)" for q
    using that by (force simp: pending_def entry_def s'_def)
  moreover have "tm_fn (tb' q) = tm_fn (timer_list s q)" if "q \<notin> set (p # ps)" for q
    using tb'(3) [OF that] that by simp
  ultimately have "q \<in> set (p # ps) \<longleftrightarrow> q < TIME_REQUESTS \<and> tm_fn (tb' q) \<noteq> None" for q
    using wf free(1) by (cases "q \<in> set (p # ps)") (auto simp: timers_wf_def)
  moreover have "chain tb' (Some p) (p # ps)"
    using \<open>chain ?tb (tm_next (?tb p)) ps\<close> tb'(2) chain_cong [of ps tb' ?tb] by simp
  ultimately have "timers_wf s' (p # ps)"
    using \<open>distinct (p # ps)\<close> by (simp add: timers_wf_def s'_def)
  moreover have "add_timer run j (Some f) s = Inr s'"
    using \<open>0 < j\<close> p tb'(1) by (simp add: add_timer_def s'_def)
  moreover have "s' = s\<lparr>timer_list := timer_list s', next_timer := next_timer s'\<rparr>"
    by (simp add: s'_def)
  ultimately show ?thesis using pend by blast
qed

text \<open>
  C12: \<open>add_timer\<close> on a well-formed timer list keeps it well-formed and inserts the new entry into
  the abstract list of differences (the content exchange along the list ends); with all 64
  entries in use it panics.
\<close>

theorem add_timer_refines:
  assumes wf: "timers_wf s ps" and "0 < j"
  shows "if length ps = TIME_REQUESTS
    then add_timer run j (Some f) s = Inl (Panic ''No more time requests free'')
    else \<exists>s' p. add_timer run j (Some f) s = Inr s' \<and> timers_wf s' (p # ps) \<and>
           pending s' (p # ps) = insert_delta j (Some f) (pending s ps)"
proof (cases "length ps = TIME_REQUESTS")
  case True
  then show ?thesis using find_free(1) [OF wf] \<open>0 < j\<close> by (simp add: add_timer_def)
next
  case False
  with find_free(2) [OF wf] have "length ps < TIME_REQUESTS" by simp
  from add_timer_spec [OF assms this, of run f] False show ?thesis by auto
qed

subsection \<open>When the timers run\<close>

lemma fire_times_shift: "fire_times (t + c) xs = map (\<lambda>(u, g). (u + c, g)) (fire_times t xs)"
proof (induction xs arbitrary: t)
  case (Cons a xs)
  obtain d f where "a = (d, f)" by fastforce
  then show ?case using Cons.IH [of "t + d"] by (simp add: algebra_simps)
qed simp

lemma fire_times_insert:
  "fire_times t (insert_delta j f xs) =
     (let B = takeWhile (\<lambda>(u, g). u < t + j) (fire_times t xs);
          A = dropWhile (\<lambda>(u, g). u < t + j) (fire_times t xs);
          L = (if B = [] then t else fst (last B))
      in B @ (t + j, f) # map (\<lambda>(u, g). (u + (t + j - L), g)) A)"
proof (induction j f xs arbitrary: t rule: insert_delta.induct)
  case (1 j f)
  then show ?case by simp
next
  case (2 j f d g xs)
  show ?case
  proof (cases "d < j")
    case True
    with 2 [of "t + d"] show ?thesis by (simp add: Let_def)
  next
    case False
    then show ?thesis
      using fire_times_shift [of "t + d" j xs] by (simp add: algebra_simps)
  qed
qed

text \<open>
  C19: a new timer runs exactly \<open>j\<close> ticks from now, and timers due earlier keep their time; but
  every timer due at that time or later is delayed by the distance between the new timer and
  its predecessor, because the difference stored in the successor is not reduced.
\<close>

theorem add_timer_fire_times:
  assumes "timers_wf s ps" and "0 < j" and "length ps < TIME_REQUESTS"
  shows "\<exists>s' qs. add_timer run j (Some f) s = Inr s' \<and> timers_wf s' qs \<and>
    (let old = fire_times 0 (pending s ps);
         early = takeWhile (\<lambda>(u, g). u < j) old;
         late = dropWhile (\<lambda>(u, g). u < j) old;
         delay = j - (if early = [] then 0 else fst (last early))
     in fire_times 0 (pending s' qs) =
          early @ (j, Some f) # map (\<lambda>(u, g). (u + delay, g)) late)"
proof -
  obtain s' p where s': "add_timer run j (Some f) s = Inr s'" "timers_wf s' (p # ps)"
    "pending s' (p # ps) = insert_delta j (Some f) (pending s ps)"
    using add_timer_spec [OF assms, of run f] by blast
  show ?thesis
    by (intro exI [of _ s'] exI [of _ "p # ps"] conjI s'(1,2))
      (simp add: s'(3) fire_times_insert Let_def)
qed

lemma demo_timers_wf: "timers_wf demo_sched []"
  by (simp add: timers_wf_def demo_sched_def)

theorem add_timer_refines_witness:
  "\<exists>s' p. add_timer (\<lambda>_. Inr) 5 (Some 7) demo_sched = Inr s' \<and> timers_wf s' [p] \<and>
     pending s' [p] = [(5, Some 7)]"
  using add_timer_refines [OF demo_timers_wf, of 5 "\<lambda>_. Inr" 7] by (simp add: pending_def)

theorem add_timer_fire_times_witness:
  "\<exists>s' qs. add_timer (\<lambda>_. Inr) 5 (Some 7) demo_sched = Inr s' \<and> timers_wf s' qs \<and>
     fire_times 0 (pending s' qs) = [(5, Some 7)]"
  using add_timer_fire_times [OF demo_timers_wf, of 5 "\<lambda>_. Inr" 7] by (simp add: pending_def)

section \<open>The clock tick\<close>

definition tick :: "(int \<times> 'a) list \<Rightarrow> (int \<times> 'a) list" where
  "tick xs = (case xs of [] \<Rightarrow> [] | (d, f) # xs \<Rightarrow> (d - 1, f) # xs)"

definition due :: "(int \<times> 'a) list \<Rightarrow> (int \<times> 'a) list" where
  "due xs = takeWhile (\<lambda>x. fst x \<le> 0) xs"

definition not_due :: "(int \<times> 'a) list \<Rightarrow> (int \<times> 'a) list" where
  "not_due xs = dropWhile (\<lambda>x. fst x \<le> 0) xs"

text \<open>
  What is assumed of the functions the timers call: each returns and, given a free entry, starts
  at most one timer (as \<open>floppy_on_interrupt\<close> starts \<open>transfer\<close>), by \<open>add_timer\<close> with a
  positive delay, and does nothing else to the timer list.  \<open>log\<close> observes which of them ran.
\<close>

definition insert_all :: "(int \<times> nat) list \<Rightarrow> (int \<times> nat option) list \<Rightarrow> (int \<times> nat option) list" where
  "insert_all js xs = fold (\<lambda>(j, f). insert_delta j (Some f)) js xs"

definition starts_timers :: "(nat \<Rightarrow> sched \<Rightarrow> sched kres) \<Rightarrow> (sched \<Rightarrow> nat list) \<Rightarrow> bool" where
  "starts_timers run log \<longleftrightarrow>
     (\<forall>f s ps. timers_wf s ps \<longrightarrow> length ps < TIME_REQUESTS \<longrightarrow>
        (\<exists>s' qs js. run f s = Inr s' \<and> timers_wf s' qs \<and> length js \<le> 1 \<and> (\<forall>j \<in> set js. 0 < fst j) \<and>
           pending s' qs = insert_all js (pending s ps) \<and> log s' = log s @ [f])) \<and>
     (\<forall>s tb p. log (s\<lparr>timer_list := tb, next_timer := p\<rparr>) = log s)"

text \<open>All differences are positive, which insertion keeps.\<close>

definition all_later :: "(int \<times> 'a) list \<Rightarrow> bool" where
  "all_later xs \<longleftrightarrow> (\<forall>x \<in> set xs. 0 < fst x)"

lemma insert_delta_later: "all_later xs \<Longrightarrow> 0 < j \<Longrightarrow> all_later (insert_delta j f xs)"
  by (induction j f xs rule: insert_delta.induct) (auto simp: all_later_def)

lemma insert_all_later: "all_later xs \<Longrightarrow> \<forall>j \<in> set js. 0 < fst j \<Longrightarrow> all_later (insert_all js xs)"
  by (induction js arbitrary: xs) (auto simp: insert_all_def insert_delta_later)

lemma later_not_due: "all_later xs \<Longrightarrow> due xs = [] \<and> not_due xs = xs"
  by (cases xs) (auto simp: all_later_def due_def not_due_def)

lemma pending_Cons:
  "pending s (p # ps) = (tm_jiffies (timer_list s p), tm_fn (timer_list s p)) # pending s ps"
  by (simp add: pending_def entry_def)

lemma timers_wf_pop:
  assumes "timers_wf s (p # ps)"
  shows "timers_wf (s\<lparr>timer_list := (timer_list s)(p := (timer_list s p)\<lparr>tm_fn := None\<rparr>),
                      next_timer := tm_next (timer_list s p)\<rparr>) ps"
    and "pending (s\<lparr>timer_list := (timer_list s)(p := (timer_list s p)\<lparr>tm_fn := None\<rparr>),
                    next_timer := q\<rparr>) ps = pending s ps"
proof -
  let ?tb = "(timer_list s)(p := (timer_list s p)\<lparr>tm_fn := None\<rparr>)"
  have wf: "chain (timer_list s) (tm_next (timer_list s p)) ps" "distinct (p # ps)"
    "\<And>x. x \<in> set (p # ps) \<longleftrightarrow> x < TIME_REQUESTS \<and> tm_fn (timer_list s x) \<noteq> None"
    using assms by (simp_all add: timers_wf_def)
  have "chain ?tb (tm_next (timer_list s p)) ps"
    using wf(1) chain_cong [of ps ?tb "timer_list s"] by simp
  moreover have "x \<in> set ps \<longleftrightarrow> x < TIME_REQUESTS \<and> tm_fn (?tb x) \<noteq> None" for x
    using wf(3) [of x] wf(2) by (cases "x = p") simp_all
  ultimately show "timers_wf (s\<lparr>timer_list := ?tb, next_timer := tm_next (timer_list s p)\<rparr>) ps"
    using wf(2) by (simp add: timers_wf_def)
  show "pending (s\<lparr>timer_list := ?tb, next_timer := q\<rparr>) ps = pending s ps"
    using wf(2) by (auto simp: pending_def entry_def)
qed

text \<open>Once the front is not due, nothing is.\<close>

lemma do_timer_loop_ends:
  assumes wf: "timers_wf s ps" and l: "all_later (pending s ps)"
  shows "do_timer_loop run s = Some (Inr s)"
proof (cases ps)
  case Nil
  then have "next_timer s = None" using wf by (simp add: timers_wf_def)
  then show ?thesis by (subst do_timer_loop.simps) simp
next
  case (Cons p qs)
  then have "next_timer s = Some p" "0 < tm_jiffies (timer_list s p)"
    using wf l by (simp_all add: timers_wf_def pending_Cons all_later_def)
  then show ?thesis by (subst do_timer_loop.simps) simp
qed

lemma timers_wf_dec:
  assumes wf: "timers_wf s (p # qs)"
  shows "timers_wf (s\<lparr>timer_list := (timer_list s)(p := (timer_list s p)\<lparr>tm_jiffies := j\<rparr>)\<rparr>) (p # qs)"
    and "pending (s\<lparr>timer_list := (timer_list s)(p := (timer_list s p)\<lparr>tm_jiffies := j\<rparr>)\<rparr>) (p # qs) =
      (j, tm_fn (timer_list s p)) # pending s qs"
proof -
  let ?tb = "(timer_list s)(p := (timer_list s p)\<lparr>tm_jiffies := j\<rparr>)"
  have p: "p \<notin> set qs" using wf by (simp add: timers_wf_def)
  have nxt: "tm_next (?tb q) = tm_next (timer_list s q)"
    and fn: "tm_fn (?tb q) = tm_fn (timer_list s q)" for q by simp_all
  have c: "chain ?tb (next_timer s) (p # qs) = chain (timer_list s) (next_timer s) (p # qs)" by (rule chain_cong) (rule nxt)
  have t: "timer_list (s\<lparr>timer_list := ?tb\<rparr>) = ?tb" "next_timer (s\<lparr>timer_list := ?tb\<rparr>) = next_timer s" by simp_all
  show "timers_wf (s\<lparr>timer_list := ?tb\<rparr>) (p # qs)"
    unfolding timers_wf_def t c fn by (rule wf [unfolded timers_wf_def])
  show "pending (s\<lparr>timer_list := ?tb\<rparr>) (p # qs) = (j, tm_fn (timer_list s p)) # pending s qs"
    using p by (auto simp: pending_def entry_def)
qed

text \<open>
  C20: a clock tick takes one from the first pending difference and runs exactly the timers that
  have become due, in list order; afterwards the well-formed list holds the others and
  whatever timers, at most one each, the functions that ran started, each at its place.  The loop
  ends: the differences in the list are positive, before and after, so a timer that is started in
  the loop does not run in it.
\<close>

theorem run_timers_refines:
  assumes run: "starts_timers run log" and wf: "timers_wf s ps" and pos: "all_later (pending s ps)"
  shows "\<exists>s' qs js. run_timers run s = Inr s' \<and> timers_wf s' qs \<and> all_later (pending s' qs) \<and>
    log s' = log s @ map (the \<circ> snd) (due (tick (pending s ps))) \<and>
    length js \<le> length (due (tick (pending s ps))) \<and>
    pending s' qs = insert_all js (not_due (tick (pending s ps)))"
proof (cases ps)
  case Nil
  then have "next_timer s = None" using wf by (simp add: timers_wf_def)
  with Nil wf show ?thesis
    by (intro exI [of _ s] exI [of _ "[]"])
      (simp add: run_timers_def pending_def tick_def due_def not_due_def all_later_def insert_all_def)
next
  case (Cons p qs)
  define d where "d = tm_jiffies (timer_list s p) - 1"
  define s0 where "s0 = s\<lparr>timer_list := (timer_list s)(p := (timer_list s p)\<lparr>tm_jiffies := d\<rparr>)\<rparr>"
  have p: "next_timer s = Some p" using wf Cons by (simp add: timers_wf_def)
  have lp: "length ps \<le> TIME_REQUESTS" by (rule find_free(2) [OF wf])
  have "p \<in> set ps" using Cons by simp
  then obtain f where f: "tm_fn (timer_list s p) = Some f" using wf by (auto simp: timers_wf_def)
  have pd: "pending s ps = (d + 1, Some f) # pending s qs" by (simp add: Cons pending_Cons f d_def)
  have d: "0 \<le> d" and ql: "all_later (pending s qs)" using pos by (simp_all add: pd all_later_def)
  have wf0: "timers_wf s0 (p # qs)" and pd0: "pending s0 (p # qs) = tick (pending s ps)"
    using timers_wf_dec [of s p qs d] wf by (simp_all add: Cons s0_def pd [unfolded Cons] tick_def f)
  have lg0: "log (s\<lparr>timer_list := tb, next_timer := q\<rparr>) = log s" for tb q
    using run by (simp add: starts_timers_def)
  have lg: "log s0 = log s" using lg0 [of "next_timer s" "timer_list s0"] by (simp add: s0_def)
  have rt: "run_timers run s = (case do_timer_loop run s0 of None \<Rightarrow> Inl Hang | Some r \<Rightarrow> r)"
    using p by (simp add: run_timers_def s0_def d_def)
  show ?thesis
  proof (cases "d = 0")
    case False
    then have l: "all_later (tick (pending s ps))" using d ql by (auto simp: pd tick_def all_later_def)
    then have "run_timers run s = Inr s0" using do_timer_loop_ends [OF wf0] pd0 by (simp add: rt)
    then show ?thesis using wf0 pd0 l later_not_due [OF l] lg
      by (intro exI [of _ s0] exI [of _ "p # qs"] exI [of _ "[]"]) (simp add: insert_all_def)
  next
    case True
    have du: "due (tick (pending s ps)) = [(0, Some f)]" "not_due (tick (pending s ps)) = pending s qs"
      using True later_not_due [OF ql] by (simp_all add: pd tick_def due_def not_due_def)
    define s1 where "s1 = s0\<lparr>timer_list := (timer_list s0)(p := (timer_list s0 p)\<lparr>tm_fn := None\<rparr>),
                            next_timer := tm_next (timer_list s0 p)\<rparr>"
    have wf1: "timers_wf s1 qs" "pending s1 qs = pending s qs"
      using timers_wf_pop [OF wf0] pd0 True by (simp_all add: s1_def pd tick_def pending_Cons)
    have lg1: "log s1 = log s" using lg0 [of "next_timer s1" "timer_list s1"] by (simp add: s1_def s0_def)
    have len: "length qs < TIME_REQUESTS" using lp Cons by simp
    obtain s2 rs js where s2: "run f s1 = Inr s2" "timers_wf s2 rs" "length js \<le> 1" "\<forall>j \<in> set js. 0 < fst j"
      "pending s2 rs = insert_all js (pending s1 qs)" "log s2 = log s1 @ [f]"
      using run wf1(1) len unfolding starts_timers_def by metis
    have l2: "all_later (pending s2 rs)" using insert_all_later [OF ql s2(4)] s2(5) wf1(2) by simp
    have n0: "next_timer s0 = Some p" "tm_jiffies (timer_list s0 p) \<le> 0" "tm_fn (timer_list s0 p) = Some f"
      using p True f by (simp_all add: s0_def)
    have "do_timer_loop run s0 = do_timer_loop run s2"
      using n0 s2(1) by (subst do_timer_loop.simps) (simp add: s1_def)
    also have "\<dots> = Some (Inr s2)" by (rule do_timer_loop_ends [OF s2(2) l2])
    finally have "run_timers run s = Inr s2" by (simp add: rt)
    then show ?thesis using s2 l2 du lg1 wf1(2)
      by (intro exI [of _ s2] exI [of _ rs] exI [of _ js]) simp
  qed
qed

text \<open>
  Function 7 writes its number to a port and starts function 8 in two ticks, as
  \<open>floppy_on_interrupt\<close> starts \<open>transfer\<close>; the others only write theirs.
\<close>

definition demo_run :: "nat \<Rightarrow> sched \<Rightarrow> sched kres" where
  "demo_run f s =
     (let s = s\<lparr>port_out := port_out s @ [(f, 0)]\<rparr>
      in if f = 7 then add_timer (\<lambda>_. Inr) 2 (Some 8) s else Inr s)"

definition demo_timers :: sched where
  "demo_timers = demo_sched\<lparr>next_timer := Some 0,
     timer_list := (\<lambda>_. \<lparr>tm_jiffies = 0, tm_fn = None, tm_next = None\<rparr>)
       (0 := \<lparr>tm_jiffies = 1, tm_fn = Some 7, tm_next = Some 1\<rparr>,
        1 := \<lparr>tm_jiffies = 3, tm_fn = Some 8, tm_next = None\<rparr>)\<rparr>"

lemma demo_run_starts: "starts_timers demo_run (map fst \<circ> port_out)"
proof -
  have "\<exists>s' qs js. demo_run f s = Inr s' \<and> timers_wf s' qs \<and> length js \<le> 1 \<and> (\<forall>j \<in> set js. 0 < fst j) \<and>
      pending s' qs = insert_all js (pending s ps) \<and> map fst (port_out s') = map fst (port_out s) @ [f]"
    if wf: "timers_wf s ps" and len: "length ps < TIME_REQUESTS" for f s ps
  proof -
    let ?s = "s\<lparr>port_out := port_out s @ [(f, 0)]\<rparr>"
    have wf': "timers_wf ?s ps" "pending ?s ps = pending s ps" using wf by (simp_all add: timers_wf_def pending_def)
    show ?thesis
    proof (cases "f = 7")
      case True
      obtain s' p where s': "add_timer (\<lambda>_. Inr) 2 (Some 8) ?s = Inr s'" "timers_wf s' (p # ps)"
        "pending s' (p # ps) = insert_delta 2 (Some 8) (pending ?s ps)" "s' = ?s\<lparr>timer_list := timer_list s', next_timer := next_timer s'\<rparr>"
        using add_timer_spec [OF wf'(1) _ len, of 2 "\<lambda>_. Inr" 8] by auto
      have "port_out s' = port_out ?s" using s'(4) by (metis sched.select_convs(17) sched.surjective sched.update_convs(9,10))
      then show ?thesis using s'(1-3) wf'(2) True
        by (intro exI [of _ s'] exI [of _ "p # ps"] exI [of _ "[(2, 8)]"]) (simp add: demo_run_def Let_def insert_all_def)
    next
      case False
      then show ?thesis using wf'
        by (intro exI [of _ ?s] exI [of _ ps] exI [of _ "[]"]) (simp add: demo_run_def insert_all_def)
    qed
  qed
  then show ?thesis by (simp add: starts_timers_def)
qed

lemma demo_timers_pending: "timers_wf demo_timers [0, 1]"
  "pending demo_timers [0, 1] = [(1, Some 7), (3, Some 8)]"
  by (auto simp: timers_wf_def demo_timers_def pending_def entry_def split: if_splits)

lemma demo_timers_port: "port_out demo_timers = []"
  by (simp add: demo_timers_def demo_sched_def)

theorem run_timers_refines_witness:
  "\<exists>s' qs js. run_timers demo_run demo_timers = Inr s' \<and> timers_wf s' qs \<and> length js \<le> 1 \<and>
     pending s' qs = insert_all js [(3, Some 8)] \<and> map fst (port_out s') = [7]"
proof -
  have "all_later (pending demo_timers [0, 1])" unfolding demo_timers_pending(2) by (simp add: all_later_def)
  moreover have "due (tick (pending demo_timers [0, 1])) = [(0, Some 7)]"
    "not_due (tick (pending demo_timers [0, 1])) = [(3, Some 8)]"
    unfolding demo_timers_pending(2) by (simp_all add: tick_def due_def not_due_def)
  ultimately obtain s' qs js where "run_timers demo_run demo_timers = Inr s'" "timers_wf s' qs" "length js \<le> 1"
    "(map fst \<circ> port_out) s' = (map fst \<circ> port_out) demo_timers @ [7]" "pending s' qs = insert_all js [(3, Some 8)]"
    using run_timers_refines [OF demo_run_starts demo_timers_pending(1)] by auto
  then show ?thesis by (intro exI [of _ s'] exI [of _ qs] exI [of _ js]) (simp add: demo_timers_port)
qed

end
