(* ===== verification/Floppy.thy ===== *)
theory Floppy
  imports Hd Timers
begin

text \<open>
  The floppy driver, \<open>kernel/blk_drv/floppy.c\<close>.  The controller and the DMA chip are behind the
  ports; the bytes a transfer moves arrive between two steps of the driver.  The routines call
  each other through \<open>do_fd_request\<close>, which is their parameter \<open>again\<close> and at the end takes fuel.
  The motor and the timers are those of \<open>kernel/sched.c\<close>; \<open>buf_addr\<close> is where the data of a buffer
  lies in memory.
\<close>

section \<open>State\<close>

abbreviation (input) FD_STATUS :: nat where "FD_STATUS \<equiv> 0x3f4"
abbreviation (input) FD_DATA :: nat where "FD_DATA \<equiv> 0x3f5"
abbreviation (input) FD_DIR :: nat where "FD_DIR \<equiv> 0x3f7"
abbreviation (input) FD_DCR :: nat where "FD_DCR \<equiv> 0x3f7"
abbreviation (input) FD_RECALIBRATE :: u8 where "FD_RECALIBRATE \<equiv> 0x07"
abbreviation (input) FD_SEEK :: u8 where "FD_SEEK \<equiv> 0x0F"
abbreviation (input) FD_READ :: u8 where "FD_READ \<equiv> 0xE6"
abbreviation (input) FD_WRITE :: u8 where "FD_WRITE \<equiv> 0xC5"
abbreviation (input) FD_SENSEI :: u8 where "FD_SENSEI \<equiv> 0x08"
abbreviation (input) FD_SPECIFY :: u8 where "FD_SPECIFY \<equiv> 0x03"
abbreviation (input) DMA_READ :: u8 where "DMA_READ \<equiv> 0x46"
abbreviation (input) DMA_WRITE :: u8 where "DMA_WRITE \<equiv> 0x4A"

record floppy_struct =
  fs_size :: u32
  fs_sect :: u32
  fs_head :: u32
  fs_track :: u32
  fs_stretch :: u32
  fs_gap :: u8
  fs_rate :: u8
  fs_spec1 :: u8

definition floppy_type :: "floppy_struct list" where
  "floppy_type = map (\<lambda>(sz, sect, head, track, stretch, gap, rate, spec1).
       \<lparr>fs_size = sz, fs_sect = sect, fs_head = head, fs_track = track, fs_stretch = stretch, fs_gap = gap, fs_rate = rate,
        fs_spec1 = spec1\<rparr>)
     [(0, 0, 0, 0, 0, 0x00, 0x00, 0x00),
      (720, 9, 2, 40, 0, 0x2A, 0x02, 0xDF),
      (2400, 15, 2, 80, 0, 0x1B, 0x00, 0xDF),
      (720, 9, 2, 40, 1, 0x2A, 0x02, 0xDF),
      (1440, 9, 2, 80, 0, 0x2A, 0x02, 0xDF),
      (720, 9, 2, 40, 1, 0x23, 0x01, 0xDF),
      (1440, 9, 2, 80, 0, 0x23, 0x01, 0xDF),
      (2880, 18, 2, 80, 0, 0x1B, 0x00, 0xCF)]"

datatype fd_intr = Rw_interrupt | Seek_interrupt | Recal_interrupt | Reset_interrupt

record 'c fdw =
  f_bw :: bufw
  f_ctl :: 'c
  fd_recalibrate :: bool
  fd_reset :: bool
  seek :: bool
  reply_buffer :: "nat \<Rightarrow> u8"
  cur_spec1 :: int
  cur_rate :: int
  floppy :: nat
  current_drive :: u8
  fd_sector :: u8
  fd_head :: u8
  fd_track :: u8
  seek_track :: u8
  current_track :: u8
  fd_command :: u8
  wait_on_floppy_select :: "nat option"
  do_floppy :: "fd_intr option"
  tmp_floppy_area :: block
  tmp_addr :: u32
  buf_addr :: "nat \<Rightarrow> u32"
  fd_gate :: bool

definition fd_inb :: "'c ports \<Rightarrow> nat \<Rightarrow> 'c fdw \<Rightarrow> u8 \<times> 'c fdw" where
  "fd_inb io port s = (let (v, c) = p_inb io port (f_ctl s) in (v, s\<lparr>f_ctl := c\<rparr>))"

definition fd_outb :: "'c ports \<Rightarrow> u8 \<Rightarrow> nat \<Rightarrow> 'c fdw \<Rightarrow> 'c fdw" where
  "fd_outb io v port s = s\<lparr>f_ctl := p_outb io v port (f_ctl s)\<rparr>"

definition fd_sched :: "'c fdw \<Rightarrow> sched" where
  "fd_sched s = bw_sched (f_bw s)"

definition set_fd_sched :: "sched \<Rightarrow> 'c fdw \<Rightarrow> 'c fdw" where
  "set_fd_sched sc s = s\<lparr>f_bw := (f_bw s)\<lparr>bw_sched := sc\<rparr>\<rparr>"

definition fd_current :: "'c fdw \<Rightarrow> (nat \<times> request) kres" where
  "fd_current s = (case CURRENT 2 (f_bw s) of None \<Rightarrow> Inl Fault | Some c \<Rightarrow> Inr (c, request (f_bw s) c))"

definition the_type :: "'c fdw \<Rightarrow> floppy_struct" where
  "the_type s = floppy_type ! floppy s"

section \<open>Selecting a drive\<close>

definition floppy_deselect :: "'c fdw \<Rightarrow> 'c fdw" where
  "floppy_deselect s =
     (let (p, sc) = wake_up (wait_on_floppy_select s) ((fd_sched s)\<lparr>selected := 0\<rparr>)
      in set_fd_sched sc (s\<lparr>wait_on_floppy_select := p\<rparr>))"

text \<open>\<open>slp\<close> is \<open>interruptible_sleep_on\<close>, with what the other tasks do in the meantime.\<close>

primrec select_wait :: "nat \<Rightarrow> ('c fdw \<Rightarrow> 'c fdw) \<Rightarrow> nat \<Rightarrow> 'c fdw \<Rightarrow> 'c fdw kres" where
  "select_wait 0 slp nr s = Inl Hang"
| "select_wait (Suc f) slp nr s =
     (if unat (current_DOR (fd_sched s) AND 3) \<noteq> nr \<and> selected (fd_sched s) \<noteq> 0 then select_wait f slp nr (slp s) else Inr s)"

primrec floppy_change ::
  "nat \<Rightarrow> 'c ports \<Rightarrow> (sched \<Rightarrow> sched) \<Rightarrow> ('c fdw \<Rightarrow> 'c fdw) \<Rightarrow> nat \<Rightarrow> 'c fdw \<Rightarrow> (int \<times> 'c fdw) kres" where
  "floppy_change 0 io env slp nr s = Inl Hang"
| "floppy_change (Suc f) io env slp nr s =
     bindE (floppy_on env nr (fd_sched s)) (\<lambda>sc.
     bindE (select_wait f slp nr (set_fd_sched sc s)) (\<lambda>s.
       if unat (current_DOR (fd_sched s) AND 3) \<noteq> nr then floppy_change f io env slp nr s
       else
         let (v, s) = fd_inb io FD_DIR s
         in bindE (floppy_off nr (fd_sched s)) (\<lambda>sc.
              Inr (if v AND 0x80 \<noteq> 0 then 1 else 0, set_fd_sched sc s))))"

section \<open>The controller\<close>

definition copy_in :: "block \<Rightarrow> nat \<Rightarrow> block \<Rightarrow> block" where
  "copy_in from k to = (\<lambda>j. if k \<le> j \<and> j < k + 1024 then from (j - k) else to j)"

definition setup_DMA :: "'c ports \<Rightarrow> 'c fdw \<Rightarrow> 'c fdw kres" where
  "setup_DMA io s =
     bindE (fd_current s) (\<lambda>(c, rqs).
       let addr = buf_addr s (r_buffer rqs) + of_nat (r_offset rqs);
           far = (0x100000 \<le> sint addr);
           s = (if far \<and> fd_command s = FD_WRITE
                then s\<lparr>tmp_floppy_area := (\<lambda>k. if k < 1024 then b_data (bhs (f_bw s) (r_buffer rqs)) (r_offset rqs + k)
                                                else tmp_floppy_area s k)\<rparr>
                else s);
           addr = (if far then tmp_addr s else addr);
           mode = (if fd_command s = FD_READ then DMA_READ else DMA_WRITE)
       in Inr (fold (\<lambda>(v, p). fd_outb io v p)
            [(6, 10), (mode, 12), (mode, 11), (ucast addr, 4), (ucast (drop_bit 8 addr), 4), (ucast (drop_bit 16 addr), 0x81),
             (0xff, 5), (3, 5), (2, 10)] s))"

primrec output_loop :: "nat \<Rightarrow> 'c ports \<Rightarrow> u8 \<Rightarrow> 'c fdw \<Rightarrow> 'c fdw" where
  "output_loop 0 io byte s = s\<lparr>fd_reset := True\<rparr>"
| "output_loop (Suc n) io byte s =
     (let (v, s) = fd_inb io FD_STATUS s in if v AND 0xC0 = 0x80 then fd_outb io byte FD_DATA s else output_loop n io byte s)"

definition output_byte :: "'c ports \<Rightarrow> u8 \<Rightarrow> 'c fdw \<Rightarrow> 'c fdw" where
  "output_byte io byte s = (if fd_reset s then s else output_loop 10000 io byte s)"

text \<open>The number of bytes the controller answered with, or \<open>-1\<close>.\<close>

primrec result_loop :: "nat \<Rightarrow> 'c ports \<Rightarrow> nat \<Rightarrow> 'c fdw \<Rightarrow> int \<times> 'c fdw" where
  "result_loop 0 io i s = (- 1, s\<lparr>fd_reset := True\<rparr>)"
| "result_loop (Suc n) io i s =
     (let (status, s) = fd_inb io FD_STATUS s; status = status AND 0xD0
      in if status = 0x80 then (int i, s)
         else if status = 0xD0
         then if 7 \<le> i then (- 1, s\<lparr>fd_reset := True\<rparr>)
              else let (v, s) = fd_inb io FD_DATA s in result_loop n io (Suc i) (s\<lparr>reply_buffer := (reply_buffer s)(i := v)\<rparr>)
         else result_loop n io i s)"

definition fd_result :: "'c ports \<Rightarrow> 'c fdw \<Rightarrow> int \<times> 'c fdw" where
  "fd_result io s = (if fd_reset s then (- 1, s) else result_loop 10000 io 0 s)"

section \<open>Requests and interrupts\<close>

text \<open>\<open>end_request\<close> of \<open>blk.h\<close> with the floppy's \<open>DEVICE_OFF\<close>.\<close>

definition fd_end_request :: "bool \<Rightarrow> 'c fdw \<Rightarrow> 'c fdw kres" where
  "fd_end_request uptodate s =
     bindE (fd_current s) (\<lambda>(c, rqs).
     bindE (floppy_off (nat (r_dev rqs AND 3)) (fd_sched s)) (\<lambda>sc.
     bindE (end_request 2 uptodate (f_bw (set_fd_sched sc s))) (\<lambda>b. Inr (s\<lparr>f_bw := b\<rparr>))))"

definition bad_flp_intr :: "'c fdw \<Rightarrow> 'c fdw kres" where
  "bad_flp_intr s =
     bindE (fd_current s) (\<lambda>(c, rqs).
     let s = s\<lparr>f_bw := upd_req c (\<lambda>r. r\<lparr>r_errors := r_errors r + 1\<rparr>) (f_bw s)\<rparr>
     in bindE (if 8 < r_errors rqs + 1 then fd_end_request False (floppy_deselect s) else Inr s) (\<lambda>s.
        bindE (fd_current s) (\<lambda>(c, rqs).
          Inr (if 4 < r_errors rqs then s\<lparr>fd_reset := True\<rparr> else s\<lparr>fd_recalibrate := True\<rparr>))))"

definition drive_byte :: "'c fdw \<Rightarrow> u8" where
  "drive_byte s = push_bit 2 (fd_head s) OR current_drive s"

definition rw_interrupt :: "'c ports \<Rightarrow> ('c fdw \<Rightarrow> 'c fdw kres) \<Rightarrow> 'c fdw \<Rightarrow> 'c fdw kres" where
  "rw_interrupt io again s =
     (let (r, s) = fd_result io s; st = reply_buffer s
      in if r \<noteq> 7 \<or> st 0 AND 0xf8 \<noteq> 0 \<or> st 1 AND 0xbf \<noteq> 0 \<or> st 2 AND 0x73 \<noteq> 0
         then bindE (if st 1 AND 2 \<noteq> 0 then fd_end_request False (floppy_deselect s) else bad_flp_intr s) again
         else bindE (fd_current s) (\<lambda>(c, rqs).
           let s = (if fd_command s = FD_READ \<and> 0x100000 \<le> buf_addr s (r_buffer rqs) + of_nat (r_offset rqs)
                    then s\<lparr>f_bw := upd_bh (r_buffer rqs)
                             (\<lambda>h. h\<lparr>b_data := copy_in (tmp_floppy_area s) (r_offset rqs) (b_data h)\<rparr>) (f_bw s)\<rparr>
                    else s)
           in bindE (fd_end_request True (floppy_deselect s)) again))"

definition setup_rw_floppy :: "'c ports \<Rightarrow> ('c fdw \<Rightarrow> 'c fdw kres) \<Rightarrow> 'c fdw \<Rightarrow> 'c fdw kres" where
  "setup_rw_floppy io again s =
     bindE (setup_DMA io s) (\<lambda>s.
       let s = s\<lparr>do_floppy := Some Rw_interrupt\<rparr>;
           s = fold (output_byte io)
             [fd_command s, drive_byte s, fd_track s, fd_head s, fd_sector s, 2, ucast (fs_sect (the_type s)), fs_gap (the_type s), 0xFF] s
       in if fd_reset s then again s else Inr s)"

definition seek_interrupt :: "'c ports \<Rightarrow> ('c fdw \<Rightarrow> 'c fdw kres) \<Rightarrow> 'c fdw \<Rightarrow> 'c fdw kres" where
  "seek_interrupt io again s =
     (let (r, s) = fd_result io (output_byte io FD_SENSEI s); st = reply_buffer s
      in if r \<noteq> 2 \<or> st 0 AND 0xF8 \<noteq> 0x20 \<or> st 1 \<noteq> seek_track s then bindE (bad_flp_intr s) again
         else setup_rw_floppy io again (s\<lparr>current_track := st 1\<rparr>))"

definition transfer :: "'c ports \<Rightarrow> ('c fdw \<Rightarrow> 'c fdw kres) \<Rightarrow> 'c fdw \<Rightarrow> 'c fdw kres" where
  "transfer io again s =
     (let t = the_type s;
          s = (if cur_spec1 s \<noteq> uint (fs_spec1 t)
               then fold (output_byte io) [FD_SPECIFY, fs_spec1 t, 6] (s\<lparr>cur_spec1 := uint (fs_spec1 t)\<rparr>) else s);
          s = (if cur_rate s \<noteq> uint (fs_rate t) then fd_outb io (fs_rate t) FD_DCR (s\<lparr>cur_rate := uint (fs_rate t)\<rparr>) else s)
      in if fd_reset s then again s
         else if \<not> seek s then setup_rw_floppy io again s
         else
           let s = s\<lparr>do_floppy := Some Seek_interrupt\<rparr>;
               s = (if seek_track s \<noteq> 0 then fold (output_byte io) [FD_SEEK, drive_byte s, seek_track s] s
                    else fold (output_byte io) [FD_RECALIBRATE, drive_byte s] s)
           in if fd_reset s then again s else Inr s)"

definition recal_interrupt :: "'c ports \<Rightarrow> ('c fdw \<Rightarrow> 'c fdw kres) \<Rightarrow> 'c fdw \<Rightarrow> 'c fdw kres" where
  "recal_interrupt io again s =
     (let (r, s) = fd_result io (output_byte io FD_SENSEI s)
      in again (if r \<noteq> 2 \<or> reply_buffer s 0 AND 0xE0 = 0x60 then s\<lparr>fd_reset := True\<rparr> else s\<lparr>fd_recalibrate := False\<rparr>))"

definition unexpected_floppy_interrupt :: "'c ports \<Rightarrow> 'c fdw \<Rightarrow> 'c fdw" where
  "unexpected_floppy_interrupt io s =
     (let (r, s) = fd_result io (output_byte io FD_SENSEI s)
      in if r \<noteq> 2 \<or> reply_buffer s 0 AND 0xE0 = 0x60 then s\<lparr>fd_reset := True\<rparr> else s\<lparr>fd_recalibrate := True\<rparr>)"

definition recalibrate_floppy :: "'c ports \<Rightarrow> ('c fdw \<Rightarrow> 'c fdw kres) \<Rightarrow> 'c fdw \<Rightarrow> 'c fdw kres" where
  "recalibrate_floppy io again s =
     (let s = s\<lparr>fd_recalibrate := False, current_track := 0, do_floppy := Some Recal_interrupt\<rparr>;
          s = fold (output_byte io) [FD_RECALIBRATE, drive_byte s] s
      in if fd_reset s then again s else Inr s)"

definition reset_interrupt :: "'c ports \<Rightarrow> ('c fdw \<Rightarrow> 'c fdw kres) \<Rightarrow> 'c fdw \<Rightarrow> 'c fdw kres" where
  "reset_interrupt io again s =
     (let (_, s) = fd_result io (output_byte io FD_SENSEI s)
      in again (fold (output_byte io) [FD_SPECIFY, word_of_int (cur_spec1 s), 6] s))"

definition reset_floppy :: "'c ports \<Rightarrow> 'c fdw \<Rightarrow> 'c fdw" where
  "reset_floppy io s =
     (let s = s\<lparr>fd_reset := False, cur_spec1 := - 1, cur_rate := - 1, fd_recalibrate := True, do_floppy := Some Reset_interrupt\<rparr>
      in fd_outb io (current_DOR (fd_sched s)) FD_DOR (fd_outb io (current_DOR (fd_sched s) AND NOT 4) FD_DOR s))"

text \<open>A timer that is due at once runs its function; the numbers 1 and 2 name the two functions.\<close>

definition fd_add_timer :: "int \<Rightarrow> nat \<Rightarrow> ('c fdw \<Rightarrow> 'c fdw kres) \<Rightarrow> 'c fdw \<Rightarrow> 'c fdw kres" where
  "fd_add_timer j fn run s =
     (if j \<le> 0 then run s
      else bindE (add_timer (\<lambda>_. Inr) j (Some fn) (fd_sched s)) (\<lambda>sc. Inr (set_fd_sched sc s)))"

definition floppy_on_interrupt :: "'c ports \<Rightarrow> ('c fdw \<Rightarrow> 'c fdw kres) \<Rightarrow> 'c fdw \<Rightarrow> 'c fdw kres" where
  "floppy_on_interrupt io again s =
     (let s = set_fd_sched ((fd_sched s)\<lparr>selected := 1\<rparr>) s
      in if current_drive s \<noteq> current_DOR (fd_sched s) AND 3
         then
           let dor = (current_DOR (fd_sched s) AND 0xFC) OR current_drive s;
               s = fd_outb io dor FD_DOR (set_fd_sched ((fd_sched s)\<lparr>current_DOR := dor\<rparr>) s)
           in fd_add_timer 2 2 (transfer io again) s
         else transfer io again s)"

text \<open>From the label \<open>repeat\<close>: the first request within the size of its diskette.\<close>

primrec fd_next :: "nat \<Rightarrow> 'c fdw \<Rightarrow> (request option \<times> 'c fdw) kres" where
  "fd_next 0 s = Inl Hang"
| "fd_next (Suc n) s =
     bindE (INIT_REQUEST 2 ''floppy'' (f_bw s)) (\<lambda>r.
       case r of
         None \<Rightarrow> Inr (None, s)
       | Some c \<Rightarrow>
           let rqs = request (f_bw s) c;
               t = nat (MINOR (r_dev rqs)) div 4;
               drive = word_of_int (r_dev rqs AND 3);
               s = s\<lparr>floppy := t, seek := seek s \<or> current_drive s \<noteq> drive, current_drive := drive\<rparr>
           in if length floppy_type \<le> t then Inl Fault
              else if fs_size (the_type s) < r_sector rqs + 2 then bindE (fd_end_request False s) (fd_next n)
              else Inr (Some rqs, s))"

definition fd_address :: "u32 \<Rightarrow> 'c fdw \<Rightarrow> 'c fdw" where
  "fd_address block s =
     (let t = the_type s;
          block' = block div fs_sect t;
          trk = ucast (block' div fs_head t) :: u8;
          skt = push_bit (unat (fs_stretch t)) trk
      in s\<lparr>fd_sector := ucast (block mod fs_sect t) + 1, fd_head := ucast (block' mod fs_head t), fd_track := trk,
           seek_track := skt, seek := seek s \<or> skt \<noteq> current_track s\<rparr>)"

primrec do_fd_request :: "nat \<Rightarrow> 'c ports \<Rightarrow> 'c fdw \<Rightarrow> 'c fdw kres" where
  "do_fd_request 0 io s = Inl Hang"
| "do_fd_request (Suc n) io s =
     (let s = s\<lparr>seek := False\<rparr>
      in if fd_reset s then Inr (reset_floppy io s)
         else if fd_recalibrate s then recalibrate_floppy io (do_fd_request n io) s
         else bindE (fd_next (Suc NR_REQUEST) s) (\<lambda>(r, s).
           case r of
             None \<Rightarrow> Inr s
           | Some rqs \<Rightarrow>
               let s = fd_address (r_sector rqs) s
               in if r_cmd rqs \<noteq> READ \<and> r_cmd rqs \<noteq> WRITE then Inl (Panic ''do_fd_request: unknown command'')
                  else
                    let s = s\<lparr>fd_command := (if r_cmd rqs = READ then FD_READ else FD_WRITE)\<rparr>
                    in bindE (ticks_to_floppy_on (unat (current_drive s)) (fd_sched s)) (\<lambda>(j, sc).
                         fd_add_timer j 1 (floppy_on_interrupt io (do_fd_request n io)) (set_fd_sched sc s))))"

definition floppy_interrupt :: "'c ports \<Rightarrow> ('c fdw \<Rightarrow> 'c fdw kres) \<Rightarrow> 'c fdw \<Rightarrow> 'c fdw kres" where
  "floppy_interrupt io again s =
     (let s' = s\<lparr>do_floppy := None\<rparr>
      in case do_floppy s of
           None \<Rightarrow> Inr (unexpected_floppy_interrupt io s')
         | Some Rw_interrupt \<Rightarrow> rw_interrupt io again s'
         | Some Seek_interrupt \<Rightarrow> seek_interrupt io again s'
         | Some Recal_interrupt \<Rightarrow> recal_interrupt io again s'
         | Some Reset_interrupt \<Rightarrow> reset_interrupt io again s')"

definition floppy_init :: "'c ports \<Rightarrow> 'c fdw \<Rightarrow> 'c fdw" where
  "floppy_init io s =
     (let b = f_bw s;
          s = s\<lparr>f_bw := b\<lparr>blk_dev := (blk_dev b)(2 := (blk_dev b 2)\<lparr>request_fn := Some Do_fd_request\<rparr>)\<rparr>, fd_gate := True\<rparr>;
          (v, s) = fd_inb io 0x21 s
      in fd_outb io (v AND NOT 0x40) 0x21 s)"

section \<open>The timer of a drive that changes\<close>

text \<open>
  When another drive is selected, \<open>floppy_on_interrupt\<close> starts \<open>transfer\<close>, function 2, in two ticks and
  does nothing else to the timers: it is a function as \<open>starts_timers\<close> describes them.
\<close>

lemma floppy_on_interrupt_starts:
  assumes wf: "timers_wf (fd_sched s) ps" and len: "length ps < TIME_REQUESTS"
    and drive: "current_drive s \<noteq> current_DOR (fd_sched s) AND 3"
  shows "\<exists>s' p. floppy_on_interrupt io again s = Inr s' \<and> timers_wf (fd_sched s') (p # ps) \<and>
    pending (fd_sched s') (p # ps) = insert_all [(2, 2)] (pending (fd_sched s) ps)"
proof -
  obtain x where x: "floppy_on_interrupt io again s = fd_add_timer 2 2 (transfer io again) x"
    "timer_list (fd_sched x) = timer_list (fd_sched s)" "next_timer (fd_sched x) = next_timer (fd_sched s)"
    using drive by (auto simp: floppy_on_interrupt_def Let_def fd_sched_def set_fd_sched_def fd_outb_def)
  then have wf': "timers_wf (fd_sched x) ps" "pending (fd_sched x) ps = pending (fd_sched s) ps"
    using wf by (simp_all add: timers_wf_def pending_def)
  obtain sc p where "add_timer (\<lambda>_. Inr) 2 (Some 2) (fd_sched x) = Inr sc" "timers_wf sc (p # ps)"
    "pending sc (p # ps) = insert_delta 2 (Some 2) (pending (fd_sched x) ps)"
    using add_timer_spec [OF wf'(1) _ len, of 2 "\<lambda>_. Inr" 2] by auto
  then show ?thesis using x(1) wf'(2)
    by (intro exI [of _ "set_fd_sched sc x"] exI [of _ p])
      (simp add: fd_add_timer_def insert_all_def fd_sched_def set_fd_sched_def)
qed

section \<open>Addresses on a diskette\<close>

lemma unat_ucast_u8: "unat w < 256 \<Longrightarrow> unat (ucast (w :: u32) :: u8) = unat w"
  by (simp add: unsigned_ucast_eq take_bit_nat_eq_self_iff)

text \<open>What the entries of the table have in common, the first left out.\<close>

lemma floppy_type_shape:
  assumes "1 \<le> k" "k < length floppy_type" "t = floppy_type ! k"
  shows "fs_head t = 2 \<and> 0 < unat (fs_sect t) \<and> unat (fs_sect t) \<le> 18 \<and> unat (fs_track t) \<le> 80 \<and>
    unat (fs_size t) = unat (fs_track t) * 2 * unat (fs_sect t) \<and> (fs_stretch t = 0 \<or> fs_stretch t = 1 \<and> unat (fs_track t) \<le> 40)"
proof -
  have "k < 8" using assms(2) by (simp add: floppy_type_def)
  then have "k = 1 \<or> k = 2 \<or> k = 3 \<or> k = 4 \<or> k = 5 \<or> k = 6 \<or> k = 7" using assms(1) by auto
  then show ?thesis unfolding assms(3) by (elim disjE) (simp_all add: floppy_type_def)
qed

text \<open>
  C29: For a block within the size of a diskette the driver's one-byte variables hold its address
  without truncation: the sector counts from 1, head and track lie within the table's numbers,
  they give the block number back, and the track to seek is the track times the stretch.
\<close>

theorem fd_address_exact:
  assumes "1 \<le> floppy s" "floppy s < length floppy_type" "t = floppy_type ! floppy s"
    and "unat block + 2 \<le> unat (fs_size t)" "s' = fd_address block s"
  shows "1 \<le> unat (fd_sector s') \<and> unat (fd_sector s') \<le> unat (fs_sect t) \<and> unat (fd_head s') < 2 \<and>
    unat (fd_track s') < unat (fs_track t) \<and>
    unat block = (unat (fd_track s') * 2 + unat (fd_head s')) * unat (fs_sect t) + (unat (fd_sector s') - 1) \<and>
    unat (seek_track s') = unat (fd_track s') * 2 ^ unat (fs_stretch t)"
proof -
  let ?S = "unat (fs_sect t)" and ?b = "unat block" and ?T = "unat (fs_track t)"
  note sh = floppy_type_shape [OF assms(1-3)]
  have t: "the_type s = t" by (simp add: the_type_def assms(3))
  have m: "?b mod ?S < ?S" using sh by simp
  have q: "?b div ?S < ?T * 2"
  proof -
    have "?b < ?T * 2 * ?S" using assms(4) sh by linarith
    then show ?thesis using sh by (simp add: div_less_iff_less_mult)
  qed
  have u: "unat (block mod fs_sect t) = ?b mod ?S" "unat (block div fs_sect t mod fs_head t) = ?b div ?S mod 2"
    "unat (block div fs_sect t div fs_head t) = ?b div ?S div 2"
    using sh by (simp_all add: unat_mod unat_div)
  have l: "?b mod ?S < 18" "?b div ?S mod 2 < 2" "?b div ?S div 2 < ?T" "?T \<le> 80"
    using less_le_trans [OF m, of 18] q sh by auto
  have c: "unat (ucast (block mod fs_sect t) :: u8) = ?b mod ?S"
    "unat (ucast (block div fs_sect t mod fs_head t) :: u8) = ?b div ?S mod 2"
    "unat (ucast (block div fs_sect t div fs_head t) :: u8) = ?b div ?S div 2"
    using l unfolding u [symmetric] by (simp_all add: unat_ucast_u8)
  have sec: "unat (ucast (block mod fs_sect t) + 1 :: u8) = ?b mod ?S + 1"
    using c(1) l(1) by (simp add: unat_word_ariths)
  have trk: "unat (push_bit (unat (fs_stretch t)) (ucast (block div fs_sect t div fs_head t)) :: u8) =
      ?b div ?S div 2 * 2 ^ unat (fs_stretch t)"
  proof (cases "fs_stretch t = 0")
    case True
    then show ?thesis by (simp add: c)
  next
    case False
    then have st: "fs_stretch t = 1" "?T \<le> 40" using sh by auto
    then show ?thesis using c(3) l(3) by (simp add: push_bit_eq_mult unat_word_ariths)
  qed
  have "?b = ?b div ?S * ?S + ?b mod ?S" by (simp only: div_mult_mod_eq)
  moreover have "?b div ?S = ?b div ?S div 2 * 2 + ?b div ?S mod 2" by (simp only: div_mult_mod_eq)
  ultimately have "?b = (?b div ?S div 2 * 2 + ?b div ?S mod 2) * ?S + ?b mod ?S" by simp
  moreover have "unat (fd_sector s') = ?b mod ?S + 1" "unat (fd_head s') = ?b div ?S mod 2" "unat (fd_track s') = ?b div ?S div 2"
    "unat (seek_track s') = ?b div ?S div 2 * 2 ^ unat (fs_stretch t)"
    using sec c trk unfolding assms(5) by (simp_all add: fd_address_def t Let_def)
  ultimately show ?thesis using m l by simp
qed

definition demo_fd :: "unit fdw" where
  "demo_fd = \<lparr>f_bw = boot_buf, f_ctl = (), fd_recalibrate = False, fd_reset = False, seek = False, reply_buffer = (\<lambda>_. 0),
     cur_spec1 = - 1, cur_rate = - 1, floppy = 7, current_drive = 0, fd_sector = 0, fd_head = 0, fd_track = 0, seek_track = 0,
     current_track = 255, fd_command = 0, wait_on_floppy_select = None, do_floppy = None, tmp_floppy_area = (\<lambda>_. 0),
     tmp_addr = 0x5000, buf_addr = (\<lambda>_. 0x200000), fd_gate = True\<rparr>"

theorem fd_address_exact_witness:
  "unat (fd_sector (fd_address 100 demo_fd)) \<le> 18 \<and> unat (fd_track (fd_address 100 demo_fd)) < 80 \<and>
   unat (100 :: u32) = (unat (fd_track (fd_address 100 demo_fd)) * 2 + unat (fd_head (fd_address 100 demo_fd))) * 18 +
     (unat (fd_sector (fd_address 100 demo_fd)) - 1)"
  using fd_address_exact [of demo_fd _ 100, OF _ _ refl _ refl] by (simp add: demo_fd_def floppy_type_def)

end
