(* ===== verification/Syscall.thy ===== *)
theory Syscall
  imports Signal Exec Hd
begin

text \<open>
  The system call interface: the numbers and the \<open>_syscall\<close> macros of \<open>include/unistd.h\<close>, the
  table of \<open>include/linux/sys.h\<close>, the entry and exit path of \<open>kernel/system_call.s\<close>, and the
  library routines of \<open>lib\<close> that go through it.  The table holds the routines of the other
  theories, each applied to the registers the entry pushed.
\<close>

section \<open>State\<close>

text \<open>The registers of the caller; \<open>fr_eax\<close> is the call number first and the result later.\<close>

record sys_regs = fork_regs +
  fr_eax :: u32

text \<open>The kernel, the variables of the disk driver that \<open>sys_setup\<close> fills, and \<open>mask_display\<close>.\<close>

record 'c sysw =
  sy_kern :: kernw
  sy_hd :: "'c hdw"
  mask_display :: bool

text \<open>What the calls leave to the rest of the machine; \<open>n_sw\<close> is \<open>schedule\<close> as its caller sees it.\<close>

record 'c senv =
  n_b :: benv
  n_tty :: tty_rw
  n_pgrp :: "nat \<Rightarrow> int \<Rightarrow> bufw \<Rightarrow> bufw kres"
  n_pad :: "nat \<Rightarrow> u8"
  n_ioctl :: "u16 \<Rightarrow> u32 \<Rightarrow> u32 \<Rightarrow> bufw \<Rightarrow> (int \<times> bufw) kres"
  n_sw :: "kernw \<Rightarrow> kernw kres"
  n_ports :: "'c ports"
  n_key :: "bufw \<Rightarrow> bufw"
  n_fninit :: "i387_struct \<Rightarrow> i387_struct"
  n_img :: "u32 \<Rightarrow> u8"

text \<open>How a call ends: with a value, with a new program in its place, or with the end of the task.\<close>

datatype sysret = Ret int | Started u32 u32 | Gone

type_synonym 'c syscall = "sys_regs \<Rightarrow> 'c sysw \<Rightarrow> (sysret \<times> 'c sysw) kres"

text \<open>The routines of the other theories act on parts of this state.\<close>

definition on_kern :: "(kernw \<Rightarrow> (int \<times> kernw) kres) \<Rightarrow> 'c sysw \<Rightarrow> (sysret \<times> 'c sysw) kres" where
  "on_kern f s = bindE (f (sy_kern s)) (\<lambda>(v, k). Inr (Ret v, s\<lparr>sy_kern := k\<rparr>))"

definition on_buf :: "(bufw \<Rightarrow> (int \<times> bufw) kres) \<Rightarrow> 'c sysw \<Rightarrow> (sysret \<times> 'c sysw) kres" where
  "on_buf f = on_kern (\<lambda>k. bindE (f (kw k)) (\<lambda>(v, w). Inr (v, k\<lparr>kw := w\<rparr>)))"

definition on_sched :: "(sched \<Rightarrow> (int \<times> sched) kres) \<Rightarrow> 'c sysw \<Rightarrow> (sysret \<times> 'c sysw) kres" where
  "on_sched f = on_buf (\<lambda>w. bindE (f (bw_sched w)) (\<lambda>(v, d). Inr (v, w\<lparr>bw_sched := d\<rparr>)))"

definition ask :: "(sched \<Rightarrow> int kres) \<Rightarrow> 'c sysw \<Rightarrow> (sysret \<times> 'c sysw) kres" where
  "ask f = on_sched (\<lambda>d. bindE (f d) (\<lambda>v. Inr (v, d)))"

definition const_ret :: "int \<Rightarrow> 'c sysw \<Rightarrow> (sysret \<times> 'c sysw) kres" where
  "const_ret v s = Inr (Ret v, s)"

section \<open>The entries that are not one routine of the kernel\<close>

definition call_setup :: "'c senv \<Rightarrow> 'c syscall" where
  "call_setup E r s =
     bindE (sys_setup (n_ports E) (n_b E) (n_key E) (fr_ebx r) ((sy_hd s)\<lparr>h_bw := kw (sy_kern s)\<rparr>)) (\<lambda>(v, h).
       Inr (Ret v, s\<lparr>sy_hd := h, sy_kern := (sy_kern s)\<lparr>kw := h_bw h\<rparr>\<rparr>))"

definition call_exit :: "'c senv \<Rightarrow> 'c syscall" where
  "call_exit E r s =
     bindE (sys_exit (n_b E) (n_pgrp E) (fr_ebx r) (sy_kern s)) (\<lambda>k. Inr (Gone, s\<lparr>sy_kern := k\<rparr>))"

definition sys_fork :: "'c senv \<Rightarrow> 'c syscall" where
  "sys_fork E r = on_kern (\<lambda>k.
     bindE (find_empty_process k) (\<lambda>(n, k).
       if n < 0 then Inr (n, k) else copy_process (n_fninit E) (nat n) (fork_regs.truncate r) k))"

definition sys_execve :: "'c senv \<Rightarrow> 'c syscall" where
  "sys_execve E r s =
     bindE (do_execve (n_b E) (n_img E) (fr_cs r) (fr_ebx r) (fr_ecx r) (fr_edx r) (kw (sy_kern s))) (\<lambda>((v, go), w).
       let s = s\<lparr>sy_kern := (sy_kern s)\<lparr>kw := w\<rparr>\<rparr>
       in Inr (case go of None \<Rightarrow> Ret v | Some (eip, esp) \<Rightarrow> Started eip esp, s))"

definition call_pause :: "'c senv \<Rightarrow> 'c syscall" where
  "call_pause E r = on_kern (\<lambda>k.
     bindE (n_sw E (kupd_curr (\<lambda>t. t\<lparr>t_state := TASK_INTERRUPTIBLE\<rparr>) k)) (\<lambda>k. Inr (0, k)))"

definition call_write :: "'c senv \<Rightarrow> 'c syscall" where
  "call_write E r s =
     on_buf (sys_write (n_b E) (n_tty E) (mask_display s) (unat (fr_ebx r)) (fr_ecx r) (sint (fr_edx r))) s"

text \<open>\<open>show_stat\<close> walks over the kernel stacks of the tasks, which prints nothing any more, and flips the mask.\<close>

definition show_stat :: "'c sysw \<Rightarrow> 'c sysw" where
  "show_stat s = s\<lparr>mask_display := \<not> mask_display s\<rparr>"

section \<open>The table\<close>

abbreviation (input) nr_system_calls :: nat where "nr_system_calls \<equiv> 72"

definition sys_call_table :: "'c senv \<Rightarrow> (string \<times> 'c syscall) list" where
  "sys_call_table E =
     (let e = n_b E; pg = n_pgrp E in
     [(''sys_setup'', call_setup E),
      (''sys_exit'', call_exit E),
      (''sys_fork'', sys_fork E),
      (''sys_read'', \<lambda>r. on_buf (sys_read e (n_tty E) (unat (fr_ebx r)) (fr_ecx r) (sint (fr_edx r)))),
      (''sys_write'', call_write E),
      (''sys_open'', \<lambda>r. on_buf (sys_open e pg (fr_ebx r) (fr_ecx r) (ucast (fr_edx r)))),
      (''sys_close'', \<lambda>r. on_buf (sys_close e (unat (fr_ebx r)))),
      (''sys_waitpid'', \<lambda>r. on_kern (sys_waitpid e (n_sw E) (sint (fr_ebx r)) (fr_ecx r) (fr_edx r))),
      (''sys_creat'', \<lambda>r. on_buf (sys_creat e pg (fr_ebx r) (ucast (fr_ecx r)))),
      (''sys_link'', \<lambda>r. on_buf (sys_link e (fr_ebx r) (fr_ecx r))),
      (''sys_unlink'', \<lambda>r. on_buf (sys_unlink e (fr_ebx r))),
      (''sys_execve'', sys_execve E),
      (''sys_chdir'', \<lambda>r. on_buf (sys_chdir e (fr_ebx r))),
      (''sys_time'', \<lambda>r. on_buf (sys_time (fr_ebx r))),
      (''sys_mknod'', \<lambda>r. on_buf (sys_mknod e (fr_ebx r) (ucast (fr_ecx r)) (ucast (fr_edx r)))),
      (''sys_chmod'', \<lambda>r. on_buf (sys_chmod e (fr_ebx r) (fr_ecx r))),
      (''sys_chown'', \<lambda>r. on_buf (sys_chown e (fr_ebx r) (fr_ecx r) (fr_edx r))),
      (''sys_break'', \<lambda>r. const_ret sys_break),
      (''sys_stat'', \<lambda>r. on_buf (sys_stat e (n_pad E) (fr_ebx r) (fr_ecx r))),
      (''sys_lseek'', \<lambda>r. on_buf (Inr \<circ> sys_lseek (unat (fr_ebx r)) (sint (fr_ecx r)) (sint (fr_edx r)))),
      (''sys_getpid'', \<lambda>r. ask sys_getpid),
      (''sys_mount'', \<lambda>r. on_buf (sys_mount e (fr_ebx r) (fr_ecx r))),
      (''sys_umount'', \<lambda>r. on_buf (sys_umount e (fr_ebx r))),
      (''sys_setuid'', \<lambda>r. on_buf (Inr \<circ> sys_setuid (sint (fr_ebx r)))),
      (''sys_getuid'', \<lambda>r. ask sys_getuid),
      (''sys_stime'', \<lambda>r. on_buf (Inr \<circ> sys_stime (fr_ebx r))),
      (''sys_ptrace'', \<lambda>r. const_ret sys_ptrace),
      (''sys_alarm'', \<lambda>r. on_sched (sys_alarm (sint (fr_ebx r)))),
      (''sys_fstat'', \<lambda>r. on_buf (sys_fstat (n_pad E) (unat (fr_ebx r)) (fr_ecx r))),
      (''sys_pause'', call_pause E),
      (''sys_utime'', \<lambda>r. on_buf (sys_utime e (fr_ebx r) (fr_ecx r))),
      (''sys_stty'', \<lambda>r. const_ret sys_stty),
      (''sys_gtty'', \<lambda>r. const_ret sys_gtty),
      (''sys_access'', \<lambda>r. on_buf (sys_access e (fr_ebx r) (fr_ecx r))),
      (''sys_nice'', \<lambda>r. on_sched (sys_nice (sint (fr_ebx r)))),
      (''sys_ftime'', \<lambda>r. const_ret sys_ftime),
      (''sys_sync'', \<lambda>r. on_buf (sys_sync e)),
      (''sys_kill'', \<lambda>r. on_kern (Inr \<circ> sys_kill (sint (fr_ebx r)) (sint (fr_ecx r)))),
      (''sys_rename'', \<lambda>r. const_ret sys_rename),
      (''sys_mkdir'', \<lambda>r. on_buf (sys_mkdir e (fr_ebx r) (ucast (fr_ecx r)))),
      (''sys_rmdir'', \<lambda>r. on_buf (sys_rmdir e (fr_ebx r))),
      (''sys_dup'', \<lambda>r. on_buf (Inr \<circ> sys_dup (unat (fr_ebx r)))),
      (''sys_pipe'', \<lambda>r. on_buf (sys_pipe e (fr_ebx r))),
      (''sys_times'', \<lambda>r. on_buf (sys_times (fr_ebx r))),
      (''sys_prof'', \<lambda>r. const_ret sys_prof),
      (''sys_brk'', \<lambda>r. on_buf (\<lambda>w. case sys_brk (fr_ebx r) w of (v, w) \<Rightarrow> Inr (sint v, w))),
      (''sys_setgid'', \<lambda>r. on_buf (Inr \<circ> sys_setgid (sint (fr_ebx r)))),
      (''sys_getgid'', \<lambda>r. ask sys_getgid),
      (''sys_signal'', \<lambda>r. on_buf (Inr \<circ> sys_signal (sint (fr_ebx r)) (fr_ecx r) (fr_edx r))),
      (''sys_geteuid'', \<lambda>r. ask sys_geteuid),
      (''sys_getegid'', \<lambda>r. ask sys_getegid),
      (''sys_acct'', \<lambda>r. const_ret sys_acct),
      (''sys_phys'', \<lambda>r. const_ret sys_phys),
      (''sys_lock'', \<lambda>r. const_ret sys_lock),
      (''sys_ioctl'', \<lambda>r. on_buf (sys_ioctl (n_ioctl E) (unat (fr_ebx r)) (fr_ecx r) (fr_edx r))),
      (''sys_fcntl'', \<lambda>r. on_buf (Inr \<circ> sys_fcntl (unat (fr_ebx r)) (unat (fr_ecx r)) (fr_edx r))),
      (''sys_mpx'', \<lambda>r. const_ret sys_mpx),
      (''sys_setpgid'', \<lambda>r. on_buf (Inr \<circ> sys_setpgid (sint (fr_ebx r)) (sint (fr_ecx r)))),
      (''sys_ulimit'', \<lambda>r. const_ret sys_ulimit),
      (''sys_uname'', \<lambda>r. on_buf (sys_uname (fr_ebx r))),
      (''sys_umask'', \<lambda>r. on_buf (Inr \<circ> sys_umask (fr_ebx r))),
      (''sys_chroot'', \<lambda>r. on_buf (sys_chroot e (fr_ebx r))),
      (''sys_ustat'', \<lambda>r. const_ret sys_ustat),
      (''sys_dup2'', \<lambda>r. on_buf (sys_dup2 e (unat (fr_ebx r)) (unat (fr_ecx r)))),
      (''sys_getppid'', \<lambda>r. ask sys_getppid),
      (''sys_getpgrp'', \<lambda>r. on_buf (\<lambda>w. Inr (sys_getpgrp w, w))),
      (''sys_setsid'', \<lambda>r. on_buf (Inr \<circ> sys_setsid)),
      (''sys_sigaction'', \<lambda>r. on_buf (sys_sigaction (sint (fr_ebx r)) (fr_ecx r) (fr_edx r))),
      (''sys_sgetmask'', \<lambda>r. on_buf (\<lambda>w. Inr (sys_sgetmask w, w))),
      (''sys_ssetmask'', \<lambda>r. on_buf (Inr \<circ> sys_ssetmask (fr_ebx r))),
      (''sys_setreuid'', \<lambda>r. on_buf (Inr \<circ> sys_setreuid (sint (fr_ebx r)) (sint (fr_ecx r)))),
      (''sys_setregid'', \<lambda>r. on_buf (Inr \<circ> sys_setregid (sint (fr_ebx r)) (sint (fr_ecx r))))])"

text \<open>The numbers of \<open>unistd.h\<close>.\<close>

definition syscall_nr :: "(string \<times> nat) list" where
  "syscall_nr =
     [(''setup'', 0), (''exit'', 1), (''fork'', 2), (''read'', 3), (''write'', 4), (''open'', 5), (''close'', 6),
      (''waitpid'', 7), (''creat'', 8), (''link'', 9), (''unlink'', 10), (''execve'', 11), (''chdir'', 12),
      (''time'', 13), (''mknod'', 14), (''chmod'', 15), (''chown'', 16), (''break'', 17), (''stat'', 18),
      (''lseek'', 19), (''getpid'', 20), (''mount'', 21), (''umount'', 22), (''setuid'', 23), (''getuid'', 24),
      (''stime'', 25), (''ptrace'', 26), (''alarm'', 27), (''fstat'', 28), (''pause'', 29), (''utime'', 30),
      (''stty'', 31), (''gtty'', 32), (''access'', 33), (''nice'', 34), (''ftime'', 35), (''sync'', 36),
      (''kill'', 37), (''rename'', 38), (''mkdir'', 39), (''rmdir'', 40), (''dup'', 41), (''pipe'', 42),
      (''times'', 43), (''prof'', 44), (''brk'', 45), (''setgid'', 46), (''getgid'', 47), (''signal'', 48),
      (''geteuid'', 49), (''getegid'', 50), (''acct'', 51), (''phys'', 52), (''lock'', 53), (''ioctl'', 54),
      (''fcntl'', 55), (''mpx'', 56), (''setpgid'', 57), (''ulimit'', 58), (''uname'', 59), (''umask'', 60),
      (''chroot'', 61), (''ustat'', 62), (''dup2'', 63), (''getppid'', 64), (''getpgrp'', 65), (''setsid'', 66),
      (''sigaction'', 67), (''sgetmask'', 68), (''ssetmask'', 69), (''setreuid'', 70), (''setregid'', 71)]"

section \<open>system_call.s\<close>

definition resched :: "'c senv \<Rightarrow> 'c sysw \<Rightarrow> 'c sysw kres" where
  "resched E s =
     (if t_state (kcurr (sy_kern s)) \<noteq> 0 \<or> t_counter (kcurr (sy_kern s)) = 0
      then bindE (n_sw E (sy_kern s)) (\<lambda>k. Inr (s\<lparr>sy_kern := k\<rparr>)) else Inr s)"

text \<open>
  The way back: a signal that is not blocked, the lowest one, is taken for a task in user mode.
  The result is the registers the caller goes on with, \<open>None\<close> when the signal ended the task.
\<close>

definition ret_from_sys_call :: "'c senv \<Rightarrow> sys_regs \<Rightarrow> 'c sysw \<Rightarrow> (sys_regs option \<times> 'c sysw) kres" where
  "ret_from_sys_call E r s =
     (let k = sy_kern s
      in if me k = 0 \<or> fr_cs r AND 0xffff \<noteq> 0x0f \<or> fr_ss r AND 0xffff \<noteq> 0x17 then Inr (Some r, s)
         else case bsf (NOT (t_blocked (kcurr k)) AND t_signal (kcurr k)) of
           None \<Rightarrow> Inr (Some r, s)
         | Some n \<Rightarrow>
             let k = kupd_curr (\<lambda>t. t\<lparr>t_signal := unset_bit n (t_signal t)\<rparr>) k
             in bindE (do_signal (n_b E) (n_pgrp E) (n + 1) (fr_eax r) (fr_ecx r) (fr_edx r) (fr_eip r) (fr_eflags r)
                         (fr_esp r) k) (\<lambda>(go, k).
                  Inr (map_option (\<lambda>(eip, esp). r\<lparr>fr_eip := eip, fr_esp := esp\<rparr>) go, s\<lparr>sy_kern := k\<rparr>)))"

definition system_call :: "'c senv \<Rightarrow> sys_regs \<Rightarrow> 'c sysw \<Rightarrow> (sys_regs option \<times> 'c sysw) kres" where
  "system_call E r s =
     (if nr_system_calls \<le> unat (fr_eax r) then Inr (Some (r\<lparr>fr_eax := - 1\<rparr>), s)
      else bindE (snd (sys_call_table E ! unat (fr_eax r)) r s) (\<lambda>(res, s).
        case res of
          Ret v \<Rightarrow> bindE (resched E s) (ret_from_sys_call E (r\<lparr>fr_eax := word_of_int v\<rparr>))
        | Started eip esp \<Rightarrow>
            bindE (resched E s) (ret_from_sys_call E (r\<lparr>fr_eax := 0, fr_eip := eip, fr_esp := esp\<rparr>))
        | Gone \<Rightarrow> Inr (None, s)))"

section \<open>The library\<close>

text \<open>
  The end of the \<open>_syscall\<close> macros: the value the caller gets, and \<open>errno\<close>.  A signal handler that
  was arranged on the way back runs first; its restorer gives \<open>eax\<close> back.
\<close>

definition syscall_end :: "u32 \<Rightarrow> int \<Rightarrow> int \<times> int" where
  "syscall_end res err = (if 0 \<le> sint res then (sint res, err) else (- 1, sint (- res)))"

definition nr_of :: "string \<Rightarrow> u32" where
  "nr_of name = (case map_of syscall_nr name of None \<Rightarrow> - 1 | Some n \<Rightarrow> word_of_nat n)"

type_synonym 'c libcall = "sys_regs \<Rightarrow> int \<Rightarrow> 'c sysw \<Rightarrow> ((int \<times> int) option \<times> 'c sysw) kres"

definition syscall0 :: "'c senv \<Rightarrow> string \<Rightarrow> 'c libcall" where
  "syscall0 E name r err s =
     bindE (system_call E (r\<lparr>fr_eax := nr_of name\<rparr>) s) (\<lambda>(r, s).
       Inr (map_option (\<lambda>r. syscall_end (fr_eax r) err) r, s))"

definition syscall1 :: "'c senv \<Rightarrow> string \<Rightarrow> u32 \<Rightarrow> 'c libcall" where
  "syscall1 E name a r = syscall0 E name (r\<lparr>fr_ebx := a\<rparr>)"

definition syscall2 :: "'c senv \<Rightarrow> string \<Rightarrow> u32 \<Rightarrow> u32 \<Rightarrow> 'c libcall" where
  "syscall2 E name a b r = syscall0 E name (r\<lparr>fr_ebx := a, fr_ecx := b\<rparr>)"

definition syscall3 :: "'c senv \<Rightarrow> string \<Rightarrow> u32 \<Rightarrow> u32 \<Rightarrow> u32 \<Rightarrow> 'c libcall" where
  "syscall3 E name a b c r = syscall0 E name (r\<lparr>fr_ebx := a, fr_ecx := b, fr_edx := c\<rparr>)"

definition lib_close :: "'c senv \<Rightarrow> u32 \<Rightarrow> 'c libcall" where "lib_close E fd = syscall1 E ''close'' fd"
definition lib_dup :: "'c senv \<Rightarrow> u32 \<Rightarrow> 'c libcall" where "lib_dup E fd = syscall1 E ''dup'' fd"
definition lib_setsid :: "'c senv \<Rightarrow> 'c libcall" where "lib_setsid E = syscall0 E ''setsid''"
definition lib_fork :: "'c senv \<Rightarrow> 'c libcall" where "lib_fork E = syscall0 E ''fork''"
definition lib_pause :: "'c senv \<Rightarrow> 'c libcall" where "lib_pause E = syscall0 E ''pause''"
definition lib_sync :: "'c senv \<Rightarrow> 'c libcall" where "lib_sync E = syscall0 E ''sync''"
definition lib_setup :: "'c senv \<Rightarrow> u32 \<Rightarrow> 'c libcall" where "lib_setup E BIOS = syscall1 E ''setup'' BIOS"

definition lib_execve :: "'c senv \<Rightarrow> u32 \<Rightarrow> u32 \<Rightarrow> u32 \<Rightarrow> 'c libcall" where
  "lib_execve E file argv envp = syscall3 E ''execve'' file argv envp"

definition lib_write :: "'c senv \<Rightarrow> u32 \<Rightarrow> u32 \<Rightarrow> u32 \<Rightarrow> 'c libcall" where
  "lib_write E fd buf c = syscall3 E ''write'' fd buf c"

definition lib_waitpid :: "'c senv \<Rightarrow> u32 \<Rightarrow> u32 \<Rightarrow> u32 \<Rightarrow> 'c libcall" where
  "lib_waitpid E pid wait_stat options = syscall3 E ''waitpid'' pid wait_stat options"

definition lib_wait :: "'c senv \<Rightarrow> u32 \<Rightarrow> 'c libcall" where
  "lib_wait E wait_stat = lib_waitpid E (- 1) wait_stat 0"

text \<open>The third argument of \<open>open\<close> is the word behind the flags on the stack, given or not.\<close>

definition lib_open :: "'c senv \<Rightarrow> u32 \<Rightarrow> u32 \<Rightarrow> u32 \<Rightarrow> 'c libcall" where
  "lib_open E filename flag arg r err s =
     bindE (system_call E (r\<lparr>fr_eax := nr_of ''open'', fr_ebx := filename, fr_ecx := flag, fr_edx := arg\<rparr>) s) (\<lambda>(r, s).
       Inr (map_option (\<lambda>r. if 0 \<le> sint (fr_eax r) then (sint (fr_eax r), err) else (- 1, sint (- fr_eax r))) r, s))"

definition lib_exit :: "'c senv \<Rightarrow> u32 \<Rightarrow> sys_regs \<Rightarrow> 'c sysw \<Rightarrow> (sys_regs option \<times> 'c sysw) kres" where
  "lib_exit E exit_code r s = system_call E (r\<lparr>fr_eax := nr_of ''exit'', fr_ebx := exit_code\<rparr>) s"

section \<open>Numbers and table\<close>

text \<open>
  The numbers of \<open>unistd.h\<close> and the order of the table of \<open>sys.h\<close> agree: entry \<open>n\<close> is the routine
  of the call with number \<open>n\<close>, and there are as many as \<open>system_call\<close> admits.
\<close>

theorem numbers_match_table:
  "map fst (sys_call_table E) = map (\<lambda>(name, n). ''sys_'' @ name) syscall_nr \<and>
   map snd syscall_nr = [0..<nr_system_calls] \<and> length (sys_call_table E) = nr_system_calls"
proof -
  have "[0..<72] = [0, 1, 2, 3, 4, 5, 6, 7, 8, 9, 10, 11, 12, 13, 14, 15, 16, 17, 18, 19, 20, 21, 22, 23, 24, 25, 26, 27,
      28, 29, 30, 31, 32, 33, 34, 35, 36, 37, 38, 39, 40, 41, 42, 43, 44, 45, 46, 47, 48, 49, 50, 51, 52, 53, 54, 55, 56,
      57, 58, 59, 60, 61, 62, 63, 64, 65, 66, 67, 68, 69, 70, 71 :: nat]"
    by (simp add: upt_conv_Cons)
  then show ?thesis by (simp add: sys_call_table_def syscall_nr_def Let_def)
qed

section \<open>The result of a call\<close>

text \<open>Nothing keeps the task from going on: it runs, has time left, and no signal is for it now.\<close>

definition goes_on :: "kernw \<Rightarrow> bool" where
  "goes_on k \<longleftrightarrow> t_state (kcurr k) = 0 \<and> t_counter (kcurr k) \<noteq> 0 \<and> NOT (t_blocked (kcurr k)) AND t_signal (kcurr k) = 0"

lemma bsf_zero [simp]: "bsf 0 = None"
  by (simp add: bsf_def find_upt_None del: upt_rec_numeral)

lemma goes_on_returns:
  "goes_on (sy_kern s) \<Longrightarrow> bindE (resched E s) (ret_from_sys_call E r) = Inr (Some r, s)"
  by (simp add: goes_on_def resched_def ret_from_sys_call_def Let_def)

text \<open>
  A library call gives its caller what the routine of the kernel returned: a value that is not
  negative as it is, with \<open>errno\<close> untouched, and a negative one as -1 with its absolute value in \<open>errno\<close>.
\<close>

theorem library_result:
  assumes n: "map_of syscall_nr name = Some n" "n < nr_system_calls"
    and ret: "snd (sys_call_table E ! n) (r\<lparr>fr_eax := word_of_nat n\<rparr>) s = Inr (Ret v, s')"
    and v: "- 2147483648 < v" "v < 2147483648" and go: "goes_on (sy_kern s')"
  shows "syscall0 E name r err s = Inr (Some (if 0 \<le> v then (v, err) else (- 1, - v)), s')"
proof -
  have nr: "nr_of name = word_of_nat n" "unat (word_of_nat n :: u32) = n"
    using n by (simp_all add: nr_of_def unat_small_nat)
  have v': "sint (word_of_int v :: u32) = v" "sint (- word_of_int v :: u32) = - v"
    using v wrap32_id [of v] wrap32_id [of "- v"] by (simp_all add: wrap32_def)
  have "system_call E (r\<lparr>fr_eax := word_of_nat n\<rparr>) s = Inr (Some (r\<lparr>fr_eax := word_of_int v\<rparr>), s')"
    using n(2) nr(2) ret goes_on_returns [OF go] by (simp add: system_call_def)
  then show ?thesis using v' by (simp add: syscall0_def nr(1) syscall_end_def)
qed

text \<open>Closing a descriptor that is not open: -1, and \<open>errno\<close> is \<open>EINVAL\<close>.\<close>

theorem lib_close_not_open:
  assumes "NR_OPEN \<le> unat fd" "goes_on (sy_kern s)"
  shows "lib_close E fd r err s = Inr (Some (- 1, 22), s)"
proof -
  have m: "map_of syscall_nr ''close'' = Some 6" by (simp add: syscall_nr_def)
  have "sys_close (n_b E) (unat fd) w = Inr (- EINVAL, w)" for w using assms(1) by (simp add: sys_close_def)
  then have "snd (sys_call_table E ! 6) ((r\<lparr>fr_ebx := fd\<rparr>)\<lparr>fr_eax := word_of_nat 6\<rparr>) s = Inr (Ret (- 22), s)"
    by (simp add: sys_call_table_def Let_def on_buf_def on_kern_def)
  from library_result [OF m _ this _ _ assms(2)] show ?thesis by (simp add: lib_close_def syscall1_def)
qed

end
