(* ===== verification/Spec2Isabelle.thy ===== *)
theory Spec2Isabelle
  imports Mktime Kstring Malloc Line_Discipline Tty_Ioctl Sem Shm Printk Inode_Sync Exec_Args Floppy Syscall
begin

text \<open>
  \<^bold>\<open>The program.\<close>  The C sources of the kernel under \<open>src/oslab/linux-0.11\<close>: Linux 0.11 with the
  repository's own additions (semaphores, shared memory, a mask on terminal output).  A system call
  enters through \<open>kernel/system_call.s\<close> and the table of \<open>include/linux/sys.h\<close>.  File calls go
  from path names and descriptors (\<open>fs/namei.c\<close>, \<open>fs/open.c\<close>, \<open>fs/read_write.c\<close>) over i-nodes, bit
  maps and super blocks to the buffer cache (\<open>fs/buffer.c\<close>), from there to the request queues
  (\<open>kernel/blk_drv/ll_rw_blk.c\<close>) and to a driver: RAM disk, hard disk or floppy.  Tasks are created,
  scheduled, put to sleep, signalled and ended by \<open>kernel/fork.c\<close>, \<open>sched.c\<close>, \<open>signal.c\<close> and
  \<open>exit.c\<close>, on the pages of \<open>mm/memory.c\<close>; \<open>fs/exec.c\<close> loads a program into a task.  Terminals are
  ring buffers between drivers, the line discipline of \<open>kernel/chr_drv/tty_io.c\<close> and the readers.

  \<^bold>\<open>Conventions.\<close>  One definition per routine, with the routine's name; a loop that is a definition of
  its own has the suffix \<open>_loop\<close>.  A C structure is a record, a pointer to an entry of a kernel
  table (task, i-node, file, buffer, request, super block) the index of the entry, \<open>None\<close> the null
  pointer.  Unsigned numbers and bit fields are words of their width; a signed \<open>int\<close> or \<open>long\<close> is
  an integer whose arithmetic, where it can wrap, goes through \<open>wrap32\<close> or \<open>sint\<close>.  State is
  passed explicitly, in layers: \<open>sched\<close> (task table, timers, coprocessor), \<open>mm\<close> (memory map and page
  tables), \<open>bufw\<close> (cache, tables of the file system, request queues, and the two before), \<open>kernw\<close>
  (with process numbers and descriptor table), \<open>sysw\<close> (with the disk driver), \<open>hdw\<close> and \<open>fdw\<close> (a
  driver and the controller behind its ports), \<open>con\<close>, \<open>ttyw\<close>, \<open>semw\<close>, \<open>shmw\<close>.  A routine that can fail to
  return gives \<open>kres\<close>: \<open>Inl (Panic msg)\<close> for \<open>panic\<close>, \<open>Inl Hang\<close> for a loop that does not end or
  takes more rounds than its bound, \<open>Inl Fault\<close> for an access through a null pointer or outside an
  array, \<open>Inl (Exit n)\<close> where the memory manager ends the task.  The error numbers of the calls are
  ordinary negative results.

  \<^bold>\<open>What is outside.\<close>  What other tasks, interrupts and hardware do while a routine waits is an argument
  of the definitions: \<open>benv\<close> for the cache and the file system (its \<open>e_rw\<close> is the transfer of a
  block, instantiated by \<open>rd_env\<close> with the request queue and the RAM disk; its \<open>e_sync_inodes\<close> by
  \<open>fs_env\<close> with \<open>sync_inodes\<close>), \<open>denv\<close> for the request queues, \<open>ports\<close> for the controllers,
  \<open>senv\<close> for the system calls, and the callbacks of the timers.

  \<^bold>\<open>Theories.\<close>

  \<^item> \<open>Kernel_Prelude\<close>: result type and its sequencing, error numbers, shared lemmas on words and lists;
    \<open>Linked_Lists\<close>: rings and chains through fields of a table; \<open>Segment\<close>: user memory
    (\<open>include/asm/segment.h\<close>).
  \<^item> \<open>Sched\<close>, \<open>Wait_Queue\<close>, \<open>Timers\<close>: \<open>kernel/sched.c\<close>.  \<open>schedule\<close> chooses as it should as long as
    priorities stay below \<open>2^30\<close> (and goes wrong above: \<open>nice_starves\<close>); no sleeper of \<open>sleep_on\<close> is lost, one
    of \<open>interruptible_sleep_on\<close> can be; the timer list refines a list of differences, insertion
    delays later timers, a tick runs the due ones.
  \<^item> \<open>Mktime\<close>: \<open>kernel/mktime.c\<close> and the clock of \<open>init/main.c\<close>, against the calendar; \<open>Kstring\<close>:
    \<open>include/string.h\<close>, the assembler routines against lists; \<open>Vsprintf\<close>, \<open>Printk\<close>, \<open>Ctype\<close>.
  \<^item> \<open>Memory\<close>, \<open>Malloc\<close>: \<open>mm/memory.c\<close> and \<open>lib/malloc.c\<close>.  Page allocator (locale
    \<open>page_allocator\<close>), page-table copy and release, page faults; buckets and their free chains.
  \<^item> \<open>Fs_State\<close>, \<open>Buffer\<close>, \<open>Buffer_Cache\<close>, \<open>Block_Device\<close>: the state of the file system and
    \<open>fs/buffer.c\<close>.  The cache's pointer invariant is established and kept; the locale
    \<open>block_device\<close> states what the cache needs of a driver and derives what a reader sees.
  \<^item> \<open>Ll_rw_blk\<close>, \<open>Ramdisk\<close>, \<open>Hd\<close>, \<open>Floppy\<close>: \<open>kernel/blk_drv\<close>.  The queue is an elevator; the RAM disk
    interprets \<open>block_device\<close> through the real request path; a hard disk read through its
    interrupts; addresses on a diskette.
  \<^item> \<open>Bitmap\<close>, \<open>Inode\<close>, \<open>Super\<close>, \<open>Namei\<close>, \<open>Mount\<close>, \<open>File_Io\<close>, \<open>Open\<close>: the other files of \<open>fs\<close>.
    \<open>File_Content\<close>: reading and writing a file on the RAM disk, down to the bytes of the disk;
    \<open>Inode_Sync\<close>: writing back buffers and i-nodes.
  \<^item> \<open>Sys\<close>, \<open>Process\<close>, \<open>Task_Life\<close>, \<open>Signal\<close>, \<open>Exec\<close>, \<open>Exec_Args\<close>: \<open>kernel/sys.c\<close>, \<open>fork.c\<close>, \<open>exit.c\<close>,
    \<open>signal.c\<close>, \<open>fs/exec.c\<close>.  Fresh process numbers, the child of a fork, delivery of signals,
    reaping, the frame of a handler, the arguments of a program.
  \<^item> \<open>Syscall\<close>: \<open>include/unistd.h\<close>, \<open>include/linux/sys.h\<close>, \<open>kernel/system_call.s\<close> and the stubs of
    \<open>lib\<close>.  The table holds the routines of the theories above; numbers and table agree; a result
    reaches the caller of the library as value or as \<open>errno\<close>.
  \<^item> \<open>Tty_Queue\<close>, \<open>Console\<close>, \<open>Tty\<close>, \<open>Line_Discipline\<close>, \<open>Tty_Ioctl\<close>: \<open>kernel/chr_drv\<close> and
    \<open>include/linux/tty.h\<close>.  The ring interprets the queue contract \<open>fifo\<close>; the console never stores
    outside video memory; the discipline (locale \<open>line_driver\<close>, interpreted for serial lines and
    the console) refines a function on lists.
  \<^item> \<open>Sem\<close>, \<open>Shm\<close>: the repository's \<open>kernel/sem.c\<close> and \<open>mm/shm.c\<close>, whose faults are stated as theorems.

  \<^bold>\<open>Bounds.\<close>  Loops over a table or a count have that number of rounds: 64 tasks, 65 process numbers
  (one of them is free), \<open>NR_BUFFERS\<close> steps round the ring, \<open>NR_REQUEST\<close> steps in a queue and one more to
  see its end, one round per byte of a file transfer, 1024 for the line discipline, the rounds the
  drivers count themselves.  Loops that wait for others are bounded by \<open>e_fuel\<close>; the theorems
  hold for every positive value, as nobody waits in them.  \<open>fs_env\<close> is the recursion of
  \<open>sync_inodes\<close> through the cache, to any depth.  The loops of \<open>schedule\<close> and of the timers are
  partial functions that are proved to return.

  \<^bold>\<open>Not modelled.\<close>  \<open>sched_init\<close>, \<open>show_task\<close>, \<open>kernel/traps.c\<close> and the sequence of calls in
  \<open>init/main.c\<close> (descriptor tables, register dumps and set-up of the machine, with no state the rest
  of the model has), the boot code and the other assembler entry points, \<open>tools/build.c\<close>, the user
  test programs, and the Java samples of the repository, which are separate programs.  Sound of
  the speaker, the answer of devices and the contents of processor tables are in the model
  only as bytes written to ports.
\<close>

end
